(* ===== verification/Ep_Prelude.thy ===== *)
theory Ep_Prelude
  imports Main "HOL-Library.AList" "HOL-Library.Char_ord" "HOL-Library.List_Lexorder"
    "HOL-Library.Sublist"
begin

section \<open>Shared vocabulary of the EMILIA development\<close>

text \<open>
  What every component uses: the outcome of a handler, JavaScript's insertion-ordered Map as an
  association list, character classes and the fixed-shape regular expressions of the sources,
  joined keys, decimal text, and the safe-integer range of JavaScript numbers.
  JavaScript strings are modelled as \<^typ>\<open>string\<close>: one \<^typ>\<open>char\<close> per code unit. Every string
  that reaches a key, a digest or a comparison in the modelled components has first passed a
  regular expression whose alphabet is ASCII, or is built by the code from such strings; where a
  component works on arbitrary code units it has its own type.
\<close>

named_theorems ep_defs \<open>definitions of operations that invariant proofs unfold\<close>
named_theorems ep_frame \<open>what an operation leaves unchanged\<close>
named_theorems ep_inv \<open>preservation of component invariants\<close>

subsection \<open>Outcomes\<close>

text \<open>
  A handler either throws (with the error's \<open>code\<close>), returns a refusal \<open>{ ok: false, reason }\<close>,
  or returns its success value.
\<close>

datatype ('r, 'a) outcome = Throw string | Refuse 'r | Ok 'a

fun is_ok :: "('r, 'a) outcome \<Rightarrow> bool" where
  "is_ok (Ok _) = True"
| "is_ok _ = False"

text \<open>A validator is a list of named checks, run in order; the first that fails is thrown.\<close>

type_synonym check = "bool \<times> string"

fun run_checks :: "check list \<Rightarrow> string option" where
  "run_checks [] = None"
| "run_checks ((passed, code) # cs) = (if passed then run_checks cs else Some code)"

lemma run_checks_None [simp]: "run_checks cs = None \<longleftrightarrow> (\<forall>c \<in> set cs. fst c)"
  by (induction cs rule: run_checks.induct) auto

lemma run_checks_append:
  "run_checks (cs @ ds) = (case run_checks cs of None \<Rightarrow> run_checks ds | Some e \<Rightarrow> Some e)"
  by (induction cs rule: run_checks.induct) auto

lemma run_checks_Some_mem:
  "run_checks cs = Some e \<Longrightarrow> (False, e) \<in> set cs"
  by (induction cs rule: run_checks.induct) (auto split: if_splits)

declare run_checks.simps [simp del]

subsection \<open>Insertion-ordered maps\<close>

text \<open>
  \<open>Map.set\<close> keeps the position of a key that is present and appends a new one, which is
  \<^const>\<open>AList.update\<close>; \<open>Map.get\<close> is \<^const>\<open>map_of\<close>; \<open>Map.delete\<close> is \<^const>\<open>AList.delete\<close>.
\<close>

type_synonym ('k, 'v) js_map = "('k \<times> 'v) list"

abbreviation map_get :: "('k, 'v) js_map \<Rightarrow> 'k \<Rightarrow> 'v option" where
  "map_get m k \<equiv> map_of m k"

abbreviation map_set :: "'k \<Rightarrow> 'v \<Rightarrow> ('k, 'v) js_map \<Rightarrow> ('k, 'v) js_map" where
  "map_set k v m \<equiv> AList.update k v m"

abbreviation map_del :: "'k \<Rightarrow> ('k, 'v) js_map \<Rightarrow> ('k, 'v) js_map" where
  "map_del k m \<equiv> AList.delete k m"

definition map_has :: "('k, 'v) js_map \<Rightarrow> 'k \<Rightarrow> bool" where
  "map_has m k \<longleftrightarrow> map_of m k \<noteq> None"

definition map_values :: "('k, 'v) js_map \<Rightarrow> 'v list" where
  "map_values m = map snd m"

abbreviation map_ok :: "('k, 'v) js_map \<Rightarrow> bool" where
  "map_ok m \<equiv> distinct (map fst m)"

lemma map_get_set [simp]: "map_of (AList.update k v m) k' = (if k' = k then Some v else map_of m k')"
  by (simp add: update_conv')

lemma map_ok_set [simp]: "map_ok m \<Longrightarrow> map_ok (AList.update k v m)"
  by (rule distinct_update)

lemma map_set_new: "map_of m k = None \<Longrightarrow> AList.update k v m = m @ [(k, v)]"
  by (induction m) (auto split: if_splits)

lemma map_values_set_new: "map_of m k = None \<Longrightarrow> map_values (map_set k v m) = map_values m @ [v]"
  by (simp add: map_values_def map_set_new)

lemma map_values_mem:
  "map_ok m \<Longrightarrow> v \<in> set (map_values m) \<longleftrightarrow> (\<exists>k. map_of m k = Some v)"
  by (force simp: map_values_def image_iff dest: map_of_SomeD)

lemma map_set_split:
  assumes "map_of m k = Some v"
  obtains m1 m2 where "m = m1 @ (k, v) # m2" "k \<notin> fst ` set m1"
    "\<And>w. AList.update k w m = m1 @ (k, w) # m2"
proof -
  have "\<exists>m1 m2. m = m1 @ (k, v) # m2 \<and> k \<notin> fst ` set m1
      \<and> (\<forall>w. AList.update k w m = m1 @ (k, w) # m2)"
    using assms
  proof (induction m)
    case (Cons p m)
    obtain k' v' where p: "p = (k', v')" by fastforce
    show ?case
    proof (cases "k' = k")
      case True
      with Cons.prems p have "v' = v" by simp
      with True p show ?thesis by (intro exI[of _ "[]"] exI[of _ m]) simp
    next
      case False
      with Cons.prems p have "map_of m k = Some v" by simp
      from Cons.IH[OF this] obtain m1 m2
        where "m = m1 @ (k, v) # m2" "k \<notin> fst ` set m1"
          "\<forall>w. AList.update k w m = m1 @ (k, w) # m2" by blast
      with False p show ?thesis
        by (intro exI[of _ "p # m1"] exI[of _ m2]) auto
    qed
  qed simp
  then show thesis using that by blast
qed

subsection \<open>Sums over filtered values\<close>

text \<open>\<open>xs.filter(p).reduce((sum, x) => sum + f(x), 0)\<close>.\<close>

definition sum_where :: "('a \<Rightarrow> bool) \<Rightarrow> ('a \<Rightarrow> int) \<Rightarrow> 'a list \<Rightarrow> int" where
  "sum_where p f xs = sum_list (map f (filter p xs))"

lemma sum_where_simps [simp]:
  "sum_where p f [] = 0"
  "sum_where p f (x # xs) = (if p x then f x else 0) + sum_where p f xs"
  "sum_where p f (xs @ ys) = sum_where p f xs + sum_where p f ys"
  by (simp_all add: sum_where_def)

lemma sum_where_nonneg: "(\<And>x. x \<in> set xs \<Longrightarrow> p x \<Longrightarrow> 0 \<le> f x) \<Longrightarrow> 0 \<le> sum_where p f xs"
  by (induction xs) auto

lemma sum_where_mono:
  assumes "\<And>x. x \<in> set xs \<Longrightarrow> p x \<Longrightarrow> q x" "\<And>x. x \<in> set xs \<Longrightarrow> q x \<Longrightarrow> 0 \<le> f x"
  shows "sum_where p f xs \<le> sum_where q f xs"
  using assms by (induction xs) fastforce+

lemma sum_where_cong:
  "(\<And>x. x \<in> set xs \<Longrightarrow> p x = q x) \<Longrightarrow> (\<And>x. x \<in> set xs \<Longrightarrow> q x \<Longrightarrow> f x = g x) \<Longrightarrow>
   sum_where p f xs = sum_where q g xs"
  by (induction xs) auto

lemma sum_where_map_set:
  assumes "map_of m k = Some v"
  shows "sum_where p f (map_values (map_set k w m)) =
    sum_where p f (map_values m) - (if p v then f v else 0) + (if p w then f w else 0)"
  using assms by (elim map_set_split[where k = k]) (simp add: map_values_def)

subsection \<open>Characters and fixed-shape regular expressions\<close>

definition between :: "char \<Rightarrow> char \<Rightarrow> char \<Rightarrow> bool" where
  "between lo hi c \<longleftrightarrow> (of_char lo :: nat) \<le> of_char c \<and> (of_char c :: nat) \<le> of_char hi"

definition is_upper :: "char \<Rightarrow> bool" where "is_upper = between CHR ''A'' CHR ''Z''"
definition is_lower :: "char \<Rightarrow> bool" where "is_lower = between CHR ''a'' CHR ''z''"
definition is_digit :: "char \<Rightarrow> bool" where "is_digit = between CHR ''0'' CHR ''9''"
definition is_alnum :: "char \<Rightarrow> bool" where "is_alnum c \<longleftrightarrow> is_upper c \<or> is_lower c \<or> is_digit c"
definition is_lhex :: "char \<Rightarrow> bool" where
  "is_lhex c \<longleftrightarrow> is_digit c \<or> between CHR ''a'' CHR ''f'' c"
definition is_b64u :: "char \<Rightarrow> bool" where
  "is_b64u c \<longleftrightarrow> is_alnum c \<or> c = CHR ''_'' \<or> c = CHR ''-''"

lemmas char_class_defs = between_def is_upper_def is_lower_def is_digit_def is_alnum_def
  is_lhex_def is_b64u_def

text \<open>A literal prefix and the rest after it.\<close>

fun strip_prefix :: "string \<Rightarrow> string \<Rightarrow> string option" where
  "strip_prefix [] s = Some s"
| "strip_prefix (p # ps) [] = None"
| "strip_prefix (p # ps) (c # cs) = (if p = c then strip_prefix ps cs else None)"

lemma strip_prefix_Some: "strip_prefix p s = Some r \<longleftrightarrow> s = p @ r"
  by (induction p s rule: strip_prefix.induct) auto

fun split_on :: "char \<Rightarrow> string \<Rightarrow> string list" where
  "split_on d [] = [[]]"
| "split_on d (c # cs) =
     (if c = d then [] # split_on d cs
      else (case split_on d cs of [] \<Rightarrow> [[c]] | w # ws \<Rightarrow> (c # w) # ws))"

text \<open>\<open>/^[A-Za-z0-9][A-Za-z0-9:_.@/-]{0,511}$/\<close>\<close>

definition ident_char :: "char \<Rightarrow> bool" where
  "ident_char c \<longleftrightarrow> is_alnum c \<or> c \<in> set '':_.@/-''"

definition identifier_re :: "string \<Rightarrow> bool" where
  "identifier_re s \<longleftrightarrow> (case s of [] \<Rightarrow> False
     | c # cs \<Rightarrow> is_alnum c \<and> length cs \<le> 511 \<and> list_all ident_char cs)"

text \<open>\<open>/^sha256:[0-9a-f]{64}$/\<close>\<close>

definition sha256_re :: "string \<Rightarrow> bool" where
  "sha256_re s \<longleftrightarrow> (case strip_prefix ''sha256:'' s of None \<Rightarrow> False
     | Some h \<Rightarrow> length h = 64 \<and> list_all is_lhex h)"

text \<open>\<open>/^<prefix>[A-Za-z0-9_-]{lo,hi}$/\<close>\<close>

definition token_re :: "string \<Rightarrow> nat \<Rightarrow> nat \<Rightarrow> string \<Rightarrow> bool" where
  "token_re pre lo hi s \<longleftrightarrow> (case strip_prefix pre s of None \<Rightarrow> False
     | Some b \<Rightarrow> lo \<le> length b \<and> length b \<le> hi \<and> list_all is_b64u b)"

text \<open>\<open>[a-z][a-z0-9-]*\<close> and \<open>[1-9][0-9]*\<close>, and with them the CAID pattern
  \<open>/^canactid:1:S(?:\.S)*\.[1-9][0-9]*:jcs-sha256:[A-Za-z0-9_-]{43}$/\<close>. No segment holds a dot
  or a colon, so the match is determined by splitting.\<close>

definition caid_segment :: "string \<Rightarrow> bool" where
  "caid_segment s \<longleftrightarrow> (case s of [] \<Rightarrow> False
     | c # cs \<Rightarrow> is_lower c \<and> list_all (\<lambda>d. is_lower d \<or> is_digit d \<or> d = CHR ''-'') cs)"

definition caid_version :: "string \<Rightarrow> bool" where
  "caid_version s \<longleftrightarrow> (case s of [] \<Rightarrow> False
     | c # cs \<Rightarrow> between CHR ''1'' CHR ''9'' c \<and> list_all is_digit cs)"

definition caid_re :: "string \<Rightarrow> bool" where
  "caid_re s \<longleftrightarrow> (case split_on CHR '':'' s of
       [a, b, t, alg, dig] \<Rightarrow>
         a = ''canactid'' \<and> b = ''1'' \<and> alg = ''jcs-sha256'' \<and>
         length dig = 43 \<and> list_all is_b64u dig \<and>
         (let segs = split_on CHR ''.'' t in
          2 \<le> length segs \<and> list_all caid_segment (butlast segs) \<and> caid_version (last segs))
     | _ \<Rightarrow> False)"

lemma alnum_not_nul [simp]: "\<not> is_alnum CHR 0x00" and ident_char_not_nul [simp]: "\<not> ident_char CHR 0x00"
  by (simp_all add: ident_char_def char_class_defs)

lemma identifier_re_not_nul:
  assumes "identifier_re s" shows "CHR 0x00 \<notin> set s"
proof (cases s)
  case (Cons c cs)
  with assms have "is_alnum c" "list_all ident_char cs" by (simp_all add: identifier_re_def)
  with Cons show ?thesis by (auto simp: list_all_iff)
qed simp

lemma lhex_not_nul [simp]: "\<not> is_lhex CHR 0x00" and b64u_not_nul [simp]: "\<not> is_b64u CHR 0x00"
  and upper_not_nul [simp]: "\<not> is_upper CHR 0x00"
  by (simp_all add: char_class_defs)

lemma sha256_re_not_nul:
  assumes "sha256_re s" shows "CHR 0x00 \<notin> set s"
proof -
  from assms obtain h where "s = ''sha256:'' @ h" "list_all is_lhex h"
    by (auto simp: sha256_re_def strip_prefix_Some simp del: append.simps split: option.splits)
  then show ?thesis by (auto simp: list_all_iff)
qed

subsection \<open>Joined keys\<close>

text \<open>\<open>parts.join('\u0000')\<close>: the separator does not occur in a part, so a key determines its parts.\<close>

fun join_with :: "string \<Rightarrow> string list \<Rightarrow> string" where
  "join_with sep [] = []"
| "join_with sep [x] = x"
| "join_with sep (x # y # ys) = x @ sep @ join_with sep (y # ys)"

lemma join_nul_Cons_eq:
  assumes "CHR 0x00 \<notin> set x" "CHR 0x00 \<notin> set x'"
  shows "x @ CHR 0x00 # r = x' @ CHR 0x00 # r' \<longleftrightarrow> x = x' \<and> r = r'"
  using assms
proof (induction x arbitrary: x')
  case Nil
  then show ?case by (cases x') auto
next
  case (Cons a x)
  then show ?case by (cases x') auto
qed

lemma join_nul_inj:
  assumes "length xs = length ys"
    and "\<forall>x \<in> set xs. CHR 0x00 \<notin> set x" and "\<forall>y \<in> set ys. CHR 0x00 \<notin> set y"
  shows "join_with [CHR 0x00] xs = join_with [CHR 0x00] ys \<longleftrightarrow> xs = ys"
  using assms
proof (induction xs ys rule: list_induct2)
  case (Cons x xs y ys)
  then show ?case
    by (cases xs; cases ys) (auto simp: join_nul_Cons_eq)
qed simp

subsection \<open>Numbers\<close>

text \<open>
  A JavaScript number is an integral value, a finite fraction (with its decimal text), or not
  finite. Only integral values take part in the modelled arithmetic; the other two are refused by
  the checks that meet them.
\<close>

datatype js_number = Integral int | Fractional string | NonFinite

definition max_safe :: int where "max_safe = 9007199254740991"

definition safe_int :: "int \<Rightarrow> bool" where
  "safe_int i \<longleftrightarrow> - max_safe \<le> i \<and> i \<le> max_safe"

fun is_safe_integer :: "js_number \<Rightarrow> bool" where
  "is_safe_integer (Integral i) = safe_int i"
| "is_safe_integer _ = False"

fun num_val :: "js_number \<Rightarrow> int" where
  "num_val (Integral i) = i"
| "num_val _ = 0"

definition max_int64 :: int where "max_int64 = 9223372036854775807"

definition digit_char :: "nat \<Rightarrow> char" where
  "digit_char d = char_of (48 + d)"

fun dec_nat :: "nat \<Rightarrow> string" where
  "dec_nat n = (if n < 10 then [digit_char n] else dec_nat (n div 10) @ [digit_char (n mod 10)])"

declare dec_nat.simps [simp del]

definition dec_int :: "int \<Rightarrow> string" where
  "dec_int i = (if i < 0 then CHR ''-'' # dec_nat (nat (- i)) else dec_nat (nat i))"

definition digit_val :: "char \<Rightarrow> nat" where
  "digit_val c = of_char c - 48"

definition dec_value :: "string \<Rightarrow> nat" where
  "dec_value s = foldl (\<lambda>n c. 10 * n + digit_val c) 0 s"

lemma digit_val_char [simp]: "d < 10 \<Longrightarrow> digit_val (digit_char d) = d"
  by (simp add: digit_val_def digit_char_def)

lemma dec_value_nat [simp]: "dec_value (dec_nat n) = n"
proof (induction n rule: dec_nat.induct)
  case (1 n)
  show ?case
  proof (cases "n < 10")
    case True
    then show ?thesis by (simp add: dec_nat.simps[of n] dec_value_def)
  next
    case False
    with 1 have "dec_value (dec_nat (n div 10)) = n div 10" by simp
    with False show ?thesis by (simp add: dec_nat.simps[of n] dec_value_def)
  qed
qed

lemma is_digit_digit_char [simp]: "d < 10 \<Longrightarrow> is_digit (digit_char d)"
  by (simp add: is_digit_def between_def digit_char_def)

lemma dec_nat_digits: "c \<in> set (dec_nat n) \<Longrightarrow> is_digit c"
proof (induction n rule: dec_nat.induct)
  case (1 n)
  then show ?case by (cases "n < 10") (auto simp: dec_nat.simps[of n])
qed

lemma dec_nat_nonempty [simp]: "dec_nat n \<noteq> []"
  by (subst dec_nat.simps) simp

lemma dec_nat_inj [simp]: "dec_nat m = dec_nat n \<longleftrightarrow> m = n"
  by (metis dec_value_nat)

lemma dec_int_inj: "dec_int i = dec_int j \<longleftrightarrow> i = j"
proof -
  have neg: "dec_nat a \<noteq> CHR ''-'' # s" for a s
    using dec_nat_digits[of "CHR ''-''" a] by (auto simp: char_class_defs)
  show ?thesis
    using neg neg[symmetric] by (auto simp: dec_int_def)
qed

subsection \<open>Invariants of a store\<close>

text \<open>
  A component is a step relation on its store. Whatever every step keeps holds after every run; each
  store interprets this contract with its own steps and invariants.
\<close>

locale store_invariant =
  fixes step :: "'s \<Rightarrow> 's \<Rightarrow> bool"
    and inv :: "'s \<Rightarrow> bool"
  assumes step_keeps: "step s s' \<Longrightarrow> inv s \<Longrightarrow> inv s'"
begin

lemma run_keeps: "step\<^sup>*\<^sup>* s s' \<Longrightarrow> inv s \<Longrightarrow> inv s'"
  by (induction rule: rtranclp_induct) (auto intro: step_keeps)

end

end
