(* ===== verification/Js_Time.thy ===== *)
theory Js_Time
  imports Ep_Prelude "HOL-Library.Monad_Syntax"
begin

section \<open>Instants: what the sources use of \<open>Date\<close>\<close>

text \<open>
  \<open>Date.parse\<close> and \<open>Date.prototype.toISOString\<close> of ECMAScript on the date-time forms the sources
  accept, over the proleptic Gregorian calendar of the specification (\<open>DayFromYear\<close>, \<open>MakeDay\<close>,
  \<open>YearFromTime\<close>). Time values are milliseconds since the epoch, unbounded integers cut at the
  specification's range of 8.64e15. Every client re-prints or re-checks what it parsed, so forms of
  \<open>Date.parse\<close> that never survive that check (date-only text, \<open>24:00:00\<close>, day 31 of a short month)
  are already refused here. The component shows that parsing inverts printing.
\<close>

subsection \<open>Calendar\<close>

definition day_from_year :: "int \<Rightarrow> int" where
  "day_from_year y = 365 * (y - 1970) + (y - 1969) div 4 - (y - 1901) div 100 + (y - 1601) div 400"

definition leap_year :: "int \<Rightarrow> bool" where
  "leap_year y \<longleftrightarrow> y mod 4 = 0 \<and> (y mod 100 \<noteq> 0 \<or> y mod 400 = 0)"

definition days_before_month :: "bool \<Rightarrow> int \<Rightarrow> int" where
  "days_before_month l m = (let f = (if l then 1 else 0) in
     if m \<le> 1 then 0 else if m = 2 then 31 else if m = 3 then 59 + f else if m = 4 then 90 + f
     else if m = 5 then 120 + f else if m = 6 then 151 + f else if m = 7 then 181 + f
     else if m = 8 then 212 + f else if m = 9 then 243 + f else if m = 10 then 273 + f
     else if m = 11 then 304 + f else if m = 12 then 334 + f else 365 + f)"

definition days_in_month :: "bool \<Rightarrow> int \<Rightarrow> int" where
  "days_in_month l m = days_before_month l (m + 1) - days_before_month l m"

definition make_day :: "int \<Rightarrow> int \<Rightarrow> int \<Rightarrow> int" where
  "make_day y m d = day_from_year y + days_before_month (leap_year y) m + d - 1"

text \<open>\<open>YearFromTime\<close>: the year whose first day is the last one not after the day.\<close>

definition year_from_day :: "int \<Rightarrow> int" where
  "year_from_day d = (let y = (400 * d) div 146097 + 1970 in
     if day_from_year (y + 1) \<le> d then y + 1 else if d < day_from_year y then y - 1 else y)"

definition month_from_day :: "bool \<Rightarrow> int \<Rightarrow> int" where
  "month_from_day l n =
     (if n < days_before_month l 2 then 1 else if n < days_before_month l 3 then 2
      else if n < days_before_month l 4 then 3 else if n < days_before_month l 5 then 4
      else if n < days_before_month l 6 then 5 else if n < days_before_month l 7 then 6
      else if n < days_before_month l 8 then 7 else if n < days_before_month l 9 then 8
      else if n < days_before_month l 10 then 9 else if n < days_before_month l 11 then 10
      else if n < days_before_month l 12 then 11 else 12)"

subsection \<open>Text\<close>

definition max_time :: int where "max_time = 8640000000000000"

fun digits_n :: "nat \<Rightarrow> nat \<Rightarrow> string" where
  "digits_n 0 n = []"
| "digits_n (Suc k) n = digits_n k (n div 10) @ [digit_char (n mod 10)]"

definition year_text :: "int \<Rightarrow> string" where
  "year_text y = (if 0 \<le> y \<and> y \<le> 9999 then digits_n 4 (nat y)
     else if y < 0 then CHR ''-'' # digits_n 6 (nat (- y)) else CHR ''+'' # digits_n 6 (nat y))"

definition to_iso_string :: "int \<Rightarrow> string" where
  "to_iso_string t = (let
       day = t div 86400000; ms = t mod 86400000;
       y = year_from_day day; n = day - day_from_year y; l = leap_year y;
       m = month_from_day l n; d = n - days_before_month l m + 1
     in year_text y @ ''-'' @ digits_n 2 (nat m) @ ''-'' @ digits_n 2 (nat d) @ ''T'' @
        digits_n 2 (nat (ms div 3600000)) @ '':'' @ digits_n 2 (nat (ms div 60000 mod 60)) @ '':'' @
        digits_n 2 (nat (ms div 1000 mod 60)) @ ''.'' @ digits_n 3 (nat (ms mod 1000)) @ ''Z'')"

type_synonym 'a reader = "string \<Rightarrow> ('a \<times> string) option"

definition read_digits :: "nat \<Rightarrow> int reader" where
  "read_digits k s = (let h = take k s in
     if length h = k \<and> list_all is_digit h then Some (int (dec_value h), drop k s) else None)"

definition read_char :: "char \<Rightarrow> unit reader" where
  "read_char c s = (case s of x # xs \<Rightarrow> if x = c then Some ((), xs) else None | [] \<Rightarrow> None)"

definition read_year :: "int reader" where
  "read_year s = (case s of [] \<Rightarrow> None
     | c # cs \<Rightarrow>
        if c = CHR ''+'' then read_digits 6 cs
        else if c = CHR ''-'' then do { (y, r) \<leftarrow> read_digits 6 cs; if y = 0 then None else Some (- y, r) }
        else read_digits 4 s)"

text \<open>\<open>(?:\.\d{1,9})?\<close>: milliseconds, the digits beyond the third dropped.\<close>

definition read_fraction :: "int reader" where
  "read_fraction s = (case s of c # cs \<Rightarrow>
       if c = CHR ''.'' then (let ds = takeWhile is_digit cs in
         if 1 \<le> length ds \<and> length ds \<le> 9
         then Some (int (dec_value (take 3 (ds @ ''00''))), drop (length ds) cs) else None)
       else Some (0, s)
     | [] \<Rightarrow> Some (0, s))"

text \<open>\<open>Z\<close> or \<open>[+-]HH:MM\<close>: the offset in minutes.\<close>

definition read_zone :: "int reader" where
  "read_zone s = (case s of [] \<Rightarrow> None
     | c # cs \<Rightarrow>
        if c = CHR ''Z'' then Some (0, cs)
        else if c = CHR ''+'' \<or> c = CHR ''-'' then do {
          (h, r1) \<leftarrow> read_digits 2 cs; (_, r2) \<leftarrow> read_char CHR '':'' r1; (m, r3) \<leftarrow> read_digits 2 r2;
          if h \<le> 23 \<and> m \<le> 59 then Some ((if c = CHR ''-'' then - (60 * h + m) else 60 * h + m), r3)
          else None }
        else None)"

definition date_parse :: "string \<Rightarrow> int option" where
  "date_parse s = do {
     (y, r1) \<leftarrow> read_year s; (_, r2) \<leftarrow> read_char CHR ''-'' r1;
     (m, r3) \<leftarrow> read_digits 2 r2; (_, r4) \<leftarrow> read_char CHR ''-'' r3;
     (d, r5) \<leftarrow> read_digits 2 r4; (_, r6) \<leftarrow> read_char CHR ''T'' r5;
     (h, r7) \<leftarrow> read_digits 2 r6; (_, r8) \<leftarrow> read_char CHR '':'' r7;
     (mi, r9) \<leftarrow> read_digits 2 r8; (_, r10) \<leftarrow> read_char CHR '':'' r9;
     (sec, r11) \<leftarrow> read_digits 2 r10;
     (ms, r12) \<leftarrow> read_fraction r11; (z, r13) \<leftarrow> read_zone r12;
     if r13 = [] \<and> 1 \<le> m \<and> m \<le> 12 \<and> 1 \<le> d \<and> d \<le> days_in_month (leap_year y) m
        \<and> h \<le> 23 \<and> mi \<le> 59 \<and> sec \<le> 59
     then (let t = make_day y m d * 86400000 + h * 3600000 + mi * 60000 + sec * 1000 + ms - z * 60000
           in if - max_time \<le> t \<and> t \<le> max_time then Some t else None)
     else None }"

text \<open>The canonical form check: \<open>new Date(parsed).toISOString() !== value\<close> is refused.\<close>

definition iso_instant :: "string \<Rightarrow> int option" where
  "iso_instant s = (case date_parse s of None \<Rightarrow> None
     | Some t \<Rightarrow> if to_iso_string t \<noteq> s then None else Some t)"

text \<open>
  The RFC 3339 check shared by several sources: the pattern with a four-digit year, the calendar
  check and the offset check, then \<open>Date.parse\<close>.
\<close>

definition rfc3339_instant :: "string \<Rightarrow> int option" where
  "rfc3339_instant s = (case s of [] \<Rightarrow> None
     | c # cs \<Rightarrow> if is_digit c then date_parse s else None)"

subsection \<open>The calendar is inverted\<close>

lemma div_step:
  fixes a k :: int
  assumes "0 < k"
  shows "(a + 1) div k = a div k + (if (a + 1) mod k = 0 then 1 else 0)"
proof (cases "(a + 1) mod k = 0")
  case True
  then obtain c where c: "a + 1 = k * c" by (auto elim: dvdE simp: mod_eq_0_iff_dvd)
  then have "a = (k - 1) + (c - 1) * k" by (simp add: algebra_simps)
  then have "a div k = c - 1" using assms by simp
  with True c assms show ?thesis by simp
next
  case False
  define m q where "m = a mod k" and "q = a div k"
  have a: "a = k * q + m" by (simp add: m_def q_def)
  have m: "0 \<le> m" "m < k" using assms by (simp_all add: m_def)
  have "m + 1 \<noteq> k"
  proof
    assume "m + 1 = k"
    with a have "a + 1 = k * (q + 1)" by (simp add: algebra_simps)
    with False show False by simp
  qed
  with m have m1: "0 \<le> m + 1" "m + 1 < k" by simp_all
  have "a + 1 = (m + 1) + k * q" using a by simp
  then have "(a + 1) div k = ((m + 1) + k * q) div k" by (rule arg_cong)
  also have "\<dots> = q" using assms m1 by (simp add: div_pos_pos_trivial)
  finally show ?thesis using False by (simp add: q_def)
qed

lemma leap_step: "day_from_year (y + 1) = day_from_year y + (if leap_year y then 366 else 365)"
proof -
  have shift: "(y - c * k) mod k = y mod k" for c k :: int
    using mod_mult_self1[of y "- c" k] by simp
  have step: "(y + 1 - b) div k = (y - b) div k + (if y mod k = 0 then 1 else 0)"
    if "0 < k" "y + 1 - b = y - c * k" for b c k :: int
    using div_step[OF that(1), of "y - b"] shift[of c k] that(2) by (simp only: diff_add_eq)
  have 4: "(y + 1 - 1969) div 4 = (y - 1969) div 4 + (if y mod 4 = 0 then 1 else 0)"
    by (rule step[where c = 492]) simp_all
  have 100: "(y + 1 - 1901) div 100 = (y - 1901) div 100 + (if y mod 100 = 0 then 1 else 0)"
    by (rule step[where c = 19]) simp_all
  have 400: "(y + 1 - 1601) div 400 = (y - 1601) div 400 + (if y mod 400 = 0 then 1 else 0)"
    by (rule step[where c = 4]) simp_all
  define p4 p100 p400 where "p4 \<longleftrightarrow> y mod 4 = 0" and "p100 \<longleftrightarrow> y mod 100 = 0"
    and "p400 \<longleftrightarrow> y mod 400 = 0"
  have imp: "p400 \<Longrightarrow> p100" "p100 \<Longrightarrow> p4"
    using mod_mod_cancel[of 100 400 y] mod_mod_cancel[of 4 100 y]
    by (simp_all add: p4_def p100_def p400_def)
  have "365 * (y + 1 - 1970) = 365 * (y - 1970) + 365" by simp
  then show ?thesis
    unfolding day_from_year_def 4 100 400 leap_year_def p4_def[symmetric] p100_def[symmetric]
      p400_def[symmetric]
    using imp by (cases p4; cases p100; cases p400) simp_all
qed

lemma div_mod_bounds:
  fixes a k :: int
  assumes "0 < k"
  shows "k * (a div k) \<le> a" "a < k * (a div k) + k"
proof -
  have "a = k * (a div k) + a mod k" "0 \<le> a mod k" "a mod k < k" using assms by simp_all
  then show "k * (a div k) \<le> a" "a < k * (a div k) + k" by linarith+
qed

lemma day_from_year_estimate:
  "146097 * (y - 1970) - 600 \<le> 400 * day_from_year y"
  "400 * day_from_year y \<le> 146097 * (y - 1970) + 700"
proof -
  note b = div_mod_bounds[of 4 "y - 1969"] div_mod_bounds[of 100 "y - 1901"]
    div_mod_bounds[of 400 "y - 1601"]
  from b show "146097 * (y - 1970) - 600 \<le> 400 * day_from_year y"
    unfolding day_from_year_def by simp
  from b show "400 * day_from_year y \<le> 146097 * (y - 1970) + 700"
    unfolding day_from_year_def by simp
qed

lemma year_from_day_bounds:
  "day_from_year (year_from_day d) \<le> d \<and> d < day_from_year (year_from_day d + 1)"
proof -
  define y where "y = (400 * d) div 146097 + 1970"
  have y: "146097 * (y - 1970) \<le> 400 * d" "400 * d < 146097 * (y - 1970) + 146097"
    using div_mod_bounds[of 146097 "400 * d"] unfolding y_def by simp_all
  have lo: "day_from_year (y - 1) \<le> d"
    using y day_from_year_estimate[of "y - 1"] by simp
  have hi: "d < day_from_year (y + 2)"
    using y day_from_year_estimate[of "y + 2"] by simp
  show ?thesis
    using lo hi unfolding year_from_day_def Let_def y_def[symmetric]
    by (auto simp: add.commute)
qed

lemma year_length: "0 \<le> d - day_from_year (year_from_day d)"
  "d - day_from_year (year_from_day d) < (if leap_year (year_from_day d) then 366 else 365)"
  using year_from_day_bounds[of d] leap_step[of "year_from_day d"] by auto

lemma days_before_month_values:
  "days_before_month l 1 = 0" "days_before_month l 2 = 31"
  "days_before_month l 3 = (if l then 60 else 59)" "days_before_month l 4 = (if l then 91 else 90)"
  "days_before_month l 5 = (if l then 121 else 120)" "days_before_month l 6 = (if l then 152 else 151)"
  "days_before_month l 7 = (if l then 182 else 181)" "days_before_month l 8 = (if l then 213 else 212)"
  "days_before_month l 9 = (if l then 244 else 243)" "days_before_month l 10 = (if l then 274 else 273)"
  "days_before_month l 11 = (if l then 305 else 304)" "days_before_month l 12 = (if l then 335 else 334)"
  "days_before_month l 13 = (if l then 366 else 365)"
  by (simp_all add: days_before_month_def)

lemma month_from_day_bounds:
  assumes "0 \<le> n" "n < (if l then 366 else 365)"
  shows "1 \<le> month_from_day l n" "month_from_day l n \<le> 12"
    "0 \<le> n - days_before_month l (month_from_day l n)"
    "n - days_before_month l (month_from_day l n) < days_in_month l (month_from_day l n)"
  using assms
  by (cases l; simp add: month_from_day_def days_in_month_def days_before_month_values)+

lemma days_in_month_le: "days_in_month l m \<le> 31"
  by (auto simp: days_in_month_def days_before_month_def Let_def)

subsection \<open>Reading inverts printing\<close>

lemma length_digits_n [simp]: "length (digits_n k n) = k"
  by (induction k arbitrary: n) auto

lemma digits_n_all: "list_all is_digit (digits_n k n)"
  by (induction k arbitrary: n) auto

lemma dec_value_digits_n: "dec_value (digits_n k n) = n mod 10 ^ k"
proof (induction k arbitrary: n)
  case (Suc k)
  then show ?case
    by (simp add: dec_value_def mod_mult2_eq)
qed (simp add: dec_value_def)

lemma read_digits_n [simp]:
  "n < 10 ^ k \<Longrightarrow> read_digits k (digits_n k n @ r) = Some (int n, r)"
  by (simp add: read_digits_def digits_n_all dec_value_digits_n Let_def)

lemma read_char_same [simp]: "read_char c (c # r) = Some ((), r)"
  by (simp add: read_char_def)

lemma digits_n_head: "k > 0 \<Longrightarrow> \<exists>d ds. digits_n k n = d # ds \<and> is_digit d"
  using digits_n_all[of k n] by (cases "digits_n k n") (auto dest: arg_cong[where f = length])

lemma read_year_text:
  assumes "- 999999 \<le> y" "y \<le> 999999"
  shows "read_year (year_text y @ r) = Some (y, r)"
proof (cases "0 \<le> y \<and> y \<le> 9999")
  case True
  then have eq: "year_text y = digits_n 4 (nat y)" by (simp add: year_text_def)
  obtain d ds where d: "digits_n 4 (nat y) = d # ds" "is_digit d"
    using digits_n_head[of 4 "nat y"] by auto
  then have "d \<noteq> CHR ''+''" "d \<noteq> CHR ''-''" by (auto simp: char_class_defs)
  moreover have "read_digits 4 (digits_n 4 (nat y) @ r) = Some (int (nat y), r)"
    using True by (intro read_digits_n) auto
  ultimately show ?thesis using True d eq by (simp add: read_year_def)
next
  case False
  then show ?thesis
    using assms read_digits_n[of "nat y" 6 r] read_digits_n[of "nat (- y)" 6 r]
    by (auto simp: read_year_def year_text_def)
qed

lemma read_fraction_n:
  assumes "n < 1000"
  shows "read_fraction (CHR ''.'' # digits_n 3 n @ CHR ''Z'' # r) = Some (int n, CHR ''Z'' # r)"
proof -
  have nz: "\<not> is_digit CHR ''Z''" by (simp add: char_class_defs)
  have tw: "takeWhile is_digit (digits_n 3 n @ CHR ''Z'' # r) = digits_n 3 n"
    using digits_n_all[of 3 n] nz by (simp add: takeWhile_append2 list_all_iff)
  show ?thesis using assms dec_value_digits_n[of 3 n]
    by (simp add: read_fraction_def tw Let_def)
qed

lemma time_of_day:
  fixes t :: int
  defines "ms \<equiv> t mod 86400000"
  shows "0 \<le> ms div 3600000" "ms div 3600000 \<le> 23" "0 \<le> ms"
    "t div 86400000 * 86400000 + ms div 3600000 * 3600000 + ms div 60000 mod 60 * 60000
       + ms div 1000 mod 60 * 1000 + ms mod 1000 = t"
proof -
  have b: "0 \<le> ms" "ms < 86400000" unfolding ms_def by simp_all
  then show "0 \<le> ms div 3600000" "ms div 3600000 \<le> 23" "0 \<le> ms" by simp_all
  have 1: "ms = 1000 * (ms div 1000) + ms mod 1000" by simp
  have "ms div (1000 * 60) = ms div 1000 div 60" "ms div (60000 * 60) = ms div 60000 div 60"
    by (rule zdiv_zmult2_eq; simp)+
  then have 2: "ms div 1000 = 60 * (ms div 60000) + ms div 1000 mod 60"
    and 3: "ms div 60000 = 60 * (ms div 3600000) + ms div 60000 mod 60" by simp_all
  have 4: "t = t div 86400000 * 86400000 + ms" unfolding ms_def by simp
  have "a * 86400000 + h * 3600000 + m * 60000 + s * 1000 + r = u"
    if "v = 1000 * q + r" "q = 60 * w + s" "w = 60 * h + m" "u = a * 86400000 + v"
    for a h m s r u v q w :: int using that by simp
  from this[OF 1 2 3 4] show "t div 86400000 * 86400000 + ms div 3600000 * 3600000
       + ms div 60000 mod 60 * 60000 + ms div 1000 mod 60 * 1000 + ms mod 1000 = t" .
qed

lemma year_in_range:
  assumes "- max_time \<le> t" "t \<le> max_time"
  shows "- 999999 \<le> year_from_day (t div 86400000)" "year_from_day (t div 86400000) \<le> 999999"
proof -
  define d where "d = t div 86400000"
  have d: "- 100000000 \<le> d" "d \<le> 100000000" using assms div_mod_bounds[of 86400000 t] unfolding d_def max_time_def by simp_all
  note b = year_from_day_bounds[of d] day_from_year_estimate[of "year_from_day d"]
    day_from_year_estimate[of "year_from_day d + 1"]
  show "- 999999 \<le> year_from_day (t div 86400000)" unfolding d_def[symmetric] using d b by simp
  show "year_from_day (t div 86400000) \<le> 999999" unfolding d_def[symmetric] using d b by simp
qed

theorem date_parse_iso:
  assumes "- max_time \<le> t" "t \<le> max_time"
  shows "date_parse (to_iso_string t) = Some t"
proof -
  define day where "day = t div 86400000"
  define ms where "ms = t mod 86400000"
  define y where "y = year_from_day day"
  define n where "n = day - day_from_year y"
  define m where "m = month_from_day (leap_year y) n"
  define d where "d = n - days_before_month (leap_year y) m + 1"
  note mb = month_from_day_bounds[OF year_length[of day], folded y_def, folded n_def, folded m_def]
  have d: "1 \<le> d" "d \<le> days_in_month (leap_year y) m" "d \<le> 31"
    using mb(3,4) days_in_month_le[of "leap_year y" m] by (simp_all add: d_def)
  have yr: "- 999999 \<le> y" "y \<le> 999999"
    using year_in_range[OF assms] by (simp_all add: y_def day_def)
  define hh mi ss mm where "hh = ms div 3600000" and "mi = ms div 60000 mod 60"
    and "ss = ms div 1000 mod 60" and "mm = ms mod 1000"
  note tod = time_of_day[of t, folded day_def ms_def, folded hh_def mi_def ss_def mm_def]
  have b: "0 \<le> mi" "mi \<le> 59" "0 \<le> ss" "ss \<le> 59" "0 \<le> mm" "mm < 1000"
    using pos_mod_bound[of 60 "ms div 60000"] pos_mod_bound[of 60 "ms div 1000"]
      pos_mod_bound[of 1000 ms]
    by (simp_all add: mi_def ss_def mm_def)
  have day: "make_day y m d = day" by (simp add: make_day_def d_def n_def)
  have iso: "to_iso_string t = year_text y @ CHR ''-'' # digits_n 2 (nat m) @ CHR ''-'' #
      digits_n 2 (nat d) @ CHR ''T'' # digits_n 2 (nat hh) @ CHR '':'' #
      digits_n 2 (nat mi) @ CHR '':'' # digits_n 2 (nat ss) @
      CHR ''.'' # digits_n 3 (nat mm) @ [CHR ''Z'']"
    by (simp only: to_iso_string_def Let_def day_def ms_def y_def n_def m_def d_def
        hh_def mi_def ss_def mm_def append.simps)
  have r: "read_digits 2 (digits_n 2 (nat i) @ r) = Some (i, r)" if "0 \<le> i" "i \<le> 59" for i r
    using that read_digits_n[of "nat i" 2 r] by simp
  have bm: "0 \<le> m" "m \<le> 59" "0 \<le> d" "d \<le> 59" "hh \<le> 59" using mb(1,2) d tod(2) by simp_all
  have f: "read_fraction (CHR ''.'' # digits_n 3 (nat mm) @ [CHR ''Z'']) = Some (mm, [CHR ''Z''])"
    using read_fraction_n[of "nat mm" "[]"] b(5,6) by simp
  have z: "read_zone [CHR ''Z''] = Some (0, [])" by (simp add: read_zone_def)
  note reads = read_year_text[OF yr] r[OF bm(1,2)] r[OF bm(3,4)] r[OF tod(1) bm(5)] r[OF b(1,2)]
    r[OF b(3,4)] f z read_char_same
  have "date_parse (to_iso_string t) = (if 1 \<le> m \<and> m \<le> 12 \<and> 1 \<le> d
      \<and> d \<le> days_in_month (leap_year y) m \<and> hh \<le> 23 \<and> mi \<le> 59 \<and> ss \<le> 59
    then (let u = make_day y m d * 86400000 + hh * 3600000 + mi * 60000 + ss * 1000 + mm - 0 * 60000
          in if - max_time \<le> u \<and> u \<le> max_time then Some u else None) else None)"
    by (simp only: date_parse_def iso reads bind.bind_lunit prod.case simp_thms)
  then show ?thesis using mb(1,2) d tod b assms by (simp add: day)
qed

text \<open>The canonical instants are exactly the printed time values, each for one time.\<close>

theorem iso_instant_iff:
  "iso_instant s = Some t \<longleftrightarrow> s = to_iso_string t \<and> - max_time \<le> t \<and> t \<le> max_time"
proof
  assume "iso_instant s = Some t"
  then have "date_parse s = Some t" "s = to_iso_string t"
    by (auto simp: iso_instant_def split: option.splits if_splits)
  then show "s = to_iso_string t \<and> - max_time \<le> t \<and> t \<le> max_time"
    by (auto simp: date_parse_def Let_def split: if_splits bind_splits)
next
  assume "s = to_iso_string t \<and> - max_time \<le> t \<and> t \<le> max_time"
  then show "iso_instant s = Some t"
    using date_parse_iso[of t] by (simp add: iso_instant_def)
qed

lemma iso_instant_inj: "iso_instant s = Some t \<Longrightarrow> iso_instant s' = Some t \<Longrightarrow> s = s'"
  by (simp add: iso_instant_iff)

end
