(* ===== verification/Js_Json.thy ===== *)
theory Js_Json
  imports Ep_Prelude
begin

section \<open>JSON text\<close>

text \<open>
  What the sources use of \<open>JSON.stringify\<close>, and the sorted-key canonical text that the digests of
  the ledgers are taken over. A value is a tree (object identity, accessors and prototypes are
  outside the type); numbers print exactly as JavaScript prints them below 1e21.
  SHA-256 is a parameter wherever a digest is taken: a function from the hashed text to its
  hexadecimal digest.
\<close>

datatype jsonish = JNull | JBool bool | JNum js_number | JBig int | JStr string
  | JArr "jsonish list" | JObj "(string \<times> jsonish) list"

definition hex_digit :: "nat \<Rightarrow> char" where
  "hex_digit d = (if d < 10 then char_of (48 + d) else char_of (87 + d))"

text \<open>\<open>QuoteJSONString\<close>: the short escapes, \<open>\u00XX\<close> for the other control characters.\<close>

definition quote_char :: "char \<Rightarrow> string" where
  "quote_char c = (let n = of_char c :: nat in
     if n = 34 then [CHR 0x5C, CHR 0x22] else if n = 92 then [CHR 0x5C, CHR 0x5C]
     else if n = 8 then [CHR 0x5C, CHR ''b''] else if n = 9 then [CHR 0x5C, CHR ''t'']
     else if n = 10 then [CHR 0x5C, CHR ''n''] else if n = 12 then [CHR 0x5C, CHR ''f'']
     else if n = 13 then [CHR 0x5C, CHR ''r'']
     else if n < 32 then [CHR 0x5C, CHR ''u'', CHR ''0'', CHR ''0'', hex_digit (n div 16), hex_digit (n mod 16)]
     else [c])"

definition json_quote :: "string \<Rightarrow> string" where
  "json_quote s = CHR 0x22 # concat (map quote_char s) @ [CHR 0x22]"

fun number_text :: "js_number \<Rightarrow> string" where
  "number_text (Integral i) = dec_int i"
| "number_text (Fractional t) = t"
| "number_text NonFinite = ''null''"

text \<open>\<open>JSON.stringify\<close>: members in the order in which the code writes them.\<close>

fun json_text :: "jsonish \<Rightarrow> string" where
  "json_text JNull = ''null''"
| "json_text (JBool b) = (if b then ''true'' else ''false'')"
| "json_text (JNum n) = number_text n"
| "json_text (JBig i) = dec_int i"
| "json_text (JStr s) = json_quote s"
| "json_text (JArr xs) = ''['' @ join_with '','' (map json_text xs) @ '']''"
| "json_text (JObj ms) = ''{'' @ join_with '','' (map (\<lambda>(k, v). json_quote k @ '':'' @ json_text v) ms) @ ''}''"

definition sort_members :: "(string \<times> 'a) list \<Rightarrow> (string \<times> 'a) list" where
  "sort_members ms = sort_key fst ms"

text \<open>
  The recursive visit: children first, then the members of an object joined in the order of their
  names. A bigint is written as an object with one member.
\<close>

fun canonical :: "jsonish \<Rightarrow> string" where
  "canonical JNull = ''null''"
| "canonical (JBool b) = (if b then ''true'' else ''false'')"
| "canonical (JNum n) = number_text n"
| "canonical (JBig i) = ''{'' @ json_quote ''@bigint'' @ '':'' @ json_quote (dec_int i) @ ''}''"
| "canonical (JStr s) = json_quote s"
| "canonical (JArr xs) = ''['' @ join_with '','' (map canonical xs) @ '']''"
| "canonical (JObj ms) = ''{'' @ join_with '',''
     (map (\<lambda>(k, t). json_quote k @ '':'' @ t) (sort_members (map (\<lambda>(k, v). (k, canonical v)) ms))) @ ''}''"

text \<open>The visit throws on a number that is not finite.\<close>

fun canonical_ok :: "jsonish \<Rightarrow> bool" where
  "canonical_ok (JNum n) = (n \<noteq> NonFinite)"
| "canonical_ok (JArr xs) = list_all canonical_ok xs"
| "canonical_ok (JObj ms) = list_all (\<lambda>(k, v). canonical_ok v) ms"
| "canonical_ok _ = True"

text \<open>\<open>digest(domain, value)\<close> over a given hexadecimal hash function.\<close>

type_synonym hash = "string \<Rightarrow> string"

definition digest :: "hash \<Rightarrow> string \<Rightarrow> jsonish \<Rightarrow> string" where
  "digest sha domain v = ''sha256:'' @ sha (domain @ CHR 0x00 # canonical v)"

definition opt_str :: "string option \<Rightarrow> jsonish" where
  "opt_str x = (case x of None \<Rightarrow> JNull | Some s \<Rightarrow> JStr s)"

end
