(* ===== verification/Open_Exposure.thy ===== *)
theory Open_Exposure
  imports Js_Time Js_Json "HOL-Library.Product_Lexorder"
begin

section \<open>The open exposure ledger\<close>

text \<open>
  Model of \<open>packages/gate/src/open-exposure-ledger.ts\<close>: the in-memory linearizable ledger that
  reserves fixed minor-unit exposure before a provider is entered. The state record holds the six
  Maps and the clock watermark of \<open>createMemoryOpenExposureLedger\<close>. Each operation has two parts, as
  in the code: an entry part (input checks, the first look-up, authentication) that runs outside the
  mutex, and a locked part that runs inside \<open>exclusive\<close>. The composed operation runs both on the same
  state; theory \<open>Open_Exposure_Run\<close> interleaves them.

  Parameters: \<open>sha\<close> (the hexadecimal SHA-256 of the text), \<open>authn\<close> (\<open>options.authenticate\<close>, \<open>None\<close>
  when it throws), the reading of the clock (\<open>None\<close> when it throws) and the random hexadecimal part
  of an invocation permit. Values of the declared string unions are strings in the inputs, so the
  membership checks of the validators are real checks. Thrown errors carry their \<open>code\<close>.
\<close>

subsection \<open>Types\<close>

record open_exposure_auth =
  role :: string
  authorityId :: string
  credential :: string

record open_exposure_ceiling_input =
  ci_tenantId :: string
  ci_ceilingId :: string
  ci_scope :: string
  ci_scopeValue :: string
  ci_currency :: string
  ci_windowStart :: string
  ci_windowEnd :: string
  ci_limitMinor :: int
  ci_policyDigest :: string

record open_exposure_ceiling =
  ceilingInput :: open_exposure_ceiling_input
  ceilingDigest :: string

record open_exposure_invocation_binding =
  programVersion :: string
  programSourceDigest :: string
  programDigest :: string
  caid :: string
  actionDigest :: string
  admissionSnapshotDigest :: string
  authorizationDigest :: string
  authorizationExpiresAt :: string

record open_exposure_reserve_input =
  ri_binding :: open_exposure_invocation_binding
  ri_tenantId :: string
  ri_exposureId :: string
  ri_operationToken :: string
  ri_programId :: string
  ri_counterpartyId :: string
  ri_actionClass :: string
  ri_amountMinor :: int
  ri_currency :: string
  ri_windowStart :: string
  ri_windowEnd :: string
  ri_reservedAt :: string
  ri_invokeBy :: string
  ri_reconcileBy :: string
  ri_originAuthorityId :: string
  ri_executorAuthorityId :: string
  ri_reconciliationAuthorityId :: string
  ri_reservationEvidenceDigest :: string

datatype open_exposure_status = RESERVED | INVOKING | INDETERMINATE
  | CLOSED_COMMITTED | CLOSED_PROVEN_NOT_COMMITTED

datatype open_exposure_reconciliation_outcome = COMMITTED | PROVEN_NOT_COMMITTED | OUTCOME_INDETERMINATE

record open_exposure_record =
  tenantId :: string
  exposureId :: string
  operationTokenDigest :: string
  reservationDigest :: string
  programId :: string
  binding :: open_exposure_invocation_binding
  counterpartyId :: string
  actionClass :: string
  amountMinor :: int
  currency :: string
  windowStart :: string
  windowEnd :: string
  reservedAt :: string
  invokeBy :: string
  reconcileBy :: string
  originAuthorityId :: string
  executorAuthorityId :: string
  reconciliationAuthorityId :: string
  reservationEvidenceDigest :: string
  ceilingDigests :: "string list"
  revision :: nat
  status :: open_exposure_status
  invokedAt :: "string option"
  invocationPermitDigest :: "string option"
  indeterminateEvidenceDigest :: "string option"
  reconciliationOutcome :: "open_exposure_reconciliation_outcome option"
  reconciliationEvidenceDigest :: "string option"
  lastChangedAt :: string
  predecessorRecordDigest :: "string option"
  recordDigest :: string

datatype open_exposure_history_event = EV_RESERVED | EV_INVOKING | EV_INDETERMINATE
  | EV_RECONCILED_INDETERMINATE | EV_CLOSED_COMMITTED | EV_CLOSED_PROVEN_NOT_COMMITTED

record open_exposure_history_entry =
  he_tenantId :: string
  he_exposureId :: string
  he_sequence :: nat
  he_event :: open_exposure_history_event
  he_binding :: open_exposure_invocation_binding
  he_invocationPermitDigest :: "string option"
  he_recordDigest :: string
  he_evidenceDigest :: string
  he_recordedAt :: string
  he_predecessorEntryDigest :: "string option"
  he_entryDigest :: string

datatype open_exposure_refusal_reason = Unauthenticated | Wrong_authority
  | Authority_separation_required | Ceiling_not_configured | Ceiling_exceeded
  | Ceiling_id_conflict | Ceiling_scope_conflict | Exposure_exists | Exposure_not_found
  | Operation_token_conflict | Immutable_binding_conflict | Invocation_expired
  | Reconciliation_token_conflict | State_conflict | Reconciliation_required | Already_closed

record open_exposure_reference =
  ref_tenantId :: string
  ref_exposureId :: string

record open_exposure_begin_input =
  bi_ref :: open_exposure_reference
  bi_binding :: open_exposure_invocation_binding
  bi_operationToken :: string

record open_exposure_indeterminate_input =
  ii_ref :: open_exposure_reference
  ii_operationToken :: string
  ii_evidenceDigest :: string
  ii_observedAt :: string

record open_exposure_reconciliation_input =
  rc_ref :: open_exposure_reference
  rc_operationToken :: string
  rc_reconciliationToken :: string
  rc_outcome :: string
  rc_evidenceDigest :: string
  rc_observedAt :: string

record open_exposure_sum_input =
  si_tenantId :: string
  si_currency :: string
  si_windowStart :: string
  si_windowEnd :: string
  si_programId :: "string option"
  si_counterpartyId :: "string option"
  si_actionClass :: "string option"

record open_exposure_aging_input =
  ai_tenantId :: string
  ai_asOf :: string
  ai_minimumAgeMs :: js_number
  ai_limit :: js_number

record open_exposure_deadline_input =
  di_tenantId :: string
  di_dueAtOrBefore :: string
  di_limit :: js_number

record open_exposure_sum =
  totalMinor :: int
  byProgram :: "(string \<times> int) list"
  byCounterparty :: "(string \<times> int) list"
  byActionClass :: "(string \<times> int) list"
  byStatus :: "(string \<times> int) list"

text \<open>The closure's state.\<close>

record ledger =
  lastClockMs :: "int option"
  ceilingsById :: "(string, open_exposure_ceiling) js_map"
  ceilingsByScope :: "(string, open_exposure_ceiling) js_map"
  records :: "(string, open_exposure_record) js_map"
  operations :: "(string, string \<times> open_exposure_record) js_map"
  histories :: "(string, open_exposure_history_entry list) js_map"
  reconciliationTokens :: "(string, string \<times> open_exposure_record) js_map"

definition empty_ledger :: ledger where
  "empty_ledger = \<lparr>lastClockMs = None, ceilingsById = [], ceilingsByScope = [], records = [],
     operations = [], histories = [], reconciliationTokens = []\<rparr>"

type_synonym 'a ledger_outcome = "(open_exposure_refusal_reason, 'a) outcome"
type_synonym authenticator = "string \<Rightarrow> open_exposure_auth \<Rightarrow> bool option"

subsection \<open>Checks of the inputs\<close>

definition CURRENCY :: "string \<Rightarrow> bool" where
  "CURRENCY s \<longleftrightarrow> length s = 3 \<and> list_all is_upper s"

definition OPERATION_TOKEN :: "string \<Rightarrow> bool" where
  "OPERATION_TOKEN = token_re ''open-exposure-op:v1:'' 32 128"

definition RECONCILIATION_TOKEN :: "string \<Rightarrow> bool" where
  "RECONCILIATION_TOKEN = token_re ''open-exposure-reconcile:v1:'' 32 128"

definition OPEN_STATUSES :: "open_exposure_status list" where
  "OPEN_STATUSES = [RESERVED, INVOKING, INDETERMINATE]"

definition SCOPES :: "string list" where
  "SCOPES = [''TENANT'', ''PROGRAM'', ''COUNTERPARTY'', ''ACTION_CLASS'']"

definition identifier_check :: "string \<Rightarrow> check" where
  "identifier_check v = (identifier_re v, ''invalid_identifier'')"

definition sha256 :: "string \<Rightarrow> check" where
  "sha256 v = (sha256_re v, ''invalid_digest'')"

definition instant :: "string \<Rightarrow> check" where
  "instant v = (iso_instant v \<noteq> None, ''invalid_time'')"

text \<open>The time value of a text that passed \<open>instant\<close>.\<close>

definition instant_ms :: "string \<Rightarrow> int" where
  "instant_ms v = (case iso_instant v of None \<Rightarrow> 0 | Some t \<Rightarrow> t)"

definition positiveBigInt :: "int \<Rightarrow> check" where
  "positiveBigInt v = (0 < v \<and> v \<le> max_int64, ''invalid_amount'')"

definition nonNegativeBigInt :: "int \<Rightarrow> check" where
  "nonNegativeBigInt v = (0 \<le> v \<and> v \<le> max_int64, ''invalid_amount'')"

definition validateAuth :: "open_exposure_auth \<Rightarrow> check list" where
  "validateAuth a =
     [(role a \<in> set [''POLICY_ADMIN'', ''ORIGIN'', ''EXECUTOR'', ''RECONCILER'', ''READER''], ''invalid_auth''),
      identifier_check (authorityId a),
      (1 \<le> length (credential a) \<and> length (credential a) \<le> 4096, ''invalid_auth'')]"

definition validateWindow :: "string \<Rightarrow> string \<Rightarrow> check list" where
  "validateWindow ws we = [instant ws, instant we, (instant_ms ws < instant_ms we, ''invalid_window'')]"

definition validateCeiling :: "open_exposure_ceiling_input \<Rightarrow> check list" where
  "validateCeiling i =
     [identifier_check (ci_tenantId i), identifier_check (ci_ceilingId i),
      (ci_scope i \<in> set SCOPES, ''invalid_scope''),
      (ci_scope i = ''TENANT'' \<and> ci_scopeValue i = ''*'' \<or> identifier_re (ci_scopeValue i), ''invalid_identifier''),
      (\<not> (ci_scope i = ''TENANT'' \<and> ci_scopeValue i \<noteq> ''*''), ''invalid_scope''),
      (\<not> (ci_scope i \<noteq> ''TENANT'' \<and> ci_scopeValue i = ''*''), ''invalid_scope''),
      (CURRENCY (ci_currency i), ''invalid_currency'')]
     @ validateWindow (ci_windowStart i) (ci_windowEnd i)
     @ [nonNegativeBigInt (ci_limitMinor i), sha256 (ci_policyDigest i)]"

definition validateReservation :: "open_exposure_reserve_input \<Rightarrow> check list" where
  "validateReservation i = (let b = ri_binding i in
     map identifier_check [ri_tenantId i, ri_exposureId i, ri_programId i, programVersion b,
       ri_counterpartyId i, ri_actionClass i, ri_originAuthorityId i, ri_executorAuthorityId i,
       ri_reconciliationAuthorityId i]
     @ [(caid_re (caid b), ''invalid_caid'')]
     @ map sha256 [programSourceDigest b, programDigest b, actionDigest b,
         admissionSnapshotDigest b, authorizationDigest b]
     @ [(OPERATION_TOKEN (ri_operationToken i), ''invalid_operation_token''),
        positiveBigInt (ri_amountMinor i),
        (CURRENCY (ri_currency i), ''invalid_currency'')]
     @ validateWindow (ri_windowStart i) (ri_windowEnd i)
     @ [instant (ri_reservedAt i), instant (ri_invokeBy i), instant (ri_reconcileBy i),
        instant (authorizationExpiresAt b),
        (\<not> (instant_ms (ri_reservedAt i) < instant_ms (ri_windowStart i)
            \<or> instant_ms (ri_reservedAt i) \<ge> instant_ms (ri_windowEnd i)), ''invalid_time''),
        (\<not> (instant_ms (ri_invokeBy i) < instant_ms (ri_reservedAt i)
            \<or> instant_ms (ri_reconcileBy i) < instant_ms (ri_invokeBy i)
            \<or> instant_ms (ri_invokeBy i) > instant_ms (ri_windowEnd i)
            \<or> instant_ms (ri_invokeBy i) > instant_ms (authorizationExpiresAt b)
            \<or> instant_ms (authorizationExpiresAt b) < instant_ms (ri_reservedAt i)), ''invalid_time''),
        sha256 (ri_reservationEvidenceDigest i)])"

definition validateInvocationBinding :: "open_exposure_invocation_binding \<Rightarrow> check list" where
  "validateInvocationBinding b =
     [identifier_check (programVersion b), (caid_re (caid b), ''invalid_caid'')]
     @ map sha256 [programSourceDigest b, programDigest b, actionDigest b,
         admissionSnapshotDigest b, authorizationDigest b]
     @ [instant (authorizationExpiresAt b)]"

definition invocationBindingMatches ::
  "open_exposure_record \<Rightarrow> open_exposure_invocation_binding \<Rightarrow> bool" where
  "invocationBindingMatches r b \<longleftrightarrow>
     programVersion (binding r) = programVersion b
     \<and> programSourceDigest (binding r) = programSourceDigest b
     \<and> programDigest (binding r) = programDigest b
     \<and> caid (binding r) = caid b
     \<and> actionDigest (binding r) = actionDigest b
     \<and> admissionSnapshotDigest (binding r) = admissionSnapshotDigest b
     \<and> authorizationDigest (binding r) = authorizationDigest b
     \<and> authorizationExpiresAt (binding r) = authorizationExpiresAt b"

definition validateReference :: "open_exposure_reference \<Rightarrow> check list" where
  "validateReference i = [identifier_check (ref_tenantId i), identifier_check (ref_exposureId i)]"

subsection \<open>Digests, keys and records\<close>

definition tokenDigest :: "hash \<Rightarrow> string \<Rightarrow> string" where
  "tokenDigest sha token = digest sha ''EP-OPEN-EXPOSURE-TOKEN-v1'' (JStr token)"

definition binding_json :: "open_exposure_invocation_binding \<Rightarrow> (string \<times> jsonish) list" where
  "binding_json b =
     [(''programVersion'', JStr (programVersion b)),
      (''programSourceDigest'', JStr (programSourceDigest b)),
      (''programDigest'', JStr (programDigest b)),
      (''caid'', JStr (caid b)),
      (''actionDigest'', JStr (actionDigest b)),
      (''admissionSnapshotDigest'', JStr (admissionSnapshotDigest b)),
      (''authorizationDigest'', JStr (authorizationDigest b)),
      (''authorizationExpiresAt'', JStr (authorizationExpiresAt b))]"

definition permitDigest :: "hash \<Rightarrow> open_exposure_record \<Rightarrow> string \<Rightarrow> string" where
  "permitDigest sha r permit = digest sha ''EP-OPEN-EXPOSURE-INVOCATION-PERMIT-v1'' (JObj (
     [(''permit'', JStr permit), (''tenantId'', JStr (tenantId r)),
      (''exposureId'', JStr (exposureId r)),
      (''operationTokenDigest'', JStr (operationTokenDigest r)),
      (''reservationDigest'', JStr (reservationDigest r))] @ binding_json (binding r)))"

definition key :: "string list \<Rightarrow> string" where
  "key parts = join_with [CHR 0x00] parts"

definition ceilingScopeValue :: "open_exposure_reserve_input \<Rightarrow> string \<Rightarrow> string" where
  "ceilingScopeValue i scope =
     (if scope = ''TENANT'' then ''*'' else if scope = ''PROGRAM'' then ri_programId i
      else if scope = ''COUNTERPARTY'' then ri_counterpartyId i else ri_actionClass i)"

definition ceilingScopeKey :: "open_exposure_ceiling_input \<Rightarrow> string" where
  "ceilingScopeKey i = key [ci_tenantId i, ci_scope i, ci_scopeValue i, ci_currency i,
     ci_windowStart i, ci_windowEnd i]"

definition status_text :: "open_exposure_status \<Rightarrow> string" where
  "status_text s = (case s of RESERVED \<Rightarrow> ''RESERVED'' | INVOKING \<Rightarrow> ''INVOKING''
     | INDETERMINATE \<Rightarrow> ''INDETERMINATE'' | CLOSED_COMMITTED \<Rightarrow> ''CLOSED_COMMITTED''
     | CLOSED_PROVEN_NOT_COMMITTED \<Rightarrow> ''CLOSED_PROVEN_NOT_COMMITTED'')"

definition outcome_text :: "open_exposure_reconciliation_outcome \<Rightarrow> string" where
  "outcome_text s = (case s of COMMITTED \<Rightarrow> ''COMMITTED''
     | PROVEN_NOT_COMMITTED \<Rightarrow> ''PROVEN_NOT_COMMITTED'' | OUTCOME_INDETERMINATE \<Rightarrow> ''INDETERMINATE'')"

definition event_text :: "open_exposure_history_event \<Rightarrow> string" where
  "event_text e = (case e of EV_RESERVED \<Rightarrow> ''RESERVED'' | EV_INVOKING \<Rightarrow> ''INVOKING''
     | EV_INDETERMINATE \<Rightarrow> ''INDETERMINATE'' | EV_RECONCILED_INDETERMINATE \<Rightarrow> ''RECONCILED_INDETERMINATE''
     | EV_CLOSED_COMMITTED \<Rightarrow> ''CLOSED_COMMITTED''
     | EV_CLOSED_PROVEN_NOT_COMMITTED \<Rightarrow> ''CLOSED_PROVEN_NOT_COMMITTED'')"

text \<open>The record without its own digest, as hashed by \<open>makeRecord\<close>.\<close>

definition recordBody :: "open_exposure_record \<Rightarrow> jsonish" where
  "recordBody r = JObj ([
      (''@version'', JStr ''EP-OPEN-EXPOSURE-LEDGER-v1''),
      (''tenantId'', JStr (tenantId r)), (''exposureId'', JStr (exposureId r)),
      (''operationTokenDigest'', JStr (operationTokenDigest r)),
      (''reservationDigest'', JStr (reservationDigest r)),
      (''programId'', JStr (programId r))] @ binding_json (binding r) @ [
      (''counterpartyId'', JStr (counterpartyId r)), (''actionClass'', JStr (actionClass r)),
      (''amountMinor'', JBig (amountMinor r)), (''currency'', JStr (currency r)),
      (''windowStart'', JStr (windowStart r)), (''windowEnd'', JStr (windowEnd r)),
      (''reservedAt'', JStr (reservedAt r)), (''invokeBy'', JStr (invokeBy r)),
      (''reconcileBy'', JStr (reconcileBy r)),
      (''originAuthorityId'', JStr (originAuthorityId r)),
      (''executorAuthorityId'', JStr (executorAuthorityId r)),
      (''reconciliationAuthorityId'', JStr (reconciliationAuthorityId r)),
      (''reservationEvidenceDigest'', JStr (reservationEvidenceDigest r)),
      (''ceilingDigests'', JArr (map JStr (ceilingDigests r))),
      (''revision'', JNum (Integral (int (revision r)))),
      (''status'', JStr (status_text (status r))),
      (''invokedAt'', opt_str (invokedAt r)),
      (''invocationPermitDigest'', opt_str (invocationPermitDigest r)),
      (''indeterminateEvidenceDigest'', opt_str (indeterminateEvidenceDigest r)),
      (''reconciliationOutcome'', opt_str (map_option outcome_text (reconciliationOutcome r))),
      (''reconciliationEvidenceDigest'', opt_str (reconciliationEvidenceDigest r)),
      (''lastChangedAt'', JStr (lastChangedAt r)),
      (''predecessorRecordDigest'', opt_str (predecessorRecordDigest r))])"

definition makeRecord :: "hash \<Rightarrow> open_exposure_record \<Rightarrow> open_exposure_record" where
  "makeRecord sha body = body\<lparr>recordDigest := digest sha ''EP-OPEN-EXPOSURE-RECORD-v1'' (recordBody body)\<rparr>"

definition isOpen :: "open_exposure_record \<Rightarrow> bool" where
  "isOpen r \<longleftrightarrow> status r \<in> set OPEN_STATUSES"

definition compareText :: "string \<Rightarrow> string \<Rightarrow> int" where
  "compareText l r = (if l < r then - 1 else if r < l then 1 else 0)"

definition addBreakdown :: "(string, int) js_map \<Rightarrow> (string \<times> int) list" where
  "addBreakdown m = sort_key fst m"

subsection \<open>Clock, authentication, history\<close>

text \<open>\<open>trustedNow\<close>: the reading, refused when the clock throws, is not canonical or runs backwards.\<close>

definition trustedNow :: "string option \<Rightarrow> ledger \<Rightarrow> string ledger_outcome \<times> ledger" where
  "trustedNow reading st = (case reading of
       None \<Rightarrow> (Throw ''clock_failed'', st)
     | Some v \<Rightarrow> (case iso_instant v of
           None \<Rightarrow> (Throw ''invalid_time'', st)
         | Some t \<Rightarrow>
             if (case lastClockMs st of None \<Rightarrow> False | Some u \<Rightarrow> t < u)
             then (Throw ''clock_regressed'', st)
             else (Ok v, st\<lparr>lastClockMs := Some t\<rparr>)))"

definition authenticated ::
  "authenticator \<Rightarrow> string \<Rightarrow> open_exposure_auth \<Rightarrow> string \<Rightarrow> string option \<Rightarrow> unit ledger_outcome" where
  "authenticated authn tenant auth expectedRole expectedAuthority =
     (case run_checks (validateAuth auth) of
        Some e \<Rightarrow> Throw e
      | None \<Rightarrow>
          if authn tenant auth \<noteq> Some True then Refuse Unauthenticated
          else if role auth \<noteq> expectedRole
            \<or> (case expectedAuthority of None \<Rightarrow> False | Some a \<Rightarrow> authorityId auth \<noteq> a)
          then Refuse Wrong_authority
          else Ok ())"

definition entryBody :: "open_exposure_history_entry \<Rightarrow> jsonish" where
  "entryBody e = JObj ([
      (''@version'', JStr ''EP-OPEN-EXPOSURE-HISTORY-v1''),
      (''tenantId'', JStr (he_tenantId e)), (''exposureId'', JStr (he_exposureId e)),
      (''sequence'', JNum (Integral (int (he_sequence e)))),
      (''event'', JStr (event_text (he_event e)))] @ binding_json (he_binding e) @ [
      (''invocationPermitDigest'', opt_str (he_invocationPermitDigest e)),
      (''recordDigest'', JStr (he_recordDigest e)),
      (''evidenceDigest'', JStr (he_evidenceDigest e)),
      (''recordedAt'', JStr (he_recordedAt e)),
      (''predecessorEntryDigest'', opt_str (he_predecessorEntryDigest e))])"

definition make_entry :: "hash \<Rightarrow> open_exposure_history_entry \<Rightarrow> open_exposure_history_entry" where
  "make_entry sha body =
     body\<lparr>he_entryDigest := digest sha ''EP-OPEN-EXPOSURE-HISTORY-ENTRY-v1'' (entryBody body)\<rparr>"

definition record_key :: "open_exposure_record \<Rightarrow> string" where
  "record_key r = key [tenantId r, exposureId r]"

definition history_at :: "ledger \<Rightarrow> string \<Rightarrow> open_exposure_history_entry list" where
  "history_at st k = (case map_get (histories st) k of None \<Rightarrow> [] | Some h \<Rightarrow> h)"

definition next_entry :: "hash \<Rightarrow> open_exposure_record \<Rightarrow> open_exposure_history_event \<Rightarrow> string
    \<Rightarrow> string \<Rightarrow> open_exposure_history_entry list \<Rightarrow> open_exposure_history_entry" where
  "next_entry sha r event evidence at existing = make_entry sha
     \<lparr>he_tenantId = tenantId r, he_exposureId = exposureId r,
      he_sequence = length existing, he_event = event, he_binding = binding r,
      he_invocationPermitDigest = invocationPermitDigest r, he_recordDigest = recordDigest r,
      he_evidenceDigest = evidence, he_recordedAt = at,
      he_predecessorEntryDigest = (if existing = [] then None else Some (he_entryDigest (last existing))),
      he_entryDigest = []\<rparr>"

definition appendHistory :: "hash \<Rightarrow> open_exposure_record \<Rightarrow> open_exposure_history_event \<Rightarrow> string
    \<Rightarrow> string \<Rightarrow> ledger \<Rightarrow> ledger" where
  "appendHistory sha r event evidence at st = (let existing = history_at st (record_key r) in
     st\<lparr>histories := map_set (record_key r)
       (existing @ [next_entry sha r event evidence at existing]) (histories st)\<rparr>)"

text \<open>\<open>replaceRecord\<close>: the updated fields, the next revision, chained to the current digest.\<close>

definition replaceRecord :: "hash \<Rightarrow> open_exposure_record \<Rightarrow>
    (open_exposure_record \<Rightarrow> open_exposure_record) \<Rightarrow> open_exposure_record" where
  "replaceRecord sha current update = makeRecord sha
     ((update current)\<lparr>revision := revision current + 1,
        predecessorRecordDigest := Some (recordDigest current)\<rparr>)"

definition recordFor :: "ledger \<Rightarrow> open_exposure_reference \<Rightarrow> open_exposure_record option" where
  "recordFor st i = map_get (records st) (key [ref_tenantId i, ref_exposureId i])"

definition operationMatches :: "hash \<Rightarrow> open_exposure_record \<Rightarrow> string \<Rightarrow> bool" where
  "operationMatches sha r token \<longleftrightarrow> operationTokenDigest r = tokenDigest sha token"

text \<open>Store the next version of a record and its history entry.\<close>

definition put_record :: "hash \<Rightarrow> open_exposure_reference \<Rightarrow> open_exposure_record
    \<Rightarrow> open_exposure_history_event \<Rightarrow> string \<Rightarrow> string \<Rightarrow> ledger \<Rightarrow> ledger" where
  "put_record sha ref r event evidence at st = appendHistory sha r event evidence at
     (st\<lparr>records := map_set (key [ref_tenantId ref, ref_exposureId ref]) r (records st)\<rparr>)"

subsection \<open>\<open>registerCeiling\<close>\<close>

definition ceiling_json :: "open_exposure_ceiling_input \<Rightarrow> jsonish" where
  "ceiling_json i = JObj [
     (''@version'', JStr ''EP-OPEN-EXPOSURE-LEDGER-v1''),
     (''tenantId'', JStr (ci_tenantId i)), (''ceilingId'', JStr (ci_ceilingId i)),
     (''scope'', JStr (ci_scope i)), (''scopeValue'', JStr (ci_scopeValue i)),
     (''currency'', JStr (ci_currency i)), (''windowStart'', JStr (ci_windowStart i)),
     (''windowEnd'', JStr (ci_windowEnd i)), (''limitMinor'', JBig (ci_limitMinor i)),
     (''policyDigest'', JStr (ci_policyDigest i))]"

definition make_ceiling :: "hash \<Rightarrow> open_exposure_ceiling_input \<Rightarrow> open_exposure_ceiling" where
  "make_ceiling sha i = \<lparr>ceilingInput = i,
     ceilingDigest = digest sha ''EP-OPEN-EXPOSURE-CEILING-v1'' (ceiling_json i)\<rparr>"

definition registerCeiling_enter ::
  "authenticator \<Rightarrow> open_exposure_ceiling_input \<Rightarrow> open_exposure_auth \<Rightarrow> unit ledger_outcome" where
  "registerCeiling_enter authn i auth = (case run_checks (validateCeiling i) of
       Some e \<Rightarrow> Throw e
     | None \<Rightarrow> authenticated authn (ci_tenantId i) auth ''POLICY_ADMIN'' None)"

definition registerCeiling_locked :: "hash \<Rightarrow> open_exposure_ceiling_input \<Rightarrow> ledger
    \<Rightarrow> (open_exposure_ceiling \<times> bool) ledger_outcome \<times> ledger" where
  "registerCeiling_locked sha i st = (let
       idKey = key [ci_tenantId i, ci_ceilingId i]; scopeKey = ceilingScopeKey i;
       candidate = make_ceiling sha i
     in case map_get (ceilingsById st) idKey of
        Some c \<Rightarrow> (if ceilingDigest c = ceilingDigest candidate then Ok (c, True)
                   else Refuse Ceiling_id_conflict, st)
      | None \<Rightarrow> (case map_get (ceilingsByScope st) scopeKey of
          Some c \<Rightarrow> (if ceilingDigest c = ceilingDigest candidate then Ok (c, True)
                     else Refuse Ceiling_scope_conflict, st)
        | None \<Rightarrow> (Ok (candidate, False),
            st\<lparr>ceilingsById := map_set idKey candidate (ceilingsById st),
               ceilingsByScope := map_set scopeKey candidate (ceilingsByScope st)\<rparr>)))"

subsection \<open>\<open>reserve\<close>\<close>

definition reservation_json :: "hash \<Rightarrow> open_exposure_reserve_input \<Rightarrow> jsonish" where
  "reservation_json sha i = JObj (binding_json (ri_binding i) @ [
     (''tenantId'', JStr (ri_tenantId i)), (''exposureId'', JStr (ri_exposureId i)),
     (''programId'', JStr (ri_programId i)), (''counterpartyId'', JStr (ri_counterpartyId i)),
     (''actionClass'', JStr (ri_actionClass i)), (''amountMinor'', JBig (ri_amountMinor i)),
     (''currency'', JStr (ri_currency i)), (''windowStart'', JStr (ri_windowStart i)),
     (''windowEnd'', JStr (ri_windowEnd i)), (''reservedAt'', JStr (ri_reservedAt i)),
     (''invokeBy'', JStr (ri_invokeBy i)), (''reconcileBy'', JStr (ri_reconcileBy i)),
     (''originAuthorityId'', JStr (ri_originAuthorityId i)),
     (''executorAuthorityId'', JStr (ri_executorAuthorityId i)),
     (''reconciliationAuthorityId'', JStr (ri_reconciliationAuthorityId i)),
     (''reservationEvidenceDigest'', JStr (ri_reservationEvidenceDigest i)),
     (''operationTokenDigest'', JStr (tokenDigest sha (ri_operationToken i)))])"

definition reservation_digest :: "hash \<Rightarrow> open_exposure_reserve_input \<Rightarrow> string" where
  "reservation_digest sha i = digest sha ''EP-OPEN-EXPOSURE-RESERVATION-v1'' (reservation_json sha i)"

definition reserve_enter ::
  "authenticator \<Rightarrow> open_exposure_reserve_input \<Rightarrow> open_exposure_auth \<Rightarrow> unit ledger_outcome" where
  "reserve_enter authn i auth = (case run_checks (validateReservation i) of
       Some e \<Rightarrow> Throw e
     | None \<Rightarrow> (case authenticated authn (ri_tenantId i) auth ''ORIGIN'' (Some (ri_originAuthorityId i)) of
          Ok _ \<Rightarrow> if length (remdups [ri_originAuthorityId i, ri_executorAuthorityId i,
                     ri_reconciliationAuthorityId i]) \<noteq> 3
                  then Refuse Authority_separation_required else Ok ()
        | denied \<Rightarrow> denied))"

definition scope_key :: "open_exposure_reserve_input \<Rightarrow> string \<Rightarrow> string" where
  "scope_key i scope = key [ri_tenantId i, scope, ceilingScopeValue i scope, ri_currency i,
     ri_windowStart i, ri_windowEnd i]"

text \<open>The loop over \<open>SCOPES\<close> that collects the configured ceilings, or stops at a missing one.\<close>

fun applicable_ceilings :: "ledger \<Rightarrow> open_exposure_reserve_input \<Rightarrow> string list
    \<Rightarrow> open_exposure_ceiling list option" where
  "applicable_ceilings st i [] = Some []"
| "applicable_ceilings st i (scope # scopes) =
     (case map_get (ceilingsByScope st) (scope_key i scope) of
        None \<Rightarrow> None
      | Some c \<Rightarrow> map_option (Cons c) (applicable_ceilings st i scopes))"

definition same_window :: "open_exposure_record \<Rightarrow> string \<Rightarrow> string \<Rightarrow> string \<Rightarrow> string \<Rightarrow> bool" where
  "same_window r tenant cur ws we \<longleftrightarrow> tenantId r = tenant \<and> currency r = cur
     \<and> windowStart r = ws \<and> windowEnd r = we"

definition in_scope :: "open_exposure_ceiling_input \<Rightarrow> open_exposure_record \<Rightarrow> bool" where
  "in_scope c r \<longleftrightarrow> (if ci_scope c = ''TENANT'' then True
     else if ci_scope c = ''PROGRAM'' then programId r = ci_scopeValue c
     else if ci_scope c = ''COUNTERPARTY'' then counterpartyId r = ci_scopeValue c
     else actionClass r = ci_scopeValue c)"

definition open_for :: "ledger \<Rightarrow> open_exposure_reserve_input \<Rightarrow> open_exposure_record list" where
  "open_for st i = filter (\<lambda>r. same_window r (ri_tenantId i) (ri_currency i) (ri_windowStart i)
      (ri_windowEnd i) \<and> isOpen r) (map_values (records st))"

definition used_in_scope :: "ledger \<Rightarrow> open_exposure_reserve_input \<Rightarrow> open_exposure_ceiling_input \<Rightarrow> int" where
  "used_in_scope st i c = sum_where (in_scope c) amountMinor (open_for st i)"

definition ceiling_admits :: "ledger \<Rightarrow> open_exposure_reserve_input \<Rightarrow> open_exposure_ceiling \<Rightarrow> bool" where
  "ceiling_admits st i c = (let used = used_in_scope st i (ceilingInput c);
       lim = ci_limitMinor (ceilingInput c)
     in \<not> (used > lim \<or> ri_amountMinor i > lim - used))"

definition new_record :: "hash \<Rightarrow> open_exposure_reserve_input \<Rightarrow> open_exposure_ceiling list
    \<Rightarrow> open_exposure_record" where
  "new_record sha i cs = makeRecord sha
     \<lparr>tenantId = ri_tenantId i, exposureId = ri_exposureId i,
      operationTokenDigest = tokenDigest sha (ri_operationToken i),
      reservationDigest = reservation_digest sha i, programId = ri_programId i,
      binding = ri_binding i, counterpartyId = ri_counterpartyId i, actionClass = ri_actionClass i,
      amountMinor = ri_amountMinor i, currency = ri_currency i, windowStart = ri_windowStart i,
      windowEnd = ri_windowEnd i, reservedAt = ri_reservedAt i, invokeBy = ri_invokeBy i,
      reconcileBy = ri_reconcileBy i, originAuthorityId = ri_originAuthorityId i,
      executorAuthorityId = ri_executorAuthorityId i,
      reconciliationAuthorityId = ri_reconciliationAuthorityId i,
      reservationEvidenceDigest = ri_reservationEvidenceDigest i,
      ceilingDigests = sort (map ceilingDigest cs), revision = 0, status = RESERVED,
      invokedAt = None, invocationPermitDigest = None, indeterminateEvidenceDigest = None,
      reconciliationOutcome = None, reconciliationEvidenceDigest = None,
      lastChangedAt = ri_reservedAt i, predecessorRecordDigest = None, recordDigest = []\<rparr>"

definition reserve_locked :: "hash \<Rightarrow> open_exposure_reserve_input \<Rightarrow> ledger
    \<Rightarrow> (open_exposure_record \<times> bool) ledger_outcome \<times> ledger" where
  "reserve_locked sha i st = (let
       opDigest = tokenDigest sha (ri_operationToken i); resDigest = reservation_digest sha i;
       operationKey = key [ri_tenantId i, opDigest]; recordKey = key [ri_tenantId i, ri_exposureId i]
     in case map_get (operations st) operationKey of
        Some (d, r) \<Rightarrow> (if d = resDigest then Ok (r, True) else Refuse Operation_token_conflict, st)
      | None \<Rightarrow>
          if map_has (records st) recordKey then (Refuse Exposure_exists, st)
          else (case applicable_ceilings st i SCOPES of
             None \<Rightarrow> (Refuse Ceiling_not_configured, st)
           | Some cs \<Rightarrow>
               if \<not> list_all (ceiling_admits st i) cs then (Refuse Ceiling_exceeded, st)
               else (let r = new_record sha i cs in
                 (Ok (r, False),
                  appendHistory sha r EV_RESERVED (ri_reservationEvidenceDigest i) (ri_reservedAt i)
                    (st\<lparr>records := map_set recordKey r (records st),
                       operations := map_set operationKey (resDigest, r) (operations st)\<rparr>)))))"

subsection \<open>\<open>beginInvocation\<close>\<close>

text \<open>
  The entry part common to the three operations on an existing record: after the input checks, the
  caller must hold the role, and the record's own authority when there is a record.
\<close>

definition enter_existing :: "authenticator \<Rightarrow> check list \<Rightarrow> open_exposure_reference \<Rightarrow> string
    \<Rightarrow> (open_exposure_record \<Rightarrow> string) \<Rightarrow> open_exposure_auth \<Rightarrow> ledger \<Rightarrow> unit ledger_outcome" where
  "enter_existing authn checks ref expectedRole authorityOf auth st = (case run_checks checks of
       Some e \<Rightarrow> Throw e
     | None \<Rightarrow> (case recordFor st ref of
          None \<Rightarrow> (case authenticated authn (ref_tenantId ref) auth expectedRole None of
                     Ok _ \<Rightarrow> Refuse Exposure_not_found | denied \<Rightarrow> denied)
        | Some initial \<Rightarrow>
            authenticated authn (ref_tenantId ref) auth expectedRole (Some (authorityOf initial))))"

definition beginInvocation_enter :: "authenticator \<Rightarrow> open_exposure_begin_input
    \<Rightarrow> open_exposure_auth \<Rightarrow> ledger \<Rightarrow> unit ledger_outcome" where
  "beginInvocation_enter authn i auth st = enter_existing authn
     (validateReference (bi_ref i) @ [(OPERATION_TOKEN (bi_operationToken i), ''invalid_operation_token'')]
      @ validateInvocationBinding (bi_binding i))
     (bi_ref i) ''EXECUTOR'' executorAuthorityId auth st"

definition begin_update :: "hash \<Rightarrow> string \<Rightarrow> string \<Rightarrow> open_exposure_record \<Rightarrow> open_exposure_record" where
  "begin_update sha at permit r = r\<lparr>status := INVOKING, invokedAt := Some at,
     invocationPermitDigest := Some (permitDigest sha r permit), lastChangedAt := at\<rparr>"

definition beginInvocation_locked :: "hash \<Rightarrow> string option \<Rightarrow> string \<Rightarrow> open_exposure_begin_input
    \<Rightarrow> ledger \<Rightarrow> (open_exposure_record \<times> string) ledger_outcome \<times> ledger" where
  "beginInvocation_locked sha reading random_hex i st = (case recordFor st (bi_ref i) of
       None \<Rightarrow> (Refuse Exposure_not_found, st)
     | Some current \<Rightarrow>
         if \<not> operationMatches sha current (bi_operationToken i) then (Refuse Operation_token_conflict, st)
         else if \<not> invocationBindingMatches current (bi_binding i) then (Refuse Immutable_binding_conflict, st)
         else if status current = INVOKING \<or> status current = INDETERMINATE
         then (Refuse Reconciliation_required, st)
         else if \<not> isOpen current then (Refuse Already_closed, st)
         else if status current \<noteq> RESERVED then (Refuse State_conflict, st)
         else (case trustedNow reading st of
            (Throw e, st') \<Rightarrow> (Throw e, st')
          | (Refuse e, st') \<Rightarrow> (Refuse e, st')
          | (Ok at, st') \<Rightarrow>
              if instant_ms at > instant_ms (invokeBy current)
                 \<or> instant_ms at > instant_ms (authorizationExpiresAt (binding current))
              then (Refuse Invocation_expired, st')
              else if instant_ms at < instant_ms (reservedAt current) then (Refuse State_conflict, st')
              else (let permit = ''open-exposure-invoke:v1:'' @ random_hex;
                        nxt = replaceRecord sha current (begin_update sha at permit)
                    in (Ok (nxt, permit),
                        put_record sha (bi_ref i) nxt EV_INVOKING (reservationEvidenceDigest current) at st'))))"

subsection \<open>\<open>markIndeterminate\<close>\<close>

definition markIndeterminate_enter :: "authenticator \<Rightarrow> open_exposure_indeterminate_input
    \<Rightarrow> open_exposure_auth \<Rightarrow> ledger \<Rightarrow> unit ledger_outcome" where
  "markIndeterminate_enter authn i auth st = enter_existing authn
     (validateReference (ii_ref i) @ [(OPERATION_TOKEN (ii_operationToken i), ''invalid_operation_token''),
        sha256 (ii_evidenceDigest i), instant (ii_observedAt i)])
     (ii_ref i) ''EXECUTOR'' executorAuthorityId auth st"

definition indeterminate_update :: "open_exposure_indeterminate_input \<Rightarrow> open_exposure_record
    \<Rightarrow> open_exposure_record" where
  "indeterminate_update i r = r\<lparr>status := INDETERMINATE,
     indeterminateEvidenceDigest := Some (ii_evidenceDigest i), lastChangedAt := ii_observedAt i\<rparr>"

definition markIndeterminate_locked :: "hash \<Rightarrow> open_exposure_indeterminate_input
    \<Rightarrow> ledger \<Rightarrow> (open_exposure_record \<times> bool) ledger_outcome \<times> ledger" where
  "markIndeterminate_locked sha i st = (case recordFor st (ii_ref i) of
       None \<Rightarrow> (Refuse Exposure_not_found, st)
     | Some current \<Rightarrow>
         if \<not> operationMatches sha current (ii_operationToken i) then (Refuse Operation_token_conflict, st)
         else if status current = INDETERMINATE
         then (if indeterminateEvidenceDigest current = Some (ii_evidenceDigest i)
                  \<and> lastChangedAt current = ii_observedAt i
               then Ok (current, True) else Refuse State_conflict, st)
         else if \<not> isOpen current then (Refuse Already_closed, st)
         else if status current \<noteq> INVOKING then (Refuse State_conflict, st)
         else if (case invokedAt current of None \<Rightarrow> False
                  | Some v \<Rightarrow> v \<noteq> [] \<and> instant_ms (ii_observedAt i) < instant_ms v)
         then (Refuse State_conflict, st)
         else (let nxt = replaceRecord sha current (indeterminate_update i)
               in (Ok (nxt, False),
                   put_record sha (ii_ref i) nxt EV_INDETERMINATE (ii_evidenceDigest i) (ii_observedAt i) st)))"

subsection \<open>\<open>reconcile\<close>\<close>

definition parse_outcome :: "string \<Rightarrow> open_exposure_reconciliation_outcome option" where
  "parse_outcome s = (if s = ''COMMITTED'' then Some COMMITTED
     else if s = ''PROVEN_NOT_COMMITTED'' then Some PROVEN_NOT_COMMITTED
     else if s = ''INDETERMINATE'' then Some OUTCOME_INDETERMINATE else None)"

definition reconcile_enter :: "authenticator \<Rightarrow> open_exposure_reconciliation_input
    \<Rightarrow> open_exposure_auth \<Rightarrow> ledger \<Rightarrow> unit ledger_outcome" where
  "reconcile_enter authn i auth st = enter_existing authn
     (validateReference (rc_ref i) @ [(OPERATION_TOKEN (rc_operationToken i), ''invalid_operation_token''),
        (RECONCILIATION_TOKEN (rc_reconciliationToken i), ''invalid_reconciliation_token''),
        (parse_outcome (rc_outcome i) \<noteq> None, ''invalid_outcome''),
        sha256 (rc_evidenceDigest i), instant (rc_observedAt i)])
     (rc_ref i) ''RECONCILER'' reconciliationAuthorityId auth st"

definition reconciliation_request_digest :: "hash \<Rightarrow> open_exposure_reconciliation_input \<Rightarrow> string" where
  "reconciliation_request_digest sha i = digest sha ''EP-OPEN-EXPOSURE-RECONCILIATION-v1'' (JObj [
     (''tenantId'', JStr (ref_tenantId (rc_ref i))), (''exposureId'', JStr (ref_exposureId (rc_ref i))),
     (''outcome'', JStr (rc_outcome i)), (''evidenceDigest'', JStr (rc_evidenceDigest i)),
     (''observedAt'', JStr (rc_observedAt i)),
     (''operationTokenDigest'', JStr (tokenDigest sha (rc_operationToken i))),
     (''reconciliationTokenDigest'', JStr (tokenDigest sha (rc_reconciliationToken i)))])"

fun closing_status :: "open_exposure_reconciliation_outcome \<Rightarrow> open_exposure_status" where
  "closing_status COMMITTED = CLOSED_COMMITTED"
| "closing_status PROVEN_NOT_COMMITTED = CLOSED_PROVEN_NOT_COMMITTED"
| "closing_status OUTCOME_INDETERMINATE = INDETERMINATE"

fun closing_event :: "open_exposure_reconciliation_outcome \<Rightarrow> open_exposure_history_event" where
  "closing_event COMMITTED = EV_CLOSED_COMMITTED"
| "closing_event PROVEN_NOT_COMMITTED = EV_CLOSED_PROVEN_NOT_COMMITTED"
| "closing_event OUTCOME_INDETERMINATE = EV_RECONCILED_INDETERMINATE"

definition reconcile_update :: "open_exposure_reconciliation_input \<Rightarrow>
    open_exposure_reconciliation_outcome \<Rightarrow> open_exposure_record \<Rightarrow> open_exposure_record" where
  "reconcile_update i out r = r\<lparr>status := closing_status out,
     indeterminateEvidenceDigest := (if out = OUTCOME_INDETERMINATE then Some (rc_evidenceDigest i)
       else indeterminateEvidenceDigest r),
     reconciliationOutcome := Some out,
     reconciliationEvidenceDigest := Some (rc_evidenceDigest i), lastChangedAt := rc_observedAt i\<rparr>"

definition reconcile_locked :: "hash \<Rightarrow> open_exposure_reconciliation_input
    \<Rightarrow> ledger \<Rightarrow> (open_exposure_record \<times> bool) ledger_outcome \<times> ledger" where
  "reconcile_locked sha i st = (let
       requestDigest = reconciliation_request_digest sha i;
       reconciliationKey = key [ref_tenantId (rc_ref i), tokenDigest sha (rc_reconciliationToken i)]
     in case map_get (reconciliationTokens st) reconciliationKey of
        Some (d, r) \<Rightarrow> (if d = requestDigest then Ok (r, True) else Refuse Reconciliation_token_conflict, st)
      | None \<Rightarrow> (case recordFor st (rc_ref i) of
          None \<Rightarrow> (Refuse Exposure_not_found, st)
        | Some current \<Rightarrow>
            if \<not> operationMatches sha current (rc_operationToken i) then (Refuse Operation_token_conflict, st)
            else if \<not> isOpen current then (Refuse Already_closed, st)
            else if instant_ms (rc_observedAt i) < instant_ms (lastChangedAt current)
            then (Refuse State_conflict, st)
            else (case parse_outcome (rc_outcome i) of
               None \<Rightarrow> (Throw ''invalid_outcome'', st)
             | Some out \<Rightarrow>
                 if out = COMMITTED \<and> status current = RESERVED then (Refuse State_conflict, st)
                 else if out = OUTCOME_INDETERMINATE \<and> status current = RESERVED
                 then (Refuse State_conflict, st)
                 else (let nxt = replaceRecord sha current (reconcile_update i out);
                           st1 = put_record sha (rc_ref i) nxt (closing_event out) (rc_evidenceDigest i)
                             (rc_observedAt i) st
                       in (Ok (nxt, False),
                           st1\<lparr>reconciliationTokens :=
                             map_set reconciliationKey (requestDigest, nxt) (reconciliationTokens st1)\<rparr>)))))"

subsection \<open>The operations of the interface\<close>

text \<open>The entry part, then, when it succeeds, the locked part on the state it finds.\<close>

definition exclusive :: "unit ledger_outcome \<Rightarrow> (ledger \<Rightarrow> 'a ledger_outcome \<times> ledger) \<Rightarrow> ledger
    \<Rightarrow> 'a ledger_outcome \<times> ledger" where
  "exclusive entered body st = (case entered of
       Throw e \<Rightarrow> (Throw e, st) | Refuse x \<Rightarrow> (Refuse x, st) | Ok _ \<Rightarrow> body st)"

definition registerCeiling :: "hash \<Rightarrow> authenticator \<Rightarrow> open_exposure_ceiling_input \<Rightarrow> open_exposure_auth
    \<Rightarrow> ledger \<Rightarrow> (open_exposure_ceiling \<times> bool) ledger_outcome \<times> ledger" where
  "registerCeiling sha authn i auth = exclusive (registerCeiling_enter authn i auth) (registerCeiling_locked sha i)"

definition reserve :: "hash \<Rightarrow> authenticator \<Rightarrow> open_exposure_reserve_input \<Rightarrow> open_exposure_auth
    \<Rightarrow> ledger \<Rightarrow> (open_exposure_record \<times> bool) ledger_outcome \<times> ledger" where
  "reserve sha authn i auth = exclusive (reserve_enter authn i auth) (reserve_locked sha i)"

definition beginInvocation :: "hash \<Rightarrow> authenticator \<Rightarrow> string option \<Rightarrow> string \<Rightarrow> open_exposure_begin_input
    \<Rightarrow> open_exposure_auth \<Rightarrow> ledger \<Rightarrow> (open_exposure_record \<times> string) ledger_outcome \<times> ledger" where
  "beginInvocation sha authn reading rnd i auth st =
     exclusive (beginInvocation_enter authn i auth st) (beginInvocation_locked sha reading rnd i) st"

definition markIndeterminate :: "hash \<Rightarrow> authenticator \<Rightarrow> open_exposure_indeterminate_input
    \<Rightarrow> open_exposure_auth \<Rightarrow> ledger \<Rightarrow> (open_exposure_record \<times> bool) ledger_outcome \<times> ledger" where
  "markIndeterminate sha authn i auth st =
     exclusive (markIndeterminate_enter authn i auth st) (markIndeterminate_locked sha i) st"

definition reconcile :: "hash \<Rightarrow> authenticator \<Rightarrow> open_exposure_reconciliation_input
    \<Rightarrow> open_exposure_auth \<Rightarrow> ledger \<Rightarrow> (open_exposure_record \<times> bool) ledger_outcome \<times> ledger" where
  "reconcile sha authn i auth st =
     exclusive (reconcile_enter authn i auth st) (reconcile_locked sha i) st"

subsection \<open>Queries\<close>

definition readExposure :: "authenticator \<Rightarrow> open_exposure_reference \<Rightarrow> open_exposure_auth \<Rightarrow> ledger
    \<Rightarrow> open_exposure_record option ledger_outcome" where
  "readExposure authn i auth st = (case run_checks (validateReference i) of
       Some e \<Rightarrow> Throw e
     | None \<Rightarrow> (case authenticated authn (ref_tenantId i) auth ''READER'' None of
          Ok _ \<Rightarrow> Ok (recordFor st i) | Refuse x \<Rightarrow> Refuse x | Throw e \<Rightarrow> Throw e))"

definition historyOf :: "authenticator \<Rightarrow> open_exposure_reference \<Rightarrow> open_exposure_auth \<Rightarrow> ledger
    \<Rightarrow> open_exposure_history_entry list ledger_outcome" where
  "historyOf authn i auth st = (case run_checks (validateReference i) of
       Some e \<Rightarrow> Throw e
     | None \<Rightarrow> (case authenticated authn (ref_tenantId i) auth ''READER'' None of
          Ok _ \<Rightarrow> Ok (history_at st (key [ref_tenantId i, ref_exposureId i]))
        | Refuse x \<Rightarrow> Refuse x | Throw e \<Rightarrow> Throw e))"

definition opt_identifier :: "string option \<Rightarrow> check" where
  "opt_identifier v = (case v of None \<Rightarrow> True | Some s \<Rightarrow> identifier_re s, ''invalid_identifier'')"

definition validateSum :: "open_exposure_sum_input \<Rightarrow> check list" where
  "validateSum i = [identifier_check (si_tenantId i), (CURRENCY (si_currency i), ''invalid_currency'')]
     @ validateWindow (si_windowStart i) (si_windowEnd i)
     @ [opt_identifier (si_programId i), opt_identifier (si_counterpartyId i),
        opt_identifier (si_actionClass i)]"

definition sum_selected :: "open_exposure_sum_input \<Rightarrow> open_exposure_record \<Rightarrow> bool" where
  "sum_selected i r \<longleftrightarrow> same_window r (si_tenantId i) (si_currency i) (si_windowStart i) (si_windowEnd i)
     \<and> (case si_programId i of None \<Rightarrow> True | Some p \<Rightarrow> programId r = p)
     \<and> (case si_counterpartyId i of None \<Rightarrow> True | Some p \<Rightarrow> counterpartyId r = p)
     \<and> (case si_actionClass i of None \<Rightarrow> True | Some p \<Rightarrow> actionClass r = p)
     \<and> isOpen r"

text \<open>One of the four Maps that the loop over the selected records fills.\<close>

fun breakdown :: "(open_exposure_record \<Rightarrow> string) \<Rightarrow> open_exposure_record list
    \<Rightarrow> (string, int) js_map \<Rightarrow> (string, int) js_map" where
  "breakdown f [] m = m"
| "breakdown f (r # rs) m = breakdown f rs
     (map_set (f r) ((case map_get m (f r) of None \<Rightarrow> 0 | Some a \<Rightarrow> a) + amountMinor r) m)"

definition sumOpen :: "authenticator \<Rightarrow> open_exposure_sum_input \<Rightarrow> open_exposure_auth \<Rightarrow> ledger
    \<Rightarrow> open_exposure_sum ledger_outcome" where
  "sumOpen authn i auth st = (case run_checks (validateSum i) of
       Some e \<Rightarrow> Throw e
     | None \<Rightarrow> (case authenticated authn (si_tenantId i) auth ''READER'' None of
          Refuse x \<Rightarrow> Refuse x | Throw e \<Rightarrow> Throw e
        | Ok _ \<Rightarrow> (let selected = filter (sum_selected i) (map_values (records st)) in
            Ok \<lparr>totalMinor = sum_list (map amountMinor selected),
                byProgram = addBreakdown (breakdown programId selected []),
                byCounterparty = addBreakdown (breakdown counterpartyId selected []),
                byActionClass = addBreakdown (breakdown actionClass selected []),
                byStatus = addBreakdown (breakdown (\<lambda>r. status_text (status r)) selected [])\<rparr>)))"

definition limit_check :: "js_number \<Rightarrow> check" where
  "limit_check l = (is_safe_integer l \<and> 1 \<le> num_val l \<and> num_val l \<le> 10000, ''invalid_limit'')"

definition listAging :: "authenticator \<Rightarrow> open_exposure_aging_input \<Rightarrow> open_exposure_auth \<Rightarrow> ledger
    \<Rightarrow> open_exposure_record list ledger_outcome" where
  "listAging authn i auth st = (case run_checks
       [(ai_minimumAgeMs i \<noteq> NonFinite \<and> ai_limit i \<noteq> NonFinite, ''invalid_number''),
        identifier_check (ai_tenantId i), instant (ai_asOf i),
        (is_safe_integer (ai_minimumAgeMs i) \<and> 0 \<le> num_val (ai_minimumAgeMs i), ''invalid_age''),
        limit_check (ai_limit i)] of
       Some e \<Rightarrow> Throw e
     | None \<Rightarrow> (case authenticated authn (ai_tenantId i) auth ''READER'' None of
          Refuse x \<Rightarrow> Refuse x | Throw e \<Rightarrow> Throw e
        | Ok _ \<Rightarrow> Ok (take (nat (num_val (ai_limit i)))
            (sort_key (\<lambda>r. (reservedAt r, exposureId r))
              (filter (\<lambda>r. tenantId r = ai_tenantId i \<and> isOpen r
                  \<and> instant_ms (ai_asOf i) - instant_ms (reservedAt r) \<ge> num_val (ai_minimumAgeMs i))
                (map_values (records st)))))))"

definition deadline :: "open_exposure_record \<Rightarrow> string" where
  "deadline r = (if status r = RESERVED then invokeBy r else reconcileBy r)"

definition listDeadlines :: "authenticator \<Rightarrow> open_exposure_deadline_input \<Rightarrow> open_exposure_auth
    \<Rightarrow> ledger \<Rightarrow> open_exposure_record list ledger_outcome" where
  "listDeadlines authn i auth st = (case run_checks
       [(di_limit i \<noteq> NonFinite, ''invalid_number''),
        identifier_check (di_tenantId i), instant (di_dueAtOrBefore i), limit_check (di_limit i)] of
       Some e \<Rightarrow> Throw e
     | None \<Rightarrow> (case authenticated authn (di_tenantId i) auth ''READER'' None of
          Refuse x \<Rightarrow> Refuse x | Throw e \<Rightarrow> Throw e
        | Ok _ \<Rightarrow> Ok (take (nat (num_val (di_limit i)))
            (sort_key (\<lambda>r. (deadline r, exposureId r))
              (filter (\<lambda>r. tenantId r = di_tenantId i \<and> isOpen r
                  \<and> instant_ms (deadline r) \<le> instant_ms (di_dueAtOrBefore i))
                (map_values (records st)))))))"

end
