(* ===== verification/Open_Exposure_Run.thy ===== *)
theory Open_Exposure_Run
  imports Open_Exposure
begin

section \<open>Runs of the open exposure ledger\<close>

text \<open>
  The concurrent behaviour of the ledger. A call first runs its entry part against the state it
  finds; when that succeeds it waits for the mutex; later, in any order and after any other calls,
  its locked part runs atomically. The invariants below hold in every state of every such run:
  no ceiling is ever exceeded by the open exposure in its scope, and the history of every exposure
  is a digest-chained run of the exposure life cycle that ends in the record's status.
\<close>

subsection \<open>Calls and their interleaving\<close>

datatype ledger_call =
    Call_ceiling open_exposure_ceiling_input
  | Call_reserve open_exposure_reserve_input
  | Call_begin open_exposure_begin_input
  | Call_mark open_exposure_indeterminate_input
  | Call_reconcile open_exposure_reconciliation_input

fun call_enter :: "authenticator \<Rightarrow> open_exposure_auth \<Rightarrow> ledger \<Rightarrow> ledger_call \<Rightarrow> unit ledger_outcome" where
  "call_enter authn auth st (Call_ceiling i) = registerCeiling_enter authn i auth"
| "call_enter authn auth st (Call_reserve i) = reserve_enter authn i auth"
| "call_enter authn auth st (Call_begin i) = beginInvocation_enter authn i auth st"
| "call_enter authn auth st (Call_mark i) = markIndeterminate_enter authn i auth st"
| "call_enter authn auth st (Call_reconcile i) = reconcile_enter authn i auth st"

fun call_locked :: "hash \<Rightarrow> string option \<Rightarrow> string \<Rightarrow> ledger_call \<Rightarrow> ledger \<Rightarrow> ledger" where
  "call_locked sha reading rnd (Call_ceiling i) st = snd (registerCeiling_locked sha i st)"
| "call_locked sha reading rnd (Call_reserve i) st = snd (reserve_locked sha i st)"
| "call_locked sha reading rnd (Call_begin i) st = snd (beginInvocation_locked sha reading rnd i st)"
| "call_locked sha reading rnd (Call_mark i) st = snd (markIndeterminate_locked sha i st)"
| "call_locked sha reading rnd (Call_reconcile i) st = snd (reconcile_locked sha i st)"

record ledger_system =
  led :: ledger
  waiting :: "(open_exposure_auth \<times> ledger_call) list"

inductive ledger_step :: "hash \<Rightarrow> authenticator \<Rightarrow> ledger_system \<Rightarrow> ledger_system \<Rightarrow> bool"
  for sha authn where
  enter: "call_enter authn auth (led s) c = Ok () \<Longrightarrow>
    ledger_step sha authn s (s\<lparr>waiting := (auth, c) # waiting s\<rparr>)"
| locked: "(auth, c) \<in> set (waiting s) \<Longrightarrow>
    ledger_step sha authn s
      \<lparr>led = call_locked sha reading rnd c (led s), waiting = remove1 (auth, c) (waiting s)\<rparr>"

inductive ledger_reachable :: "hash \<Rightarrow> authenticator \<Rightarrow> ledger_system \<Rightarrow> bool" for sha authn where
  start: "ledger_reachable sha authn \<lparr>led = empty_ledger, waiting = []\<rparr>"
| step: "ledger_reachable sha authn s \<Longrightarrow> ledger_step sha authn s t \<Longrightarrow> ledger_reachable sha authn t"

text \<open>Reachability from a given state, for claims about two moments of one run.\<close>

inductive ledger_steps :: "hash \<Rightarrow> authenticator \<Rightarrow> ledger_system \<Rightarrow> ledger_system \<Rightarrow> bool" for sha authn where
  none: "ledger_steps sha authn s s"
| more: "ledger_steps sha authn s t \<Longrightarrow> ledger_step sha authn t u \<Longrightarrow> ledger_steps sha authn s u"

subsection \<open>The life cycle of an exposure\<close>

text \<open>The abstract automaton: which event may follow in which status.\<close>

fun lifecycle_next :: "open_exposure_status option \<Rightarrow> open_exposure_history_event
    \<Rightarrow> open_exposure_status option" where
  "lifecycle_next None EV_RESERVED = Some RESERVED"
| "lifecycle_next (Some RESERVED) EV_INVOKING = Some INVOKING"
| "lifecycle_next (Some INVOKING) EV_INDETERMINATE = Some INDETERMINATE"
| "lifecycle_next (Some INVOKING) EV_RECONCILED_INDETERMINATE = Some INDETERMINATE"
| "lifecycle_next (Some INDETERMINATE) EV_RECONCILED_INDETERMINATE = Some INDETERMINATE"
| "lifecycle_next (Some INVOKING) EV_CLOSED_COMMITTED = Some CLOSED_COMMITTED"
| "lifecycle_next (Some INDETERMINATE) EV_CLOSED_COMMITTED = Some CLOSED_COMMITTED"
| "lifecycle_next (Some RESERVED) EV_CLOSED_PROVEN_NOT_COMMITTED = Some CLOSED_PROVEN_NOT_COMMITTED"
| "lifecycle_next (Some INVOKING) EV_CLOSED_PROVEN_NOT_COMMITTED = Some CLOSED_PROVEN_NOT_COMMITTED"
| "lifecycle_next (Some INDETERMINATE) EV_CLOSED_PROVEN_NOT_COMMITTED = Some CLOSED_PROVEN_NOT_COMMITTED"
| "lifecycle_next _ _ = None"

text \<open>An event list is a run when it replays to a status.\<close>

fun lifecycle :: "open_exposure_history_event list \<Rightarrow> open_exposure_status option" where
  "lifecycle [] = None"
| "lifecycle (e # es) = foldl (\<lambda>s e. case s of None \<Rightarrow> None | Some x \<Rightarrow> lifecycle_next (Some x) e)
     (lifecycle_next None e) es"

lemma lifecycle_snoc:
  "lifecycle es = Some s \<Longrightarrow> lifecycle (es @ [e]) = lifecycle_next (Some s) e"
  by (cases es) auto

lemma foldl_stuck: "foldl (\<lambda>s e. case s of None \<Rightarrow> None | Some x \<Rightarrow> lifecycle_next (Some x) e) None es = None"
  by (induction es) auto

lemma lifecycle_snocD:
  assumes "lifecycle (es @ [e]) = Some s" "es \<noteq> []"
  obtains s' where "lifecycle es = Some s'" "lifecycle_next (Some s') e = Some s"
proof -
  from assms obtain d ds where es: "es = d # ds" by (cases es) auto
  with assms show thesis by (auto intro: that split: option.splits)
qed

text \<open>At most one invocation, none while reserved; a commit needs one.\<close>

definition invocations :: "open_exposure_history_event list \<Rightarrow> nat" where
  "invocations es = length (filter (\<lambda>e. e = EV_INVOKING) es)"

lemma lifecycle_invocations:
  assumes "lifecycle es = Some s"
  shows "invocations es \<le> 1 \<and> (s = RESERVED \<longrightarrow> invocations es = 0)
    \<and> (s \<in> {INVOKING, INDETERMINATE, CLOSED_COMMITTED} \<longrightarrow> invocations es = 1)"
  using assms
proof (induction es arbitrary: s rule: rev_induct)
  case (snoc e es)
  show ?case
  proof (cases "es = []")
    case True
    with snoc.prems show ?thesis by (cases e) (auto simp: invocations_def)
  next
    case False
    from snoc.prems False obtain s' where s': "lifecycle es = Some s'"
      "lifecycle_next (Some s') e = Some s" by (rule lifecycle_snocD)
    from snoc.IH[OF s'(1)] s'(2) show ?thesis
      by (cases s'; cases e) (auto simp: invocations_def)
  qed
qed simp

lemma lifecycle_closed_final:
  "s \<in> {CLOSED_COMMITTED, CLOSED_PROVEN_NOT_COMMITTED} \<Longrightarrow> lifecycle_next (Some s) e = None"
  by (cases e) auto

subsection \<open>Well-formed contents\<close>

definition valid_ceiling :: "open_exposure_ceiling_input \<Rightarrow> bool" where
  "valid_ceiling c \<longleftrightarrow> run_checks (validateCeiling c) = None"

definition valid_record :: "open_exposure_record \<Rightarrow> bool" where
  "valid_record r \<longleftrightarrow> identifier_re (tenantId r) \<and> identifier_re (exposureId r)
     \<and> identifier_re (programId r) \<and> identifier_re (counterpartyId r) \<and> identifier_re (actionClass r)
     \<and> CURRENCY (currency r) \<and> iso_instant (windowStart r) \<noteq> None \<and> iso_instant (windowEnd r) \<noteq> None
     \<and> 0 < amountMinor r"

definition distinct_authorities :: "open_exposure_record \<Rightarrow> bool" where
  "distinct_authorities r \<longleftrightarrow> distinct [originAuthorityId r, executorAuthorityId r, reconciliationAuthorityId r]"

definition record_scope_key :: "open_exposure_record \<Rightarrow> string \<Rightarrow> string" where
  "record_scope_key r scope = key [tenantId r, scope,
     (if scope = ''TENANT'' then ''*'' else if scope = ''PROGRAM'' then programId r
      else if scope = ''COUNTERPARTY'' then counterpartyId r else actionClass r),
     currency r, windowStart r, windowEnd r]"

text \<open>The records a ceiling counts: the sum the code computes for it on every reservation.\<close>

definition counted :: "open_exposure_ceiling_input \<Rightarrow> open_exposure_record \<Rightarrow> bool" where
  "counted c r \<longleftrightarrow> same_window r (ci_tenantId c) (ci_currency c) (ci_windowStart c) (ci_windowEnd c)
     \<and> isOpen r \<and> in_scope c r"

definition open_exposure_in :: "ledger \<Rightarrow> open_exposure_ceiling_input \<Rightarrow> int" where
  "open_exposure_in st c = sum_where (counted c) amountMinor (map_values (records st))"

definition ceiling_inv :: "ledger \<Rightarrow> bool" where
  "ceiling_inv st \<longleftrightarrow>
     map_ok (records st)
     \<and> (\<forall>k c. map_get (ceilingsByScope st) k = Some c \<longrightarrow>
          k = ceilingScopeKey (ceilingInput c) \<and> valid_ceiling (ceilingInput c)
          \<and> open_exposure_in st (ceilingInput c) \<le> ci_limitMinor (ceilingInput c))
     \<and> (\<forall>k r. map_get (records st) k = Some r \<longrightarrow>
          k = record_key r \<and> valid_record r \<and> distinct_authorities r
          \<and> (\<forall>scope \<in> set SCOPES. map_get (ceilingsByScope st) (record_scope_key r scope) \<noteq> None))"

subsection \<open>Keys determine their parts\<close>

lemma currency_not_nul: "CURRENCY s \<Longrightarrow> CHR 0x00 \<notin> set s"
  by (auto simp: CURRENCY_def list_all_iff)

lemma digits_n_not_nul: "CHR 0x00 \<notin> set (digits_n k n)"
proof
  assume "CHR 0x00 \<in> set (digits_n k n)"
  then have "is_digit CHR 0x00" using digits_n_all[of k n] by (auto simp: list_all_iff)
  then show False by (simp add: char_class_defs)
qed

lemma year_text_not_nul: "CHR 0x00 \<notin> set (year_text y)"
  by (simp add: year_text_def digits_n_not_nul)

lemma to_iso_string_not_nul: "CHR 0x00 \<notin> set (to_iso_string t)"
  by (simp add: to_iso_string_def Let_def digits_n_not_nul year_text_not_nul del: digits_n.simps)

lemma instant_not_nul: "iso_instant s \<noteq> None \<Longrightarrow> CHR 0x00 \<notin> set s"
  by (auto simp: iso_instant_iff to_iso_string_not_nul)

lemma scope_not_nul: "s \<in> set SCOPES \<Longrightarrow> CHR 0x00 \<notin> set s"
  by (auto simp: SCOPES_def)

lemma valid_ceilingD:
  assumes "valid_ceiling c"
  shows "identifier_re (ci_tenantId c)" "identifier_re (ci_ceilingId c)" "ci_scope c \<in> set SCOPES"
    "ci_scope c = ''TENANT'' \<longleftrightarrow> ci_scopeValue c = ''*''"
    "ci_scope c \<noteq> ''TENANT'' \<Longrightarrow> identifier_re (ci_scopeValue c)"
    "CURRENCY (ci_currency c)" "iso_instant (ci_windowStart c) \<noteq> None"
    "iso_instant (ci_windowEnd c) \<noteq> None" "0 \<le> ci_limitMinor c"
  using assms
  by (auto simp: valid_ceiling_def validateCeiling_def validateWindow_def identifier_check_def
      instant_def nonNegativeBigInt_def SCOPES_def)

lemma ceiling_parts_not_nul:
  assumes "valid_ceiling c"
  shows "\<forall>x \<in> set [ci_tenantId c, ci_scope c, ci_scopeValue c, ci_currency c, ci_windowStart c,
    ci_windowEnd c]. CHR 0x00 \<notin> set x"
proof -
  note d = valid_ceilingD[OF assms]
  have "CHR 0x00 \<notin> set (ci_scopeValue c)"
    using d(4,5) identifier_re_not_nul[of "ci_scopeValue c"] by (cases "ci_scope c = ''TENANT''") auto
  with d show ?thesis
    using identifier_re_not_nul[of "ci_tenantId c"] scope_not_nul[of "ci_scope c"]
      currency_not_nul[of "ci_currency c"] instant_not_nul[of "ci_windowStart c"]
      instant_not_nul[of "ci_windowEnd c"] by simp
qed

lemma record_scope_parts_not_nul:
  assumes "valid_record r" "scope \<in> set SCOPES"
  shows "\<forall>x \<in> set [tenantId r, scope, (if scope = ''TENANT'' then ''*'' else if scope = ''PROGRAM''
      then programId r else if scope = ''COUNTERPARTY'' then counterpartyId r else actionClass r),
      currency r, windowStart r, windowEnd r]. CHR 0x00 \<notin> set x"
  using assms identifier_re_not_nul[of "tenantId r"] identifier_re_not_nul[of "programId r"]
    identifier_re_not_nul[of "counterpartyId r"] identifier_re_not_nul[of "actionClass r"]
    currency_not_nul[of "currency r"] instant_not_nul[of "windowStart r"]
    instant_not_nul[of "windowEnd r"] scope_not_nul[OF assms(2)]
  by (auto simp: valid_record_def)

text \<open>A record is counted by a ceiling exactly when it is open and its key for that scope is the ceiling's.\<close>

lemma counted_iff_key:
  assumes "valid_ceiling c" "valid_record r"
  shows "counted c r \<longleftrightarrow> isOpen r \<and> record_scope_key r (ci_scope c) = ceilingScopeKey c"
proof -
  note d = valid_ceilingD[OF assms(1)]
  have "record_scope_key r (ci_scope c) = ceilingScopeKey c \<longleftrightarrow>
    [tenantId r, ci_scope c, (if ci_scope c = ''TENANT'' then ''*'' else if ci_scope c = ''PROGRAM''
      then programId r else if ci_scope c = ''COUNTERPARTY'' then counterpartyId r else actionClass r),
      currency r, windowStart r, windowEnd r]
    = [ci_tenantId c, ci_scope c, ci_scopeValue c, ci_currency c, ci_windowStart c, ci_windowEnd c]"
    unfolding record_scope_key_def ceilingScopeKey_def key_def
    by (rule join_nul_inj[OF _ record_scope_parts_not_nul[OF assms(2) d(3)]
          ceiling_parts_not_nul[OF assms(1)]]) simp
  then show ?thesis using d(4)
    by (auto simp: counted_def same_window_def in_scope_def)
qed

lemma record_key_inj:
  assumes "valid_record r" "valid_record r'"
  shows "record_key r = record_key r' \<longleftrightarrow> tenantId r = tenantId r' \<and> exposureId r = exposureId r'"
proof -
  have "record_key r = record_key r' \<longleftrightarrow> [tenantId r, exposureId r] = [tenantId r', exposureId r']"
    unfolding record_key_def key_def
    using assms identifier_re_not_nul
    by (intro join_nul_inj) (auto simp: valid_record_def)
  then show ?thesis by simp
qed

subsection \<open>Frames\<close>

lemma appendHistory_frame [simp]:
  "records (appendHistory sha r e ev at st) = records st"
  "ceilingsByScope (appendHistory sha r e ev at st) = ceilingsByScope st"
  "ceilingsById (appendHistory sha r e ev at st) = ceilingsById st"
  "operations (appendHistory sha r e ev at st) = operations st"
  "reconciliationTokens (appendHistory sha r e ev at st) = reconciliationTokens st"
  "lastClockMs (appendHistory sha r e ev at st) = lastClockMs st"
  by (simp_all add: appendHistory_def Let_def)

lemma put_record_frame [simp]:
  "ceilingsByScope (put_record sha ref r e ev at st) = ceilingsByScope st"
  "records (put_record sha ref r e ev at st) =
     map_set (key [ref_tenantId ref, ref_exposureId ref]) r (records st)"
  "operations (put_record sha ref r e ev at st) = operations st"
  by (simp_all add: put_record_def)

lemma trustedNow_frame:
  assumes "trustedNow reading st = (res, st')"
  shows "records st' = records st" "ceilingsByScope st' = ceilingsByScope st"
    "operations st' = operations st" "histories st' = histories st"
    "reconciliationTokens st' = reconciliationTokens st"
  using assms by (auto simp: trustedNow_def split: option.splits if_splits)

lemma ceiling_inv_frame:
  "records st' = records st \<Longrightarrow> ceilingsByScope st' = ceilingsByScope st \<Longrightarrow>
   ceiling_inv st' \<longleftrightarrow> ceiling_inv st"
  by (simp add: ceiling_inv_def open_exposure_in_def)

lemma ceiling_inv_recordD:
  assumes "ceiling_inv st" "map_get (records st) k = Some r"
  shows "k = record_key r" "valid_record r" "distinct_authorities r"
    "scope \<in> set SCOPES \<Longrightarrow> map_get (ceilingsByScope st) (record_scope_key r scope) \<noteq> None"
  using assms by (auto simp: ceiling_inv_def)

lemma ceiling_inv_ceilingD:
  assumes "ceiling_inv st" "map_get (ceilingsByScope st) k = Some c"
  shows "k = ceilingScopeKey (ceilingInput c)" "valid_ceiling (ceilingInput c)"
    "open_exposure_in st (ceilingInput c) \<le> ci_limitMinor (ceilingInput c)"
  using assms by (auto simp: ceiling_inv_def)

subsection \<open>Every locked part keeps the ceilings\<close>

text \<open>What a transition of an existing record never changes.\<close>

definition same_terms :: "open_exposure_record \<Rightarrow> open_exposure_record \<Rightarrow> bool" where
  "same_terms r r' \<longleftrightarrow> tenantId r' = tenantId r \<and> exposureId r' = exposureId r
     \<and> operationTokenDigest r' = operationTokenDigest r \<and> reservationDigest r' = reservationDigest r
     \<and> programId r' = programId r \<and> binding r' = binding r
     \<and> counterpartyId r' = counterpartyId r \<and> actionClass r' = actionClass r
     \<and> amountMinor r' = amountMinor r \<and> currency r' = currency r
     \<and> windowStart r' = windowStart r \<and> windowEnd r' = windowEnd r \<and> reservedAt r' = reservedAt r
     \<and> invokeBy r' = invokeBy r \<and> reconcileBy r' = reconcileBy r
     \<and> originAuthorityId r' = originAuthorityId r \<and> executorAuthorityId r' = executorAuthorityId r
     \<and> reconciliationAuthorityId r' = reconciliationAuthorityId r
     \<and> reservationEvidenceDigest r' = reservationEvidenceDigest r
     \<and> ceilingDigests r' = ceilingDigests r"

lemma same_terms_refl: "same_terms r r"
  by (simp add: same_terms_def)

lemma same_terms_trans: "same_terms a b \<Longrightarrow> same_terms b c \<Longrightarrow> same_terms a c"
  by (simp add: same_terms_def)

lemma same_terms_props:
  assumes "same_terms r r'"
  shows "record_key r' = record_key r" "valid_record r' = valid_record r"
    "distinct_authorities r' = distinct_authorities r"
    "record_scope_key r' scope = record_scope_key r scope"
  using assms
  by (simp_all add: same_terms_def record_key_def valid_record_def distinct_authorities_def
      record_scope_key_def)

lemma replaceRecord_terms:
  "same_terms r (replaceRecord sha r (begin_update sha at permit))"
  "same_terms r (replaceRecord sha r (indeterminate_update ii))"
  "same_terms r (replaceRecord sha r (reconcile_update rc out))"
  by (simp_all add: same_terms_def replaceRecord_def makeRecord_def begin_update_def
      indeterminate_update_def reconcile_update_def)

lemma replaceRecord_status [simp]:
  "status (replaceRecord sha r f) = status (f r)"
  by (simp add: replaceRecord_def makeRecord_def)

lemma update_status [simp]:
  "status (begin_update sha at permit r) = INVOKING"
  "status (indeterminate_update ii r) = INDETERMINATE"
  "status (reconcile_update rc out r) = closing_status out"
  by (simp_all add: begin_update_def indeterminate_update_def reconcile_update_def)

lemma ceiling_inv_replace:
  assumes inv: "ceiling_inv st" and r: "map_get (records st) k = Some r" and "isOpen r"
    and terms: "same_terms r r'"
  shows "ceiling_inv (st\<lparr>records := map_set k r' (records st)\<rparr>)" (is "ceiling_inv ?st'")
proof -
  have "0 \<le> amountMinor r" using ceiling_inv_recordD(2)[OF inv r] by (simp add: valid_record_def)
  then have le: "open_exposure_in ?st' c \<le> open_exposure_in st c" for c
    using \<open>isOpen r\<close> terms
    by (auto simp: open_exposure_in_def sum_where_map_set[OF r] counted_def same_window_def
        in_scope_def same_terms_def)
  have rec: "k = record_key r' \<and> valid_record r' \<and> distinct_authorities r'
      \<and> (\<forall>scope \<in> set SCOPES. map_get (ceilingsByScope st) (record_scope_key r' scope) \<noteq> None)"
    using ceiling_inv_recordD[OF inv r] by (simp add: same_terms_props[OF terms])
  show ?thesis
    unfolding ceiling_inv_def
  proof (intro conjI allI impI)
    show "map_ok (records ?st')" using inv by (simp add: ceiling_inv_def)
  next
    fix k' c assume "map_get (ceilingsByScope ?st') k' = Some c"
    then have c: "map_get (ceilingsByScope st) k' = Some c" by simp
    note d = ceiling_inv_ceilingD[OF inv c]
    show "k' = ceilingScopeKey (ceilingInput c)" "valid_ceiling (ceilingInput c)" by (fact d)+
    show "open_exposure_in ?st' (ceilingInput c) \<le> ci_limitMinor (ceilingInput c)"
      using le d(3) by (rule order_trans)
  next
    fix k' x assume "map_get (records ?st') k' = Some x"
    then have x: "(if k' = k then Some r' else map_get (records st) k') = Some x" by simp
    have "k' = record_key x \<and> valid_record x \<and> distinct_authorities x
      \<and> (\<forall>scope \<in> set SCOPES. map_get (ceilingsByScope ?st') (record_scope_key x scope) \<noteq> None)"
    proof (cases "k' = k")
      case True
      with x rec show ?thesis by simp
    next
      case False
      with x have "map_get (records st) k' = Some x" by simp
      from ceiling_inv_recordD[OF inv this] show ?thesis by simp
    qed
    then show "k' = record_key x" "valid_record x" "distinct_authorities x"
      "\<forall>scope \<in> set SCOPES. map_get (ceilingsByScope ?st') (record_scope_key x scope) \<noteq> None"
      by simp_all
  qed
qed

lemma registerCeiling_inv [ep_inv]:
  assumes inv: "ceiling_inv st" and valid: "valid_ceiling i"
  shows "ceiling_inv (snd (registerCeiling_locked sha i st))"
proof (cases "map_get (ceilingsById st) (key [ci_tenantId i, ci_ceilingId i]) = None
    \<and> map_get (ceilingsByScope st) (ceilingScopeKey i) = None")
  case False
  then have "snd (registerCeiling_locked sha i st) = st"
    by (auto simp: registerCeiling_locked_def Let_def split: option.splits)
  with inv show ?thesis by simp
next
  case True
  define c where "c = make_ceiling sha i"
  have ci: "ceilingInput c = i" by (simp add: c_def make_ceiling_def)
  let ?st' = "snd (registerCeiling_locked sha i st)"
  have st': "records ?st' = records st"
    "ceilingsByScope ?st' = map_set (ceilingScopeKey i) c (ceilingsByScope st)"
    using True by (simp_all add: registerCeiling_locked_def Let_def c_def)
  have none: "\<not> counted i r" if "r \<in> set (map_values (records st))" for r
  proof
    assume counted: "counted i r"
    from that inv obtain k where r: "map_get (records st) k = Some r"
      by (auto simp: map_values_mem ceiling_inv_def)
    have "record_scope_key r (ci_scope i) = ceilingScopeKey i"
      using counted counted_iff_key[OF valid ceiling_inv_recordD(2)[OF inv r]] by simp
    with ceiling_inv_recordD(4)[OF inv r valid_ceilingD(3)[OF valid]] True show False by simp
  qed
  have zero: "open_exposure_in ?st' i = 0"
    using sum_where_cong[of "map_values (records st)" "counted i" "\<lambda>_. False" amountMinor amountMinor] none
    by (simp add: open_exposure_in_def st' sum_where_def)
  have same: "open_exposure_in ?st' x = open_exposure_in st x" for x
    by (simp add: open_exposure_in_def st')
  show ?thesis
    unfolding ceiling_inv_def
  proof (intro conjI allI impI)
    show "map_ok (records ?st')" using inv by (simp add: ceiling_inv_def st')
  next
    fix k x assume "map_get (ceilingsByScope ?st') k = Some x"
    then have x: "(if k = ceilingScopeKey i then Some c else map_get (ceilingsByScope st) k) = Some x"
      by (simp add: st')
    have "k = ceilingScopeKey (ceilingInput x) \<and> valid_ceiling (ceilingInput x)
      \<and> open_exposure_in ?st' (ceilingInput x) \<le> ci_limitMinor (ceilingInput x)"
    proof (cases "k = ceilingScopeKey i")
      case True
      with x have "x = c" by simp
      with True ci valid zero valid_ceilingD(9)[OF valid] show ?thesis by simp
    next
      case False
      with x have "map_get (ceilingsByScope st) k = Some x" by simp
      from ceiling_inv_ceilingD[OF inv this] show ?thesis by (simp add: same)
    qed
    then show "k = ceilingScopeKey (ceilingInput x)" "valid_ceiling (ceilingInput x)"
      "open_exposure_in ?st' (ceilingInput x) \<le> ci_limitMinor (ceilingInput x)" by simp_all
  next
    fix k x assume "map_get (records ?st') k = Some x"
    then have x: "map_get (records st) k = Some x" by (simp add: st')
    note d = ceiling_inv_recordD[OF inv x]
    show "k = record_key x" "valid_record x" "distinct_authorities x" by (fact d)+
    show "\<forall>scope \<in> set SCOPES. map_get (ceilingsByScope ?st') (record_scope_key x scope) \<noteq> None"
      using d(4) by (simp add: st')
  qed
qed

lemma applicable_ceilings_Some:
  assumes "applicable_ceilings st i scopes = Some cs" "scope \<in> set scopes"
  shows "\<exists>c \<in> set cs. map_get (ceilingsByScope st) (scope_key i scope) = Some c"
  using assms
proof (induction scopes arbitrary: cs)
  case (Cons a scopes)
  then obtain c ds where "map_get (ceilingsByScope st) (scope_key i a) = Some c" "cs = c # ds"
    "applicable_ceilings st i scopes = Some ds" by (auto split: option.splits)
  with Cons show ?case by (cases "scope = a") auto
qed simp

definition valid_reserve :: "open_exposure_reserve_input \<Rightarrow> bool" where
  "valid_reserve i \<longleftrightarrow> run_checks (validateReservation i) = None
     \<and> distinct [ri_originAuthorityId i, ri_executorAuthorityId i, ri_reconciliationAuthorityId i]"

lemma new_record_fields [simp]:
  "tenantId (new_record sha i cs) = ri_tenantId i" "exposureId (new_record sha i cs) = ri_exposureId i"
  "amountMinor (new_record sha i cs) = ri_amountMinor i" "status (new_record sha i cs) = RESERVED"
  "revision (new_record sha i cs) = 0" "binding (new_record sha i cs) = ri_binding i"
  "record_scope_key (new_record sha i cs) scope = scope_key i scope"
  "record_key (new_record sha i cs) = key [ri_tenantId i, ri_exposureId i]"
  by (simp_all add: new_record_def makeRecord_def record_scope_key_def scope_key_def
      ceilingScopeValue_def record_key_def)

lemma new_record_valid:
  assumes "valid_reserve i"
  shows "valid_record (new_record sha i cs)" "distinct_authorities (new_record sha i cs)"
  using assms
  by (auto simp: valid_reserve_def validateReservation_def validateWindow_def identifier_check_def
      instant_def positiveBigInt_def valid_record_def new_record_def makeRecord_def
      distinct_authorities_def Let_def)

text \<open>What a successful reservation found and what it leaves.\<close>

lemma reserve_locked_cases:
  obtains (kept) "snd (reserve_locked sha i st) = st"
    "\<forall>r. fst (reserve_locked sha i st) \<noteq> Ok (r, False)"
  | (reserved) cs where "map_get (operations st) (key [ri_tenantId i, tokenDigest sha (ri_operationToken i)]) = None"
    "map_get (records st) (key [ri_tenantId i, ri_exposureId i]) = None"
    "applicable_ceilings st i SCOPES = Some cs" "\<forall>c \<in> set cs. ceiling_admits st i c"
    "reserve_locked sha i st = (Ok (new_record sha i cs, False),
       appendHistory sha (new_record sha i cs) EV_RESERVED (ri_reservationEvidenceDigest i) (ri_reservedAt i)
         (st\<lparr>records := map_set (key [ri_tenantId i, ri_exposureId i]) (new_record sha i cs) (records st),
            operations := map_set (key [ri_tenantId i, tokenDigest sha (ri_operationToken i)])
              (reservation_digest sha i, new_record sha i cs) (operations st)\<rparr>))"
proof (cases "map_get (operations st) (key [ri_tenantId i, tokenDigest sha (ri_operationToken i)])")
  case (Some p)
  then show thesis by (intro kept) (auto simp: reserve_locked_def Let_def split: prod.splits)
next
  case None
  show thesis
  proof (cases "map_has (records st) (key [ri_tenantId i, ri_exposureId i])")
    case True
    with None show thesis by (intro kept) (simp_all add: reserve_locked_def Let_def)
  next
    case absent: False
    show thesis
    proof (cases "applicable_ceilings st i SCOPES")
      case c: None
      with None absent show thesis by (intro kept) (simp_all add: reserve_locked_def Let_def)
    next
      case (Some cs)
      show thesis
      proof (cases "list_all (ceiling_admits st i) cs")
        case True
        with None absent Some show thesis
          by (intro reserved[of cs]) (simp_all add: reserve_locked_def Let_def map_has_def list_all_iff)
      next
        case False
        with None absent Some show thesis by (intro kept) (simp_all add: reserve_locked_def Let_def)
      qed
    qed
  qed
qed

lemma used_in_scope_counted:
  assumes "counted c r" "tenantId r = ri_tenantId i" "currency r = ri_currency i"
    "windowStart r = ri_windowStart i" "windowEnd r = ri_windowEnd i"
  shows "used_in_scope st i c = open_exposure_in st c"
proof -
  have "sum_where (in_scope c) amountMinor (filter p xs) = sum_where (\<lambda>x. p x \<and> in_scope c x) amountMinor xs"
    for p xs by (induction xs) auto
  then show ?thesis
    using assms unfolding used_in_scope_def open_exposure_in_def open_for_def
    by (auto intro!: sum_where_cong simp: counted_def same_window_def)
qed

lemma reserve_inv [ep_inv]:
  assumes inv: "ceiling_inv st" and valid: "valid_reserve i"
  shows "ceiling_inv (snd (reserve_locked sha i st))"
proof (cases rule: reserve_locked_cases[of sha i st])
  case kept
  with inv show ?thesis by simp
next
  case (reserved cs)
  define r where "r = new_record sha i cs"
  let ?k = "key [ri_tenantId i, ri_exposureId i]"
  let ?st' = "snd (reserve_locked sha i st)"
  have st': "records ?st' = map_set ?k r (records st)" "ceilingsByScope ?st' = ceilingsByScope st"
    using reserved by (simp_all add: r_def)
  have r: "record_key r = ?k" "valid_record r" "distinct_authorities r" "amountMinor r = ri_amountMinor i"
    "record_scope_key r scope = scope_key i scope" for scope
    using new_record_valid[OF valid] by (simp_all add: r_def)
  have sum': "open_exposure_in ?st' c = open_exposure_in st c + (if counted c r then amountMinor r else 0)" for c
    by (simp add: open_exposure_in_def st' map_values_set_new[OF reserved(2)])
  show ?thesis
    unfolding ceiling_inv_def
  proof (intro conjI allI impI)
    show "map_ok (records ?st')" using inv by (simp add: ceiling_inv_def st')
  next
    fix k c assume "map_get (ceilingsByScope ?st') k = Some c"
    then have c: "map_get (ceilingsByScope st) k = Some c" by (simp add: st')
    note d = ceiling_inv_ceilingD[OF inv c]
    show "k = ceilingScopeKey (ceilingInput c)" "valid_ceiling (ceilingInput c)" by (fact d)+
    show "open_exposure_in ?st' (ceilingInput c) \<le> ci_limitMinor (ceilingInput c)"
    proof (cases "counted (ceilingInput c) r")
      case False
      then show ?thesis using d(3) by (simp add: sum')
    next
      case True
      have key: "scope_key i (ci_scope (ceilingInput c)) = k"
        using True counted_iff_key[OF d(2) r(2)] r(5) d(1) by simp
      obtain c' where c': "c' \<in> set cs" "map_get (ceilingsByScope st) k = Some c'"
        using applicable_ceilings_Some[OF reserved(3) valid_ceilingD(3)[OF d(2)]] key by metis
      have "c' = c" using c' c by simp
      then have "ceiling_admits st i c" using c' reserved(4) by simp
      moreover have "used_in_scope st i (ceilingInput c) = open_exposure_in st (ceilingInput c)"
        by (rule used_in_scope_counted[OF True]) (simp_all add: r_def new_record_def makeRecord_def)
      ultimately show ?thesis using True r(4) by (simp add: sum' ceiling_admits_def Let_def)
    qed
  next
    fix k x assume "map_get (records ?st') k = Some x"
    then have x: "(if k = ?k then Some r else map_get (records st) k) = Some x" by (simp add: st')
    have cfg: "map_get (ceilingsByScope st) (record_scope_key r scope) \<noteq> None" if "scope \<in> set SCOPES" for scope
      using applicable_ceilings_Some[OF reserved(3) that] r(5) by (metis option.distinct(1))
    have "k = record_key x \<and> valid_record x \<and> distinct_authorities x
      \<and> (\<forall>scope \<in> set SCOPES. map_get (ceilingsByScope ?st') (record_scope_key x scope) \<noteq> None)"
    proof (cases "k = ?k")
      case True
      with x r cfg show ?thesis by (simp add: st')
    next
      case False
      with x have "map_get (records st) k = Some x" by simp
      from ceiling_inv_recordD[OF inv this] show ?thesis by (simp add: st')
    qed
    then show "k = record_key x" "valid_record x" "distinct_authorities x"
      "\<forall>scope \<in> set SCOPES. map_get (ceilingsByScope ?st') (record_scope_key x scope) \<noteq> None"
      by simp_all
  qed
qed

subsection \<open>The effects a locked part can have\<close>

text \<open>
  A locked part leaves the records alone, registers a ceiling, adds one record, or moves one open
  record along the life cycle. The invariants are proved once, over these four effects.
\<close>

inductive ledger_effect :: "hash \<Rightarrow> ledger \<Rightarrow> ledger \<Rightarrow> bool" for sha where
  quiet: "records st' = records st \<Longrightarrow> histories st' = histories st \<Longrightarrow>
    ceilingsByScope st' = ceilingsByScope st \<Longrightarrow> ledger_effect sha st st'"
| ceiling: "valid_ceiling i \<Longrightarrow> ledger_effect sha st (snd (registerCeiling_locked sha i st))"
| reserved: "valid_reserve i \<Longrightarrow> fst (reserve_locked sha i st) = Ok (r, False) \<Longrightarrow>
    ledger_effect sha st (snd (reserve_locked sha i st))"
| moved: "recordFor st ref = Some cur \<Longrightarrow> isOpen cur \<Longrightarrow> nxt = replaceRecord sha cur f \<Longrightarrow>
    same_terms cur nxt \<Longrightarrow> lifecycle_next (Some (status cur)) e = Some (status nxt) \<Longrightarrow>
    (invocationPermitDigest nxt \<noteq> None \<longleftrightarrow> invocationPermitDigest cur \<noteq> None \<or> e = EV_INVOKING) \<Longrightarrow>
    records st' = map_set (key [ref_tenantId ref, ref_exposureId ref]) nxt (records st) \<Longrightarrow>
    histories st' = histories (appendHistory sha nxt e ev at st) \<Longrightarrow>
    ceilingsByScope st' = ceilingsByScope st \<Longrightarrow> ledger_effect sha st st'"

inductive_cases ledger_effectE: "ledger_effect sha st st'"

fun valid_call :: "ledger_call \<Rightarrow> bool" where
  "valid_call (Call_ceiling i) = valid_ceiling i"
| "valid_call (Call_reserve i) = valid_reserve i"
| "valid_call _ = True"

lemma histories_append_cong:
  assumes "histories st' = histories st"
  shows "histories (appendHistory sha r e ev at st') = histories (appendHistory sha r e ev at st)"
  using assms by (simp add: appendHistory_def history_at_def Let_def)

lemma histories_put_record:
  "histories (put_record sha ref r e ev at st) = histories (appendHistory sha r e ev at st)"
  unfolding put_record_def by (rule histories_append_cong) simp

text \<open>Inversion of the three transitions on an existing record.\<close>

lemma beginInvocation_cases:
  obtains (kept) "records (snd (beginInvocation_locked sha reading rnd i st)) = records st"
    "histories (snd (beginInvocation_locked sha reading rnd i st)) = histories st"
    "ceilingsByScope (snd (beginInvocation_locked sha reading rnd i st)) = ceilingsByScope st"
    "\<not> is_ok (fst (beginInvocation_locked sha reading rnd i st))"
  | (invoked) cur at st1 where "recordFor st (bi_ref i) = Some cur" "status cur = RESERVED"
    "operationMatches sha cur (bi_operationToken i)" "invocationBindingMatches cur (bi_binding i)"
    "trustedNow reading st = (Ok at, st1)"
    "instant_ms (reservedAt cur) \<le> instant_ms at" "instant_ms at \<le> instant_ms (invokeBy cur)"
    "instant_ms at \<le> instant_ms (authorizationExpiresAt (binding cur))"
    "beginInvocation_locked sha reading rnd i st =
      (let permit = ''open-exposure-invoke:v1:'' @ rnd;
           nxt = replaceRecord sha cur (begin_update sha at permit)
       in (Ok (nxt, permit), put_record sha (bi_ref i) nxt EV_INVOKING (reservationEvidenceDigest cur) at st1))"
proof (cases "recordFor st (bi_ref i)")
  case None
  then show thesis by (intro kept) (simp_all add: beginInvocation_locked_def)
next
  case (Some cur)
  show thesis
  proof (cases "operationMatches sha cur (bi_operationToken i) \<and> invocationBindingMatches cur (bi_binding i)
      \<and> status cur = RESERVED")
    case False
    with Some show thesis by (intro kept) (auto simp: beginInvocation_locked_def)
  next
    case True
    then have "isOpen cur" by (simp add: isOpen_def OPEN_STATUSES_def)
    obtain res st1 where now: "trustedNow reading st = (res, st1)" by fastforce
    note fr = trustedNow_frame[OF now]
    show thesis
    proof (cases res)
      case (Ok at)
      then show thesis
      proof (cases "instant_ms (reservedAt cur) \<le> instant_ms at \<and> instant_ms at \<le> instant_ms (invokeBy cur)
          \<and> instant_ms at \<le> instant_ms (authorizationExpiresAt (binding cur))")
        case t: True
        with Some True \<open>isOpen cur\<close> now Ok show thesis
          by (intro invoked[of cur at st1]) (simp_all add: beginInvocation_locked_def Let_def)
      next
        case f: False
        with Some True \<open>isOpen cur\<close> now Ok fr show thesis
          by (intro kept) (auto simp: beginInvocation_locked_def not_le)
      qed
    qed (use Some True \<open>isOpen cur\<close> now fr in \<open>intro kept; simp add: beginInvocation_locked_def\<close>)+
  qed
qed

lemma markIndeterminate_cases:
  obtains (kept) "snd (markIndeterminate_locked sha i st) = st"
  | (marked) cur where "recordFor st (ii_ref i) = Some cur" "status cur = INVOKING"
    "operationMatches sha cur (ii_operationToken i)"
    "markIndeterminate_locked sha i st =
      (let nxt = replaceRecord sha cur (indeterminate_update i)
       in (Ok (nxt, False), put_record sha (ii_ref i) nxt EV_INDETERMINATE (ii_evidenceDigest i)
            (ii_observedAt i) st))"
proof (cases "recordFor st (ii_ref i)")
  case None
  then show thesis by (intro kept) (simp add: markIndeterminate_locked_def)
next
  case (Some cur)
  show thesis
  proof (cases "operationMatches sha cur (ii_operationToken i) \<and> status cur = INVOKING
      \<and> \<not> (case invokedAt cur of None \<Rightarrow> False
                  | Some v \<Rightarrow> v \<noteq> [] \<and> instant_ms (ii_observedAt i) < instant_ms v)")
    case True
    with Some show thesis
      by (intro marked[of cur]) (simp_all add: markIndeterminate_locked_def isOpen_def OPEN_STATUSES_def)
  next
    case False
    with Some show thesis by (intro kept) (auto simp: markIndeterminate_locked_def)
  qed
qed

lemma reconcile_cases:
  obtains (kept) "snd (reconcile_locked sha i st) = st"
    "\<forall>r. fst (reconcile_locked sha i st) \<noteq> Ok (r, False)"
  | (reconciled) cur out st1 where "recordFor st (rc_ref i) = Some cur" "isOpen cur"
    "map_get (reconciliationTokens st)
       (key [ref_tenantId (rc_ref i), tokenDigest sha (rc_reconciliationToken i)]) = None"
    "operationMatches sha cur (rc_operationToken i)"
    "instant_ms (lastChangedAt cur) \<le> instant_ms (rc_observedAt i)"
    "parse_outcome (rc_outcome i) = Some out"
    "status cur = RESERVED \<Longrightarrow> out = PROVEN_NOT_COMMITTED"
    "st1 = put_record sha (rc_ref i) (replaceRecord sha cur (reconcile_update i out)) (closing_event out)
       (rc_evidenceDigest i) (rc_observedAt i) st"
    "reconcile_locked sha i st = (Ok (replaceRecord sha cur (reconcile_update i out), False),
       st1\<lparr>reconciliationTokens := map_set
         (key [ref_tenantId (rc_ref i), tokenDigest sha (rc_reconciliationToken i)])
         (reconciliation_request_digest sha i, replaceRecord sha cur (reconcile_update i out))
         (reconciliationTokens st1)\<rparr>)"
proof (cases "map_get (reconciliationTokens st)
    (key [ref_tenantId (rc_ref i), tokenDigest sha (rc_reconciliationToken i)])")
  case (Some p)
  then show thesis by (intro kept) (simp_all add: reconcile_locked_def Let_def split: prod.split)
next
  case tok: None
  show thesis
  proof (cases "recordFor st (rc_ref i)")
    case None
    with tok show thesis by (intro kept) (simp_all add: reconcile_locked_def Let_def)
  next
    case (Some cur)
    show thesis
    proof (cases "operationMatches sha cur (rc_operationToken i) \<and> isOpen cur
        \<and> instant_ms (lastChangedAt cur) \<le> instant_ms (rc_observedAt i)")
      case False
      with tok Some show thesis by (intro kept) (auto simp: reconcile_locked_def Let_def not_le)
    next
      case True
      show thesis
      proof (cases "parse_outcome (rc_outcome i)")
        case None
        with tok Some True show thesis by (intro kept) (simp_all add: reconcile_locked_def Let_def)
      next
        case out: (Some out)
        show thesis
        proof (cases "status cur = RESERVED \<and> out \<noteq> PROVEN_NOT_COMMITTED")
          case t: True
          have "out = COMMITTED \<or> out = OUTCOME_INDETERMINATE" using t by (cases out) auto
          with tok Some True out t show thesis
            by (intro kept) (elim disjE; simp add: reconcile_locked_def Let_def)+
        next
          case f: False
          then have ok: "\<not> (out = COMMITTED \<and> status cur = RESERVED)"
            "\<not> (out = OUTCOME_INDETERMINATE \<and> status cur = RESERVED)" by auto
          have res: "status cur = RESERVED \<Longrightarrow> out = PROVEN_NOT_COMMITTED" using f by blast
          have "reconcile_locked sha i st = (let nxt = replaceRecord sha cur (reconcile_update i out);
                 st1 = put_record sha (rc_ref i) nxt (closing_event out) (rc_evidenceDigest i) (rc_observedAt i) st
             in (Ok (nxt, False), st1\<lparr>reconciliationTokens := map_set
               (key [ref_tenantId (rc_ref i), tokenDigest sha (rc_reconciliationToken i)])
               (reconciliation_request_digest sha i, nxt) (reconciliationTokens st1)\<rparr>))"
            unfolding reconcile_locked_def Let_def tok Some option.case out
            using True ok by (simp only: if_False if_True not_le[symmetric] not_not simp_thms)
          then show thesis
            using True by (intro reconciled[OF Some _ tok _ _ out res refl]) (simp_all only: Let_def)
        qed
      qed
    qed
  qed
qed

subsection \<open>Locked parts have those effects\<close>

lemma permit_of_updates [simp]:
  "invocationPermitDigest (replaceRecord sha r (begin_update sha at permit)) = Some (permitDigest sha r permit)"
  "invocationPermitDigest (replaceRecord sha r (indeterminate_update ii)) = invocationPermitDigest r"
  "invocationPermitDigest (replaceRecord sha r (reconcile_update rc out)) = invocationPermitDigest r"
  by (simp_all add: replaceRecord_def makeRecord_def begin_update_def indeterminate_update_def
      reconcile_update_def)

lemma begin_effect: "ledger_effect sha st (snd (beginInvocation_locked sha reading rnd i st))"
proof (cases rule: beginInvocation_cases[where sha = sha and reading = reading and rnd = rnd and i = i and st = st])
  case kept
  then show ?thesis by (intro quiet)
next
  case (invoked cur at st1)
  note fr = trustedNow_frame[OF invoked(5)]
  show ?thesis
    unfolding invoked(9) Let_def snd_conv
    by (rule moved[OF invoked(1) _ refl replaceRecord_terms(1), where e = EV_INVOKING])
      (simp_all add: invoked(2) fr isOpen_def OPEN_STATUSES_def histories_put_record histories_append_cong[OF fr(4)])
qed

lemma mark_effect: "ledger_effect sha st (snd (markIndeterminate_locked sha i st))"
proof (cases rule: markIndeterminate_cases[where sha = sha and i = i and st = st])
  case kept
  then show ?thesis by (intro quiet) simp_all
next
  case (marked cur)
  show ?thesis
    unfolding marked(4) Let_def snd_conv
    by (rule moved[OF marked(1) _ refl replaceRecord_terms(2), where e = EV_INDETERMINATE])
      (simp_all add: marked(2) isOpen_def OPEN_STATUSES_def histories_put_record)
qed

lemma closing_lifecycle:
  assumes "isOpen r" "status r = RESERVED \<Longrightarrow> out = PROVEN_NOT_COMMITTED"
  shows "lifecycle_next (Some (status r)) (closing_event out) = Some (closing_status out)"
  using assms by (cases "status r"; cases out) (auto simp: isOpen_def OPEN_STATUSES_def)

lemma closing_event_not_invoking [simp]: "closing_event out \<noteq> EV_INVOKING"
  by (cases out) auto

lemma reconcile_effect: "ledger_effect sha st (snd (reconcile_locked sha i st))"
proof (cases rule: reconcile_cases[where sha = sha and i = i and st = st])
  case kept
  then show ?thesis by (intro quiet) simp_all
next
  case (reconciled cur out st1)
  show ?thesis
    unfolding reconciled(9) snd_conv
    by (rule moved[OF reconciled(1,2) refl replaceRecord_terms(3), where e = "closing_event out"])
      (simp_all add: reconciled(8) histories_put_record closing_lifecycle[OF reconciled(2,7)])
qed

lemma reserve_effect:
  assumes "valid_reserve i"
  shows "ledger_effect sha st (snd (reserve_locked sha i st))"
proof (cases rule: reserve_locked_cases[where sha = sha and i = i and st = st])
  case kept
  then show ?thesis by (intro quiet) simp_all
next
  case (reserved cs)
  show ?thesis by (rule ledger_effect.reserved[OF assms]) (simp add: reserved(5))
qed

lemma call_locked_effect:
  "valid_call c \<Longrightarrow> ledger_effect sha st (call_locked sha reading rnd c st)"
  by (cases c) (simp_all add: ceiling reserve_effect begin_effect mark_effect reconcile_effect)

subsection \<open>Calls that passed their entry part\<close>

lemma authenticated_Ok:
  "authenticated authn tenant auth r a = Ok () \<longleftrightarrow>
     run_checks (validateAuth auth) = None \<and> authn tenant auth = Some True \<and> role auth = r
     \<and> (case a of None \<Rightarrow> True | Some x \<Rightarrow> authorityId auth = x)"
  by (auto simp: authenticated_def simp del: run_checks_None split: option.splits)

lemma remdups_three: "length (remdups [a, b, c]) = 3 \<longleftrightarrow> distinct [a, b, c]"
  by (cases "a = b"; cases "a = c"; cases "b = c") simp_all

lemma enter_valid_ceiling: "registerCeiling_enter authn i auth = Ok () \<Longrightarrow> valid_ceiling i"
  unfolding registerCeiling_enter_def valid_ceiling_def
  by (cases "run_checks (validateCeiling i)") (simp_all del: run_checks_None)

lemma enter_valid_reserve: "reserve_enter authn i auth = Ok () \<Longrightarrow> valid_reserve i"
  unfolding reserve_enter_def valid_reserve_def remdups_three[symmetric]
  by (cases "run_checks (validateReservation i)";
      cases "authenticated authn (ri_tenantId i) auth ''ORIGIN'' (Some (ri_originAuthorityId i))")
    (simp_all del: run_checks_None remdups.simps split: if_splits)

lemma enter_valid: "call_enter authn auth st c = Ok () \<Longrightarrow> valid_call c"
  by (cases c) (simp_all add: enter_valid_ceiling enter_valid_reserve)

lemma waiting_valid:
  assumes "ledger_reachable sha authn s" "(auth, c) \<in> set (waiting s)"
  shows "valid_call c"
  using assms
proof (induction arbitrary: auth c rule: ledger_reachable.induct)
  case (step s t)
  from step.hyps(2) show ?case
  proof cases
    case (enter auth' c')
    with step show ?thesis by (auto dest: enter_valid)
  next
    case (locked auth' c' reading rnd)
    with step show ?thesis using notin_set_remove1 by (fastforce dest: set_remove1_subset[THEN subsetD])
  qed
qed simp

end
