(* ===== verification/Open_Exposure_Sample.thy ===== *)
theory Open_Exposure_Sample
  imports Open_Exposure_Run
begin

section \<open>A sample run of the ledger\<close>

text \<open>
  Four ceilings, one reservation, its invocation and its reconciliation, with a concrete digest
  function and authenticator: every step of the run is taken, so the statements about reachable
  states are not empty.
\<close>

subsection \<open>A sample run\<close>

definition sample_sha :: hash where "sample_sha s = replicate 64 CHR ''0''"
definition sample_authn :: authenticator where "sample_authn t a = Some (credential a = ''secret'')"
definition sample_digest :: string where "sample_digest = ''sha256:'' @ replicate 64 CHR ''a''"
definition sample_day :: "int \<Rightarrow> string" where "sample_day n = to_iso_string (n * 86400000)"

definition sample_binding :: open_exposure_invocation_binding where
  "sample_binding = \<lparr>programVersion = ''v1'', programSourceDigest = sample_digest, programDigest = sample_digest,
     caid = ''canactid:1:pay.1:jcs-sha256:'' @ replicate 43 CHR ''A'', actionDigest = sample_digest,
     admissionSnapshotDigest = sample_digest, authorizationDigest = sample_digest,
     authorizationExpiresAt = sample_day 20\<rparr>"

definition sample_ceiling :: "string \<Rightarrow> string \<Rightarrow> string \<Rightarrow> open_exposure_ceiling_input" where
  "sample_ceiling i scope v = \<lparr>ci_tenantId = ''acme'', ci_ceilingId = i, ci_scope = scope, ci_scopeValue = v,
     ci_currency = ''USD'', ci_windowStart = sample_day 1, ci_windowEnd = sample_day 30,
     ci_limitMinor = 1000, ci_policyDigest = sample_digest\<rparr>"

definition sample_reserve :: open_exposure_reserve_input where
  "sample_reserve = \<lparr>ri_binding = sample_binding, ri_tenantId = ''acme'', ri_exposureId = ''e1'',
     ri_operationToken = ''open-exposure-op:v1:'' @ replicate 32 CHR ''t'', ri_programId = ''prog'',
     ri_counterpartyId = ''bank'', ri_actionClass = ''wire'', ri_amountMinor = 700, ri_currency = ''USD'',
     ri_windowStart = sample_day 1, ri_windowEnd = sample_day 30, ri_reservedAt = sample_day 10,
     ri_invokeBy = sample_day 12, ri_reconcileBy = sample_day 14, ri_originAuthorityId = ''origin'',
     ri_executorAuthorityId = ''executor'', ri_reconciliationAuthorityId = ''reconciler'',
     ri_reservationEvidenceDigest = sample_digest\<rparr>"

definition sample_auth :: "string \<Rightarrow> string \<Rightarrow> open_exposure_auth" where
  "sample_auth r a = \<lparr>role = r, authorityId = a, credential = ''secret''\<rparr>"

definition sample_ref :: open_exposure_reference where
  "sample_ref = \<lparr>ref_tenantId = ''acme'', ref_exposureId = ''e1''\<rparr>"

definition sample_begin :: open_exposure_begin_input where
  "sample_begin = \<lparr>bi_ref = sample_ref, bi_binding = sample_binding, bi_operationToken = ri_operationToken sample_reserve\<rparr>"

definition sample_ceilings :: ledger where
  "sample_ceilings = fold (\<lambda>c. call_locked sample_sha None [] (Call_ceiling c))
     [sample_ceiling ''c1'' ''TENANT'' ''*'', sample_ceiling ''c2'' ''PROGRAM'' ''prog'',
      sample_ceiling ''c3'' ''COUNTERPARTY'' ''bank'', sample_ceiling ''c4'' ''ACTION_CLASS'' ''wire''] empty_ledger"

definition sample_reserved :: ledger where
  "sample_reserved = call_locked sample_sha None [] (Call_reserve sample_reserve) sample_ceilings"

lemma sample_instants:
  "-1000 \<le> n \<Longrightarrow> n \<le> 1000 \<Longrightarrow> iso_instant (sample_day n) = Some (n * 86400000)"
  by (simp add: sample_day_def iso_instant_iff max_time_def)

lemma split_on_rep: "c \<noteq> d \<Longrightarrow> split_on d (replicate n c) = [replicate n c]"
  by (induction n) auto

lemma sample_texts:
  "sha256_re sample_digest" "CURRENCY ''USD''" "caid_re (caid sample_binding)"
  "OPERATION_TOKEN (ri_operationToken sample_reserve)"
  "list_all identifier_re [''acme'', ''e1'', ''prog'', ''v1'', ''bank'', ''wire'', ''origin'', ''executor'',
    ''reconciler'', ''admin'', ''c1'', ''c2'', ''c3'', ''c4'']"
proof -
  show "CURRENCY ''USD''" by code_simp
  show "list_all identifier_re [''acme'', ''e1'', ''prog'', ''v1'', ''bank'', ''wire'', ''origin'', ''executor'',
    ''reconciler'', ''admin'', ''c1'', ''c2'', ''c3'', ''c4'']"
    by (simp add: identifier_re_def ident_char_def char_class_defs)
  show "caid_re (caid sample_binding)"
    by (simp add: caid_re_def sample_binding_def list_all_iff char_class_defs caid_segment_def caid_version_def split_on_rep)
  show "sha256_re sample_digest" by (simp add: sha256_re_def sample_digest_def list_all_iff char_class_defs)
  show "OPERATION_TOKEN (ri_operationToken sample_reserve)" 
    by (simp add: OPERATION_TOKEN_def token_re_def sample_reserve_def list_all_iff char_class_defs)
qed

lemma sample_auth_ok:
  "run_checks (validateAuth (sample_auth ''ORIGIN'' ''origin'')) = None"
  "run_checks (validateAuth (sample_auth ''POLICY_ADMIN'' ''admin'')) = None"
  "run_checks (validateAuth (sample_auth ''EXECUTOR'' ''executor'')) = None"
  "run_checks (validateAuth (sample_auth ''RECONCILER'' ''reconciler'')) = None"
  using sample_texts(5) by (simp_all add: sample_auth_def validateAuth_def identifier_check_def)

lemma sample_reserve_enter: "reserve_enter sample_authn sample_reserve (sample_auth ''ORIGIN'' ''origin'') = Ok ()"
proof -
  have "run_checks (validateReservation sample_reserve) = None"
    using sample_texts
    by (simp add: validateReservation_def validateWindow_def sample_reserve_def sample_binding_def
       identifier_check_def sha256_def instant_def instant_ms_def positiveBigInt_def sample_instants max_int64_def)
  moreover have "authenticated sample_authn ''acme'' (sample_auth ''ORIGIN'' ''origin'') ''ORIGIN'' (Some ''origin'') = Ok ()"
    using sample_auth_ok by (simp only: authenticated_Ok) (simp add: sample_authn_def sample_auth_def)
  ultimately show ?thesis
    by (simp add: reserve_enter_def del: run_checks_None) (simp add: sample_reserve_def)
qed

text \<open>A call that meets no other: entry and locked part in sequence.\<close>

lemma reachable_call:
  assumes "ledger_reachable sha authn \<lparr>led = st, waiting = []\<rparr>" "call_enter authn auth st c = Ok ()"
  shows "ledger_reachable sha authn \<lparr>led = call_locked sha reading rnd c st, waiting = []\<rparr>"
proof -
  have "ledger_reachable sha authn \<lparr>led = st, waiting = [(auth, c)]\<rparr>"
    using ledger_reachable.step[OF assms(1) ledger_step.enter[of authn auth _ c sha]] assms(2) by simp
  from ledger_reachable.step[OF this ledger_step.locked[of auth c _ sha authn reading rnd]]
  show ?thesis by simp
qed

lemma sample_ceiling_enter:
  assumes "(i, scope, v) \<in> set [(''c1'', ''TENANT'', ''*''), (''c2'', ''PROGRAM'', ''prog''),
    (''c3'', ''COUNTERPARTY'', ''bank''), (''c4'', ''ACTION_CLASS'', ''wire'')]"
  shows "call_enter sample_authn (sample_auth ''POLICY_ADMIN'' ''admin'') st (Call_ceiling (sample_ceiling i scope v)) = Ok ()"
proof -
  have "run_checks (validateCeiling (sample_ceiling i scope v)) = None"
    using assms sample_texts
    by (auto simp: validateCeiling_def validateWindow_def sample_ceiling_def SCOPES_def
       identifier_check_def sha256_def instant_def instant_ms_def nonNegativeBigInt_def sample_instants max_int64_def)
  moreover have "authenticated sample_authn ''acme'' (sample_auth ''POLICY_ADMIN'' ''admin'') ''POLICY_ADMIN'' None = Ok ()"
    using sample_auth_ok by (simp only: authenticated_Ok) (simp add: sample_authn_def sample_auth_def)
  ultimately show ?thesis
    by (simp add: registerCeiling_enter_def del: run_checks_None) (simp add: sample_ceiling_def)
qed

lemma sample_ceilings_reachable: "ledger_reachable sample_sha sample_authn \<lparr>led = sample_ceilings, waiting = []\<rparr>"
  unfolding sample_ceilings_def fold.simps comp_def id_def
  by (intro reachable_call[OF _ sample_ceiling_enter] ledger_reachable.start) simp_all

abbreviation sample_ceiling_key :: "string \<Rightarrow> string \<Rightarrow> string" where
  "sample_ceiling_key scope v \<equiv> key [''acme'', scope, v, ''USD'', sample_day 1, sample_day 30]"

lemma sample_ceilings_contents:
  "ceilingsByScope sample_ceilings =
    [(sample_ceiling_key ''TENANT'' ''*'', make_ceiling sample_sha (sample_ceiling ''c1'' ''TENANT'' ''*'')),
     (sample_ceiling_key ''PROGRAM'' ''prog'', make_ceiling sample_sha (sample_ceiling ''c2'' ''PROGRAM'' ''prog'')),
     (sample_ceiling_key ''COUNTERPARTY'' ''bank'', make_ceiling sample_sha (sample_ceiling ''c3'' ''COUNTERPARTY'' ''bank'')),
     (sample_ceiling_key ''ACTION_CLASS'' ''wire'', make_ceiling sample_sha (sample_ceiling ''c4'' ''ACTION_CLASS'' ''wire''))]"
  "records sample_ceilings = []" "operations sample_ceilings = []" "lastClockMs sample_ceilings = None"
  "reconciliationTokens sample_ceilings = []"
  by (simp_all add: sample_ceilings_def registerCeiling_locked_def Let_def empty_ledger_def
      ceilingScopeKey_def sample_ceiling_def key_def)

definition sample_record :: open_exposure_record where
  "sample_record = new_record sample_sha sample_reserve (map snd (ceilingsByScope sample_ceilings))"

lemma sample_reserve_locked:
  "fst (reserve_locked sample_sha sample_reserve sample_ceilings) = Ok (sample_record, False)"
proof -
  have "applicable_ceilings sample_ceilings sample_reserve SCOPES = Some (map snd (ceilingsByScope sample_ceilings))"
    by (simp add: SCOPES_def sample_ceilings_contents scope_key_def ceilingScopeValue_def sample_reserve_def key_def)
  moreover have "list_all (ceiling_admits sample_ceilings sample_reserve) (map snd (ceilingsByScope sample_ceilings))"
    by (simp add: sample_ceilings_contents ceiling_admits_def used_in_scope_def open_for_def make_ceiling_def
        sample_ceiling_def sample_reserve_def map_values_def)
  ultimately show ?thesis
    by (simp add: reserve_locked_def sample_ceilings_contents Let_def map_has_def sample_record_def)
qed

lemma sample_reserved_contents:
  "records sample_reserved = [(key [''acme'', ''e1''], sample_record)]
   \<and> ceilingsByScope sample_reserved = ceilingsByScope sample_ceilings \<and> lastClockMs sample_reserved = None
   \<and> reconciliationTokens sample_reserved = []"
proof (cases rule: reserve_locked_cases[of sample_sha sample_reserve sample_ceilings])
  case kept
  then show ?thesis using sample_reserve_locked by blast
next
  case (reserved cs)
  have "new_record sample_sha sample_reserve cs = sample_record"
    using reserved(5) sample_reserve_locked by simp
  then show ?thesis
    by (simp add: sample_reserved_def reserved(5) sample_ceilings_contents) (simp add: sample_reserve_def)
qed

lemma sample_reserved_reachable: "ledger_reachable sample_sha sample_authn \<lparr>led = sample_reserved, waiting = []\<rparr>"
  unfolding sample_reserved_def
  by (rule reachable_call[OF sample_ceilings_reachable, where auth = "sample_auth ''ORIGIN'' ''origin''"])
    (simp add: sample_reserve_enter)

definition sample_invoked :: ledger where
  "sample_invoked = call_locked sample_sha (Some (sample_day 11)) ''00ff'' (Call_begin sample_begin) sample_reserved"

definition sample_reconcile :: open_exposure_reconciliation_input where
  "sample_reconcile = \<lparr>rc_ref = sample_ref, rc_operationToken = ri_operationToken sample_reserve,
     rc_reconciliationToken = ''open-exposure-reconcile:v1:'' @ replicate 32 CHR ''r'',
     rc_outcome = ''COMMITTED'', rc_evidenceDigest = sample_digest, rc_observedAt = sample_day 13\<rparr>"

definition sample_closed :: ledger where
  "sample_closed = call_locked sample_sha None [] (Call_reconcile sample_reconcile) sample_invoked"

lemma sample_record_fields:
  "status sample_record = RESERVED" "executorAuthorityId sample_record = ''executor''"
  "reconciliationAuthorityId sample_record = ''reconciler''" "originAuthorityId sample_record = ''origin''"
  "amountMinor sample_record = 700" "binding sample_record = sample_binding"
  "invokeBy sample_record = sample_day 12" "reservedAt sample_record = sample_day 10"
  "operationTokenDigest sample_record = tokenDigest sample_sha (ri_operationToken sample_reserve)"
  "reservationEvidenceDigest sample_record = sample_digest"
  by (simp_all add: sample_record_def new_record_def makeRecord_def) (simp_all add: sample_reserve_def)

lemma sample_recordFor: "recordFor sample_reserved sample_ref = Some sample_record"
  by (simp add: recordFor_def sample_ref_def sample_reserved_contents)

lemma sample_begin_enter:
  "beginInvocation_enter sample_authn sample_begin (sample_auth ''EXECUTOR'' ''executor'') sample_reserved = Ok ()"
proof -
  have "run_checks (validateReference (bi_ref sample_begin)
      @ [(OPERATION_TOKEN (bi_operationToken sample_begin), ''invalid_operation_token'')]
      @ validateInvocationBinding (bi_binding sample_begin)) = None"
    using sample_texts
    by (simp add: validateReference_def validateInvocationBinding_def sample_begin_def sample_ref_def
        identifier_check_def sha256_def instant_def) (simp add: sample_binding_def sample_instants)
  moreover have "authenticated sample_authn ''acme'' (sample_auth ''EXECUTOR'' ''executor'') ''EXECUTOR'' (Some ''executor'') = Ok ()"
    using sample_auth_ok by (simp only: authenticated_Ok) (simp add: sample_authn_def sample_auth_def)
  ultimately show ?thesis
    by (simp add: beginInvocation_enter_def enter_existing_def sample_begin_def sample_recordFor
        sample_record_fields del: run_checks_None) (simp add: sample_ref_def)
qed

lemma sample_begin_locked:
  "beginInvocation_locked sample_sha (Some (sample_day 11)) ''00ff'' sample_begin sample_reserved =
    (let permit = ''open-exposure-invoke:v1:00ff'';
         nxt = replaceRecord sample_sha sample_record (begin_update sample_sha (sample_day 11) permit)
     in (Ok (nxt, permit), put_record sample_sha sample_ref nxt EV_INVOKING sample_digest (sample_day 11)
          (sample_reserved\<lparr>lastClockMs := Some (11 * 86400000)\<rparr>)))"
proof -
  have "trustedNow (Some (sample_day 11)) sample_reserved =
      (Ok (sample_day 11), sample_reserved\<lparr>lastClockMs := Some (11 * 86400000)\<rparr>)"
    by (simp add: trustedNow_def sample_instants sample_reserved_contents)
  moreover have "instant_ms (authorizationExpiresAt sample_binding) = 20 * 86400000"
    by (simp add: sample_binding_def instant_ms_def sample_instants)
  ultimately show ?thesis
    by (simp add: beginInvocation_locked_def sample_begin_def sample_recordFor sample_record_fields
        operationMatches_def invocationBindingMatches_def isOpen_def OPEN_STATUSES_def instant_ms_def
        sample_instants Let_def)
qed

lemma sample_invoked_reachable: "ledger_reachable sample_sha sample_authn \<lparr>led = sample_invoked, waiting = []\<rparr>"
  unfolding sample_invoked_def
  by (rule reachable_call[OF sample_reserved_reachable, where auth = "sample_auth ''EXECUTOR'' ''executor''"])
    (simp add: sample_begin_enter)

definition sample_invoked_record :: open_exposure_record where
  "sample_invoked_record = replaceRecord sample_sha sample_record
     (begin_update sample_sha (sample_day 11) ''open-exposure-invoke:v1:00ff'')"

lemma sample_invoked_contents:
  "recordFor sample_invoked sample_ref = Some sample_invoked_record"
  "reconciliationTokens sample_invoked = []"
proof -
  show "recordFor sample_invoked sample_ref = Some sample_invoked_record"
    by (simp add: sample_invoked_def sample_begin_locked sample_invoked_record_def Let_def recordFor_def)
  show "reconciliationTokens sample_invoked = []"
    by (simp add: sample_invoked_def sample_begin_locked Let_def put_record_def sample_reserved_contents)
qed

lemma sample_invoked_fields:
  "status sample_invoked_record = INVOKING" "reconciliationAuthorityId sample_invoked_record = ''reconciler''"
  "operationTokenDigest sample_invoked_record = tokenDigest sample_sha (ri_operationToken sample_reserve)"
  "lastChangedAt sample_invoked_record = sample_day 11"
  using sample_record_fields
  by (simp_all add: sample_invoked_record_def replaceRecord_def makeRecord_def begin_update_def)

lemma sample_reconcile_enter:
  "reconcile_enter sample_authn sample_reconcile (sample_auth ''RECONCILER'' ''reconciler'') sample_invoked = Ok ()"
proof -
  have "RECONCILIATION_TOKEN (rc_reconciliationToken sample_reconcile)"
    by (simp add: RECONCILIATION_TOKEN_def token_re_def sample_reconcile_def list_all_iff char_class_defs)
  then have "run_checks (validateReference (rc_ref sample_reconcile)
      @ [(OPERATION_TOKEN (rc_operationToken sample_reconcile), ''invalid_operation_token''),
        (RECONCILIATION_TOKEN (rc_reconciliationToken sample_reconcile), ''invalid_reconciliation_token''),
        (parse_outcome (rc_outcome sample_reconcile) \<noteq> None, ''invalid_outcome''),
        sha256 (rc_evidenceDigest sample_reconcile), instant (rc_observedAt sample_reconcile)]) = None"
    using sample_texts
    by (simp add: validateReference_def sample_reconcile_def sample_ref_def identifier_check_def sha256_def
        instant_def parse_outcome_def sample_instants)
  moreover have "authenticated sample_authn ''acme'' (sample_auth ''RECONCILER'' ''reconciler'') ''RECONCILER'' (Some ''reconciler'') = Ok ()"
    using sample_auth_ok by (simp only: authenticated_Ok) (simp add: sample_authn_def sample_auth_def)
  ultimately show ?thesis
    by (simp add: reconcile_enter_def enter_existing_def sample_reconcile_def sample_invoked_contents
        sample_invoked_fields del: run_checks_None) (simp add: sample_ref_def)
qed

definition sample_closed_record :: open_exposure_record where
  "sample_closed_record = replaceRecord sample_sha sample_invoked_record (reconcile_update sample_reconcile COMMITTED)"

lemma sample_reconcile_fields:
  "rc_ref sample_reconcile = sample_ref" "rc_operationToken sample_reconcile = ri_operationToken sample_reserve"
  "parse_outcome (rc_outcome sample_reconcile) = Some COMMITTED" "rc_observedAt sample_reconcile = sample_day 13"
  by (simp_all add: sample_reconcile_def parse_outcome_def)

lemma sample_reconcile_locked:
  "fst (reconcile_locked sample_sha sample_reconcile sample_invoked) = Ok (sample_closed_record, False)"
  "records (snd (reconcile_locked sample_sha sample_reconcile sample_invoked)) =
     map_set (key [''acme'', ''e1'']) sample_closed_record (records sample_invoked)"
  by (simp_all add: reconcile_locked_def sample_reconcile_fields sample_invoked_contents
      sample_invoked_fields operationMatches_def isOpen_def OPEN_STATUSES_def instant_ms_def
      sample_instants Let_def sample_closed_record_def) (simp add: sample_ref_def)

lemma sample_closed_contents: "recordFor sample_closed sample_ref = Some sample_closed_record"
  by (simp add: recordFor_def sample_closed_def sample_reconcile_locked sample_ref_def)

lemma sample_closed_reachable: "ledger_reachable sample_sha sample_authn \<lparr>led = sample_closed, waiting = []\<rparr>"
  unfolding sample_closed_def
  by (rule reachable_call[OF sample_invoked_reachable, where auth = "sample_auth ''RECONCILER'' ''reconciler''"])
    (simp add: sample_reconcile_enter)

end
