(* ===== verification/Open_Exposure_Safety.thy ===== *)
theory Open_Exposure_Safety
  imports Open_Exposure_Sample "HOL-Library.Multiset"
begin

section \<open>What every run of the ledger guarantees\<close>

text \<open>
  The ceiling invariant and the history invariant hold in every reachable state, a closed record
  never changes again, and the terms of an exposure are fixed by its reservation. The second half
  states what single calls need and return: the authority required, replays, and the totals of
  \<open>sumOpen\<close>.
\<close>

subsection \<open>Ceilings\<close>

lemma ceiling_inv_empty: "ceiling_inv empty_ledger"
  by (simp add: ceiling_inv_def empty_ledger_def)

lemma effect_ceiling_inv [ep_inv]:
  assumes "ledger_effect sha st st'" "ceiling_inv st"
  shows "ceiling_inv st'"
  using assms
proof (cases rule: ledger_effect.cases)
  case quiet
  then show ?thesis using ceiling_inv_frame[OF quiet(1,3)] assms(2) by blast
next
  case (moved ref cur nxt f e ev at)
  have r: "map_get (records st) (key [ref_tenantId ref, ref_exposureId ref]) = Some cur"
    using moved(1) by (simp add: recordFor_def)
  note inv' = ceiling_inv_replace[OF assms(2) r moved(2,4)]
  have "ceiling_inv st' = ceiling_inv (st\<lparr>records := map_set (key [ref_tenantId ref, ref_exposureId ref]) nxt (records st)\<rparr>)"
    by (rule ceiling_inv_frame) (simp_all add: moved(7,9))
  with inv' show ?thesis by simp
qed (simp_all add: registerCeiling_inv reserve_inv)

lemma reachable_ceiling_inv: "ledger_reachable sha authn s \<Longrightarrow> ceiling_inv (led s)"
proof (induction rule: ledger_reachable.induct)
  case start
  then show ?case by (simp add: ceiling_inv_empty)
next
  case (step s t)
  from step.hyps(2) show ?case
  proof cases
    case (enter auth c)
    with step.IH show ?thesis by simp
  next
    case (locked auth c reading rnd)
    from effect_ceiling_inv[OF call_locked_effect[OF waiting_valid[OF step.hyps(1) locked(2)]] step.IH]
    show ?thesis by (simp add: locked(1))
  qed
qed

subsection \<open>Histories\<close>

text \<open>Position, link and digest of every entry.\<close>

definition chained :: "hash \<Rightarrow> open_exposure_history_entry list \<Rightarrow> bool" where
  "chained sha h \<longleftrightarrow> (\<forall>n < length h.
     he_sequence (h ! n) = n
     \<and> he_predecessorEntryDigest (h ! n) = (if n = 0 then None else Some (he_entryDigest (h ! (n - 1))))
     \<and> he_entryDigest (h ! n) = digest sha ''EP-OPEN-EXPOSURE-HISTORY-ENTRY-v1'' (entryBody (h ! n)))"

definition about_exposure :: "open_exposure_record \<Rightarrow> open_exposure_history_entry \<Rightarrow> bool" where
  "about_exposure r e \<longleftrightarrow> he_tenantId e = tenantId r \<and> he_exposureId e = exposureId r \<and> he_binding e = binding r"

definition history_of :: "hash \<Rightarrow> open_exposure_record \<Rightarrow> open_exposure_history_entry list \<Rightarrow> bool" where
  "history_of sha r h \<longleftrightarrow> chained sha h \<and> length h = revision r + 1
     \<and> he_recordDigest (last h) = recordDigest r
     \<and> lifecycle (map he_event h) = Some (status r)
     \<and> list_all (about_exposure r) h
     \<and> (invocationPermitDigest r \<noteq> None \<longleftrightarrow> invocations (map he_event h) = 1)
     \<and> recordDigest r = digest sha ''EP-OPEN-EXPOSURE-RECORD-v1'' (recordBody r)"

definition history_inv :: "hash \<Rightarrow> ledger \<Rightarrow> bool" where
  "history_inv sha st \<longleftrightarrow> (\<forall>k. (case map_get (records st) k of
       None \<Rightarrow> map_get (histories st) k = None
     | Some r \<Rightarrow> map_get (histories st) k \<noteq> None \<and> history_of sha r (history_at st k)))"

lemma next_entry_fields [simp]:
  "he_sequence (next_entry sha r e ev at h) = length h"
  "he_event (next_entry sha r e ev at h) = e"
  "he_recordDigest (next_entry sha r e ev at h) = recordDigest r"
  "he_predecessorEntryDigest (next_entry sha r e ev at h) =
     (if h = [] then None else Some (he_entryDigest (last h)))"
  "he_entryDigest (next_entry sha r e ev at h) =
     digest sha ''EP-OPEN-EXPOSURE-HISTORY-ENTRY-v1'' (entryBody (next_entry sha r e ev at h))"
  "about_exposure r (next_entry sha r e ev at h)"
  by (simp_all add: next_entry_def make_entry_def entryBody_def about_exposure_def)

lemma chained_snoc: "chained sha h \<Longrightarrow> chained sha (h @ [next_entry sha r e ev at h])"
  unfolding chained_def
  by (auto simp: nth_append last_conv_nth less_Suc_eq simp del: next_entry_fields(5) intro: next_entry_fields(5))

lemma about_same_terms: "same_terms r r' \<Longrightarrow> about_exposure r' = about_exposure r"
  by (auto simp: same_terms_def about_exposure_def fun_eq_iff)

lemma makeRecord_digest [simp]:
  "recordDigest (makeRecord sha b) = digest sha ''EP-OPEN-EXPOSURE-RECORD-v1'' (recordBody (makeRecord sha b))"
  by (simp add: makeRecord_def recordBody_def)

lemma history_of_new:
  "history_of sha (new_record sha i cs) [next_entry sha (new_record sha i cs) EV_RESERVED ev at []]"
proof -
  have "recordDigest (new_record sha i cs) =
      digest sha ''EP-OPEN-EXPOSURE-RECORD-v1'' (recordBody (new_record sha i cs))"
    by (simp add: new_record_def)
  moreover have "invocationPermitDigest (new_record sha i cs) = None"
    by (simp add: new_record_def makeRecord_def)
  moreover have "chained sha ([] @ [next_entry sha (new_record sha i cs) EV_RESERVED ev at []])"
    by (rule chained_snoc) (simp add: chained_def)
  ultimately show ?thesis
    by (simp add: history_of_def invocations_def del: next_entry_fields(5))
qed

lemma replaceRecord_digest:
  "recordDigest (replaceRecord sha r f) =
     digest sha ''EP-OPEN-EXPOSURE-RECORD-v1'' (recordBody (replaceRecord sha r f))"
  "revision (replaceRecord sha r f) = revision r + 1"
  by (simp add: replaceRecord_def) (simp add: replaceRecord_def makeRecord_def)

lemma lifecycle_next_invoking: "lifecycle_next (Some s) EV_INVOKING = Some s' \<Longrightarrow> s = RESERVED"
  by (cases s) auto

lemma history_of_moved:
  assumes h: "history_of sha cur h" and nxt: "nxt = replaceRecord sha cur f" and terms: "same_terms cur nxt"
    and next_status: "lifecycle_next (Some (status cur)) e = Some (status nxt)"
    and permit: "invocationPermitDigest nxt \<noteq> None \<longleftrightarrow> invocationPermitDigest cur \<noteq> None \<or> e = EV_INVOKING"
  shows "history_of sha nxt (h @ [next_entry sha nxt e ev at h])"
proof -
  have life: "lifecycle (map he_event h) = Some (status cur)" using h by (simp add: history_of_def)
  have inv: "invocations (map he_event h @ [e]) = invocations (map he_event h) + (if e = EV_INVOKING then 1 else 0)"
    by (simp add: invocations_def)
  have zero: "e = EV_INVOKING \<Longrightarrow> invocations (map he_event h) = 0"
    using next_status lifecycle_next_invoking lifecycle_invocations[OF life] by blast
  have p: "invocationPermitDigest nxt \<noteq> None \<longleftrightarrow> invocations (map he_event h @ [e]) = 1"
    using h permit zero by (auto simp: history_of_def inv)
  have ab: "list_all (about_exposure nxt) (h @ [next_entry sha nxt e ev at h])"
    using h next_entry_fields(6)[of nxt sha e ev at h]
    by (simp add: history_of_def about_same_terms[OF terms])
  have rd: "recordDigest nxt = digest sha ''EP-OPEN-EXPOSURE-RECORD-v1'' (recordBody nxt)"
    "revision nxt = revision cur + 1"
    unfolding nxt by (rule replaceRecord_digest)+
  have "chained sha (h @ [next_entry sha nxt e ev at h])"
    using h chained_snoc by (simp add: history_of_def)
  then show ?thesis
    using h p ab lifecycle_snoc[OF life, of e] next_status rd
    by (simp add: history_of_def del: next_entry_fields(5))
qed

lemma history_at_append:
  "history_at (appendHistory sha r e ev at st) k = (if k = record_key r
     then history_at st k @ [next_entry sha r e ev at (history_at st k)] else history_at st k)"
  "map_get (histories (appendHistory sha r e ev at st)) k \<noteq> None \<longleftrightarrow>
     k = record_key r \<or> map_get (histories st) k \<noteq> None"
  by (auto simp: appendHistory_def history_at_def Let_def)

lemma history_at_cong: "histories st' = histories st \<Longrightarrow> history_at st' k = history_at st k"
  by (simp add: history_at_def)

text \<open>One record is stored under its key and one entry is appended to its history.\<close>

lemma history_inv_store:
  assumes inv: "history_inv sha st"
    and recs: "records st' = map_set (record_key r) r (records st)"
    and hist: "histories st' = histories (appendHistory sha r e ev at st)"
    and ok: "history_of sha r (history_at st (record_key r) @ [next_entry sha r e ev at (history_at st (record_key r))])"
  shows "history_inv sha st'"
  unfolding history_inv_def
proof
  fix k
  have at: "history_at st' k = history_at (appendHistory sha r e ev at st) k"
    using hist by (rule history_at_cong)
  show "case map_get (records st') k of None \<Rightarrow> map_get (histories st') k = None
     | Some r \<Rightarrow> map_get (histories st') k \<noteq> None \<and> history_of sha r (history_at st' k)"
  proof (cases "k = record_key r")
    case True
    have "map_get (histories st') k \<noteq> None" unfolding hist history_at_append(2) using True by simp
    moreover have "history_of sha r (history_at st' k)" 
      unfolding at history_at_append(1) using ok True by simp
    ultimately show ?thesis using True by (simp add: recs)
  next
    case False
    have "map_get (histories st') k = None \<longleftrightarrow> map_get (histories st) k = None"
      unfolding hist using history_at_append(2)[of sha r e ev at st k] False by blast
    with inv False show ?thesis
      by (auto simp: history_inv_def recs at history_at_append(1) dest: spec[of _ k] split: option.splits)
  qed
qed

lemma history_inv_at:
  assumes "history_inv sha st"
  shows "map_get (records st) k = None \<Longrightarrow> history_at st k = []"
    "map_get (records st) k = Some r \<Longrightarrow> history_of sha r (history_at st k)"
  using spec[OF assms[unfolded history_inv_def], of k] by (simp_all add: history_at_def)

lemma history_inv_frame:
  assumes "records st' = records st" "histories st' = histories st" "history_inv sha st"
  shows "history_inv sha st'"
  using assms(3) unfolding history_inv_def history_at_def assms(1,2) .

lemma effect_history_inv [ep_inv]:
  assumes eff: "ledger_effect sha st st'" and c: "ceiling_inv st" and inv: "history_inv sha st"
  shows "history_inv sha st'"
  using eff
proof (cases rule: ledger_effect.cases)
  case quiet
  then show ?thesis using inv by (blast dest: history_inv_frame)
next
  case (ceiling i)
  have "records st' = records st" "histories st' = histories st"
    by (auto simp: ceiling registerCeiling_locked_def Let_def split: option.splits)
  then show ?thesis using inv by (blast dest: history_inv_frame)
next
  case (reserved i r)
  show ?thesis
  proof (cases rule: reserve_locked_cases[of sha i st])
    case kept
    then show ?thesis using inv by (simp add: reserved(1))
  next
    case ok: (reserved cs)
    let ?r = "new_record sha i cs"
    have empty: "history_at st (record_key ?r) = []"
      using history_inv_at(1)[OF inv] ok(2) by simp
    show ?thesis
      unfolding reserved(1) ok(5) snd_conv
    proof (rule history_inv_store[OF inv _ histories_append_cong])
      show "history_of sha ?r (history_at st (record_key ?r) @ [next_entry sha ?r EV_RESERVED
          (ri_reservationEvidenceDigest i) (ri_reservedAt i) (history_at st (record_key ?r))])"
        unfolding empty append_Nil by (rule history_of_new)
    qed simp_all
  qed
next
  case (moved ref cur nxt f e ev at)
  have r: "map_get (records st) (key [ref_tenantId ref, ref_exposureId ref]) = Some cur"
    using moved(1) by (simp add: recordFor_def)
  have k: "key [ref_tenantId ref, ref_exposureId ref] = record_key nxt"
    using ceiling_inv_recordD(1)[OF c r] same_terms_props(1)[OF moved(4)] by simp
  have h: "history_of sha cur (history_at st (record_key nxt))"
    using history_inv_at(2)[OF inv r] by (simp add: k)
  show ?thesis
    by (rule history_inv_store[OF inv moved(7)[unfolded k] moved(8)])
      (rule history_of_moved[OF h moved(3,4,5,6)])
qed

lemma reachable_history_inv: "ledger_reachable sha authn s \<Longrightarrow> history_inv sha (led s)"
proof (induction rule: ledger_reachable.induct)
  case start
  then show ?case by (simp add: history_inv_def empty_ledger_def)
next
  case (step s t)
  from step.hyps(2) show ?case
  proof cases
    case (enter auth c)
    with step.IH show ?thesis by simp
  next
    case (locked auth c reading rnd)
    from effect_history_inv[OF call_locked_effect[OF waiting_valid[OF step.hyps(1) locked(2)]]
        reachable_ceiling_inv[OF step.hyps(1)] step.IH]
    show ?thesis by (simp add: locked(1))
  qed
qed

subsection \<open>Two moments of one run\<close>

definition evolves :: "open_exposure_record \<Rightarrow> open_exposure_record \<Rightarrow> bool" where
  "evolves r r' \<longleftrightarrow> same_terms r r' \<and> revision r \<le> revision r' \<and> (\<not> isOpen r \<longrightarrow> r' = r)
     \<and> (status r' = RESERVED \<longrightarrow> status r = RESERVED)"

lemma evolves_refl: "evolves r r"
  by (simp add: evolves_def same_terms_refl)

lemma evolves_trans: "evolves a b \<Longrightarrow> evolves b c \<Longrightarrow> evolves a c"
  unfolding evolves_def using same_terms_trans[of a b c] by auto

lemma lifecycle_next_not_reserved: "lifecycle_next (Some s) e \<noteq> Some RESERVED"
  by (cases s; cases e) auto

lemma effect_evolves:
  assumes eff: "ledger_effect sha st st'" and r: "map_get (records st) k = Some r"
  shows "\<exists>r'. map_get (records st') k = Some r' \<and> evolves r r'"
  using eff
proof (cases rule: ledger_effect.cases)
  case quiet
  then show ?thesis using r evolves_refl by auto
next
  case (ceiling i)
  have "records st' = records st"
    by (auto simp: ceiling registerCeiling_locked_def Let_def split: option.splits)
  then show ?thesis using r evolves_refl by auto
next
  case (reserved i r0)
  show ?thesis
  proof (cases rule: reserve_locked_cases[of sha i st])
    case kept
    then show ?thesis using r evolves_refl by (auto simp: reserved(1))
  next
    case ok: (reserved cs)
    then have "k \<noteq> key [ri_tenantId i, ri_exposureId i]" using r by auto
    then show ?thesis using r evolves_refl by (auto simp: reserved(1) ok(5))
  qed
next
  case (moved ref cur nxt f e ev at)
  let ?k = "key [ref_tenantId ref, ref_exposureId ref]"
  show ?thesis
  proof (cases "k = ?k")
    case True
    have "cur = r" using moved(1) r True by (simp add: recordFor_def)
    moreover have "status nxt \<noteq> RESERVED" using moved(5) lifecycle_next_not_reserved by metis
    moreover have "revision cur \<le> revision nxt" by (simp add: moved(3) replaceRecord_digest(2))
    ultimately have "evolves r nxt" using moved(2,4) by (simp add: evolves_def)
    then show ?thesis by (simp add: moved(7) True)
  next
    case False
    then show ?thesis using r evolves_refl by (auto simp: moved(7))
  qed
qed

lemma steps_reachable: "ledger_steps sha authn s t \<Longrightarrow> ledger_reachable sha authn s \<Longrightarrow> ledger_reachable sha authn t"
  by (induction rule: ledger_steps.induct) (auto intro: ledger_reachable.step)

lemma steps_evolve:
  assumes "ledger_steps sha authn s t" "ledger_reachable sha authn s" "map_get (records (led s)) k = Some r"
  shows "\<exists>r'. map_get (records (led t)) k = Some r' \<and> evolves r r'"
  using assms
proof (induction rule: ledger_steps.induct)
  case (none s)
  then show ?case using evolves_refl by auto
next
  case (more s t u)
  then obtain r1 where r1: "map_get (records (led t)) k = Some r1" "evolves r r1" by blast
  from more.hyps(2) show ?case
  proof cases
    case (enter auth c)
    with r1 show ?thesis by auto
  next
    case (locked auth c reading rnd)
    have reach: "ledger_reachable sha authn t" using more steps_reachable by blast
    from effect_evolves[OF call_locked_effect[OF waiting_valid[OF reach locked(2)]] r1(1), of sha reading rnd]
    obtain r2 where "map_get (records (led u)) k = Some r2" "evolves r1 r2" by (auto simp: locked(1))
    with r1(2) evolves_trans show ?thesis by blast
  qed
qed

subsection \<open>What a call needs and what it leaves\<close>

lemma exclusive_Ok:
  "fst (exclusive entered body st) = Ok x \<Longrightarrow> entered = Ok () \<and> exclusive entered body st = body st"
  by (cases entered) (simp_all add: exclusive_def)

lemma enter_existing_Ok:
  assumes "enter_existing authn checks ref expected authorityOf auth st = Ok ()"
  obtains r where "recordFor st ref = Some r" "authn (ref_tenantId ref) auth = Some True"
    "role auth = expected" "authorityId auth = authorityOf r" "run_checks checks = None"
  using assms unfolding enter_existing_def
  by (cases "run_checks checks"; cases "recordFor st ref")
    (auto simp: authenticated_Ok simp del: run_checks_None split: outcome.splits)

lemma invocationBindingMatches_eq: "invocationBindingMatches r b \<longleftrightarrow> b = binding r"
  by (cases b; cases "binding r") (auto simp: invocationBindingMatches_def)

lemma recordFor_put: "recordFor (put_record sha ref r e ev at st) ref = Some r"
  by (simp add: recordFor_def)

lemma reachable_record:
  assumes "ledger_reachable sha authn s" "recordFor (led s) ref = Some r"
  shows "valid_record r" "distinct_authorities r" "history_of sha r (history_at (led s) (record_key r))"
  using reachable_ceiling_inv[OF assms(1)] reachable_history_inv[OF assms(1)] assms(2)
    ceiling_inv_recordD[of "led s" _ r] history_inv_at(2)[of sha "led s" _ r]
  unfolding recordFor_def by metis+

lemma begin_needs_reserved:
  assumes "recordFor st (bi_ref i) = Some r" "status r \<noteq> RESERVED"
  shows "\<not> is_ok (fst (beginInvocation_locked sha reading rnd i st))"
  using assms
  by (cases rule: beginInvocation_cases[where sha = sha and reading = reading and rnd = rnd and i = i and st = st])
    auto

subsection \<open>Reservations\<close>

lemma used_in_scope_eq:
  assumes "ci_tenantId c = ri_tenantId i" "ci_currency c = ri_currency i"
    "ci_windowStart c = ri_windowStart i" "ci_windowEnd c = ri_windowEnd i"
  shows "used_in_scope st i c = open_exposure_in st c"
proof -
  have "sum_where (in_scope c) amountMinor (filter p xs) = sum_where (\<lambda>x. p x \<and> in_scope c x) amountMinor xs"
    for p xs by (induction xs) auto
  then show ?thesis
    using assms unfolding used_in_scope_def open_exposure_in_def open_for_def
    by (auto intro!: sum_where_cong simp: counted_def)
qed

lemma applicable_ceilings_mem:
  assumes "applicable_ceilings st i scopes = Some cs" "c \<in> set cs"
  shows "\<exists>scope \<in> set scopes. map_get (ceilingsByScope st) (scope_key i scope) = Some c"
  using assms
proof (induction scopes arbitrary: cs)
  case (Cons a scopes)
  then obtain d ds where "map_get (ceilingsByScope st) (scope_key i a) = Some d" "cs = d # ds"
    "applicable_ceilings st i scopes = Some ds" by (auto split: option.splits)
  with Cons show ?case by auto
qed simp

lemma applicable_ceiling_terms:
  assumes inv: "ceiling_inv st" and valid: "valid_reserve i" and scope: "scope \<in> set SCOPES"
    and c: "map_get (ceilingsByScope st) (scope_key i scope) = Some c"
  shows "used_in_scope st i (ceilingInput c) = open_exposure_in st (ceilingInput c)"
proof -
  note d = ceiling_inv_ceilingD[OF inv c]
  let ?r = "new_record (\<lambda>_. []) i []" and ?c = "ceilingInput c"
  have "key [tenantId ?r, scope, (if scope = ''TENANT'' then ''*'' else if scope = ''PROGRAM''
      then programId ?r else if scope = ''COUNTERPARTY'' then counterpartyId ?r else actionClass ?r),
      currency ?r, windowStart ?r, windowEnd ?r] = ceilingScopeKey ?c"
    using d(1) new_record_fields(7)[of "\<lambda>_. []" i "[]" scope] unfolding record_scope_key_def by simp
  then have "[tenantId ?r, scope, (if scope = ''TENANT'' then ''*'' else if scope = ''PROGRAM''
      then programId ?r else if scope = ''COUNTERPARTY'' then counterpartyId ?r else actionClass ?r),
      currency ?r, windowStart ?r, windowEnd ?r]
    = [ci_tenantId ?c, ci_scope ?c, ci_scopeValue ?c, ci_currency ?c, ci_windowStart ?c, ci_windowEnd ?c]"
    unfolding ceilingScopeKey_def key_def
    by (rule iffD1[OF join_nul_inj[OF _ record_scope_parts_not_nul[OF new_record_valid(1)[OF valid] scope]
          ceiling_parts_not_nul[OF d(2)]], rotated]) simp
  then show ?thesis
    by (intro used_in_scope_eq) (simp_all add: new_record_def makeRecord_def)
qed

text \<open>The recorded operations survive every later call.\<close>

lemma call_locked_operations:
  assumes "map_get (operations st) k = Some x"
  shows "map_get (operations (call_locked sha reading rnd c st)) k = Some x"
proof (cases c)
  case (Call_ceiling i)
  then show ?thesis using assms by (auto simp: registerCeiling_locked_def Let_def split: option.splits)
next
  case (Call_reserve i)
  then show ?thesis using assms by (cases rule: reserve_locked_cases[of sha i st]) auto
next
  case (Call_begin i)
  have "operations (snd (beginInvocation_locked sha reading rnd i st)) = operations st"
    by (auto simp: beginInvocation_locked_def trustedNow_def Let_def split: option.splits)
  then show ?thesis using assms Call_begin by simp
next
  case (Call_mark i)
  then show ?thesis using assms
    by (cases rule: markIndeterminate_cases[where sha = sha and i = i and st = st]) (auto simp: Let_def)
next
  case (Call_reconcile i)
  then show ?thesis using assms
    by (cases rule: reconcile_cases[where sha = sha and i = i and st = st]) auto
qed

lemma steps_operations:
  assumes "ledger_steps sha authn s t" "map_get (operations (led s)) k = Some x"
  shows "map_get (operations (led t)) k = Some x"
  using assms
proof (induction rule: ledger_steps.induct)
  case (more s t u)
  then have x: "map_get (operations (led t)) k = Some x" by simp
  from more.hyps(2) show ?case
    by cases (simp_all add: x call_locked_operations[OF x])
qed

subsection \<open>The totals of \<open>sumOpen\<close>\<close>

lemma breakdown_keys: "map_ok m \<Longrightarrow> map_ok (breakdown f rs m)"
  by (induction f rs m rule: breakdown.induct) simp_all

lemma breakdown_get:
  "(case map_get (breakdown f rs m) k of None \<Rightarrow> 0 | Some a \<Rightarrow> a) =
     (case map_get m k of None \<Rightarrow> 0 | Some a \<Rightarrow> a) + sum_where (\<lambda>r. f r = k) amountMinor rs"
  by (induction f rs m rule: breakdown.induct) (auto split: option.splits)

lemma sum_map_set_add:
  "sum_list (map snd (map_set k ((case map_get m k of None \<Rightarrow> 0 | Some a \<Rightarrow> a) + v) m)) =
     sum_list (map snd m) + (v :: int)"
  by (induction m) (auto split: option.splits)

lemma breakdown_total:
  "sum_list (map snd (breakdown f rs m)) = sum_list (map snd m) + sum_list (map amountMinor rs)"
  by (induction f rs m rule: breakdown.induct) (simp_all add: sum_map_set_add)

text \<open>What one breakdown promises over the selected records.\<close>

definition breaks_down :: "(open_exposure_record \<Rightarrow> string) \<Rightarrow> open_exposure_record list
    \<Rightarrow> (string \<times> int) list \<Rightarrow> bool" where
  "breaks_down f rs xs \<longleftrightarrow> sorted (map fst xs) \<and> distinct (map fst xs)
     \<and> (\<forall>(k, v) \<in> set xs. v = sum_where (\<lambda>r. f r = k) amountMinor rs)
     \<and> sum_list (map snd xs) = sum_list (map amountMinor rs)"

lemma sum_list_sort_key: "sum_list (map g (sort_key f xs)) = sum_list (map g (xs :: 'a list) :: int list)"
proof -
  have "sum_list (map g (sort_key f xs)) = sum_mset (image_mset g (mset (sort_key f xs)))"
    by (simp add: sum_mset_sum_list[symmetric] del: mset_sort)
  also have "\<dots> = sum_list (map g xs)" by (simp add: sum_mset_sum_list[symmetric])
  finally show ?thesis .
qed

lemma breaks_down_breakdown: "breaks_down f rs (addBreakdown (breakdown f rs []))"
proof -
  have ok: "distinct (map fst (breakdown f rs []))" by (rule breakdown_keys) simp
  have val: "v = sum_where (\<lambda>r. f r = k) amountMinor rs" if "(k, v) \<in> set (breakdown f rs [])" for k v
    using breakdown_get[of f rs "[]" k] map_of_is_SomeI[OF ok that] by simp
  have dist: "distinct (map fst (sort_key fst (breakdown f rs [])))"
  proof -
    have "mset (map fst (sort_key fst (breakdown f rs []))) = mset (map fst (breakdown f rs []))" by simp
    then show ?thesis using ok mset_eq_imp_distinct_iff by blast
  qed
  show ?thesis
    using val dist by (auto simp: breaks_down_def addBreakdown_def sum_list_sort_key breakdown_total)
qed

subsection \<open>Properties\<close>

text \<open>
  Property C3. In every state of every interleaving of calls, the open exposure that falls under a
  registered ceiling is at most the ceiling's limit (and never negative).
\<close>

theorem open_exposure_within_ceiling:
  assumes "ledger_reachable sha authn s" "map_get (ceilingsByScope (led s)) k = Some c"
  shows "0 \<le> open_exposure_in (led s) (ceilingInput c)
    \<and> open_exposure_in (led s) (ceilingInput c) \<le> ci_limitMinor (ceilingInput c)"
proof -
  note inv = reachable_ceiling_inv[OF assms(1)]
  have "0 \<le> open_exposure_in (led s) (ceilingInput c)"
    unfolding open_exposure_in_def
  proof (rule sum_where_nonneg)
    fix r assume "r \<in> set (map_values (records (led s)))"
    then obtain k where "map_get (records (led s)) k = Some r"
      using inv by (auto simp: map_values_mem ceiling_inv_def)
    then show "0 \<le> amountMinor r" using ceiling_inv_recordD(2)[OF inv] by (fastforce simp: valid_record_def)
  qed
  with ceiling_inv_ceilingD(3)[OF inv assms(2)] show ?thesis by simp
qed

theorem open_exposure_within_ceiling_witness:
  "open_exposure_in sample_reserved (sample_ceiling ''c2'' ''PROGRAM'' ''prog'') = 700
   \<and> open_exposure_in sample_reserved (sample_ceiling ''c2'' ''PROGRAM'' ''prog'') \<le> 1000"
proof -
  have "map_get (ceilingsByScope sample_reserved) (sample_ceiling_key ''PROGRAM'' ''prog'') =
      Some (make_ceiling sample_sha (sample_ceiling ''c2'' ''PROGRAM'' ''prog''))"
    by (simp add: sample_reserved_contents sample_ceilings_contents key_def)
  from open_exposure_within_ceiling[OF sample_reserved_reachable, simplified, OF this]
  have "open_exposure_in sample_reserved (sample_ceiling ''c2'' ''PROGRAM'' ''prog'') \<le> 1000"
    by (simp add: make_ceiling_def) (simp add: sample_ceiling_def)
  moreover have "counted (sample_ceiling ''c2'' ''PROGRAM'' ''prog'') sample_record"
    by (simp add: counted_def same_window_def in_scope_def isOpen_def OPEN_STATUSES_def sample_ceiling_def
        sample_record_def new_record_def makeRecord_def) (simp add: sample_reserve_def)
  ultimately show ?thesis
    by (simp add: open_exposure_in_def sample_reserved_contents map_values_def sample_record_fields)
qed

text \<open>
  Property C22. Every exposure of every reachable state has a history: its entries are numbered from 0 and
  linked by their digests, they all carry the exposure's identity and immutable binding, they replay
  through the life cycle to the record's status, the last one carries the record's digest, there
  is one more of them than the record's revision, and a permit digest is stored exactly when the
  history has an invocation.
\<close>

theorem exposure_history_faithful:
  assumes "ledger_reachable sha authn s" "recordFor (led s) ref = Some r"
  shows "history_of sha r (history_at (led s) (key [ref_tenantId ref, ref_exposureId ref]))"
  using history_inv_at(2)[OF reachable_history_inv[OF assms(1)]] assms(2) by (simp add: recordFor_def)

theorem exposure_history_faithful_witness:
  "history_of sample_sha sample_closed_record (history_at sample_closed (key [''acme'', ''e1'']))
   \<and> status sample_closed_record = CLOSED_COMMITTED"
  using exposure_history_faithful[OF sample_closed_reachable, simplified, OF sample_closed_contents]
  by (simp add: sample_ref_def) (simp add: sample_closed_record_def)

text \<open>
  Property C8. Once an exposure has left \<open>RESERVED\<close>, no later call obtains an invocation permit for it,
  whatever is called in between and by whom: a provider is entered at most once per reservation.
\<close>

theorem permit_issued_once:
  assumes "ledger_reachable sha authn s" "recordFor (led s) (bi_ref i) = Some r" "status r \<noteq> RESERVED"
    and "ledger_steps sha authn s t"
  shows "\<not> is_ok (fst (beginInvocation sha authn reading rnd i auth (led t)))"
proof
  assume "is_ok (fst (beginInvocation sha authn reading rnd i auth (led t)))"
  then have ok: "is_ok (fst (beginInvocation_locked sha reading rnd i (led t)))"
    by (auto simp: beginInvocation_def exclusive_def split: outcome.splits)
  obtain r' where "recordFor (led t) (bi_ref i) = Some r'" "evolves r r'"
    using steps_evolve[OF assms(4,1)] assms(2) unfolding recordFor_def by blast
  then show False using begin_needs_reserved ok assms(3) by (fastforce simp: evolves_def)
qed

theorem permit_issued_once_witness:
  "\<not> is_ok (fst (beginInvocation sample_sha sample_authn (Some (sample_day 11)) ''01'' sample_begin
     (sample_auth ''EXECUTOR'' ''executor'') sample_invoked))"
  using permit_issued_once[OF sample_invoked_reachable _ _ ledger_steps.none, of sample_begin sample_invoked_record]
    sample_invoked_contents sample_invoked_fields by (simp add: sample_begin_def)

text \<open>
  Between any two moments of a run an exposure is never deleted, its terms (parties, amount,
  window, deadlines, binding, ceilings) never change, its revision never decreases, and once it is
  closed the record is final.
\<close>

theorem exposure_terms_fixed:
  assumes "ledger_reachable sha authn s" "recordFor (led s) ref = Some r" "ledger_steps sha authn s t"
  shows "\<exists>r'. recordFor (led t) ref = Some r' \<and> same_terms r r' \<and> revision r \<le> revision r'
    \<and> (\<not> isOpen r \<longrightarrow> r' = r)"
  using steps_evolve[OF assms(3,1)] assms(2) unfolding recordFor_def evolves_def by blast

theorem exposure_terms_fixed_witness:
  "\<exists>r'. recordFor sample_closed sample_ref = Some r' \<and> same_terms sample_closed_record r' \<and> r' = sample_closed_record"
  using exposure_terms_fixed[OF sample_closed_reachable _ ledger_steps.none, simplified, OF sample_closed_contents]
  by (auto simp: isOpen_def OPEN_STATUSES_def sample_closed_record_def)

text \<open>
  A granted invocation: the caller authenticated as the exposure's executor, which is neither
  its origin nor its reconciler; the exposure was \<open>RESERVED\<close>; the presented binding is the reserved one
  in every field; the trusted time lies between the reservation and both deadlines; and the stored
  record is \<open>INVOKING\<close> with the digest of exactly the returned permit.
\<close>

theorem beginInvocation_granted:
  assumes "ledger_reachable sha authn s"
    and "fst (beginInvocation sha authn (Some now) rnd i auth (led s)) = Ok (nxt, permit)"
  shows "\<exists>cur. recordFor (led s) (bi_ref i) = Some cur \<and> status cur = RESERVED
    \<and> authn (ref_tenantId (bi_ref i)) auth = Some True \<and> role auth = ''EXECUTOR''
    \<and> authorityId auth = executorAuthorityId cur
    \<and> authorityId auth \<noteq> originAuthorityId cur \<and> authorityId auth \<noteq> reconciliationAuthorityId cur
    \<and> bi_binding i = binding cur
    \<and> instant_ms (reservedAt cur) \<le> instant_ms now
    \<and> instant_ms now \<le> min (instant_ms (invokeBy cur)) (instant_ms (authorizationExpiresAt (binding cur)))
    \<and> recordFor (snd (beginInvocation sha authn (Some now) rnd i auth (led s))) (bi_ref i) = Some nxt
    \<and> status nxt = INVOKING \<and> invokedAt nxt = Some now
    \<and> invocationPermitDigest nxt = Some (permitDigest sha cur permit)"
proof -
  have enter: "beginInvocation_enter authn i auth (led s) = Ok ()"
    and eq: "beginInvocation sha authn (Some now) rnd i auth (led s) = beginInvocation_locked sha (Some now) rnd i (led s)"
    using exclusive_Ok[OF assms(2)[unfolded beginInvocation_def]] unfolding beginInvocation_def by blast+
  from enter obtain r where r: "recordFor (led s) (bi_ref i) = Some r"
    "authn (ref_tenantId (bi_ref i)) auth = Some True" "role auth = ''EXECUTOR''" "authorityId auth = executorAuthorityId r"
    unfolding beginInvocation_enter_def by (rule enter_existing_Ok)
  show ?thesis
  proof (cases rule: beginInvocation_cases[where sha = sha and reading = "Some now" and rnd = rnd and i = i and st = "led s"])
    case kept
    with assms(2) eq show ?thesis by simp
  next
    case (invoked cur at st1)
    have cur: "cur = r" using invoked(1) r(1) by simp
    have now: "at = now" using invoked(5) by (auto simp: trustedNow_def split: option.splits if_splits)
    define p where "p = ''open-exposure-invoke:v1:'' @ rnd"
    have res: "beginInvocation_locked sha (Some now) rnd i (led s) =
        (Ok (replaceRecord sha cur (begin_update sha now p), p), put_record sha (bi_ref i)
          (replaceRecord sha cur (begin_update sha now p)) EV_INVOKING (reservationEvidenceDigest cur) now st1)"
      unfolding invoked(9) Let_def now p_def ..
    then have nxt: "permit = p" "nxt = replaceRecord sha cur (begin_update sha now p)"
      using assms(2) eq by auto
    have st: "recordFor (snd (beginInvocation sha authn (Some now) rnd i auth (led s))) (bi_ref i) = Some nxt"
      by (simp add: eq res nxt recordFor_put)
    have "invokedAt nxt = Some now"
      by (simp add: nxt replaceRecord_def makeRecord_def begin_update_def)
    moreover have "distinct_authorities r" by (rule reachable_record(2)[OF assms(1) r(1)])
    ultimately show ?thesis
      using invoked r st nxt by (auto simp: cur now invocationBindingMatches_eq distinct_authorities_def)
  qed
qed

theorem beginInvocation_granted_witness:
  "fst (beginInvocation sample_sha sample_authn (Some (sample_day 11)) ''00ff'' sample_begin
     (sample_auth ''EXECUTOR'' ''executor'') sample_reserved)
   = Ok (sample_invoked_record, ''open-exposure-invoke:v1:00ff'')
   \<and> invokedAt sample_invoked_record = Some (sample_day 11)"
proof -
  have ok: "fst (beginInvocation sample_sha sample_authn (Some (sample_day 11)) ''00ff'' sample_begin
     (sample_auth ''EXECUTOR'' ''executor'') sample_reserved) = Ok (sample_invoked_record, ''open-exposure-invoke:v1:00ff'')"
    by (simp add: beginInvocation_def exclusive_def sample_begin_enter sample_begin_locked Let_def
        sample_invoked_record_def)
  from beginInvocation_granted[OF sample_reserved_reachable, simplified, OF ok] ok show ?thesis by blast
qed

text \<open>
  A reconciliation that changes the ledger: the caller authenticated as the exposure's
  reconciler, which is neither its origin nor its executor; the exposure was open; a commitment or
  an indeterminate outcome is accepted only after an invocation, so \<open>RESERVED\<close> closes only as proven
  not committed; and the stored record carries the outcome and its evidence.
\<close>

theorem reconcile_applied:
  assumes "ledger_reachable sha authn s"
    and "fst (reconcile sha authn i auth (led s)) = Ok (nxt, False)"
  shows "\<exists>cur out. recordFor (led s) (rc_ref i) = Some cur \<and> isOpen cur
    \<and> parse_outcome (rc_outcome i) = Some out
    \<and> authn (ref_tenantId (rc_ref i)) auth = Some True \<and> role auth = ''RECONCILER''
    \<and> authorityId auth = reconciliationAuthorityId cur
    \<and> authorityId auth \<noteq> originAuthorityId cur \<and> authorityId auth \<noteq> executorAuthorityId cur
    \<and> (status cur = RESERVED \<longrightarrow> out = PROVEN_NOT_COMMITTED)
    \<and> instant_ms (lastChangedAt cur) \<le> instant_ms (rc_observedAt i)
    \<and> recordFor (snd (reconcile sha authn i auth (led s))) (rc_ref i) = Some nxt
    \<and> status nxt = closing_status out \<and> reconciliationOutcome nxt = Some out
    \<and> reconciliationEvidenceDigest nxt = Some (rc_evidenceDigest i)"
proof -
  have enter: "reconcile_enter authn i auth (led s) = Ok ()"
    and eq: "reconcile sha authn i auth (led s) = reconcile_locked sha i (led s)"
    using exclusive_Ok[OF assms(2)[unfolded reconcile_def]] unfolding reconcile_def by blast+
  from enter obtain r where r: "recordFor (led s) (rc_ref i) = Some r"
    "authn (ref_tenantId (rc_ref i)) auth = Some True" "role auth = ''RECONCILER''"
    "authorityId auth = reconciliationAuthorityId r"
    unfolding reconcile_enter_def by (rule enter_existing_Ok)
  have dist: "distinct_authorities r" by (rule reachable_record(2)[OF assms(1) r(1)])
  show ?thesis
  proof (cases rule: reconcile_cases[where sha = sha and i = i and st = "led s"])
    case kept
    with assms(2) eq show ?thesis by simp
  next
    case (reconciled cur out st1)
    have cur: "cur = r" using reconciled(1) r(1) by simp
    have nxt: "nxt = replaceRecord sha cur (reconcile_update i out)"
      using assms(2) reconciled(9) by (simp add: eq)
    have st: "recordFor (snd (reconcile sha authn i auth (led s))) (rc_ref i) = Some nxt"
      using reconciled(9) by (simp add: eq nxt reconciled(8) recordFor_def)
    have "reconciliationOutcome nxt = Some out" "reconciliationEvidenceDigest nxt = Some (rc_evidenceDigest i)"
      by (simp_all add: nxt replaceRecord_def makeRecord_def reconcile_update_def)
    then show ?thesis
      using reconciled(1,2,5,6,7) r st nxt dist by (auto simp: cur distinct_authorities_def)
  qed
qed

theorem reconcile_applied_witness:
  "fst (reconcile sample_sha sample_authn sample_reconcile (sample_auth ''RECONCILER'' ''reconciler'') sample_invoked)
     = Ok (sample_closed_record, False) \<and> reconciliationOutcome sample_closed_record = Some COMMITTED"
proof -
  have ok: "fst (reconcile sample_sha sample_authn sample_reconcile (sample_auth ''RECONCILER'' ''reconciler'') sample_invoked)
     = Ok (sample_closed_record, False)"
    by (simp add: reconcile_def exclusive_def sample_reconcile_enter sample_reconcile_locked)
  show ?thesis
    using reconcile_applied[OF sample_invoked_reachable, simplified, OF ok] ok
    by (auto simp: sample_reconcile_fields)
qed

text \<open>
  The admission decision is exact: a fresh reservation whose four scopes have a ceiling is
  accepted if and only if, under each of these ceilings, the exposure already open plus the new
  amount stays within the limit.
\<close>

theorem reserve_admission_exact:
  assumes "ledger_reachable sha authn s" "reserve_enter authn i auth = Ok ()"
    and "map_get (operations (led s)) (key [ri_tenantId i, tokenDigest sha (ri_operationToken i)]) = None"
    and "map_get (records (led s)) (key [ri_tenantId i, ri_exposureId i]) = None"
    and "applicable_ceilings (led s) i SCOPES = Some cs"
  shows "is_ok (fst (reserve sha authn i auth (led s))) \<longleftrightarrow>
    (\<forall>c \<in> set cs. open_exposure_in (led s) (ceilingInput c) + ri_amountMinor i \<le> ci_limitMinor (ceilingInput c))"
proof -
  have valid: "valid_reserve i" by (rule enter_valid_reserve[OF assms(2)])
  note inv = reachable_ceiling_inv[OF assms(1)]
  have pos: "0 < ri_amountMinor i"
    using new_record_valid(1)[OF valid, of sha cs] by (simp add: valid_record_def)
  have "ceiling_admits (led s) i c \<longleftrightarrow>
      open_exposure_in (led s) (ceilingInput c) + ri_amountMinor i \<le> ci_limitMinor (ceilingInput c)"
    if "c \<in> set cs" for c
  proof -
    obtain scope where "scope \<in> set SCOPES" "map_get (ceilingsByScope (led s)) (scope_key i scope) = Some c"
      using applicable_ceilings_mem[OF assms(5) \<open>c \<in> set cs\<close>] by blast
    from applicable_ceiling_terms[OF inv valid this] pos show ?thesis
      by (auto simp: ceiling_admits_def Let_def)
  qed
  moreover have "is_ok (fst (reserve sha authn i auth (led s))) \<longleftrightarrow> list_all (ceiling_admits (led s) i) cs"
    using assms(2-5) by (simp add: reserve_def exclusive_def reserve_locked_def Let_def map_has_def)
  ultimately show ?thesis by (simp add: list_all_iff)
qed

theorem reserve_admission_exact_witness:
  "is_ok (fst (reserve sample_sha sample_authn sample_reserve (sample_auth ''ORIGIN'' ''origin'') sample_ceilings))
   \<and> length (ceilingsByScope sample_ceilings) = 4"
proof -
  have cs: "applicable_ceilings sample_ceilings sample_reserve SCOPES = Some (map snd (ceilingsByScope sample_ceilings))"
    by (simp add: SCOPES_def sample_ceilings_contents scope_key_def ceilingScopeValue_def sample_reserve_def key_def)
  have "is_ok (fst (reserve sample_sha sample_authn sample_reserve (sample_auth ''ORIGIN'' ''origin'') sample_ceilings)) \<longleftrightarrow>
    (\<forall>c \<in> set (map snd (ceilingsByScope sample_ceilings)).
       open_exposure_in sample_ceilings (ceilingInput c) + ri_amountMinor sample_reserve \<le> ci_limitMinor (ceilingInput c))"
    using reserve_admission_exact[OF sample_ceilings_reachable sample_reserve_enter] cs
    by (simp add: sample_ceilings_contents(2,3))
  then show ?thesis
    by (simp add: sample_ceilings_contents open_exposure_in_def map_values_def make_ceiling_def)
      (simp add: sample_ceiling_def sample_reserve_def)
qed

text \<open>
  A reservation is idempotent for ever: after it succeeded, and after any further calls, the
  same request returns the same record as a replay and changes nothing, and a different request that
  reuses the operation token is refused.
\<close>

theorem reserve_replay:
  assumes "fst (reserve sha authn i auth (led s)) = Ok (r, False)"
    and "ledger_steps sha authn (s\<lparr>led := snd (reserve sha authn i auth (led s))\<rparr>) t"
  shows "reserve sha authn i auth (led t) = (Ok (r, True), led t)
    \<and> (ri_tenantId i' = ri_tenantId i \<and> ri_operationToken i' = ri_operationToken i
       \<and> reservation_digest sha i' \<noteq> reservation_digest sha i \<and> reserve_enter authn i' auth' = Ok () \<longrightarrow>
      reserve sha authn i' auth' (led t) = (Refuse Operation_token_conflict, led t))"
proof -
  have enter: "reserve_enter authn i auth = Ok ()"
    and eq: "reserve sha authn i auth (led s) = reserve_locked sha i (led s)"
    using exclusive_Ok[OF assms(1)[unfolded reserve_def]] unfolding reserve_def by blast+
  have "map_get (operations (snd (reserve_locked sha i (led s)))) (key [ri_tenantId i, tokenDigest sha (ri_operationToken i)])
      = Some (reservation_digest sha i, r)"
  proof (cases rule: reserve_locked_cases[of sha i "led s"])
    case kept
    with assms(1) eq show ?thesis by simp
  next
    case (reserved cs)
    with assms(1) eq show ?thesis by simp
  qed
  then have op: "map_get (operations (led t)) (key [ri_tenantId i, tokenDigest sha (ri_operationToken i)])
      = Some (reservation_digest sha i, r)"
    using steps_operations[OF assms(2)] by (simp add: eq)
  have "reserve sha authn i auth (led t) = (Ok (r, True), led t)"
    by (simp add: reserve_def exclusive_def enter reserve_locked_def op)
  moreover have "reserve sha authn i' auth' (led t) = (Refuse Operation_token_conflict, led t)"
    if "ri_tenantId i' = ri_tenantId i \<and> ri_operationToken i' = ri_operationToken i
       \<and> reservation_digest sha i' \<noteq> reservation_digest sha i \<and> reserve_enter authn i' auth' = Ok ()"
    using that op by (auto simp: reserve_def exclusive_def reserve_locked_def)
  ultimately show ?thesis by blast
qed

theorem reserve_replay_witness:
  "reserve sample_sha sample_authn sample_reserve (sample_auth ''ORIGIN'' ''origin'') sample_reserved
     = (Ok (sample_record, True), sample_reserved)"
proof -
  let ?s = "\<lparr>led = sample_ceilings, waiting = []\<rparr>"
  have ok: "reserve sample_sha sample_authn sample_reserve (sample_auth ''ORIGIN'' ''origin'') sample_ceilings
      = reserve_locked sample_sha sample_reserve sample_ceilings"
    by (simp add: reserve_def exclusive_def sample_reserve_enter)
  from reserve_replay[of sample_sha sample_authn sample_reserve "sample_auth ''ORIGIN'' ''origin''" ?s sample_record,
      OF _ ledger_steps.none, THEN conjunct1]
  show ?thesis by (simp add: ok sample_reserve_locked sample_reserved_def)
qed

text \<open>
  The answer of \<open>sumOpen\<close>: the total is the sum of the amounts of the selected open records,
  and each of the four breakdowns lists its keys once and in order, gives every key the sum of its
  own records, and adds up to the total.
\<close>

theorem sumOpen_breakdowns:
  assumes "sumOpen authn i auth st = Ok x"
    and "selected = filter (sum_selected i) (map_values (records st))"
  shows "totalMinor x = sum_list (map amountMinor selected)
    \<and> breaks_down programId selected (byProgram x) \<and> breaks_down counterpartyId selected (byCounterparty x)
    \<and> breaks_down actionClass selected (byActionClass x)
    \<and> breaks_down (\<lambda>r. status_text (status r)) selected (byStatus x)"
  using assms(1) breaks_down_breakdown unfolding sumOpen_def assms(2)
  by (auto simp: Let_def simp del: run_checks_None split: option.splits outcome.splits)

theorem sumOpen_breakdowns_witness:
  "\<exists>x. sumOpen sample_authn \<lparr>si_tenantId = ''acme'', si_currency = ''USD'', si_windowStart = sample_day 1,
      si_windowEnd = sample_day 30, si_programId = None, si_counterpartyId = None, si_actionClass = None\<rparr>
      (sample_auth ''READER'' ''admin'') sample_reserved = Ok x \<and> totalMinor x = 700"
  (is "\<exists>x. sumOpen _ ?i ?a _ = Ok x \<and> _")
proof -
  have "run_checks (validateSum ?i) = None"
    using sample_texts by (simp add: validateSum_def validateWindow_def identifier_check_def instant_def
        instant_ms_def opt_identifier_def sample_instants)
  moreover have "authenticated sample_authn ''acme'' ?a ''READER'' None = Ok ()"
    unfolding authenticated_Ok using sample_texts
    by (simp add: sample_authn_def sample_auth_def validateAuth_def identifier_check_def)
  ultimately obtain x where x: "sumOpen sample_authn ?i ?a sample_reserved = Ok x"
    by (simp add: sumOpen_def Let_def del: run_checks_None)
  have "sum_selected ?i sample_record"
    by (simp add: sum_selected_def same_window_def isOpen_def OPEN_STATUSES_def sample_record_def new_record_def
        makeRecord_def) (simp add: sample_reserve_def)
  then have "totalMinor x = 700"
    using sumOpen_breakdowns[OF x refl] by (simp add: sample_reserved_contents map_values_def sample_record_fields)
  with x show ?thesis by blast
qed

end
