(* ===== verification/Js_Text.thy ===== *)
theory Js_Text
  imports Ep_Prelude "HOL-Library.Word"
begin

section \<open>JavaScript strings\<close>

text \<open>
  A JavaScript string is a list of 16-bit code units. This theory has what the canonical encoders
  use of it: well-formedness of surrogate pairs, the length in UTF-8 octets, and the quoting of
  \<open>JSON.stringify\<close>, with a reader that inverts the quoting.
\<close>

type_synonym js_string = "16 word list"

definition u16 :: "char \<Rightarrow> 16 word" where
  "u16 c = word_of_nat (of_char c)"

definition jstr :: "string \<Rightarrow> js_string" where
  "jstr s = map u16 s"

lemma u16_nat: "unat (u16 c) = of_char c"
proof -
  have "(of_char c :: nat) < 65536" by (rule less_trans[OF nat_of_char_less_256]) simp
  then show ?thesis by (simp add: u16_def unat_of_nat)
qed

lemma u16_inj [simp]: "u16 a = u16 b \<longleftrightarrow> a = b"
  by (metis u16_nat of_char_eq_iff)

lemma jstr_simps [simp]: "jstr [] = []" "jstr (c # cs) = u16 c # jstr cs" "jstr (a @ b) = jstr a @ jstr b"
  by (simp_all add: jstr_def)

lemma jstr_inj [simp]: "jstr a = jstr b \<longleftrightarrow> a = b"
  unfolding jstr_def by (rule inj_map_eq_map) (simp add: inj_def)

subsection \<open>Surrogates and UTF-8 length\<close>

definition is_high :: "16 word \<Rightarrow> bool" where "is_high u \<longleftrightarrow> 0xD800 \<le> u \<and> u \<le> 0xDBFF"
definition is_low :: "16 word \<Rightarrow> bool" where "is_low u \<longleftrightarrow> 0xDC00 \<le> u \<and> u \<le> 0xDFFF"

text \<open>\<open>charCodeAt\<close> past the end is NaN, which is in no range.\<close>

fun validUnicodeString :: "js_string \<Rightarrow> bool" where
  "validUnicodeString [] = True"
| "validUnicodeString (u # us) =
     (if is_high u then (case us of [] \<Rightarrow> False | n # ns \<Rightarrow> is_low n \<and> validUnicodeString ns)
      else \<not> is_low u \<and> validUnicodeString us)"

text \<open>\<open>Buffer.byteLength(s, 'utf8')\<close>; an unpaired surrogate is written as U+FFFD, three octets.\<close>

fun utf8_length :: "js_string \<Rightarrow> nat" where
  "utf8_length [] = 0"
| "utf8_length (u # us) =
     (if u < 0x80 then 1 + utf8_length us
      else if u < 0x800 then 2 + utf8_length us
      else if is_high u then (case us of [] \<Rightarrow> 3
        | n # ns \<Rightarrow> if is_low n then 4 + utf8_length ns else 3 + utf8_length us)
      else 3 + utf8_length us)"

subsection \<open>Quoting\<close>

definition hex16 :: "nat \<Rightarrow> 16 word" where
  "hex16 d = (if d < 10 then word_of_nat (48 + d) else word_of_nat (87 + d))"

definition unhex16 :: "16 word \<Rightarrow> nat" where
  "unhex16 u = (if unat u < 58 then unat u - 48 else unat u - 87)"

definition hex_escape :: "16 word \<Rightarrow> js_string" where
  "hex_escape u = (let n = unat u in
     [0x5C, 0x75, hex16 (n div 4096), hex16 (n div 256 mod 16), hex16 (n div 16 mod 16), hex16 (n mod 16)])"

definition escape_unit :: "16 word \<Rightarrow> js_string" where
  "escape_unit u =
     (if u = 0x22 then [0x5C, 0x22] else if u = 0x5C then [0x5C, 0x5C]
      else if u = 0x08 then [0x5C, 0x62] else if u = 0x09 then [0x5C, 0x74]
      else if u = 0x0A then [0x5C, 0x6E] else if u = 0x0C then [0x5C, 0x66]
      else if u = 0x0D then [0x5C, 0x72]
      else if u < 0x20 then hex_escape u else [u])"

text \<open>\<open>QuoteJSONString\<close>: an unpaired surrogate is escaped, a pair is written as it is.\<close>

fun quote_units :: "js_string \<Rightarrow> js_string" where
  "quote_units [] = []"
| "quote_units (u # us) =
     (if is_high u then (case us of [] \<Rightarrow> hex_escape u
        | n # ns \<Rightarrow> if is_low n then u # n # quote_units ns else hex_escape u @ quote_units us)
      else if is_low u then hex_escape u @ quote_units us
      else escape_unit u @ quote_units us)"

definition js_quote :: "js_string \<Rightarrow> js_string" where
  "js_quote s = 0x22 # quote_units s @ [0x22]"

lemma surrogate_escape: "is_high u \<or> is_low u \<Longrightarrow> escape_unit u = [u]"
proof -
  assume a: "is_high u \<or> is_low u"
  then have "0xD800 \<le> u" by (auto simp: is_high_def is_low_def intro: order_trans[of "0xD800" "0xDC00"])
  then have "55296 \<le> unat u" by (simp add: word_le_nat_alt)
  then show ?thesis by (auto simp: escape_unit_def word_less_nat_alt)
qed

lemma quote_units_valid: "validUnicodeString s \<Longrightarrow> quote_units s = concat (map escape_unit s)"
proof (induction s rule: validUnicodeString.induct)
  case (2 u us)
  then show ?case by (cases us) (auto simp: surrogate_escape split: if_splits)
qed simp

text \<open>The reader of one escaped unit.\<close>

definition short_unescape :: "16 word \<Rightarrow> 16 word" where
  "short_unescape e = (if e = 0x62 then 0x08 else if e = 0x74 then 0x09 else if e = 0x6E then 0x0A
     else if e = 0x66 then 0x0C else if e = 0x72 then 0x0D else e)"

fun read_unit :: "js_string \<Rightarrow> (16 word \<times> js_string) option" where
  "read_unit [] = None"
| "read_unit (u # us) =
     (if u \<noteq> 0x5C then Some (u, us)
      else (case us of
          [] \<Rightarrow> None
        | e # es \<Rightarrow>
            if e \<noteq> 0x75 then Some (short_unescape e, es)
            else (case es of
                a # b # c # d # rest \<Rightarrow> Some (word_of_nat (unhex16 a * 4096 + unhex16 b * 256
                  + unhex16 c * 16 + unhex16 d), rest)
              | _ \<Rightarrow> None)))"

lemma unhex_hex [simp]: "d < 16 \<Longrightarrow> unhex16 (hex16 d) = d"
proof -
  assume "d < 16"
  have "unat (word_of_nat k :: 16 word) = k" if "k < 256" for k
    using that by (simp add: unat_of_nat)
  with \<open>d < 16\<close> show ?thesis by (simp add: hex16_def unhex16_def del: of_nat_add)
qed

lemma read_hex_escape: "read_unit (hex_escape u @ r) = Some (u, r)"
proof -
  define n where "n = unat u"
  have "n < 65536" using unsigned_less[of u] by (simp add: n_def)
  then have lt: "n div 4096 < 16" by (simp add: less_mult_imp_div_less)
  have "n div 16 div 16 = n div 256" "n div 256 div 16 = n div 4096"
    by (simp_all add: div_mult2_eq[symmetric])
  then have d: "n div 4096 * 4096 + n div 256 mod 16 * 256 + n div 16 mod 16 * 16 + n mod 16 = n"
    using div_mult_mod_eq[of n 16] div_mult_mod_eq[of "n div 16" 16] div_mult_mod_eq[of "n div 256" 16]
    by linarith
  show ?thesis
    unfolding hex_escape_def Let_def n_def[symmetric] append_Cons append_Nil
    by (simp add: lt d del: of_nat_add of_nat_mult) (simp add: n_def)
qed

lemma read_escape_unit: "read_unit (escape_unit u @ r) = Some (u, r)"
  by (auto simp: escape_unit_def short_unescape_def read_hex_escape)

lemma escape_unit_inj: "escape_unit u @ r = escape_unit v @ s \<Longrightarrow> u = v \<and> r = s"
  by (metis read_escape_unit option.inject prod.inject)

lemma escape_unit_not_quote: "escape_unit u @ r \<noteq> 0x22 # s"
  by (auto simp: escape_unit_def hex_escape_def Let_def)

lemma escaped_inj:
  "concat (map escape_unit s) @ 0x22 # r = concat (map escape_unit t) @ 0x22 # r' \<Longrightarrow> s = t \<and> r = r'"
proof (induction s arbitrary: t)
  case Nil
  then show ?case
    using escape_unit_not_quote by (cases t) (auto dest: sym)
next
  case (Cons u s)
  show ?case
  proof (cases t)
    case Nil
    with Cons.prems escape_unit_not_quote[of u "concat (map escape_unit s) @ 0x22 # r" r'] show ?thesis by simp
  next
    case (Cons v t')
    with Cons.prems have "escape_unit u @ (concat (map escape_unit s) @ 0x22 # r)
        = escape_unit v @ (concat (map escape_unit t') @ 0x22 # r')" by simp
    from escape_unit_inj[OF this] Cons.IH[of t'] Cons show ?thesis by simp
  qed
qed

text \<open>A quoted well-formed string is read back from any continuation.\<close>

lemma js_quote_inj:
  assumes "validUnicodeString s" "validUnicodeString t" "js_quote s @ r = js_quote t @ r'"
  shows "s = t \<and> r = r'"
  using assms escaped_inj[of s r t r'] by (simp add: js_quote_def quote_units_valid)

end
