(* ===== verification/Canonical_Json.thy ===== *)
theory Canonical_Json
  imports Js_Text
begin

section \<open>Canonical JSON of the execution binding\<close>

text \<open>
  Model of the first half of \<open>packages/gate/src/execution-binding.ts\<close>: the admission of a value to
  the canonical JSON domain (\<open>assertCanonicalJson\<close>, an explicit-stack walk with node, depth, string
  and identity limits) and the canonical text of an admitted value. The walk is shown to accept
  exactly the values that satisfy the declarative profile, whatever its order, and the text is
  shown to determine the value up to the order of object members.

  A value is given by what the inspection sees of it. Arrays and objects carry their identity, so
  a value that reaches one object twice can be written down; a cyclic value cannot. Anything the
  inspection refuses in one step (a function, an accessor, a hole, a class instance, ...) is \<open>VHostile\<close> with
  the message of its refusal. Negative zero is the number 0, as in the printed text.
\<close>

datatype js_value = VNull | VBool bool | VNum js_number | VStr js_string
  | VArr nat "js_value list" | VObj nat "(js_string \<times> js_value) list" | VHostile string

definition MAX_JSON_DEPTH :: nat where "MAX_JSON_DEPTH = 64"
definition MAX_JSON_NODES :: nat where "MAX_JSON_NODES = 50000"
definition MAX_JSON_STRING_BYTES :: nat where "MAX_JSON_STRING_BYTES = 1024 * 1024"

subsection \<open>The walk\<close>

text \<open>The loop over the own keys of an object: each key is checked and counted, each member pushed.\<close>

fun push_members :: "nat \<Rightarrow> (js_string \<times> js_value) list \<Rightarrow> (js_value \<times> nat) list \<Rightarrow> nat
    \<Rightarrow> string + ((js_value \<times> nat) list \<times> nat)" where
  "push_members d [] stack bytes = Inr (stack, bytes)"
| "push_members d ((k, v) # ms) stack bytes =
     (if \<not> validUnicodeString k then Inl ''value contains a non-JSON object key''
      else if bytes + utf8_length k > MAX_JSON_STRING_BYTES
      then Inl ''value exceeds the EP canonical JSON string limit''
      else push_members d ms ((v, d + 1) # stack) (bytes + utf8_length k))"

fun value_nodes :: "js_value \<Rightarrow> nat" where
  "value_nodes (VArr i xs) = 1 + sum_list (map value_nodes xs)"
| "value_nodes (VObj i ms) = 1 + sum_list (map (\<lambda>(k, v). value_nodes v) ms)"
| "value_nodes _ = 1"

abbreviation stack_nodes :: "(js_value \<times> nat) list \<Rightarrow> nat" where
  "stack_nodes stack \<equiv> sum_list (map (\<lambda>(v, d). value_nodes v) stack)"

lemma push_members_nodes:
  "push_members d ms stack bytes = Inr (stack', bytes') \<Longrightarrow>
   stack_nodes stack' = sum_list (map (\<lambda>(k, v). value_nodes v) ms) + stack_nodes stack"
  by (induction d ms stack bytes arbitrary: stack' bytes' rule: push_members.induct)
    (auto split: if_splits)

lemma stack_nodes_pushed:
  "stack_nodes (rev (map (\<lambda>x. (x, d)) xs)) = sum_list (map value_nodes xs)"
  by (induction xs) auto

function assert_loop :: "(js_value \<times> nat) list \<Rightarrow> nat list \<Rightarrow> nat \<Rightarrow> nat \<Rightarrow> string option" where
  "assert_loop [] seen nodes bytes = None"
| "assert_loop ((v, d) # stack) seen nodes bytes =
     (if nodes + 1 > MAX_JSON_NODES \<or> d > MAX_JSON_DEPTH
      then Some ''value exceeds the EP canonical JSON resource profile''
      else (case v of
          VNull \<Rightarrow> assert_loop stack seen (nodes + 1) bytes
        | VBool b \<Rightarrow> assert_loop stack seen (nodes + 1) bytes
        | VStr s \<Rightarrow>
            if \<not> validUnicodeString s then Some ''value contains invalid Unicode''
            else if bytes + utf8_length s > MAX_JSON_STRING_BYTES
            then Some ''value exceeds the EP canonical JSON string limit''
            else assert_loop stack seen (nodes + 1) (bytes + utf8_length s)
        | VNum n \<Rightarrow>
            if \<not> is_safe_integer n then Some ''value contains a non-safe integer''
            else assert_loop stack seen (nodes + 1) bytes
        | VHostile why \<Rightarrow> Some why
        | VArr i xs \<Rightarrow>
            if i \<in> set seen then Some ''value contains a cycle or alias''
            else assert_loop (rev (map (\<lambda>x. (x, d + 1)) xs) @ stack) (i # seen) (nodes + 1) bytes
        | VObj i ms \<Rightarrow>
            if i \<in> set seen then Some ''value contains a cycle or alias''
            else (case push_members d ms stack bytes of
                Inl why \<Rightarrow> Some why
              | Inr (stack', bytes') \<Rightarrow> assert_loop stack' (i # seen) (nodes + 1) bytes')))"
  by pat_completeness auto
termination
  by (relation "measure (\<lambda>(stack, seen, nodes, bytes). stack_nodes stack)")
    (auto simp: stack_nodes_pushed dest!: push_members_nodes)

definition assertCanonicalJson :: "js_value \<Rightarrow> string option" where
  "assertCanonicalJson v = assert_loop [(v, 0)] [] 0 0"

definition canonical_json :: "js_value \<Rightarrow> bool" where
  "canonical_json v \<longleftrightarrow> assertCanonicalJson v = None"

subsection \<open>The canonical text\<close>

definition comma :: js_string where "comma = [u16 CHR '','']"

fun join_units :: "js_string \<Rightarrow> js_string list \<Rightarrow> js_string" where
  "join_units sep [] = []"
| "join_units sep [x] = x"
| "join_units sep (x # y # xs) = x @ sep @ join_units sep (y # xs)"

text \<open>\<open>Object.keys(v).sort()\<close> orders by code units; every key is looked up once.\<close>

fun canonicalizeValidated :: "js_value \<Rightarrow> js_string" where
  "canonicalizeValidated VNull = jstr ''null''"
| "canonicalizeValidated (VBool b) = jstr (if b then ''true'' else ''false'')"
| "canonicalizeValidated (VNum (Integral i)) = jstr (dec_int i)"
| "canonicalizeValidated (VNum (Fractional t)) = jstr t"
| "canonicalizeValidated (VNum NonFinite) = jstr ''null''"
| "canonicalizeValidated (VStr s) = js_quote s"
| "canonicalizeValidated (VArr i xs) = jstr ''['' @ join_units comma (map canonicalizeValidated xs) @ jstr '']''"
| "canonicalizeValidated (VObj i ms) = jstr ''{'' @ join_units comma
     (map (\<lambda>(k, t). js_quote k @ jstr '':'' @ t)
       (sort_key fst (map (\<lambda>(k, v). (k, canonicalizeValidated v)) ms))) @ jstr ''}''"
| "canonicalizeValidated (VHostile w) = []"

definition canonicalize :: "js_value \<Rightarrow> string + js_string" where
  "canonicalize v = (case assertCanonicalJson v of Some why \<Rightarrow> Inl why | None \<Rightarrow> Inr (canonicalizeValidated v))"

text \<open>SHA-256 of the UTF-8 text, in hexadecimal: a parameter.\<close>

type_synonym hash16 = "js_string \<Rightarrow> string"

definition hashCanonical :: "hash16 \<Rightarrow> js_value \<Rightarrow> string + string" where
  "hashCanonical sha v = (case canonicalize v of Inl why \<Rightarrow> Inl why | Inr t \<Rightarrow> Inr (sha t))"

subsection \<open>The profile the walk decides\<close>

fun value_bytes :: "js_value \<Rightarrow> nat" where
  "value_bytes (VStr s) = utf8_length s"
| "value_bytes (VArr i xs) = sum_list (map value_bytes xs)"
| "value_bytes (VObj i ms) = sum_list (map (\<lambda>(k, v). utf8_length k + value_bytes v) ms)"
| "value_bytes _ = 0"

fun identities :: "js_value \<Rightarrow> nat list" where
  "identities (VArr i xs) = i # concat (map identities xs)"
| "identities (VObj i ms) = i # concat (map (\<lambda>(k, v). identities v) ms)"
| "identities _ = []"

fun within_depth :: "nat \<Rightarrow> js_value \<Rightarrow> bool" where
  "within_depth d (VArr i xs) = (d \<le> MAX_JSON_DEPTH \<and> list_all (within_depth (d + 1)) xs)"
| "within_depth d (VObj i ms) = (d \<le> MAX_JSON_DEPTH \<and> list_all (\<lambda>(k, v). within_depth (d + 1) v) ms)"
| "within_depth d _ = (d \<le> MAX_JSON_DEPTH)"

fun plain_json :: "js_value \<Rightarrow> bool" where
  "plain_json (VStr s) = validUnicodeString s"
| "plain_json (VNum n) = is_safe_integer n"
| "plain_json (VHostile w) = False"
| "plain_json (VArr i xs) = list_all plain_json xs"
| "plain_json (VObj i ms) = list_all (\<lambda>(k, v). validUnicodeString k \<and> plain_json v) ms"
| "plain_json _ = True"

definition json_profile :: "js_value \<Rightarrow> bool" where
  "json_profile v \<longleftrightarrow> plain_json v \<and> within_depth 0 v \<and> value_nodes v \<le> MAX_JSON_NODES
     \<and> value_bytes v \<le> MAX_JSON_STRING_BYTES \<and> distinct (identities v)"

subsection \<open>The walk accepts exactly the profile\<close>

lemma value_nodes_pos: "0 < value_nodes v"
  by (cases v) auto

lemma push_members_Inr:
  assumes "bytes \<le> MAX_JSON_STRING_BYTES"
  shows "push_members d ms stack bytes = Inr (stack', bytes') \<longleftrightarrow>
    list_all (\<lambda>(k, v). validUnicodeString k) ms
    \<and> bytes + sum_list (map (\<lambda>(k, v). utf8_length k) ms) \<le> MAX_JSON_STRING_BYTES
    \<and> stack' = rev (map (\<lambda>(k, v). (v, d + 1)) ms) @ stack
    \<and> bytes' = bytes + sum_list (map (\<lambda>(k, v). utf8_length k) ms)"
  using assms
proof (induction d ms stack bytes rule: push_members.induct)
  case (2 d k v ms stack bytes)
  show ?case
  proof (cases "validUnicodeString k \<and> bytes + utf8_length k \<le> MAX_JSON_STRING_BYTES")
    case True
    with 2 show ?thesis by (auto simp: add.assoc)
  next
    case False
    then show ?thesis by auto
  qed
qed auto

text \<open>What the rest of the stack must satisfy for the walk to end without a refusal.\<close>

definition stack_ok :: "(js_value \<times> nat) list \<Rightarrow> nat list \<Rightarrow> nat \<Rightarrow> nat \<Rightarrow> bool" where
  "stack_ok stack seen nodes bytes \<longleftrightarrow>
     nodes + stack_nodes stack \<le> MAX_JSON_NODES
     \<and> bytes + sum_list (map (\<lambda>(v, d). value_bytes v) stack) \<le> MAX_JSON_STRING_BYTES
     \<and> list_all (\<lambda>(v, d). plain_json v \<and> within_depth d v) stack
     \<and> distinct (concat (map (\<lambda>(v, d). identities v) stack))
     \<and> set (concat (map (\<lambda>(v, d). identities v) stack)) \<inter> set seen = {}"

lemma rev_map_pairs:
  "sum_list (map (\<lambda>(v, d). f v) (rev (map (\<lambda>x. (g x, e)) xs) @ stack)) =
     sum_list (map (\<lambda>x. f (g x)) xs) + (sum_list (map (\<lambda>(v, d). f v) stack) :: nat)"
  by (induction xs) auto

lemma concat_rev_distinct:
  "distinct (concat (map (\<lambda>(v, d). f v) (rev (map (\<lambda>x. (g x, e)) xs) @ stack))) \<longleftrightarrow>
     distinct (concat (map (\<lambda>x. f (g x)) xs) @ concat (map (\<lambda>(v, d). f v) stack))"
  by (induction xs arbitrary: stack) (auto simp: Int_Un_distrib Int_Un_distrib2)

lemma concat_rev_set:
  "set (concat (map (\<lambda>(v, d). f v) (rev (map (\<lambda>x. (g x, e)) xs) @ stack))) =
     set (concat (map (\<lambda>x. f (g x)) xs)) \<union> set (concat (map (\<lambda>(v, d). f v) stack))"
  by (induction xs) auto

lemma list_all_rev_pairs:
  "list_all (\<lambda>(v, d). p v d) (rev (map (\<lambda>x. (g x, e)) xs) @ stack) \<longleftrightarrow>
     list_all (\<lambda>x. p (g x) e) xs \<and> list_all (\<lambda>(v, d). p v d) stack"
  by (induction xs) auto

lemma stack_ok_arr:
  "stack_ok ((VArr i xs, d) # stack) seen nodes bytes \<longleftrightarrow>
     d \<le> MAX_JSON_DEPTH \<and> i \<notin> set seen
     \<and> stack_ok (rev (map (\<lambda>x. (x, d + 1)) xs) @ stack) (i # seen) (nodes + 1) bytes"
  unfolding stack_ok_def rev_map_pairs[where g = "\<lambda>x. x"] concat_rev_distinct[where g = "\<lambda>x. x"]
    concat_rev_set[where g = "\<lambda>x. x"] list_all_rev_pairs[where g = "\<lambda>x. x"]
  by (auto simp: list_all_iff ac_simps)

lemma stack_ok_obj:
  "stack_ok ((VObj i ms, d) # stack) seen nodes bytes \<longleftrightarrow>
     d \<le> MAX_JSON_DEPTH \<and> i \<notin> set seen \<and> list_all (\<lambda>(k, v). validUnicodeString k) ms
     \<and> stack_ok (rev (map (\<lambda>(k, v). (v, d + 1)) ms) @ stack) (i # seen) (nodes + 1)
         (bytes + sum_list (map (\<lambda>(k, v). utf8_length k) ms))"
proof -
  have pairs: "(\<lambda>(k, v). (v, d + 1)) = (\<lambda>x. (snd x, d + 1))" by auto
  have bytes: "sum_list (map (\<lambda>(k, v). utf8_length k + value_bytes v) ms) =
      sum_list (map (\<lambda>(k, v). utf8_length k) ms) + sum_list (map (\<lambda>x. value_bytes (snd x)) ms)"
    by (induction ms) auto
  have proj: "map (\<lambda>(k, v). identities v) ms = map (\<lambda>x. identities (snd x)) ms"
    "map (\<lambda>(k, v). value_nodes v) ms = map (\<lambda>x. value_nodes (snd x)) ms" by auto
  show ?thesis
    unfolding stack_ok_def pairs rev_map_pairs concat_rev_distinct concat_rev_set list_all_rev_pairs
    by (auto simp: proj list_all_iff bytes)
qed

lemma stack_ok_leaf:
  assumes "value_nodes v = 1" "identities v = []" "within_depth d v \<longleftrightarrow> d \<le> MAX_JSON_DEPTH"
  shows "stack_ok ((v, d) # stack) seen nodes bytes \<longleftrightarrow>
    d \<le> MAX_JSON_DEPTH \<and> plain_json v \<and> stack_ok stack seen (nodes + 1) (bytes + value_bytes v)"
  using assms by (auto simp: stack_ok_def ac_simps)

lemma stack_okD:
  "stack_ok stack seen nodes bytes \<Longrightarrow> bytes \<le> MAX_JSON_STRING_BYTES"
  "stack_ok ((v, d) # stack) seen nodes bytes \<Longrightarrow> nodes + 1 \<le> MAX_JSON_NODES"
  using value_nodes_pos[of v] by (auto simp: stack_ok_def)

lemma assert_loop_None:
  "nodes \<le> MAX_JSON_NODES \<Longrightarrow> bytes \<le> MAX_JSON_STRING_BYTES \<Longrightarrow>
   assert_loop stack seen nodes bytes = None \<longleftrightarrow> stack_ok stack seen nodes bytes"
proof (induction stack seen nodes bytes rule: assert_loop.induct)
  case (1 seen nodes bytes)
  then show ?case by (simp add: stack_ok_def)
next
  case (2 v d stack seen nodes bytes)
  show ?case
  proof (cases "nodes + 1 \<le> MAX_JSON_NODES \<and> d \<le> MAX_JSON_DEPTH")
    case False
    then have "\<not> stack_ok ((v, d) # stack) seen nodes bytes"
      using stack_okD(2)[of v d stack seen nodes bytes] by (cases v) (auto simp: stack_ok_def)
    with False show ?thesis by auto
  next
    case True
    then have go: "\<not> (nodes + 1 > MAX_JSON_NODES \<or> d > MAX_JSON_DEPTH)" by simp
    note IH = 2(1-6)[OF go] and le = True 2(7,8)
    show ?thesis
    proof (cases v)
      case VNull
      with IH(1) go le show ?thesis by (simp add: stack_ok_leaf)
    next
      case (VBool b)
      with IH(2) go le show ?thesis by (simp add: stack_ok_leaf)
    next
      case (VNum n)
      with IH(3) go le show ?thesis by (simp add: stack_ok_leaf)
    next
      case (VHostile w)
      with go show ?thesis by (simp add: stack_ok_leaf)
    next
      case (VStr t)
      show ?thesis
      proof (cases "validUnicodeString t \<and> bytes + utf8_length t \<le> MAX_JSON_STRING_BYTES")
        case True
        with IH(4)[OF VStr] VStr go le show ?thesis by (simp add: stack_ok_leaf)
      next
        case False
        with VStr go stack_okD(1)[of stack seen "nodes + 1" "bytes + utf8_length t"] show ?thesis
          by (auto simp: stack_ok_leaf)
      qed
    next
      case (VArr i xs)
      with IH(5)[OF VArr] go le show ?thesis by (simp add: stack_ok_arr)
    next
      case (VObj i ms)
      show ?thesis
      proof (cases "push_members d ms stack bytes")
        case (Inl why)
        then have "\<not> (list_all (\<lambda>(k, v). validUnicodeString k) ms
            \<and> bytes + sum_list (map (\<lambda>(k, v). utf8_length k) ms) \<le> MAX_JSON_STRING_BYTES)"
          using push_members_Inr[OF le(3), of d ms stack] by force
        with VObj Inl go stack_okD(1) show ?thesis by (auto simp: stack_ok_obj)
      next
        case (Inr p)
        obtain stack' bytes' where p: "p = (stack', bytes')" by fastforce
        note out = push_members_Inr[OF le(3), THEN iffD1, OF Inr[unfolded p]]
        from IH(6)[OF VObj _ Inr p[symmetric]] VObj Inr p go le out show ?thesis
          by (auto simp: stack_ok_obj)
      qed
    qed
  qed
qed

lemma canonical_json_profile: "canonical_json v \<longleftrightarrow> json_profile v"
  using assert_loop_None[of 0 0 "[(v, 0)]" "[]"]
  by (auto simp: canonical_json_def assertCanonicalJson_def json_profile_def stack_ok_def)

subsection \<open>The text determines the value\<close>

text \<open>A value up to the identity of its objects and the order of their members.\<close>

fun same_json :: "js_value \<Rightarrow> js_value" where
  "same_json (VArr i xs) = VArr 0 (map same_json xs)"
| "same_json (VObj i ms) = VObj 0 (sort_key fst (map (\<lambda>(k, v). (k, same_json v)) ms))"
| "same_json v = v"

lemma insort_key_map: "insort_key g (f x) (map f xs) = map f (insort_key (\<lambda>x. g (f x)) x xs)"
  by (induction xs) auto

lemma sort_key_map: "sort_key g (map f xs) = map f (sort_key (\<lambda>x. g (f x)) xs)"
  by (induction xs) (auto simp: insort_key_map)

lemma sort_members_map:
  fixes ms :: "('k::linorder \<times> 'v) list"
  shows "sort_key fst (map (\<lambda>(k, v). (k, f v)) ms) = map (\<lambda>(k, v). (k, f v)) (sort_key fst ms)"
proof -
  have "(\<lambda>x :: 'k \<times> 'v. fst (case x of (k, v) \<Rightarrow> (k, f v))) = fst" by auto
  then show ?thesis by (simp add: sort_key_map)
qed

definition member_text :: "js_string \<times> js_value \<Rightarrow> js_string" where
  "member_text m = js_quote (fst m) @ jstr '':'' @ canonicalizeValidated (snd m)"

lemma canonicalize_obj:
  "canonicalizeValidated (VObj i ms) =
     jstr ''{'' @ join_units comma (map member_text (sort_key fst ms)) @ jstr ''}''"
proof -
  have "member_text = (\<lambda>m. js_quote (fst m) @ jstr '':'' @ canonicalizeValidated (snd m))"
    by (simp add: member_text_def fun_eq_iff)
  then show ?thesis by (simp add: sort_members_map case_prod_beta comp_def)
qed

text \<open>What may follow a value inside a text.\<close>

definition ends :: "js_string \<Rightarrow> bool" where
  "ends r \<longleftrightarrow> (case r of [] \<Rightarrow> True | u # _ \<Rightarrow> u \<in> set (jstr '',]}''))"

lemma join_units_Cons:
  "join_units comma (map enc (x # xs)) @ r =
     enc x @ (if xs = [] then r else u16 CHR '','' # join_units comma (map enc xs) @ r)"
  by (cases xs) (simp_all add: comma_def)

lemma join_units_inj:
  assumes enc: "\<And>x y s s'. x \<in> set xs \<Longrightarrow> y \<in> set ys \<Longrightarrow> ends s \<Longrightarrow> ends s' \<Longrightarrow> enc x @ s = enc y @ s' \<Longrightarrow>
      f x = f y \<and> s = s'"
    and head: "\<And>x s. x \<in> set xs \<union> set ys \<Longrightarrow> \<not> ends (enc x @ s)"
    and c: "c \<in> set (jstr '']}'')"
    and eq: "join_units comma (map enc xs) @ c # r = join_units comma (map enc ys) @ c # r'"
  shows "map f xs = map f ys \<and> r = r'"
  using enc head eq
proof (induction xs arbitrary: ys)
  case Nil
  have "ends (c # r)" using c by (auto simp: ends_def)
  show ?case
  proof (cases ys)
    case (Cons y ys')
    have "c # r = enc y @ (if ys' = [] then c # r' else u16 CHR '','' # join_units comma (map enc ys') @ c # r')"
      using Nil(3) unfolding Cons join_units_Cons by simp
    with Nil(2)[of y] \<open>ends (c # r)\<close> Cons show ?thesis by auto
  qed (use Nil in simp)
next
  case (Cons x xs)
  have c_ends: "ends (c # z)" for z using c by (auto simp: ends_def)
  show ?case
  proof (cases ys)
    case Nil
    have "c # r' = enc x @ (if xs = [] then c # r else u16 CHR '','' # join_units comma (map enc xs) @ c # r)"
      using Cons.prems(3) unfolding Nil join_units_Cons by simp
    with Cons.prems(2)[of x] c_ends[of r'] show ?thesis by auto
  next
    case ys: (Cons y ys')
    let ?s = "if xs = [] then c # r else u16 CHR '','' # join_units comma (map enc xs) @ c # r"
    let ?s' = "if ys' = [] then c # r' else u16 CHR '','' # join_units comma (map enc ys') @ c # r'"
    have "ends ?s" "ends ?s'" using c_ends by (simp_all add: ends_def)
    moreover have "enc x @ ?s = enc y @ ?s'"
      using Cons.prems(3) unfolding ys join_units_Cons .
    ultimately have fx: "f x = f y" "?s = ?s'" using Cons.prems(1)[of x y] ys by auto
    have ne: "c \<noteq> u16 CHR '',''" using c by auto
    then have "xs = [] \<longleftrightarrow> ys' = []" using fx(2) by (auto split: if_splits)
    then have "map f xs = map f ys' \<and> r = r'"
    proof (cases "xs = []")
      case False
      have "join_units comma (map enc xs) @ c # r = join_units comma (map enc ys') @ c # r'"
        using fx(2) False \<open>xs = [] \<longleftrightarrow> ys' = []\<close> by simp
      then show ?thesis
        by (intro Cons.IH) (use Cons.prems(1,2) ys in auto)
    qed (use fx(2) in simp)
    with fx(1) ys show ?thesis by simp
  qed
qed

lemma takeWhile_number:
  assumes "ends r"
  shows "takeWhile (\<lambda>u. u \<in> u16 ` {c. is_digit c \<or> c = CHR ''-''}) (jstr (dec_int i) @ r) = jstr (dec_int i)"
proof -
  have all: "\<forall>u \<in> set (jstr (dec_int i)). u \<in> u16 ` {c. is_digit c \<or> c = CHR ''-''}"
    using dec_nat_digits by (auto simp: jstr_def dec_int_def)
  have "takeWhile (\<lambda>u. u \<in> u16 ` {c. is_digit c \<or> c = CHR ''-''}) r = []"
    using assms by (cases r) (auto simp: ends_def char_class_defs)
  with all show ?thesis by (simp add: takeWhile_append)
qed

lemma number_text_inj:
  assumes "jstr (dec_int i) @ r = jstr (dec_int j) @ r'" "ends r" "ends r'"
  shows "i = j \<and> r = r'"
proof -
  have "jstr (dec_int i) = jstr (dec_int j)"
    using takeWhile_number[OF assms(2), of i] takeWhile_number[OF assms(3), of j] assms(1) by simp
  then have "i = j" by (simp add: dec_int_inj)
  with assms(1) show ?thesis by simp
qed

text \<open>The first unit of a text tells the kind of the value.\<close>

definition kind_of :: "js_value \<Rightarrow> nat" where
  "kind_of v = (case v of VNull \<Rightarrow> 0 | VBool b \<Rightarrow> (if b then 1 else 2) | VNum n \<Rightarrow> 3 | VStr s \<Rightarrow> 4
     | VArr i xs \<Rightarrow> 5 | VObj i ms \<Rightarrow> 6 | VHostile w \<Rightarrow> 7)"

definition kind_of_unit :: "16 word \<Rightarrow> nat" where
  "kind_of_unit u = (if u = u16 CHR ''n'' then 0 else if u = u16 CHR ''t'' then 1 else if u = u16 CHR ''f'' then 2
     else if u = 0x22 then 4 else if u = u16 CHR ''['' then 5 else if u = u16 CHR ''{'' then 6 else 3)"

lemma dec_int_head: "\<exists>c cs. dec_int i = c # cs \<and> (is_digit c \<or> c = CHR ''-'')"
proof (cases "i < 0")
  case False
  then show ?thesis
    using dec_nat_digits[of "hd (dec_nat (nat i))" "nat i"]
    by (cases "dec_nat (nat i)") (auto simp: dec_int_def)
qed (simp add: dec_int_def)

lemma u16_quote [simp]: "u16 c = 0x22 \<longleftrightarrow> c = CHR 0x22" "0x22 = u16 c \<longleftrightarrow> c = CHR 0x22"
proof -
  have "u16 CHR 0x22 = 0x22" by (simp add: u16_def)
  then show "u16 c = 0x22 \<longleftrightarrow> c = CHR 0x22" "0x22 = u16 c \<longleftrightarrow> c = CHR 0x22" by (metis u16_inj)+
qed

lemma canonical_head:
  assumes "plain_json v"
  shows "\<exists>u us. canonicalizeValidated v = u # us \<and> kind_of_unit u = kind_of v \<and> u \<notin> set (jstr '',]}'')"
proof (cases v)
  case (VNum n)
  with assms obtain i where "n = Integral i" by (cases n) auto
  moreover obtain c cs where c: "dec_int i = c # cs" "is_digit c \<or> c = CHR ''-''" using dec_int_head by blast
  moreover have "kind_of_unit (u16 c) = 3 \<and> u16 c \<notin> set (jstr '',]}'')"
  proof -
    have "c \<notin> set (CHR 0x22 # ''ntf[{,]}'')"
    proof
      assume "c \<in> set (CHR 0x22 # ''ntf[{,]}'')"
      then have "c \<noteq> CHR ''-'' \<and> \<not> is_digit c" by (auto simp: char_class_defs)
      with c(2) show False by blast
    qed
    then show ?thesis by (simp add: kind_of_unit_def)
  qed
  ultimately show ?thesis using VNum by (simp add: kind_of_def)
next
  case (VStr s)
  then show ?thesis by (simp add: js_quote_def kind_of_def kind_of_unit_def)
qed (use assms in \<open>auto simp: kind_of_def kind_of_unit_def\<close>)

lemma not_ends_value: "plain_json v \<Longrightarrow> \<not> ends (canonicalizeValidated v @ s)"
  using canonical_head[of v] by (auto simp: ends_def simp del: jstr_simps)

lemma same_kind:
  assumes "plain_json v" "plain_json w" "canonicalizeValidated v @ r = canonicalizeValidated w @ r'"
  shows "kind_of v = kind_of w"
  using canonical_head[OF assms(1)] canonical_head[OF assms(2)] assms(3) by auto

definition text_determines :: "js_value \<Rightarrow> bool" where
  "text_determines v \<longleftrightarrow> plain_json v \<longrightarrow> (\<forall>w r r'. plain_json w \<longrightarrow> ends r \<longrightarrow> ends r' \<longrightarrow>
     canonicalizeValidated v @ r = canonicalizeValidated w @ r' \<longrightarrow> same_json v = same_json w \<and> r = r')"

lemma text_determinesD:
  "text_determines v \<Longrightarrow> plain_json v \<Longrightarrow> plain_json w \<Longrightarrow> ends r \<Longrightarrow> ends r' \<Longrightarrow>
   canonicalizeValidated v @ r = canonicalizeValidated w @ r' \<Longrightarrow> same_json v = same_json w \<and> r = r'"
  unfolding text_determines_def by blast

lemma text_determines_arr:
  assumes "\<And>x. x \<in> set xs \<Longrightarrow> text_determines x"
  shows "text_determines (VArr i xs)"
  unfolding text_determines_def
proof (intro impI allI)
  fix w r r'
  assume v: "plain_json (VArr i xs)" and w: "plain_json w"
    and eq: "canonicalizeValidated (VArr i xs) @ r = canonicalizeValidated w @ r'"
  obtain j ys where ys: "w = VArr j ys" using same_kind[OF v w eq] by (cases w) (auto simp: kind_of_def split: if_splits)
  have "map same_json xs = map same_json ys \<and> r = r'"
  proof (rule join_units_inj[where enc = canonicalizeValidated and c = "u16 CHR '']''"])
    show "join_units comma (map canonicalizeValidated xs) @ u16 CHR '']'' # r =
        join_units comma (map canonicalizeValidated ys) @ u16 CHR '']'' # r'"
      using eq unfolding ys by simp
  next
    fix x y s s' assume "x \<in> set xs" "y \<in> set ys" "ends s" "ends s'"
      "canonicalizeValidated x @ s = canonicalizeValidated y @ s'"
    then show "same_json x = same_json y \<and> s = s'"
      using text_determinesD[OF assms] v w ys by (auto simp: list_all_iff)
  qed (use v w ys not_ends_value in \<open>auto simp: list_all_iff\<close>)
  then show "same_json (VArr i xs) = same_json w \<and> r = r'" by (simp add: ys)
qed

lemma text_determines_obj:
  assumes "\<And>k x. (k, x) \<in> set ms \<Longrightarrow> text_determines x"
  shows "text_determines (VObj i ms)"
  unfolding text_determines_def
proof (intro impI allI)
  fix w r r'
  assume v: "plain_json (VObj i ms)" and w: "plain_json w"
    and eq: "canonicalizeValidated (VObj i ms) @ r = canonicalizeValidated w @ r'"
  obtain j ns where ns: "w = VObj j ns" using same_kind[OF v w eq] by (cases w) (auto simp: kind_of_def split: if_splits)
  let ?f = "\<lambda>(k, x). (k, same_json x)"
  have "map ?f (sort_key fst ms) = map ?f (sort_key fst ns) \<and> r = r'"
  proof (rule join_units_inj[where enc = member_text and c = "u16 CHR ''}''"])
    show "join_units comma (map member_text (sort_key fst ms)) @ u16 CHR ''}'' # r =
        join_units comma (map member_text (sort_key fst ns)) @ u16 CHR ''}'' # r'"
      using eq unfolding ns canonicalize_obj by simp
  next
    fix x y s s' assume xy: "x \<in> set (sort_key fst ms)" "y \<in> set (sort_key fst ns)" "ends s" "ends s'"
      "member_text x @ s = member_text y @ s'"
    obtain k a l b where ab: "x = (k, a)" "y = (l, b)" by fastforce
    have ok: "validUnicodeString k" "validUnicodeString l" "plain_json a" "plain_json b"
      using xy v w ns ab by (auto simp: list_all_iff)
    have "js_quote k @ u16 CHR '':'' # canonicalizeValidated a @ s = js_quote l @ u16 CHR '':'' # canonicalizeValidated b @ s'"
      using xy(5) by (simp add: member_text_def ab)
    from js_quote_inj[OF ok(1,2) this] text_determinesD[OF assms ok(3,4) xy(3,4), of k] xy ab
    show "?f x = ?f y \<and> s = s'" by auto
  qed (auto simp: member_text_def js_quote_def ends_def)
  then show "same_json (VObj i ms) = same_json w \<and> r = r'"
    by (simp add: ns sort_members_map)
qed

lemma text_determines_all: "text_determines v"
proof (induction v)
  case (VArr i xs)
  then show ?case by (intro text_determines_arr)
next
  case (VObj i ms)
  then show ?case by (intro text_determines_obj) (metis prod_set_simps(2) singletonI)
next
  case (VNum n)
  show ?case
    unfolding text_determines_def
  proof (intro impI allI)
    fix w r r' assume a: "plain_json (VNum n)" "plain_json w" "ends r" "ends r'"
      "canonicalizeValidated (VNum n) @ r = canonicalizeValidated w @ r'"
    obtain m where w: "w = VNum m" using same_kind[OF a(1,2,5)] by (cases w) (auto simp: kind_of_def split: if_splits)
    obtain i j where "n = Integral i" "m = Integral j" using a(1,2) w by (cases n; cases m) auto
    with a(3-5) w number_text_inj show "same_json (VNum n) = same_json w \<and> r = r'" by auto
  qed
next
  case (VStr s)
  show ?case
    unfolding text_determines_def
  proof (intro impI allI)
    fix w r r' assume a: "plain_json (VStr s)" "plain_json w"
      "canonicalizeValidated (VStr s) @ r = canonicalizeValidated w @ r'"
    obtain t where w: "w = VStr t" using same_kind[OF a] by (cases w) (auto simp: kind_of_def split: if_splits)
    with a js_quote_inj[of s t r r'] show "same_json (VStr s) = same_json w \<and> r = r'" by simp
  qed
next
  case VNull
  show ?case unfolding text_determines_def
  proof (intro impI allI)
    fix w r r' assume a: "plain_json VNull" "plain_json w" "canonicalizeValidated VNull @ r = canonicalizeValidated w @ r'"
    have "w = VNull" using same_kind[OF a] by (cases w) (auto simp: kind_of_def split: if_splits)
    with a(3) show "same_json VNull = same_json w \<and> r = r'" by simp
  qed
next
  case (VBool b)
  show ?case unfolding text_determines_def
  proof (intro impI allI)
    fix w r r' assume a: "plain_json (VBool b)" "plain_json w" "canonicalizeValidated (VBool b) @ r = canonicalizeValidated w @ r'"
    have "w = VBool b" using same_kind[OF a] by (cases w) (auto simp: kind_of_def split: if_splits)
    with a(3) show "same_json (VBool b) = same_json w \<and> r = r'" by simp
  qed
qed (simp add: text_determines_def)

text \<open>Equal values have equal text, whatever the order of their members.\<close>

lemma sort_key_idem: "sort_key f (sort_key f xs) = sort_key f xs"
proof -
  have "sorted (map f ys) \<Longrightarrow> sort_key f ys = ys" for ys
    by (induction ys) (auto simp: insort_is_Cons)
  then show ?thesis by simp
qed

lemma same_json_text_aux: "canonicalizeValidated (same_json v) = canonicalizeValidated v"
proof (induction v)
  case (VObj i ms)
  let ?c = "\<lambda>(k, v). (k, canonicalizeValidated v)" and ?n = "\<lambda>(k, v). (k, same_json v)"
  have "map ?c (map ?n ms) = map ?c ms" using VObj by (auto simp: case_prod_beta)
  then have "sort_key fst (map ?c (sort_key fst (map ?n ms))) = sort_key fst (map ?c ms)"
    by (simp only: sort_members_map[symmetric] sort_key_idem)
  then show ?case by simp
qed (auto simp: comp_def cong: map_cong)

text \<open>On admitted values, equal text and equal values (up to the order of members) are the same.\<close>

lemma canonical_text_eq:
  assumes "canonical_json v" "canonical_json w"
  shows "canonicalizeValidated v = canonicalizeValidated w \<longleftrightarrow> same_json v = same_json w"
proof
  assume "canonicalizeValidated v = canonicalizeValidated w"
  moreover have "plain_json v" "plain_json w"
    using assms by (simp_all add: canonical_json_profile json_profile_def)
  ultimately show "same_json v = same_json w"
    using text_determinesD[OF text_determines_all, of v w "[]" "[]"] by (simp add: ends_def)
next
  assume "same_json v = same_json w"
  then show "canonicalizeValidated v = canonicalizeValidated w"
    by (metis same_json_text_aux)
qed

end
