(* ===== verification/Execution_Binding.thy ===== *)
theory Execution_Binding
  imports Canonical_Json
begin

section \<open>Binding of the executed fields to the signed claim\<close>

text \<open>
  Model of the second half of \<open>packages/gate/src/execution-binding.ts\<close>: \<open>verifyExecutionBinding\<close> compares,
  field by field, the signed claim of a receipt with the action the executor observed. The field
  names of a requirement are strings; an absent or falsy claim or action is \<open>None\<close> (the code's
  \<open>|| {}\<close>).
\<close>

datatype field_state = FInvalid | FMissing | FValid js_value

fun fieldValue :: "js_value \<Rightarrow> js_string \<Rightarrow> field_state" where
  "fieldValue (VObj i ms) field = (case map_of ms field of
       None \<Rightarrow> FMissing
     | Some VNull \<Rightarrow> FMissing
     | Some v \<Rightarrow> (if canonical_json v then FValid v else FInvalid))"
| "fieldValue _ field = FInvalid"

text \<open>Both arguments have passed \<open>assertCanonicalJson\<close> where the code compares them.\<close>

definition equalValue :: "js_value \<Rightarrow> js_value \<Rightarrow> bool" where
  "equalValue a b \<longleftrightarrow> canonicalize a = canonicalize b"

text \<open>\<open>[...new Set(fields.filter(Boolean))]\<close>: the first occurrence of every non-empty name.\<close>

definition materialFieldsFor :: "js_string list option \<Rightarrow> js_string list" where
  "materialFieldsFor required = (case required of None \<Rightarrow> []
     | Some flds \<Rightarrow> rev (remdups (rev (filter (\<lambda>f. f \<noteq> []) flds))))"

record binding_result =
  br_ok :: bool
  br_required :: bool
  required_fields :: "js_string list"
  missing_signed_fields :: "js_string list"
  missing_observed_fields :: "js_string list"
  invalid_signed_fields :: "js_string list"
  invalid_observed_fields :: "js_string list"
  mismatched_fields :: "js_string list"
  signed_hash :: "string option"
  observed_hash :: "string option"

definition or_empty :: "js_value option \<Rightarrow> js_value" where
  "or_empty v = (case v of None \<Rightarrow> VObj 0 [] | Some x \<Rightarrow> x)"

text \<open>The accumulator object: its own identity, then the accepted fields in the order of acceptance.\<close>

fun accepted_members :: "js_value \<Rightarrow> js_string list \<Rightarrow> (js_string \<times> js_value) list" where
  "accepted_members c [] = []"
| "accepted_members c (f # fs) = (case fieldValue c f of
     FValid v \<Rightarrow> (f, v) # accepted_members c fs | _ \<Rightarrow> accepted_members c fs)"

definition accumulator :: "js_value \<Rightarrow> js_string list \<Rightarrow> js_value" where
  "accumulator c flds = (let ms = accepted_members c flds in
     VObj (Suc (foldr max (concat (map (\<lambda>(k, v). identities v) ms)) 0)) ms)"

definition missing_in :: "js_value \<Rightarrow> js_string list \<Rightarrow> js_string list" where
  "missing_in c flds = filter (\<lambda>f. fieldValue c f = FMissing) flds"

text \<open>The fields refused one by one, then, when the aggregate is refused, every accepted one.\<close>

definition invalid_in :: "js_value \<Rightarrow> js_string list \<Rightarrow> js_string list" where
  "invalid_in c flds = (let inv = filter (\<lambda>f. fieldValue c f = FInvalid) flds in
     if canonical_json (accumulator c flds) then inv
     else inv @ filter (\<lambda>f. f \<notin> set inv) (map fst (accepted_members c flds)))"

definition mismatched_in :: "js_value \<Rightarrow> js_value \<Rightarrow> js_string list \<Rightarrow> js_string list" where
  "mismatched_in s ob flds = filter (\<lambda>f. case (fieldValue s f, fieldValue ob f) of
     (FValid a, FValid b) \<Rightarrow> \<not> equalValue a b | _ \<Rightarrow> False) flds"

definition side_hash :: "hash16 \<Rightarrow> js_value \<Rightarrow> js_string list \<Rightarrow> string + string option" where
  "side_hash sha c flds = (if invalid_in c flds = []
     then (case hashCanonical sha (accumulator c flds) of Inl why \<Rightarrow> Inl why | Inr h \<Rightarrow> Inr (Some h))
     else Inr None)"

definition verifyExecutionBinding :: "hash16 \<Rightarrow> js_string list option \<Rightarrow> js_value option \<Rightarrow> js_value option
    \<Rightarrow> string + binding_result" where
  "verifyExecutionBinding sha requirement claim observedAction =
     (let requiredFields = materialFieldsFor requirement;
          signed = or_empty claim; observed = or_empty observedAction;
          missingSigned = missing_in signed requiredFields;
          missingObserved = missing_in observed requiredFields;
          invalidSigned = invalid_in signed requiredFields;
          invalidObserved = invalid_in observed requiredFields;
          mismatched = mismatched_in signed observed requiredFields
      in if requiredFields = []
         then Inr \<lparr>br_ok = True, br_required = False, required_fields = [], missing_signed_fields = [],
           missing_observed_fields = [], invalid_signed_fields = [], invalid_observed_fields = [],
           mismatched_fields = [], signed_hash = None, observed_hash = None\<rparr>
         else (case side_hash sha signed requiredFields of
             Inl why \<Rightarrow> Inl why
           | Inr sh \<Rightarrow> (case side_hash sha observed requiredFields of
               Inl why \<Rightarrow> Inl why
             | Inr oh \<Rightarrow> Inr \<lparr>br_ok = (missingSigned = [] \<and> missingObserved = [] \<and> invalidSigned = []
                   \<and> invalidObserved = [] \<and> mismatched = []),
                 br_required = True, required_fields = requiredFields,
                 missing_signed_fields = missingSigned, missing_observed_fields = missingObserved,
                 invalid_signed_fields = invalidSigned, invalid_observed_fields = invalidObserved,
                 mismatched_fields = mismatched, signed_hash = sh, observed_hash = oh\<rparr>)))"

subsection \<open>Fields and accumulators\<close>

text \<open>A field holds a value when the container is an object that has it, not null, in the domain.\<close>

definition holds_field :: "js_value \<Rightarrow> js_string \<Rightarrow> js_value \<Rightarrow> bool" where
  "holds_field c f v \<longleftrightarrow> (\<exists>i ms. c = VObj i ms \<and> map_of ms f = Some v) \<and> v \<noteq> VNull \<and> canonical_json v"

lemma fieldValue_FValid: "fieldValue c f = FValid v \<longleftrightarrow> holds_field c f v"
  by (cases c) (auto simp: holds_field_def split: option.splits js_value.splits if_splits)

lemma equalValue_same:
  "canonical_json a \<Longrightarrow> canonical_json b \<Longrightarrow> equalValue a b \<longleftrightarrow> same_json a = same_json b"
  using canonical_text_eq[of a b] by (simp add: equalValue_def canonicalize_def canonical_json_def)

lemma accepted_members_all:
  assumes "\<forall>f \<in> set fs. fieldValue c f = FValid (val f)"
  shows "accepted_members c fs = map (\<lambda>f. (f, val f)) fs"
  using assms by (induction fs) auto

lemma accepted_members_fields: "set (map fst (accepted_members c fs)) \<subseteq> set fs"
  by (induction fs) (auto split: field_state.splits)

lemma set_materialFieldsFor: "set (materialFieldsFor (Some fs)) = {f \<in> set fs. f \<noteq> []}"
  by (auto simp: materialFieldsFor_def)

lemma distinct_materialFieldsFor: "distinct (materialFieldsFor r)"
  by (auto simp: materialFieldsFor_def split: option.splits)

lemma empty_accumulator: "accepted_members c fs = [] \<Longrightarrow> canonical_json (accumulator c fs)"
  by (simp add: accumulator_def canonical_json_profile json_profile_def MAX_JSON_NODES_def MAX_JSON_STRING_BYTES_def
      MAX_JSON_DEPTH_def)

lemma invalid_in_Nil:
  "invalid_in c fs = [] \<longleftrightarrow> canonical_json (accumulator c fs) \<and> (\<forall>f \<in> set fs. fieldValue c f \<noteq> FInvalid)"
proof (cases "canonical_json (accumulator c fs)")
  case False
  then have ne: "accepted_members c fs \<noteq> []" using empty_accumulator by blast
  obtain f v where f: "(f, v) \<in> set (accepted_members c fs)" using ne by (cases "accepted_members c fs") auto
  have "fieldValue c f = FValid v" if "(f, v) \<in> set (accepted_members c gs)" for gs
    using that by (induction gs) (auto split: field_state.splits)
  then have "f \<notin> set (filter (\<lambda>f. fieldValue c f = FInvalid) fs)" using f by auto
  then have "f \<in> set (filter (\<lambda>f. f \<notin> set (filter (\<lambda>f. fieldValue c f = FInvalid) fs)) (map fst (accepted_members c fs)))"
    using f by force
  then have "f \<in> set (invalid_in c fs)" using False by (simp add: invalid_in_def Let_def del: set_filter)
  then have "invalid_in c fs \<noteq> []" by auto
  with False show ?thesis by simp
qed (auto simp: invalid_in_def Let_def filter_empty_conv)

lemma side_hash_total:
  "\<exists>h. side_hash sha c fs = Inr h"
  using invalid_in_Nil[of c fs]
  by (auto simp: side_hash_def hashCanonical_def canonicalize_def canonical_json_def)

text \<open>The verdict, and the digests, of a comparison with required fields.\<close>

lemma verify_required:
  assumes "materialFieldsFor req = fs" "fs \<noteq> []"
  obtains r where "verifyExecutionBinding sha req claim ob = Inr r" "br_required r" "required_fields r = fs"
    "br_ok r \<longleftrightarrow> missing_in (or_empty claim) fs = [] \<and> missing_in (or_empty ob) fs = []
       \<and> invalid_in (or_empty claim) fs = [] \<and> invalid_in (or_empty ob) fs = []
       \<and> mismatched_in (or_empty claim) (or_empty ob) fs = []"
    "mismatched_fields r = mismatched_in (or_empty claim) (or_empty ob) fs"
    "side_hash sha (or_empty claim) fs = Inr (signed_hash r)"
    "side_hash sha (or_empty ob) fs = Inr (observed_hash r)"
proof -
  obtain a b where ab: "side_hash sha (or_empty claim) fs = Inr a" "side_hash sha (or_empty ob) fs = Inr b"
    using side_hash_total by blast
  obtain r where r: "verifyExecutionBinding sha req claim ob = Inr r"
    using assms ab by (simp add: verifyExecutionBinding_def Let_def)
  show thesis
    by (rule that[OF r]) (use r assms ab in \<open>auto simp: verifyExecutionBinding_def Let_def\<close>)
qed

lemma field_cases_ok:
  "missing_in c fs = [] \<and> invalid_in c fs = [] \<longleftrightarrow>
     (\<forall>f \<in> set fs. \<exists>v. holds_field c f v) \<and> canonical_json (accumulator c fs)"
proof -
  have "(fieldValue c f \<noteq> FMissing \<and> fieldValue c f \<noteq> FInvalid) \<longleftrightarrow> (\<exists>v. holds_field c f v)" for f
    using fieldValue_FValid[of c f] by (cases "fieldValue c f") auto
  then show ?thesis unfolding missing_in_def filter_empty_conv invalid_in_Nil by blast
qed

lemma same_values_same_text:
  assumes "\<forall>f \<in> set fs. fieldValue s f = FValid (a f) \<and> fieldValue ob f = FValid (b f) \<and> same_json (a f) = same_json (b f)"
  shows "canonicalizeValidated (accumulator s fs) = canonicalizeValidated (accumulator ob fs)"
proof -
  have "accepted_members s fs = map (\<lambda>f. (f, a f)) fs" "accepted_members ob fs = map (\<lambda>f. (f, b f)) fs"
    using assms by (auto intro!: accepted_members_all)
  then have "same_json (accumulator s fs) = same_json (accumulator ob fs)"
    using assms by (auto simp: accumulator_def Let_def comp_def intro!: arg_cong[of _ _ "sort_key fst"])
  then show ?thesis by (metis same_json_text_aux)
qed

lemma mismatched_Nil:
  assumes "\<forall>f \<in> set fs. \<exists>v. holds_field s f v" "\<forall>f \<in> set fs. \<exists>v. holds_field ob f v"
  shows "mismatched_in s ob fs = [] \<longleftrightarrow>
    (\<forall>f \<in> set fs. \<forall>a b. holds_field s f a \<longrightarrow> holds_field ob f b \<longrightarrow> same_json a = same_json b)"
proof -
  have "(case (fieldValue s f, fieldValue ob f) of (FValid a, FValid b) \<Rightarrow> \<not> equalValue a b | _ \<Rightarrow> False)
      \<longleftrightarrow> (\<exists>a b. holds_field s f a \<and> holds_field ob f b \<and> same_json a \<noteq> same_json b)" for f
    using equalValue_same
    by (auto simp: fieldValue_FValid[symmetric] split: field_state.splits)
      (simp_all add: fieldValue_FValid holds_field_def)
  then show ?thesis by (auto simp: mismatched_in_def filter_empty_conv)
qed

subsection \<open>Properties\<close>

text \<open>
  The stack walk of \<open>assertCanonicalJson\<close> accepts a value exactly when the value satisfies the
  profile as a whole: only plain data with well-formed strings and safe integers, at most 64 levels
  deep, at most 50000 nodes, at most one mebibyte of text, and no object reached twice.
\<close>

theorem assertCanonicalJson_profile:
  "assertCanonicalJson v = None \<longleftrightarrow>
     plain_json v \<and> within_depth 0 v \<and> value_nodes v \<le> 50000 \<and> value_bytes v \<le> 1048576 \<and> distinct (identities v)"
  using canonical_json_profile[of v]
  by (simp add: canonical_json_def json_profile_def MAX_JSON_NODES_def MAX_JSON_STRING_BYTES_def)

text \<open>
  Property C27. Canonical text is faithful: two admitted values have the same canonical text exactly when
  they are the same value up to the order of object members.
\<close>

theorem canonicalize_injective:
  assumes "canonicalize v = Inr t" "canonicalize w = Inr u"
  shows "t = u \<longleftrightarrow> same_json v = same_json w"
  using assms canonical_text_eq[of v w]
  by (auto simp: canonicalize_def canonical_json_def split: option.splits)

theorem canonicalize_injective_witness:
  "canonicalize (VObj 1 [(jstr ''b'', VNum (Integral 2)), (jstr ''a'', VBool True)]) =
   canonicalize (VObj 7 [(jstr ''a'', VBool True), (jstr ''b'', VNum (Integral 2))])"
proof -
  let ?v = "VObj 1 [(jstr ''b'', VNum (Integral 2)), (jstr ''a'', VBool True)]"
  let ?w = "VObj 7 [(jstr ''a'', VBool True), (jstr ''b'', VNum (Integral 2))]"
  have "canonical_json ?v" "canonical_json ?w"
    by (simp_all add: canonical_json_profile json_profile_def MAX_JSON_NODES_def MAX_JSON_STRING_BYTES_def
        MAX_JSON_DEPTH_def u16_def is_high_def is_low_def safe_int_def max_safe_def)
  then obtain t u where tu: "canonicalize ?v = Inr t" "canonicalize ?w = Inr u"
    by (simp add: canonicalize_def canonical_json_def)
  have "same_json ?v = same_json ?w" by (simp add: u16_def)
  with canonicalize_injective[OF tu] tu show ?thesis by simp
qed

text \<open>
  Property C26. \<open>verifyExecutionBinding\<close> always returns a verdict. With required fields it is positive exactly
  when every required field is present and valid in the signed claim and in the observed action
  with the same value, and both sets of fields are admitted as a whole; then both digests exist and
  are equal.
\<close>

theorem verifyExecutionBinding_sound_complete:
  assumes "materialFieldsFor req = fs" "fs \<noteq> []"
  shows "\<exists>r. verifyExecutionBinding sha req claim ob = Inr r
    \<and> (br_ok r \<longleftrightarrow>
         (\<forall>f \<in> set fs. \<exists>a b. holds_field (or_empty claim) f a \<and> holds_field (or_empty ob) f b \<and> same_json a = same_json b)
         \<and> canonical_json (accumulator (or_empty claim) fs) \<and> canonical_json (accumulator (or_empty ob) fs))
    \<and> (br_ok r \<longrightarrow> signed_hash r \<noteq> None \<and> signed_hash r = observed_hash r)"
proof -
  let ?s = "or_empty claim" and ?o = "or_empty ob"
  obtain r where r: "verifyExecutionBinding sha req claim ob = Inr r"
    "br_ok r \<longleftrightarrow> missing_in ?s fs = [] \<and> missing_in ?o fs = [] \<and> invalid_in ?s fs = [] \<and> invalid_in ?o fs = []
       \<and> mismatched_in ?s ?o fs = []"
    "side_hash sha ?s fs = Inr (signed_hash r)" "side_hash sha ?o fs = Inr (observed_hash r)"
    using verify_required[OF assms] by metis
  have uniq: "holds_field c f a \<Longrightarrow> holds_field c f b \<Longrightarrow> a = b" for c f a b
    by (auto simp: holds_field_def)
  have ok: "br_ok r \<longleftrightarrow>
      (\<forall>f \<in> set fs. \<exists>a b. holds_field ?s f a \<and> holds_field ?o f b \<and> same_json a = same_json b)
      \<and> canonical_json (accumulator ?s fs) \<and> canonical_json (accumulator ?o fs)"
  proof (cases "(\<forall>f \<in> set fs. \<exists>v. holds_field ?s f v) \<and> (\<forall>f \<in> set fs. \<exists>v. holds_field ?o f v)")
    case True
    then have "mismatched_in ?s ?o fs = [] \<longleftrightarrow>
        (\<forall>f \<in> set fs. \<exists>a b. holds_field ?s f a \<and> holds_field ?o f b \<and> same_json a = same_json b)"
      unfolding mismatched_Nil[OF conjunct1[OF True] conjunct2[OF True]] using uniq by metis
    with True r(2) field_cases_ok[of ?s fs] field_cases_ok[of ?o fs] show ?thesis by argo
  next
    case False
    with r(2) field_cases_ok[of ?s fs] field_cases_ok[of ?o fs] show ?thesis by blast
  qed
  have "signed_hash r \<noteq> None \<and> signed_hash r = observed_hash r" if "br_ok r"
  proof -
    from that ok obtain a b where "\<forall>f \<in> set fs. holds_field ?s f (a f) \<and> holds_field ?o f (b f) \<and> same_json (a f) = same_json (b f)"
      by metis
    then have "canonicalizeValidated (accumulator ?s fs) = canonicalizeValidated (accumulator ?o fs)"
      by (intro same_values_same_text[where a = a and b = b]) (simp add: fieldValue_FValid)
    then have "side_hash sha ?s fs = Inr (Some (sha (canonicalizeValidated (accumulator ?s fs))))"
      "side_hash sha ?o fs = Inr (Some (sha (canonicalizeValidated (accumulator ?s fs))))"
      using that r(2) ok by (simp_all add: side_hash_def hashCanonical_def canonicalize_def canonical_json_def)
    then show ?thesis using r(3,4) by (metis Inr_inject option.distinct(1))
  qed
  with r(1) ok show ?thesis by blast
qed

theorem verifyExecutionBinding_sound_complete_witness:
  "\<exists>r. verifyExecutionBinding (\<lambda>t. ''00'') (Some [jstr ''amount''])
     (Some (VObj 1 [(jstr ''amount'', VNum (Integral 700))])) (Some (VObj 2 [(jstr ''amount'', VNum (Integral 900))])) = Inr r
     \<and> \<not> br_ok r"
proof -
  let ?c = "VObj 1 [(jstr ''amount'', VNum (Integral 700))]" and ?o = "VObj 2 [(jstr ''amount'', VNum (Integral 900))]"
  have "materialFieldsFor (Some [jstr ''amount'']) = [jstr ''amount'']" by (simp add: materialFieldsFor_def)
  from verifyExecutionBinding_sound_complete[OF this, of "\<lambda>t. ''00''" "Some ?c" "Some ?o"]
  show ?thesis by (auto simp: or_empty_def holds_field_def)
qed

end
