(* ===== verification/Consumption_Store.thy ===== *)
theory Consumption_Store
  imports Ep_Prelude
begin

section \<open>Consumption stores\<close>

text \<open>
  Model of \<open>packages/gate/src/store.ts\<close>: the replay defence of the gate. A receipt id is consumed once.
  The durable store keeps one value per id in a shared backend with three atomic operations, and
  every store instance remembers the tokens of the reservations it made.

  What the store needs of a backend is the locale \<open>kv_backend\<close>; \<open>createMemoryBackend\<close> is shown to provide
  it. The fleet is the set of all store instances over one backend: calls of any instances overlap,
  each split at its \<open>await\<close> into the part before the backend operation, the atomic operation, and the
  part after it.
\<close>

subsection \<open>\<open>MemoryConsumptionStore\<close>\<close>

record memory_store =
  seen :: "string list"
  reserved :: "string list"

definition new_memory_store :: memory_store where
  "new_memory_store = \<lparr>seen = [], reserved = []\<rparr>"

text \<open>A Set keeps one copy of every element, in the order of insertion.\<close>

definition set_add :: "'a \<Rightarrow> 'a list \<Rightarrow> 'a list" where
  "set_add x xs = (if x \<in> set xs then xs else xs @ [x])"

definition mem_has :: "string \<Rightarrow> memory_store \<Rightarrow> bool" where
  "mem_has k m \<longleftrightarrow> k \<in> set (seen m) \<or> k \<in> set (reserved m)"

definition mem_consume :: "string \<Rightarrow> memory_store \<Rightarrow> bool \<times> memory_store" where
  "mem_consume k m = (if k \<in> set (seen m) \<or> k \<in> set (reserved m) then (False, m)
     else (True, m\<lparr>seen := set_add k (seen m)\<rparr>))"

definition mem_reserve :: "string \<Rightarrow> memory_store \<Rightarrow> bool \<times> memory_store" where
  "mem_reserve k m = (if k \<in> set (seen m) \<or> k \<in> set (reserved m) then (False, m)
     else (True, m\<lparr>reserved := set_add k (reserved m)\<rparr>))"

definition mem_commit :: "string \<Rightarrow> memory_store \<Rightarrow> bool \<times> memory_store" where
  "mem_commit k m = (True, m\<lparr>reserved := removeAll k (reserved m), seen := set_add k (seen m)\<rparr>)"

definition mem_release :: "string \<Rightarrow> memory_store \<Rightarrow> bool \<times> memory_store" where
  "mem_release k m = (True, m\<lparr>reserved := removeAll k (reserved m)\<rparr>)"

definition mem_size :: "memory_store \<Rightarrow> nat" where
  "mem_size m = length (seen m)"

datatype mem_call = M_consume string | M_reserve string | M_commit string | M_release string

fun mem_call_step :: "mem_call \<Rightarrow> memory_store \<Rightarrow> bool \<times> memory_store" where
  "mem_call_step (M_consume k) = mem_consume k"
| "mem_call_step (M_reserve k) = mem_reserve k"
| "mem_call_step (M_commit k) = mem_commit k"
| "mem_call_step (M_release k) = mem_release k"

fun mem_run :: "mem_call list \<Rightarrow> memory_store \<Rightarrow> (mem_call \<times> bool) list \<times> memory_store" where
  "mem_run [] m = ([], m)"
| "mem_run (c # cs) m = (case mem_call_step c m of (r, m') \<Rightarrow>
     (case mem_run cs m' of (rs, m'') \<Rightarrow> ((c, r) # rs, m'')))"

lemmas mem_defs = mem_consume_def mem_reserve_def mem_commit_def mem_release_def mem_has_def set_add_def

lemma mem_step_seen: "k \<in> set (seen m) \<Longrightarrow> k \<in> set (seen (snd (mem_call_step c m)))"
  by (cases c) (auto simp: mem_defs)

lemma mem_run_seen:
  assumes "mem_run cs m = (rs, m')" "k \<in> set (seen m)"
  shows "k \<in> set (seen m') \<and> (M_consume k, True) \<notin> set rs \<and> (M_reserve k, True) \<notin> set rs"
  using assms
proof (induction cs arbitrary: m rs)
  case (Cons c cs)
  obtain r m1 rs1 where s: "mem_call_step c m = (r, m1)" "mem_run cs m1 = (rs1, m')" "rs = (c, r) # rs1"
    using Cons.prems(1) by (auto split: prod.splits)
  have "k \<in> set (seen m1)" using mem_step_seen[OF Cons.prems(2), of c] s(1) by simp
  from Cons.IH[OF s(2) this] s Cons.prems(2) show ?case by (auto simp: mem_defs split: if_splits)
qed simp

lemma mem_consume_once:
  "mem_run cs m = (rs, m') \<Longrightarrow> length (filter (\<lambda>p. p = (M_consume k, True)) rs) \<le> 1"
proof (induction cs arbitrary: m rs)
  case (Cons c cs)
  obtain r m1 rs1 where s: "mem_call_step c m = (r, m1)" "mem_run cs m1 = (rs1, m')" "rs = (c, r) # rs1"
    using Cons.prems(1) by (auto split: prod.splits)
  show ?case
  proof (cases "(c, r) = (M_consume k, True)")
    case True
    then have "k \<in> set (seen m1)" using s(1) by (auto simp: mem_defs split: if_splits)
    from mem_run_seen[OF s(2) this] have "filter (\<lambda>p. p = (M_consume k, True)) rs1 = []"
      by (auto simp: filter_empty_conv)
    with s(3) show ?thesis by simp
  next
    case False
    with Cons.IH[OF s(2)] s(3) show ?thesis by auto
  qed
qed simp

subsection \<open>What a store declares of itself\<close>

record store_face =
  durable :: bool
  ownershipFenced :: bool
  permanentConsumption :: bool
  retentionSeconds :: "js_number option"

definition memory_face :: store_face where
  "memory_face = \<lparr>durable = False, ownershipFenced = False, permanentConsumption = False, retentionSeconds = None\<rparr>"

text \<open>The methods are there by the type of the store.\<close>

definition isSecureConsumptionStore :: "store_face \<Rightarrow> bool" where
  "isSecureConsumptionStore f \<longleftrightarrow> durable f \<and> ownershipFenced f \<and> permanentConsumption f"

definition createDurableConsumptionStore :: "bool \<Rightarrow> js_number option \<Rightarrow> string + store_face" where
  "createDurableConsumptionStore backend_durable ttl = (case ttl of
       None \<Rightarrow> Inr \<lparr>durable = backend_durable, ownershipFenced = True, permanentConsumption = True,
         retentionSeconds = None\<rparr>
     | Some n \<Rightarrow>
         if \<not> is_safe_integer n \<or> num_val n \<le> 0
         then Inl ''ttlSeconds must be a positive safe integer when supplied''
         else Inr \<lparr>durable = backend_durable, ownershipFenced = True, permanentConsumption = False,
           retentionSeconds = Some n\<rparr>)"

subsection \<open>The backend\<close>

text \<open>The last argument of an insertion or a transition is the retention the store asks for.\<close>

record 'b kv_ops =
  addIfAbsent :: "'b \<Rightarrow> string \<Rightarrow> string \<Rightarrow> js_number option \<Rightarrow> bool \<times> 'b"
  compareAndSet :: "'b \<Rightarrow> string \<Rightarrow> string \<Rightarrow> string \<Rightarrow> js_number option \<Rightarrow> bool \<times> 'b"
  deleteIfValue :: "'b \<Rightarrow> string \<Rightarrow> string \<Rightarrow> bool \<times> 'b"
  hasKey :: "'b \<Rightarrow> string \<Rightarrow> bool"

type_synonym memory_map = "(string, string) js_map"

definition mb_addIfAbsent :: "memory_map \<Rightarrow> string \<Rightarrow> string \<Rightarrow> js_number option \<Rightarrow> bool \<times> memory_map" where
  "mb_addIfAbsent m k v ttl = (if map_has m k then (False, m) else (True, map_set k v m))"

definition mb_compareAndSet :: "memory_map \<Rightarrow> string \<Rightarrow> string \<Rightarrow> string \<Rightarrow> js_number option \<Rightarrow> bool \<times> memory_map" where
  "mb_compareAndSet m k expected replacement ttl =
     (if map_get m k \<noteq> Some expected then (False, m) else (True, map_set k replacement m))"

definition mb_deleteIfValue :: "memory_map \<Rightarrow> string \<Rightarrow> string \<Rightarrow> bool \<times> memory_map" where
  "mb_deleteIfValue m k expected =
     (if map_get m k \<noteq> Some expected then (False, m) else (map_has m k, map_del k m))"

definition createMemoryBackend :: "memory_map kv_ops" where
  "createMemoryBackend = \<lparr>addIfAbsent = mb_addIfAbsent, compareAndSet = mb_compareAndSet,
     deleteIfValue = mb_deleteIfValue, hasKey = map_has\<rparr>"

subsection \<open>The durable store\<close>

definition COMMITTED_VALUE :: string where "COMMITTED_VALUE = ''committed:v2''"
definition RESERVED_PREFIX :: string where "RESERVED_PREFIX = ''reserved:v2:''"

type_synonym owned_map = "(string, string) js_map"

definition ownedValue :: "owned_map \<Rightarrow> string \<Rightarrow> string + string" where
  "ownedValue owned k = (case map_get owned k of
       None \<Rightarrow> Inl ''this store does not own reservation''
     | Some token \<Rightarrow> if token = [] then Inl ''this store does not own reservation''
         else Inr (RESERVED_PREFIX @ token))"

definition reservation_value :: "string \<Rightarrow> string + string" where
  "reservation_value token = (if length token < 16
     then Inl ''reservationTokenFactory must return an unpredictable string of at least 16 characters''
     else Inr (RESERVED_PREFIX @ token))"

text \<open>The methods, run without interruption on the backend and the instance's own map.\<close>

definition ds_reserve :: "'b kv_ops \<Rightarrow> string \<Rightarrow> string \<Rightarrow> 'b \<times> owned_map \<Rightarrow> (string + bool) \<times> 'b \<times> owned_map" where
  "ds_reserve ops token k s = (case s of (b, owned) \<Rightarrow> (case reservation_value token of
       Inl e \<Rightarrow> (Inl e, b, owned)
     | Inr v \<Rightarrow> (case addIfAbsent ops b k v None of
         (inserted, b') \<Rightarrow> (Inr inserted, b', if inserted then map_set k token owned else owned))))"

definition ds_commit :: "'b kv_ops \<Rightarrow> js_number option \<Rightarrow> string \<Rightarrow> 'b \<times> owned_map \<Rightarrow> (string + bool) \<times> 'b \<times> owned_map" where
  "ds_commit ops ttl k s = (case s of (b, owned) \<Rightarrow> (case ownedValue owned k of
       Inl e \<Rightarrow> (Inl e, b, owned)
     | Inr expected \<Rightarrow> (case compareAndSet ops b k expected COMMITTED_VALUE ttl of
         (changed, b') \<Rightarrow> if \<not> changed then (Inl ''reservation ownership was lost'', b', owned)
           else (Inr True, b', map_del k owned))))"

definition ds_release :: "'b kv_ops \<Rightarrow> string \<Rightarrow> 'b \<times> owned_map \<Rightarrow> (string + bool) \<times> 'b \<times> owned_map" where
  "ds_release ops k s = (case s of (b, owned) \<Rightarrow> (case ownedValue owned k of
       Inl e \<Rightarrow> (Inl e, b, owned)
     | Inr expected \<Rightarrow> (case deleteIfValue ops b k expected of
         (deleted, b') \<Rightarrow> (if \<not> deleted then Inl ''reservation ownership was lost'' else Inr True,
           b', map_del k owned))))"

definition ds_consume :: "'b kv_ops \<Rightarrow> js_number option \<Rightarrow> string \<Rightarrow> 'b \<Rightarrow> bool \<times> 'b" where
  "ds_consume ops ttl k b = addIfAbsent ops b k COMMITTED_VALUE ttl"

definition ds_has :: "'b kv_ops \<Rightarrow> string \<Rightarrow> 'b \<Rightarrow> bool" where
  "ds_has ops k b = hasKey ops b k"

subsection \<open>The fleet\<close>

text \<open>What an instance is waiting for, and the successes of the backend in their order.\<close>

datatype pending_call =
    Reserving nat string string
  | Reserve_won nat string string
  | Committing nat string string
  | Commit_won nat string
  | Releasing nat string string
  | Release_done nat string

datatype consumption_event =
    E_reserved nat string string
  | E_committed nat string string
  | E_released nat string string
  | E_consumed nat string

fun event_key :: "consumption_event \<Rightarrow> string" where
  "event_key (E_reserved w k t) = k"
| "event_key (E_committed w k v) = k"
| "event_key (E_released w k v) = k"
| "event_key (E_consumed w k) = k"

record 'b fleet =
  shared :: 'b
  owned_by :: "nat \<Rightarrow> owned_map"
  calls :: "pending_call list"
  log :: "consumption_event list"

text \<open>One instance runs to its next \<open>await\<close>, or the backend performs one operation. No retention is set.\<close>

inductive fleet_step :: "'b kv_ops \<Rightarrow> 'b fleet \<Rightarrow> 'b fleet \<Rightarrow> bool" for ops where
  reserve_call: "reservation_value token = Inr v \<Longrightarrow>
    fleet_step ops s (s\<lparr>calls := Reserving w k token # calls s\<rparr>)"
| reserve_backend: "Reserving w k token \<in> set (calls s) \<Longrightarrow>
    addIfAbsent ops (shared s) k (RESERVED_PREFIX @ token) None = (ok, b) \<Longrightarrow>
    fleet_step ops s (s\<lparr>shared := b,
      calls := (if ok then [Reserve_won w k token] else []) @ remove1 (Reserving w k token) (calls s),
      log := log s @ (if ok then [E_reserved w k token] else [])\<rparr>)"
| reserve_return: "Reserve_won w k token \<in> set (calls s) \<Longrightarrow>
    fleet_step ops s (s\<lparr>owned_by := (owned_by s)(w := map_set k token (owned_by s w)),
      calls := remove1 (Reserve_won w k token) (calls s)\<rparr>)"
| commit_call: "ownedValue (owned_by s w) k = Inr v \<Longrightarrow>
    fleet_step ops s (s\<lparr>calls := Committing w k v # calls s\<rparr>)"
| commit_backend: "Committing w k v \<in> set (calls s) \<Longrightarrow>
    compareAndSet ops (shared s) k v COMMITTED_VALUE None = (ok, b) \<Longrightarrow>
    fleet_step ops s (s\<lparr>shared := b,
      calls := (if ok then [Commit_won w k] else []) @ remove1 (Committing w k v) (calls s),
      log := log s @ (if ok then [E_committed w k v] else [])\<rparr>)"
| commit_return: "Commit_won w k \<in> set (calls s) \<Longrightarrow>
    fleet_step ops s (s\<lparr>owned_by := (owned_by s)(w := map_del k (owned_by s w)),
      calls := remove1 (Commit_won w k) (calls s)\<rparr>)"
| release_call: "ownedValue (owned_by s w) k = Inr v \<Longrightarrow>
    fleet_step ops s (s\<lparr>calls := Releasing w k v # calls s\<rparr>)"
| release_backend: "Releasing w k v \<in> set (calls s) \<Longrightarrow>
    deleteIfValue ops (shared s) k v = (ok, b) \<Longrightarrow>
    fleet_step ops s (s\<lparr>shared := b,
      calls := Release_done w k # remove1 (Releasing w k v) (calls s),
      log := log s @ (if ok then [E_released w k v] else [])\<rparr>)"
| release_return: "Release_done w k \<in> set (calls s) \<Longrightarrow>
    fleet_step ops s (s\<lparr>owned_by := (owned_by s)(w := map_del k (owned_by s w)),
      calls := remove1 (Release_done w k) (calls s)\<rparr>)"
| consume_backend: "addIfAbsent ops (shared s) k COMMITTED_VALUE None = (ok, b) \<Longrightarrow>
    fleet_step ops s (s\<lparr>shared := b, log := log s @ (if ok then [E_consumed w k] else [])\<rparr>)"

inductive fleet_reachable :: "'b kv_ops \<Rightarrow> 'b \<Rightarrow> 'b fleet \<Rightarrow> bool" for ops b0 where
  start: "fleet_reachable ops b0 \<lparr>shared = b0, owned_by = (\<lambda>_. []), calls = [], log = []\<rparr>"
| step: "fleet_reachable ops b0 s \<Longrightarrow> fleet_step ops s t \<Longrightarrow> fleet_reachable ops b0 t"

subsection \<open>The life of one receipt id\<close>

text \<open>The abstract machine: free, reserved under a value, or committed for ever.\<close>

definition receipt_next :: "string option \<Rightarrow> consumption_event \<Rightarrow> string option option" where
  "receipt_next s e = (case e of
       E_reserved w k t \<Rightarrow> if s = None then Some (Some (RESERVED_PREFIX @ t)) else None
     | E_consumed w k \<Rightarrow> if s = None then Some (Some COMMITTED_VALUE) else None
     | E_committed w k v \<Rightarrow> if s = Some v \<and> v \<noteq> COMMITTED_VALUE then Some (Some COMMITTED_VALUE) else None
     | E_released w k v \<Rightarrow> if s = Some v \<and> v \<noteq> COMMITTED_VALUE then Some None else None)"

fun receipt_run :: "string option \<Rightarrow> consumption_event list \<Rightarrow> string option option" where
  "receipt_run s [] = Some s"
| "receipt_run s (e # es) = (case receipt_next s e of None \<Rightarrow> None | Some s' \<Rightarrow> receipt_run s' es)"

fun accepts :: "consumption_event \<Rightarrow> bool" where
  "accepts (E_committed w k v) = True"
| "accepts (E_consumed w k) = True"
| "accepts _ = False"

lemma receipt_run_snoc:
  "receipt_run s (es @ [e]) = (case receipt_run s es of None \<Rightarrow> None | Some s' \<Rightarrow> receipt_next s' e)"
  by (induction s es rule: receipt_run.induct) (auto split: option.splits)

lemma reserved_not_committed: "RESERVED_PREFIX @ t \<noteq> COMMITTED_VALUE"
  by (simp add: RESERVED_PREFIX_def COMMITTED_VALUE_def)

lemma receipt_next_committed: "receipt_next (Some COMMITTED_VALUE) e = None"
  by (cases e) (auto simp: receipt_next_def)

text \<open>An acceptance is the last event of an id, so there is at most one.\<close>

lemma receipt_run_accepts:
  assumes "receipt_run s es = Some s'" "e \<in> set es" "accepts e"
  shows "s' = Some COMMITTED_VALUE \<and> last es = e \<and> length (filter accepts es) = 1"
  using assms
proof (induction s es rule: receipt_run.induct)
  case (2 s d es)
  then obtain u where u: "receipt_next s d = Some u" "receipt_run u es = Some s'" by (auto split: option.splits)
  show ?case
  proof (cases "accepts d")
    case True
    then have "u = Some COMMITTED_VALUE" using u(1)
      by (cases d) (auto simp: receipt_next_def split: if_splits)
    with u(2) have "es = []" by (cases es) (auto simp: receipt_next_committed)
    with 2 True u \<open>u = Some COMMITTED_VALUE\<close> show ?thesis by auto
  next
    case False
    with 2(3,4) have "e \<in> set es" by auto
    with 2(1)[OF u] 2(4) False show ?thesis by auto
  qed
qed simp

subsection \<open>Ownership\<close>

text \<open>Every remembered token and every conditional transition goes back to a reservation of the same instance.\<close>

definition owned_logged :: "'b fleet \<Rightarrow> bool" where
  "owned_logged s \<longleftrightarrow>
     (\<forall>w k t. map_get (owned_by s w) k = Some t \<longrightarrow> E_reserved w k t \<in> set (log s))
     \<and> (\<forall>w k t. Reserve_won w k t \<in> set (calls s) \<longrightarrow> E_reserved w k t \<in> set (log s))
     \<and> (\<forall>w k v. Committing w k v \<in> set (calls s) \<or> Releasing w k v \<in> set (calls s)
          \<or> E_committed w k v \<in> set (log s) \<or> E_released w k v \<in> set (log s) \<longrightarrow>
          (\<exists>t. v = RESERVED_PREFIX @ t \<and> E_reserved w k t \<in> set (log s)))"

lemma ownedValue_Inr:
  "ownedValue m k = Inr v \<longleftrightarrow> (\<exists>t. map_get m k = Some t \<and> t \<noteq> [] \<and> v = RESERVED_PREFIX @ t)"
  by (auto simp: ownedValue_def split: option.splits if_splits)

lemma owned_loggedD:
  assumes "owned_logged s"
  shows "map_get (owned_by s w) k = Some t \<Longrightarrow> E_reserved w k t \<in> set (log s)"
    "Reserve_won w k t \<in> set (calls s) \<Longrightarrow> E_reserved w k t \<in> set (log s)"
    "Committing w k v \<in> set (calls s) \<Longrightarrow> \<exists>t. v = RESERVED_PREFIX @ t \<and> E_reserved w k t \<in> set (log s)"
    "Releasing w k v \<in> set (calls s) \<Longrightarrow> \<exists>t. v = RESERVED_PREFIX @ t \<and> E_reserved w k t \<in> set (log s)"
    "E_committed w k v \<in> set (log s) \<Longrightarrow> \<exists>t. v = RESERVED_PREFIX @ t \<and> E_reserved w k t \<in> set (log s)"
    "E_released w k v \<in> set (log s) \<Longrightarrow> \<exists>t. v = RESERVED_PREFIX @ t \<and> E_reserved w k t \<in> set (log s)"
  using assms unfolding owned_logged_def by blast+

lemma in_remove1: "x \<in> set (remove1 y xs) \<Longrightarrow> x \<in> set xs"
  using set_remove1_subset by fast

lemma owned_logged_step:
  assumes "fleet_step ops s t" "owned_logged s"
  shows "owned_logged t"
proof -
  note d = owned_loggedD[OF assms(2)]
  have owned_value: "\<exists>t. v = RESERVED_PREFIX @ t \<and> E_reserved w k t \<in> set (log s)"
    if "ownedValue (owned_by s w) k = Inr v" for w k v
    using that d(1) by (auto simp: ownedValue_Inr)
  note dest = in_remove1 d
  from assms(1) show ?thesis
  proof cases
    case (reserve_call token v w k)
    then show ?thesis using d unfolding owned_logged_def by simp
  next
    case (reserve_backend w k token ok b)
    then show ?thesis unfolding owned_logged_def by (auto dest: dest)
  next
    case (reserve_return w k token)
    then show ?thesis unfolding owned_logged_def by (auto dest: dest split: if_splits)
  next
    case (commit_call w k v)
    then show ?thesis using owned_value unfolding owned_logged_def by (auto dest: dest)
  next
    case (commit_backend w k v ok b)
    then show ?thesis unfolding owned_logged_def by (auto dest: dest)
  next
    case (commit_return w k)
    then show ?thesis unfolding owned_logged_def by (auto simp: delete_conv' dest: dest split: if_splits)
  next
    case (release_call w k v)
    then show ?thesis using owned_value unfolding owned_logged_def by (auto dest: dest)
  next
    case (release_backend w k v ok b)
    then show ?thesis unfolding owned_logged_def by (auto dest: dest)
  next
    case (release_return w k)
    then show ?thesis unfolding owned_logged_def by (auto simp: delete_conv' dest: dest split: if_splits)
  next
    case (consume_backend k ok b w)
    then show ?thesis unfolding owned_logged_def by (auto dest: dest)
  qed
qed

lemma reachable_owned_logged: "fleet_reachable ops b0 s \<Longrightarrow> owned_logged s"
proof (induction rule: fleet_reachable.induct)
  case start
  then show ?case by (simp add: owned_logged_def)
qed (rule owned_logged_step)

subsection \<open>What a store relies on\<close>

locale kv_backend =
  fixes ops :: "'b kv_ops"
    and view :: "'b \<Rightarrow> string \<Rightarrow> string option"
  assumes add_law: "addIfAbsent ops b k v None = (ok, b') \<Longrightarrow>
      (ok \<longleftrightarrow> view b k = None) \<and> view b' = (if ok then (view b)(k := Some v) else view b)"
    and cas_law: "compareAndSet ops b k e v None = (ok, b') \<Longrightarrow>
      (ok \<longleftrightarrow> view b k = Some e) \<and> view b' = (if ok then (view b)(k := Some v) else view b)"
    and del_law: "deleteIfValue ops b k e = (ok, b') \<Longrightarrow>
      (ok \<longleftrightarrow> view b k = Some e) \<and> view b' = (if ok then (view b)(k := None) else view b)"
    and has_law: "hasKey ops b k \<longleftrightarrow> view b k \<noteq> None"
begin

text \<open>The backend refines the abstract machine, id by id.\<close>

lemma fleet_refines:
  assumes "fleet_reachable ops b0 s" "view b0 = (\<lambda>_. None)"
  shows "receipt_run None (filter (\<lambda>e. event_key e = k) (log s)) = Some (view (shared s) k)"
  using assms
proof (induction rule: fleet_reachable.induct)
  case (step s t)
  then have IH: "receipt_run None (filter (\<lambda>e. event_key e = k) (log s)) = Some (view (shared s) k)" by simp
  note o = owned_loggedD[OF reachable_owned_logged[OF step.hyps(1)]]
  from step.hyps(2) show ?case
  proof cases
    case (reserve_backend w k' token ok b)
    with add_law[OF reserve_backend(3)] IH show ?thesis
      by (auto simp: receipt_run_snoc receipt_next_def)
  next
    case (consume_backend k' ok b w)
    with add_law[OF consume_backend(2)] IH show ?thesis
      by (auto simp: receipt_run_snoc receipt_next_def)
  next
    case (commit_backend w k' v ok b)
    have "v \<noteq> COMMITTED_VALUE" using o(3)[OF commit_backend(2)] reserved_not_committed by auto
    with cas_law[OF commit_backend(3)] IH commit_backend show ?thesis
      by (auto simp: receipt_run_snoc receipt_next_def)
  next
    case (release_backend w k' v ok b)
    have "v \<noteq> COMMITTED_VALUE" using o(4)[OF release_backend(2)] reserved_not_committed by auto
    with del_law[OF release_backend(3)] IH release_backend show ?thesis
      by (auto simp: receipt_run_snoc receipt_next_def)
  qed (use IH in simp_all)
qed simp

lemma accepted_once:
  assumes "fleet_reachable ops b0 s" "view b0 = (\<lambda>_. None)"
  shows "length (filter (\<lambda>e. accepts e \<and> event_key e = k) (log s)) \<le> 1"
proof (cases "\<exists>e \<in> set (log s). accepts e \<and> event_key e = k")
  case True
  then obtain e where "e \<in> set (filter (\<lambda>e. event_key e = k) (log s))" "accepts e" by auto
  from receipt_run_accepts[OF fleet_refines[OF assms] this] show ?thesis
    by (simp add: conj_commute)
next
  case False
  then have "filter (\<lambda>e. accepts e \<and> event_key e = k) (log s) = []" by (auto simp: filter_empty_conv)
  then show ?thesis by simp
qed

lemma accepted_final:
  assumes "fleet_reachable ops b0 s" "view b0 = (\<lambda>_. None)" "e \<in> set (log s)" "accepts e"
  shows "view (shared s) (event_key e) = Some COMMITTED_VALUE
    \<and> fst (addIfAbsent ops (shared s) (event_key e) v None) = False"
proof -
  have "e \<in> set (filter (\<lambda>d. event_key d = event_key e) (log s))" using assms(3) by simp
  from receipt_run_accepts[OF fleet_refines[OF assms(1,2)] this assms(4)]
  have "view (shared s) (event_key e) = Some COMMITTED_VALUE" by simp
  moreover obtain ok b' where "addIfAbsent ops (shared s) (event_key e) v None = (ok, b')" by fastforce
  ultimately show ?thesis using add_law by fastforce
qed

end

interpretation memory_backend: kv_backend createMemoryBackend map_of
proof
  fix b k v and e and ok and b' :: memory_map
  show "addIfAbsent createMemoryBackend b k v None = (ok, b') \<Longrightarrow>
      (ok \<longleftrightarrow> map_get b k = None) \<and> map_of b' = (if ok then (map_of b)(k := Some v) else map_of b)"
    by (auto simp: createMemoryBackend_def mb_addIfAbsent_def map_has_def update_conv' split: if_splits)
  show "compareAndSet createMemoryBackend b k e v None = (ok, b') \<Longrightarrow>
      (ok \<longleftrightarrow> map_get b k = Some e) \<and> map_of b' = (if ok then (map_of b)(k := Some v) else map_of b)"
    by (auto simp: createMemoryBackend_def mb_compareAndSet_def update_conv' split: if_splits)
  show "deleteIfValue createMemoryBackend b k e = (ok, b') \<Longrightarrow>
      (ok \<longleftrightarrow> map_get b k = Some e) \<and> map_of b' = (if ok then (map_of b)(k := None) else map_of b)"
    by (auto simp: createMemoryBackend_def mb_deleteIfValue_def map_has_def delete_conv' split: if_splits)
  show "hasKey createMemoryBackend b k \<longleftrightarrow> map_get b k \<noteq> None"
    by (simp add: createMemoryBackend_def map_has_def)
qed

subsection \<open>Properties\<close>

text \<open>
  Property C5. Replay defence of the fleet: over all store instances that share one backend, however their
  calls overlap, every receipt id is accepted (consumed or committed) at most once; after that its
  value stays committed and every reservation or consumption of it is refused.
\<close>

theorem receipt_accepted_once:
  assumes "fleet_reachable createMemoryBackend [] s"
  shows "length (filter (\<lambda>e. accepts e \<and> event_key e = k) (log s)) \<le> 1
    \<and> (\<forall>e \<in> set (log s). accepts e \<longrightarrow> map_get (shared s) (event_key e) = Some COMMITTED_VALUE
         \<and> fst (ds_consume createMemoryBackend None (event_key e) (shared s)) = False
         \<and> fst (ds_reserve createMemoryBackend token (event_key e) (shared s, m)) \<noteq> Inr True)"
proof -
  have empty: "map_of ([] :: memory_map) = (\<lambda>_. None)" by auto
  have "fst (ds_reserve createMemoryBackend token j (shared s, m)) \<noteq> Inr True"
    if "\<And>v. fst (addIfAbsent createMemoryBackend (shared s) j v None) = False" for j
    using that by (auto simp: ds_reserve_def split: sum.splits prod.splits) (metis fst_conv)
  then show ?thesis
    using memory_backend.accepted_once[OF assms empty] memory_backend.accepted_final[OF assms empty]
    by (auto simp: ds_consume_def)
qed

theorem receipt_accepted_once_witness:
  "length (filter (\<lambda>e. accepts e \<and> event_key e = ''r1'')
     (log (\<lparr>shared = [(''r1'', COMMITTED_VALUE)], owned_by = (\<lambda>_. []), calls = [], log = [E_consumed 0 ''r1'']\<rparr> :: memory_map fleet))) = 1"
proof -
  have "fleet_reachable createMemoryBackend [] (\<lparr>shared = [(''r1'', COMMITTED_VALUE)], owned_by = (\<lambda>_. []),
      calls = [], log = [E_consumed 0 ''r1'']\<rparr> :: memory_map fleet)"
    using fleet_reachable.step[OF fleet_reachable.start fleet_step.consume_backend[of createMemoryBackend _ "''r1''" True
          "[(''r1'', COMMITTED_VALUE)]" 0]]
    by (simp add: createMemoryBackend_def mb_addIfAbsent_def map_has_def)
  from receipt_accepted_once[OF this, of "''r1''"] show ?thesis by simp
qed

text \<open>
  Property C23. The successful backend operations on a receipt id, read in their order, are a run of the
  abstract machine free / reserved under a value / committed, and it ends in the stored value.
\<close>

theorem backend_refines_receipt_machine:
  assumes "fleet_reachable createMemoryBackend [] s"
  shows "receipt_run None (filter (\<lambda>e. event_key e = k) (log s)) = Some (map_get (shared s) k)"
  using memory_backend.fleet_refines[OF assms] by (simp add: fun_eq_iff)

text \<open>
  Ownership fencing: a reservation is committed or released only by the instance that made
  it. The transition names the value of a reservation that the same instance won, and when
  reservation tokens never repeat, no other instance has won a reservation with that value.
\<close>

theorem transition_by_owner:
  assumes "fleet_reachable ops b0 s" "E_committed w k v \<in> set (log s) \<or> E_released w k v \<in> set (log s)"
    and "\<And>w1 k1 w2 k2 t. E_reserved w1 k1 t \<in> set (log s) \<Longrightarrow> E_reserved w2 k2 t \<in> set (log s) \<Longrightarrow> w1 = w2 \<and> k1 = k2"
  shows "\<exists>t. v = RESERVED_PREFIX @ t \<and> E_reserved w k t \<in> set (log s)
    \<and> (\<forall>w' k'. E_reserved w' k' t \<in> set (log s) \<longrightarrow> w' = w \<and> k' = k)"
proof -
  obtain t where t: "v = RESERVED_PREFIX @ t" "E_reserved w k t \<in> set (log s)"
    using owned_loggedD(5,6)[OF reachable_owned_logged[OF assms(1)]] assms(2) by blast
  with assms(3) show ?thesis by blast
qed

definition sample_token :: string where "sample_token = ''0123456789abcdef''"

definition sample_committed_fleet :: "memory_map fleet" where
  "sample_committed_fleet = \<lparr>shared = [(''r1'', COMMITTED_VALUE)], owned_by = (\<lambda>_. [])(7 := [(''r1'', sample_token)]),
     calls = [Commit_won 7 ''r1''],
     log = [E_reserved 7 ''r1'' sample_token, E_committed 7 ''r1'' (RESERVED_PREFIX @ sample_token)]\<rparr>"

lemma sample_committed_reachable: "fleet_reachable createMemoryBackend [] sample_committed_fleet"
proof -
  let ?v = "RESERVED_PREFIX @ sample_token"
  let ?s0 = "\<lparr>shared = [], owned_by = (\<lambda>_. []), calls = [], log = []\<rparr> :: memory_map fleet"
  let ?s1 = "?s0\<lparr>calls := [Reserving 7 ''r1'' sample_token]\<rparr>"
  let ?s2 = "?s0\<lparr>shared := [(''r1'', ?v)], calls := [Reserve_won 7 ''r1'' sample_token],
     log := [E_reserved 7 ''r1'' sample_token]\<rparr>"
  let ?s3 = "?s2\<lparr>owned_by := (\<lambda>_. [])(7 := [(''r1'', sample_token)]), calls := []\<rparr>"
  let ?s4 = "?s3\<lparr>calls := [Committing 7 ''r1'' ?v]\<rparr>"
  have r1: "fleet_step createMemoryBackend ?s0 ?s1"
    using fleet_step.reserve_call[of sample_token ?v createMemoryBackend ?s0 7 "''r1''"]
    by (simp add: reservation_value_def sample_token_def)
  have r2: "fleet_step createMemoryBackend ?s1 ?s2"
    using fleet_step.reserve_backend[of 7 "''r1''" sample_token ?s1 createMemoryBackend True "[(''r1'', ?v)]"]
    by (simp add: createMemoryBackend_def mb_addIfAbsent_def map_has_def)
  have r3: "fleet_step createMemoryBackend ?s2 ?s3"
    using fleet_step.reserve_return[of 7 "''r1''" sample_token ?s2 createMemoryBackend] by simp
  have r4: "fleet_step createMemoryBackend ?s3 ?s4"
    using fleet_step.commit_call[of ?s3 7 "''r1''" ?v createMemoryBackend]
    by (simp add: ownedValue_def sample_token_def)
  have r5: "fleet_step createMemoryBackend ?s4 sample_committed_fleet"
    using fleet_step.commit_backend[of 7 "''r1''" ?v ?s4 createMemoryBackend True "[(''r1'', COMMITTED_VALUE)]"]
    by (simp add: createMemoryBackend_def mb_compareAndSet_def sample_committed_fleet_def)
  note reach = fleet_reachable.step[where ops = createMemoryBackend and ?b0.0 = "[]"]
  show ?thesis by (rule reach[OF reach[OF reach[OF reach[OF reach[OF fleet_reachable.start r1] r2] r3] r4] r5])
qed

theorem backend_refines_receipt_machine_witness:
  "receipt_run None [E_reserved 7 ''r1'' sample_token, E_committed 7 ''r1'' (RESERVED_PREFIX @ sample_token)] = Some (Some COMMITTED_VALUE)
    \<and> map_get (shared sample_committed_fleet) ''r1'' = Some COMMITTED_VALUE"
  using backend_refines_receipt_machine[OF sample_committed_reachable, of "''r1''"] by (simp add: sample_committed_fleet_def)

theorem transition_by_owner_witness:
  "\<exists>t. RESERVED_PREFIX @ sample_token = RESERVED_PREFIX @ t \<and> E_reserved 7 ''r1'' t \<in> set (log sample_committed_fleet)"
proof -
  have "E_committed 7 ''r1'' (RESERVED_PREFIX @ sample_token) \<in> set (log sample_committed_fleet)"
    by (simp add: sample_committed_fleet_def)
  with transition_by_owner[OF sample_committed_reachable, of 7 "''r1''" "RESERVED_PREFIX @ sample_token"]
  show ?thesis by (auto simp: sample_committed_fleet_def)
qed

text \<open>
  A store is accepted for security-bearing use exactly when it is built over a durable backend
  without a retention limit; a retention that is not a positive safe integer is refused, and the
  in-memory store is never accepted.
\<close>

theorem secure_store_characterised:
  "((\<exists>f. createDurableConsumptionStore d ttl = Inr f \<and> isSecureConsumptionStore f) \<longleftrightarrow> d \<and> ttl = None)
   \<and> ((\<exists>e. createDurableConsumptionStore d ttl = Inl e) \<longleftrightarrow> (\<exists>n. ttl = Some n \<and> \<not> (is_safe_integer n \<and> 0 < num_val n)))
   \<and> \<not> isSecureConsumptionStore memory_face"
  by (auto simp: createDurableConsumptionStore_def isSecureConsumptionStore_def memory_face_def not_le split: option.splits)

text \<open>
  The in-memory store, over any sequence of calls: consuming an id succeeds at most once, and
  an id that was consumed or committed is refused to every later consumption and reservation.
\<close>

theorem memory_store_consume_once:
  assumes "mem_run cs m = (rs, m')"
  shows "length (filter (\<lambda>p. p = (M_consume k, True)) rs) \<le> 1
    \<and> (k \<in> set (seen m) \<longrightarrow> k \<in> set (seen m') \<and> (M_consume k, True) \<notin> set rs \<and> (M_reserve k, True) \<notin> set rs)"
  using mem_consume_once[OF assms] mem_run_seen[OF assms] by blast

theorem memory_store_consume_once_witness:
  "length (filter (\<lambda>p. p = (M_consume ''a'', True))
     (fst (mem_run [M_consume ''a'', M_release ''a'', M_consume ''a''] new_memory_store))) = 1"
proof -
  obtain rs m' where run: "mem_run [M_consume ''a'', M_release ''a'', M_consume ''a''] new_memory_store = (rs, m')"
    by fastforce
  have "(M_consume ''a'', True) \<in> set rs" using run by (auto simp: mem_defs new_memory_store_def)
  then have "0 < length (filter (\<lambda>p. p = (M_consume ''a'', True)) rs)" by (auto simp: filter_empty_conv)
  with memory_store_consume_once[OF run, of "''a''"] show ?thesis unfolding run fst_conv by linarith
qed

end
