(* ===== verification/Challenge_Store.thy ===== *)
theory Challenge_Store
  imports Consumption_Store Canonical_Json
begin

section \<open>The durable challenge store\<close>

text \<open>
  Model of \<open>packages/gate/src/challenge-store.ts\<close>. A challenge is registered once under a key that is a
  digest of its id and nonce, with the digest of its whole body as the value; consuming it is a
  conditional transition from exactly that value. The store is a second client of \<open>kv_backend\<close>. Each
  call awaits one backend operation, so a run is a sequence of calls.
\<close>

definition OPEN_PREFIX :: string where "OPEN_PREFIX = ''challenge-open:v1:''"
definition CONSUMED_PREFIX :: string where "CONSUMED_PREFIX = ''challenge-consumed:v1:''"

text \<open>The white space and line terminators that \<open>trim\<close> removes.\<close>

definition js_space :: "16 word \<Rightarrow> bool" where
  "js_space u \<longleftrightarrow> u \<in> {0x09, 0x0A, 0x0B, 0x0C, 0x0D, 0x20, 0xA0, 0x1680, 0x2028, 0x2029, 0x202F, 0x205F, 0x3000, 0xFEFF}
     \<or> (0x2000 \<le> u \<and> u \<le> 0x200A)"

definition blank :: "js_string \<Rightarrow> bool" where
  "blank s \<longleftrightarrow> list_all js_space s"

fun member_of :: "js_value \<Rightarrow> string \<Rightarrow> js_value option" where
  "member_of (VObj i ms) name = map_of ms (jstr name)"
| "member_of _ name = None"

fun nonblank_string :: "js_value option \<Rightarrow> bool" where
  "nonblank_string (Some (VStr s)) = (\<not> blank s)"
| "nonblank_string _ = False"

definition assertChallenge :: "js_value \<Rightarrow> string option" where
  "assertChallenge c = (case c of
       VObj i ms \<Rightarrow>
         if member_of c ''@version'' \<noteq> Some (VStr (jstr ''AE-CHALLENGE-v1'')) then Some ''unsupported challenge version''
         else if \<not> nonblank_string (member_of c ''challenge_id'') then Some ''challenge_id is required''
         else if \<not> nonblank_string (member_of c ''nonce'') then Some ''challenge nonce is required''
         else None
     | _ \<Rightarrow> Some ''challenge must be an object'')"

definition challenge_identity :: "js_value \<Rightarrow> js_value" where
  "challenge_identity c = VObj 0 [(jstr ''challenge_id'', the (member_of c ''challenge_id'')),
     (jstr ''nonce'', the (member_of c ''nonce''))]"

definition challengeStorageKey :: "hash16 \<Rightarrow> js_value \<Rightarrow> string + string" where
  "challengeStorageKey sha c = (case assertChallenge c of
       Some e \<Rightarrow> Inl e
     | None \<Rightarrow> (case hashCanonical sha (challenge_identity c) of Inl e \<Rightarrow> Inl e
         | Inr h \<Rightarrow> Inr (''ae-challenge:'' @ h)))"

definition challengeBodyDigest :: "hash16 \<Rightarrow> js_value \<Rightarrow> string + string" where
  "challengeBodyDigest sha c = (case assertChallenge c of Some e \<Rightarrow> Inl e | None \<Rightarrow> hashCanonical sha c)"

definition key_and_digest :: "hash16 \<Rightarrow> js_value \<Rightarrow> string + (string \<times> string)" where
  "key_and_digest sha c = (case challengeStorageKey sha c of Inl e \<Rightarrow> Inl e
     | Inr k \<Rightarrow> (case challengeBodyDigest sha c of Inl e \<Rightarrow> Inl e | Inr d \<Rightarrow> Inr (k, d)))"

definition ch_register :: "'b kv_ops \<Rightarrow> hash16 \<Rightarrow> js_value \<Rightarrow> 'b \<Rightarrow> (string + bool) \<times> 'b" where
  "ch_register ops sha c b = (case key_and_digest sha c of Inl e \<Rightarrow> (Inl e, b)
     | Inr (k, d) \<Rightarrow> (case addIfAbsent ops b k (OPEN_PREFIX @ d) None of (ok, b') \<Rightarrow> (Inr ok, b')))"

definition ch_consume :: "'b kv_ops \<Rightarrow> hash16 \<Rightarrow> js_value \<Rightarrow> 'b \<Rightarrow> (string + bool) \<times> 'b" where
  "ch_consume ops sha c b = (case key_and_digest sha c of Inl e \<Rightarrow> (Inl e, b)
     | Inr (k, d) \<Rightarrow> (case compareAndSet ops b k (OPEN_PREFIX @ d) (CONSUMED_PREFIX @ d) None of (ok, b') \<Rightarrow> (Inr ok, b')))"

definition ch_has :: "'b kv_ops \<Rightarrow> hash16 \<Rightarrow> js_value \<Rightarrow> 'b \<Rightarrow> string + bool" where
  "ch_has ops sha c b = (case challengeStorageKey sha c of Inl e \<Rightarrow> Inl e | Inr k \<Rightarrow> Inr (hasKey ops b k))"

subsection \<open>Runs\<close>

datatype challenge_call = Register js_value | Consume js_value

fun call_body :: "challenge_call \<Rightarrow> js_value" where
  "call_body (Register c) = c"
| "call_body (Consume c) = c"

fun ch_call :: "'b kv_ops \<Rightarrow> hash16 \<Rightarrow> challenge_call \<Rightarrow> 'b \<Rightarrow> (string + bool) \<times> 'b" where
  "ch_call ops sha (Register c) b = ch_register ops sha c b"
| "ch_call ops sha (Consume c) b = ch_consume ops sha c b"

text \<open>The backend after a sequence of calls, and the calls that returned true.\<close>

fun ch_run :: "'b kv_ops \<Rightarrow> hash16 \<Rightarrow> challenge_call list \<Rightarrow> 'b \<Rightarrow> challenge_call list \<times> 'b" where
  "ch_run ops sha [] b = ([], b)"
| "ch_run ops sha (c # cs) b = (case ch_call ops sha c b of
     (r, b') \<Rightarrow> (case ch_run ops sha cs b' of (won, b'') \<Rightarrow> (if r = Inr True then c # won else won, b'')))"

definition concerns :: "hash16 \<Rightarrow> string \<Rightarrow> challenge_call \<Rightarrow> bool" where
  "concerns sha k c \<longleftrightarrow> (\<exists>d. key_and_digest sha (call_body c) = Inr (k, d))"

definition stored_as :: "hash16 \<Rightarrow> string option \<Rightarrow> challenge_call list \<Rightarrow> string option \<Rightarrow> bool" where
  "stored_as sha v won v' \<longleftrightarrow>
     (won = [] \<and> v' = v)
     \<or> (\<exists>c k d. won = [Register c] \<and> v = None \<and> key_and_digest sha c = Inr (k, d) \<and> v' = Some (OPEN_PREFIX @ d))
     \<or> (\<exists>c k d. won = [Consume c] \<and> key_and_digest sha c = Inr (k, d)
          \<and> v = Some (OPEN_PREFIX @ d) \<and> v' = Some (CONSUMED_PREFIX @ d))
     \<or> (\<exists>c e k d. won = [Register c, Consume e] \<and> v = None \<and> key_and_digest sha c = Inr (k, d)
          \<and> key_and_digest sha e = Inr (k, d) \<and> v' = Some (CONSUMED_PREFIX @ d))"

lemma prefixes_distinct: "OPEN_PREFIX @ a \<noteq> CONSUMED_PREFIX @ b"
  by (simp add: OPEN_PREFIX_def CONSUMED_PREFIX_def)

lemma key_and_digest_fun: "key_and_digest sha c = Inr (k, d) \<Longrightarrow> key_and_digest sha c = Inr (k', d') \<Longrightarrow> k = k' \<and> d = d'"
  by simp

lemma stored_as_register:
  assumes "key_and_digest sha c = Inr (k, d)" "stored_as sha (Some (OPEN_PREFIX @ d)) won v'"
    "list_all (concerns sha k) won"
  shows "stored_as sha None (Register c # won) v'"
  using assms unfolding stored_as_def concerns_def by auto

lemma stored_as_consume:
  assumes "key_and_digest sha c = Inr (k, d)" "stored_as sha (Some (CONSUMED_PREFIX @ d)) won v'"
  shows "stored_as sha (Some (OPEN_PREFIX @ d)) (Consume c # won) v'"
  using assms prefixes_distinct unfolding stored_as_def by (auto dest: sym)

context kv_backend
begin

lemma ch_run_stored:
  "ch_run ops sha cs b = (won, b') \<Longrightarrow>
   stored_as sha (view b k) (filter (concerns sha k) won) (view b' k)"
proof (induction cs arbitrary: b won b')
  case Nil
  then show ?case by (simp add: stored_as_def)
next
  case (Cons c cs)
  obtain r b1 won1 where step: "ch_call ops sha c b = (r, b1)" "ch_run ops sha cs b1 = (won1, b')"
    "won = (if r = Inr True then c # won1 else won1)"
    using Cons.prems by (auto split: prod.splits)
  note IH = Cons.IH[OF step(2)]
  have all: "list_all (concerns sha k) (filter (concerns sha k) won1)" by (simp add: list_all_iff)
  show ?case
  proof (cases "key_and_digest sha (call_body c)")
    case (Inl e)
    with step(1) have "r = Inl e" "b1 = b" by (cases c; simp add: ch_register_def ch_consume_def)+
    with IH step(3) show ?thesis by simp
  next
    case (Inr p)
    obtain k0 d where p: "p = (k0, d)" by fastforce
    have con: "concerns sha k c \<longleftrightarrow> k = k0" using Inr p by (auto simp: concerns_def)
    show ?thesis
    proof (cases c)
      case (Register body)
      obtain ok where a: "addIfAbsent ops b k0 (OPEN_PREFIX @ d) None = (ok, b1)" "r = Inr ok"
        using step(1) Inr p Register by (auto simp: ch_register_def split: prod.splits)
      from add_law[OF a(1)] a IH step(3) Register Inr p con all stored_as_register[of sha body k0 d]
      show ?thesis by auto
    next
      case (Consume body)
      obtain ok where a: "compareAndSet ops b k0 (OPEN_PREFIX @ d) (CONSUMED_PREFIX @ d) None = (ok, b1)" "r = Inr ok"
        using step(1) Inr p Consume by (auto simp: ch_consume_def split: prod.splits)
      from cas_law[OF a(1)] a IH step(3) Consume Inr p con stored_as_consume[of sha body k0 d]
      show ?thesis by auto
    qed
  qed
qed

end

subsection \<open>Properties\<close>

lemma key_and_digest_body:
  assumes "key_and_digest sha c = Inr (k, d)"
  shows "hashCanonical sha c = Inr d"
  using assms by (auto simp: key_and_digest_def challengeBodyDigest_def challengeStorageKey_def
      split: sum.splits option.splits)

lemma hashCanonical_binds:
  assumes "hashCanonical sha c = Inr d" "hashCanonical sha e = Inr d"
  shows "same_json c = same_json e
    \<or> canonicalizeValidated c \<noteq> canonicalizeValidated e \<and> sha (canonicalizeValidated c) = sha (canonicalizeValidated e)"
proof -
  have "canonical_json c" "canonical_json e" "sha (canonicalizeValidated c) = sha (canonicalizeValidated e)"
    using assms by (auto simp: hashCanonical_def canonicalize_def canonical_json_def split: option.splits)
  then show ?thesis using canonical_text_eq by blast
qed

lemma key_and_digest_digest: "key_and_digest sha c = Inr (k, d) \<Longrightarrow> challengeBodyDigest sha c = Inr d"
  by (auto simp: key_and_digest_def split: sum.splits)

text \<open>
  Property C32. Challenges are single-use and bound to their body. In every run on an empty store, the
  successful calls that concern one storage key are a prefix of: one registration, then one
  consumption of a challenge with the registered body digest, and the store holds the state that they lead to. The
  consumed challenge is the registered one in every member, unless the canonical texts of
  these two challenges differ and have the same SHA-256.
\<close>

theorem challenge_single_use:
  assumes "ch_run createMemoryBackend sha cs [] = (won, b)"
  shows "filter (concerns sha k) won = [] \<and> map_get b k = None
    \<or> (\<exists>c d. filter (concerns sha k) won = [Register c] \<and> challengeBodyDigest sha c = Inr d \<and> map_get b k = Some (OPEN_PREFIX @ d))
    \<or> (\<exists>c e d. filter (concerns sha k) won = [Register c, Consume e] \<and> map_get b k = Some (CONSUMED_PREFIX @ d)
        \<and> challengeBodyDigest sha c = Inr d \<and> challengeBodyDigest sha e = Inr d
        \<and> (same_json c = same_json e
          \<or> canonicalizeValidated c \<noteq> canonicalizeValidated e \<and> sha (canonicalizeValidated c) = sha (canonicalizeValidated e)))"
proof -
  have "stored_as sha None (filter (concerns sha k) won) (map_get b k)"
    using memory_backend.ch_run_stored[OF assms, of k] by simp
  then consider "filter (concerns sha k) won = [] \<and> map_get b k = None"
    | c k1 d where "filter (concerns sha k) won = [Register c]" "key_and_digest sha c = Inr (k1, d)" "map_get b k = Some (OPEN_PREFIX @ d)"
    | c e k1 d where "filter (concerns sha k) won = [Register c, Consume e]" "key_and_digest sha c = Inr (k1, d)"
      "key_and_digest sha e = Inr (k1, d)" "map_get b k = Some (CONSUMED_PREFIX @ d)"
    unfolding stored_as_def by blast
  then show ?thesis
  proof cases
    case (3 c e k1 d)
    then show ?thesis using key_and_digest_digest hashCanonical_binds[OF key_and_digest_body key_and_digest_body] by blast
  qed (use key_and_digest_digest in blast)+
qed

text \<open>A stand-in for the hash: two characters per code unit.\<close>

definition sample_hash16 :: hash16 where
  "sample_hash16 t = concat (map (\<lambda>u. [char_of (unat u div 256), char_of (unat u mod 256)]) t)"

definition sample_challenge :: js_value where
  "sample_challenge = VObj 1 [(jstr ''@version'', VStr (jstr ''AE-CHALLENGE-v1'')),
     (jstr ''challenge_id'', VStr (jstr ''c1'')), (jstr ''nonce'', VStr (jstr ''n1''))]"

theorem challenge_single_use_witness:
  "fst (ch_run createMemoryBackend sample_hash16 [Register sample_challenge, Consume sample_challenge, Consume sample_challenge] [])
     = [Register sample_challenge, Consume sample_challenge]"
proof -
  let ?c = sample_challenge
  have "assertChallenge ?c = None"
    by (simp add: assertChallenge_def sample_challenge_def blank_def js_space_def u16_def)
  moreover have "canonical_json ?c" "canonical_json (challenge_identity ?c)"
    by (simp_all add: canonical_json_profile json_profile_def MAX_JSON_NODES_def MAX_JSON_STRING_BYTES_def
        MAX_JSON_DEPTH_def u16_def is_high_def is_low_def sample_challenge_def challenge_identity_def)
  ultimately obtain k d where kd: "key_and_digest sample_hash16 ?c = Inr (k, d)"
    by (simp add: key_and_digest_def challengeStorageKey_def challengeBodyDigest_def hashCanonical_def
        canonicalize_def canonical_json_def)
  obtain won b where run: "ch_run createMemoryBackend sample_hash16 [Register ?c, Consume ?c, Consume ?c] [] = (won, b)"
    by fastforce
  have "won = [Register ?c, Consume ?c]"
    using run kd
    by (auto simp: ch_register_def ch_consume_def createMemoryBackend_def mb_addIfAbsent_def mb_compareAndSet_def
        map_has_def OPEN_PREFIX_def CONSUMED_PREFIX_def)
  moreover have "\<exists>c e. filter (concerns sample_hash16 k) won = [Register c, Consume e] \<and> same_json c = same_json e"
    using challenge_single_use[OF run, of k] kd \<open>won = _\<close> by (auto simp: concerns_def)
  ultimately show ?thesis using run by simp
qed

end
