(* ===== verification/Protocol_State.thy ===== *)
theory Protocol_State
  imports Ep_Prelude
begin

section \<open>The handshake life cycle\<close>

text \<open>
  Model of \<open>packages/gate/src/protocol-state.ts\<close>. A state is the tag and the persisted status that the
  runtime value carries. A transition function is defined on the states its parameter type admits
  and is \<open>None\<close> on every other state, where the type checker rejects the call.
\<close>

datatype state_tag = T_none | T_initiated | T_pending_verification | T_verified
  | T_rejected | T_expired | T_revoked | T_consumed

datatype db_handshake_status = D_initiated | D_pending_verification | D_verified | D_rejected | D_expired | D_revoked

record protocol_state =
  tag :: state_tag
  dbStatus :: "db_handshake_status option"

fun status_of_tag :: "state_tag \<Rightarrow> db_handshake_status option" where
  "status_of_tag T_none = None"
| "status_of_tag T_initiated = Some D_initiated"
| "status_of_tag T_pending_verification = Some D_pending_verification"
| "status_of_tag T_verified = Some D_verified"
| "status_of_tag T_rejected = Some D_rejected"
| "status_of_tag T_expired = Some D_expired"
| "status_of_tag T_revoked = Some D_revoked"
| "status_of_tag T_consumed = Some D_verified"

definition active :: "protocol_state \<Rightarrow> bool" where
  "active s \<longleftrightarrow> tag s \<in> {T_initiated, T_pending_verification, T_verified}"

definition genesis :: protocol_state where
  "genesis = \<lparr>tag = T_none, dbStatus = None\<rparr>"

definition initiate :: "protocol_state \<Rightarrow> protocol_state option" where
  "initiate s = (if tag s = T_none then Some \<lparr>tag = T_initiated, dbStatus = Some D_initiated\<rparr> else None)"

definition present :: "protocol_state \<Rightarrow> protocol_state option" where
  "present s = (if tag s = T_initiated
     then Some \<lparr>tag = T_pending_verification, dbStatus = Some D_pending_verification\<rparr> else None)"

definition verifyAccept :: "protocol_state \<Rightarrow> protocol_state option" where
  "verifyAccept s = (if tag s = T_pending_verification
     then Some \<lparr>tag = T_verified, dbStatus = Some D_verified\<rparr> else None)"

definition verifyReject :: "protocol_state \<Rightarrow> protocol_state option" where
  "verifyReject s = (if tag s = T_pending_verification
     then Some \<lparr>tag = T_rejected, dbStatus = Some D_rejected\<rparr> else None)"

definition consume_state :: "protocol_state \<Rightarrow> protocol_state option" where
  "consume_state s = (if tag s = T_verified then Some \<lparr>tag = T_consumed, dbStatus = Some D_verified\<rparr> else None)"

definition revoke :: "protocol_state \<Rightarrow> protocol_state option" where
  "revoke s = (if active s then Some \<lparr>tag = T_revoked, dbStatus = Some D_revoked\<rparr> else None)"

definition expire :: "protocol_state \<Rightarrow> protocol_state option" where
  "expire s = (if active s then Some \<lparr>tag = T_expired, dbStatus = Some D_expired\<rparr> else None)"

datatype transition = Initiate | Present | VerifyAccept | VerifyReject | ConsumeT | Revoke | Expire

fun apply_transition :: "transition \<Rightarrow> protocol_state \<Rightarrow> protocol_state option" where
  "apply_transition Initiate = initiate"
| "apply_transition Present = present"
| "apply_transition VerifyAccept = verifyAccept"
| "apply_transition VerifyReject = verifyReject"
| "apply_transition ConsumeT = consume_state"
| "apply_transition Revoke = revoke"
| "apply_transition Expire = expire"

lemmas transition_defs = initiate_def present_def verifyAccept_def verifyReject_def consume_state_def
  revoke_def expire_def active_def genesis_def

fun run_transitions :: "protocol_state \<Rightarrow> transition list \<Rightarrow> protocol_state option" where
  "run_transitions s [] = Some s"
| "run_transitions s (t # ts) = (case apply_transition t s of None \<Rightarrow> None | Some s' \<Rightarrow> run_transitions s' ts)"

lemma run_transitions_snoc:
  "run_transitions s (ts @ [t]) = (case run_transitions s ts of None \<Rightarrow> None | Some u \<Rightarrow> apply_transition t u)"
  by (induction ts arbitrary: s) (auto split: option.splits)

text \<open>The histories of a handshake: the way to verification, cut short at any point or ended by one transition.\<close>

definition lawful_history :: "transition list \<Rightarrow> state_tag \<Rightarrow> bool" where
  "lawful_history ts g \<longleftrightarrow>
     (ts, g) \<in> {([], T_none), ([Initiate], T_initiated), ([Initiate, Present], T_pending_verification),
       ([Initiate, Present, VerifyAccept], T_verified)}
     \<or> (ts, g) \<in> {([Initiate, Present, VerifyReject], T_rejected),
       ([Initiate, Present, VerifyAccept, ConsumeT], T_consumed)}
     \<or> (\<exists>pre \<in> {[Initiate], [Initiate, Present], [Initiate, Present, VerifyAccept]}.
          (ts, g) \<in> {(pre @ [Revoke], T_revoked), (pre @ [Expire], T_expired)})"

lemma lawful_step:
  assumes "lawful_history ts (tag s)" "apply_transition t s = Some u"
  shows "lawful_history (ts @ [t]) (tag u)"
  using assms
  by (cases t; cases "tag s") (auto simp: lawful_history_def transition_defs split: if_splits)

lemma run_lawful: "run_transitions genesis ts = Some s \<Longrightarrow> lawful_history ts (tag s) \<and> dbStatus s = status_of_tag (tag s)"
proof (induction ts arbitrary: s rule: rev_induct)
  case Nil
  then show ?case by (auto simp: lawful_history_def genesis_def)
next
  case (snoc t ts)
  obtain u where u: "run_transitions genesis ts = Some u" "apply_transition t u = Some s"
    using snoc.prems by (auto simp: run_transitions_snoc split: option.splits)
  have "dbStatus s = status_of_tag (tag s)"
    using u(2) by (cases t) (auto simp: transition_defs split: if_splits)
  with lawful_step[OF conjunct1[OF snoc.IH[OF u(1)]] u(2)] show ?case by simp
qed

subsection \<open>Property\<close>

text \<open>
  The type-correct call sequences from genesis are exactly the lawful histories: presented
  after initiation, verified after presentation, consumed only when verified, revoked or expired
  from an active state only, and nothing after a terminal state; and the persisted status is the one
  of the reached state.
\<close>

theorem handshake_histories:
  "(\<exists>s. run_transitions genesis ts = Some s \<and> tag s = g \<and> dbStatus s = status_of_tag g) \<longleftrightarrow> lawful_history ts g"
proof
  assume "\<exists>s. run_transitions genesis ts = Some s \<and> tag s = g \<and> dbStatus s = status_of_tag g"
  then show "lawful_history ts g" using run_lawful by auto
next
  assume "lawful_history ts g"
  then show "\<exists>s. run_transitions genesis ts = Some s \<and> tag s = g \<and> dbStatus s = status_of_tag g"
    by (auto simp: lawful_history_def transition_defs)
qed

end
