(* ===== verification/Merkle_Consistency.thy ===== *)
theory Merkle_Consistency
  imports Ep_Prelude "HOL-Library.Word"
begin

unbundle bit_operations_syntax

section \<open>Checkpoint consistency proofs\<close>

text \<open>
  Model of \<open>packages/verify/src/consistency.ts\<close>: the verifier of append-only extension between two
  checkpoints of a Merkle log (the bottom-up loop of RFC 6962), the reference prover (the top-down
  recursion) and the reference root. SHA-256 (hexadecimal) is the parameter \<open>sha\<close>. Sizes are exact
  integers; \<open>isPowerOfTwo\<close> is computed on 32 bits, as JavaScript's \<open>&\<close> is. Hash texts are ASCII.
\<close>

definition to_lower :: "char \<Rightarrow> char" where
  "to_lower c = (if is_upper c then char_of ((of_char c :: nat) + 32) else c)"

text \<open>\<open>/^sha256:/i\<close> is removed once.\<close>

definition hexOf :: "string \<Rightarrow> string" where
  "hexOf s = map to_lower (if map to_lower (take 7 s) = ''sha256:'' then drop 7 s else s)"

definition hashChildrenV2 :: "(string \<Rightarrow> string) \<Rightarrow> string \<Rightarrow> string \<Rightarrow> string" where
  "hashChildrenV2 sha left right = sha (CHR 0x01 # left @ right)"

definition isPowerOfTwo :: "int \<Rightarrow> bool" where
  "isPowerOfTwo n \<longleftrightarrow> n > 0 \<and> (word_of_int n AND word_of_int (n - 1) :: 32 word) = 0"

function power_loop :: "nat \<Rightarrow> nat \<Rightarrow> nat" where
  "power_loop k n = (if 0 < k \<and> k * 2 < n then power_loop (k * 2) n else k)"
  by auto
termination by (relation "measure (\<lambda>(k, n). n - k)") auto

declare power_loop.simps [simp del]

definition largestPowerOfTwoLessThan :: "nat \<Rightarrow> nat" where
  "largestPowerOfTwoLessThan n = power_loop 1 n"

subsection \<open>The verifier\<close>

fun shift_common :: "nat \<Rightarrow> nat \<Rightarrow> nat \<times> nat" where
  "shift_common fn sn = (if fn mod 2 = 1 then shift_common (fn div 2) (sn div 2) else (fn, sn))"

fun shift_even :: "nat \<Rightarrow> nat \<Rightarrow> nat \<times> nat" where
  "shift_even fn sn = (if fn mod 2 = 0 \<and> fn \<noteq> 0 then shift_even (fn div 2) (sn div 2) else (fn, sn))"

declare shift_common.simps [simp del] shift_even.simps [simp del]

text \<open>The state of the loop: the two indices and the two running hashes; \<open>None\<close> is the early \<open>false\<close>.\<close>

fun walk :: "(string \<Rightarrow> string) \<Rightarrow> string list \<Rightarrow> nat \<Rightarrow> nat \<Rightarrow> string \<Rightarrow> string
    \<Rightarrow> (nat \<times> nat \<times> string \<times> string) option" where
  "walk sha [] fn sn fr sr = Some (fn, sn, fr, sr)"
| "walk sha (c # cs) fn sn fr sr =
     (if sn = 0 then None
      else if fn mod 2 = 1 \<or> fn = sn then
        (case shift_even fn sn of (fn', sn') \<Rightarrow>
           walk sha cs (fn' div 2) (sn' div 2) (hashChildrenV2 sha c fr) (hashChildrenV2 sha c sr))
      else walk sha cs (fn div 2) (sn div 2) fr (hashChildrenV2 sha sr c))"

definition verify_path :: "(string \<Rightarrow> string) \<Rightarrow> string \<Rightarrow> nat \<Rightarrow> string \<Rightarrow> nat \<Rightarrow> string list \<Rightarrow> bool" where
  "verify_path sha oldR oldSize newR newSize path =
     (let (seed, nodes) = (if isPowerOfTwo (int oldSize) then (oldR, path) else (hd path, tl path));
          (fn, sn) = shift_common (oldSize - 1) (newSize - 1)
      in case walk sha nodes fn sn seed seed of
           None \<Rightarrow> False
         | Some (fn', sn', fr, sr) \<Rightarrow> sn' = 0 \<and> fr = oldR \<and> sr = newR)"

fun verifyCheckpointConsistency :: "(string \<Rightarrow> string) \<Rightarrow> string \<Rightarrow> js_number \<Rightarrow> string \<Rightarrow> js_number
    \<Rightarrow> string list \<Rightarrow> bool" where
  "verifyCheckpointConsistency sha oldRoot (Integral oldSize) newRoot (Integral newSize) prf =
     (if oldSize < 0 \<or> newSize < 0 \<or> oldSize > newSize then False
      else if length prf > 64 then False
      else (let oldR = hexOf oldRoot; newR = hexOf newRoot in
        if oldR = [] \<or> newR = [] then False
        else if oldSize = newSize then prf = [] \<and> oldR = newR
        else if oldSize = 0 then False
        else if prf = [] then False
        else (let path = map hexOf prf in
          if list_ex (\<lambda>h. h = []) path then False
          else verify_path sha oldR (nat oldSize) newR (nat newSize) path)))"
| "verifyCheckpointConsistency sha oldRoot _ newRoot _ prf = False"

subsection \<open>The reference root and prover\<close>

lemma power_loop_bounds: "2 \<le> n \<Longrightarrow> 0 < k \<Longrightarrow> k < n \<Longrightarrow> power_loop k n < n \<and> n \<le> 2 * power_loop k n \<and> k \<le> power_loop k n"
proof (induction k n rule: power_loop.induct)
  case (1 k n)
  show ?case
  proof (cases "k * 2 < n")
    case True
    with 1 have "power_loop (k * 2) n < n \<and> n \<le> 2 * power_loop (k * 2) n \<and> k * 2 \<le> power_loop (k * 2) n" by simp
    with True 1 show ?thesis by (simp add: power_loop.simps[of k n])
  next
    case False
    with 1 show ?thesis by (simp add: power_loop.simps[of k n])
  qed
qed

lemma largest_bounds:
  assumes "2 \<le> n"
  shows "largestPowerOfTwoLessThan n < n" "n \<le> 2 * largestPowerOfTwoLessThan n" "0 < largestPowerOfTwoLessThan n"
  using power_loop_bounds[of n 1] assms by (auto simp: largestPowerOfTwoLessThan_def)

text \<open>
  \<open>merkleRoot\<close> of a non-empty list; the empty list, where the code throws, never arises inside the
  recursion. Every level normalises its leaves again.
\<close>

function mth :: "(string \<Rightarrow> string) \<Rightarrow> string list \<Rightarrow> string" where
  "mth sha leaves = (let d = map hexOf leaves; k = largestPowerOfTwoLessThan (length d) in
     if length d = 0 then [] else if length d = 1 then hd d
     else hashChildrenV2 sha (mth sha (take k d)) (mth sha (drop k d)))"
  by auto
termination
proof (relation "measure (\<lambda>(sha, leaves). length leaves)", goal_cases)
  case (2 sha leaves d k)
  then have "2 \<le> length leaves" by (cases leaves) (auto simp: Suc_le_eq)
  with 2 largest_bounds show ?case by simp
next
  case (3 sha leaves d k)
  then have "2 \<le> length leaves" by (cases leaves) (auto simp: Suc_le_eq)
  with 3 largest_bounds show ?case by simp
qed simp

declare mth.simps [simp del]

definition merkleRoot :: "(string \<Rightarrow> string) \<Rightarrow> string list \<Rightarrow> string option" where
  "merkleRoot sha leaves = (if leaves = [] then None else Some (mth sha leaves))"

text \<open>
  \<open>subproof\<close> is called with 1 \<open>\<le>\<close> m \<open>\<le>\<close> n only; the second condition covers the other arguments, for
  which the recursion of the code does not end.
\<close>

function subproof :: "(string \<Rightarrow> string) \<Rightarrow> nat \<Rightarrow> string list \<Rightarrow> bool \<Rightarrow> string list" where
  "subproof sha m d b = (let n = length d; k = largestPowerOfTwoLessThan n in
     if m = n then (if b then [] else [mth sha d])
     else if n < 2 then []
     else if m \<le> k then subproof sha m (take k d) b @ [mth sha (drop k d)]
     else subproof sha (m - k) (drop k d) False @ [mth sha (take k d)])"
  by auto
termination
proof (relation "measure (\<lambda>(sha, m, d, b). length d)", goal_cases)
  case (2 sha m d b n k)
  then show ?case using largest_bounds[of "length d"] by auto
next
  case (3 sha m d b n k)
  then show ?case using largest_bounds[of "length d"] by auto
qed simp

declare subproof.simps [simp del]

definition buildConsistencyProof :: "(string \<Rightarrow> string) \<Rightarrow> nat \<Rightarrow> nat \<Rightarrow> string list \<Rightarrow> string list option" where
  "buildConsistencyProof sha m n leaves =
     (if length leaves < n then None
      else if \<not> (m \<ge> 1 \<and> m \<le> n) then None
      else if m = n then Some []
      else Some (subproof sha m (map hexOf (take n leaves)) True))"

subsection \<open>Powers of two\<close>

lemma power_loop_power: "2 \<le> n \<Longrightarrow> \<exists>j. power_loop (2 ^ i) n = 2 ^ j"
proof (induction "2 ^ i :: nat" n arbitrary: i rule: power_loop.induct)
  case (1 n)
  show ?case
  proof (cases "2 ^ i * 2 < n")
    case True
    have "(2 :: nat) ^ i * 2 = 2 ^ Suc i" by simp
    with 1 True have "\<exists>j. power_loop (2 ^ Suc i) n = 2 ^ j" by fastforce
    with True show ?thesis by (simp add: power_loop.simps[of "2 ^ i" n] mult.commute)
  next
    case False
    then show ?thesis by (auto simp: power_loop.simps[of "2 ^ i" n])
  qed
qed

lemma largest_power:
  assumes "2 \<le> n"
  obtains j where "largestPowerOfTwoLessThan n = 2 ^ j" "2 ^ j < n" "n \<le> 2 ^ Suc j"
  using power_loop_power[OF assms, of 0] largest_bounds[OF assms] that
  by (auto simp: largestPowerOfTwoLessThan_def)

lemma largest_power_unique:
  assumes "2 ^ j < n" "n \<le> 2 ^ Suc j"
  shows "largestPowerOfTwoLessThan n = 2 ^ j"
proof -
  have "(1 :: nat) \<le> 2 ^ j" by simp
  with assms have "2 \<le> n" by linarith
  then obtain i where i: "largestPowerOfTwoLessThan n = 2 ^ i" "2 ^ i < n" "n \<le> 2 ^ Suc i" by (rule largest_power)
  have "(2 :: nat) ^ i < 2 ^ Suc j" "(2 :: nat) ^ j < 2 ^ Suc i" using assms i by linarith+
  then have "i = j" using power_less_imp_less_exp[of "2 :: nat"] by (metis less_Suc_eq not_less_eq one_less_numeral_iff semiring_norm(76))
  with i show ?thesis by simp
qed

end
