(* ===== verification/Merkle_Properties.thy ===== *)
theory Merkle_Properties
  imports Merkle_Consistency
begin

section \<open>Consistency proofs are complete and sound\<close>

text \<open>
  The bottom-up verifier against the top-down prover. The control of the loop (the two indices)
  does not depend on the hashes. A run for a subtree is carried over to the enclosing tree by two
  simulations, one for the left and one for the right subtree of a split; both directions of the
  correspondence, that honest proofs verify and that verified proofs are honest, rest on them.
\<close>

subsection \<open>Hash texts\<close>

definition plain_hash :: "string \<Rightarrow> bool" where
  "plain_hash s \<longleftrightarrow> length s = 64 \<and> list_all is_lhex s"

lemma lhex_lower: "is_lhex c \<Longrightarrow> to_lower c = c \<and> c \<noteq> CHR '':''"
  by (auto simp: char_class_defs to_lower_def)

lemma hexOf_plain: "plain_hash s \<Longrightarrow> hexOf s = s"
proof -
  assume p: "plain_hash s"
  then have hex: "is_lhex c" if "c \<in> set s" for c using that by (auto simp: plain_hash_def list_all_iff)
  then have id: "map to_lower s = s" using lhex_lower by (intro map_idI) blast
  have "CHR '':'' \<notin> set (map to_lower (take 7 s))"
  proof
    assume "CHR '':'' \<in> set (map to_lower (take 7 s))"
    then obtain c where "c \<in> set s" "to_lower c = CHR '':''" by (auto dest: in_set_takeD)
    with hex lhex_lower show False by metis
  qed
  then have "map to_lower (take 7 s) \<noteq> ''sha256:''" by (metis in_set_conv_decomp list.set_intros(1,2))
  with id show "hexOf s = s" by (simp add: hexOf_def)
qed

lemma plain_map: "list_all plain_hash d \<Longrightarrow> map hexOf d = d"
  by (induction d) (auto simp: hexOf_plain)

lemma plain_nonempty: "plain_hash s \<Longrightarrow> s \<noteq> []"
  by (auto simp: plain_hash_def)

definition hex_digest :: "(string \<Rightarrow> string) \<Rightarrow> bool" where
  "hex_digest sha \<longleftrightarrow> (\<forall>x. plain_hash (sha x))"

lemma plain_take_drop: "list_all plain_hash d \<Longrightarrow> list_all plain_hash (take k d) \<and> list_all plain_hash (drop k d)"
  by (auto simp: list_all_iff dest: in_set_takeD in_set_dropD)

lemma mth_single: "list_all plain_hash [x] \<Longrightarrow> mth sha [x] = x"
  by (simp add: mth.simps[of sha "[x]"] hexOf_plain)

lemma mth_split:
  assumes "list_all plain_hash d" "2 ^ j < length d" "length d \<le> 2 ^ Suc j"
  shows "mth sha d = hashChildrenV2 sha (mth sha (take (2 ^ j) d)) (mth sha (drop (2 ^ j) d))"
proof -
  have "(1 :: nat) \<le> 2 ^ j" by simp
  with assms(2) have len: "length d \<noteq> 0" "length d \<noteq> 1" by linarith+
  show ?thesis
    using len assms(2,3) by (simp add: mth.simps[of sha d] plain_map[OF assms(1)] largest_power_unique Let_def)
qed

lemma mth_plain:
  assumes "hex_digest sha" "list_all plain_hash d" "d \<noteq> []"
  shows "plain_hash (mth sha d)"
proof (cases "length d = 1")
  case True
  then obtain x where "d = [x]" by (cases d) auto
  with assms(2) mth_single show ?thesis by simp
next
  case False
  with assms(3) have "2 \<le> length d" by (cases d) (auto simp: Suc_le_eq)
  then obtain j where "2 ^ j < length d" "length d \<le> 2 ^ Suc j" by (rule largest_power)
  from mth_split[OF assms(2) this] assms(1) show ?thesis by (simp add: hashChildrenV2_def hex_digest_def)
qed

subsection \<open>The control of the loop\<close>

lemma walk_append:
  "walk sha (P @ Q) f s fr sr = (case walk sha P f s fr sr of None \<Rightarrow> None
     | Some (f', s', a, b) \<Rightarrow> walk sha Q f' s' a b)"
  by (induction P arbitrary: f s fr sr) (auto split: prod.split)

text \<open>The texts the verifier hashes.\<close>

fun walk_inputs :: "(string \<Rightarrow> string) \<Rightarrow> string list \<Rightarrow> nat \<Rightarrow> nat \<Rightarrow> string \<Rightarrow> string \<Rightarrow> string list" where
  "walk_inputs sha [] fn sn fr sr = []"
| "walk_inputs sha (c # cs) fn sn fr sr =
     (if sn = 0 then []
      else if fn mod 2 = 1 \<or> fn = sn then
        (case shift_even fn sn of (fn', sn') \<Rightarrow>
           (CHR 0x01 # c @ fr) # (CHR 0x01 # c @ sr)
             # walk_inputs sha cs (fn' div 2) (sn' div 2) (hashChildrenV2 sha c fr) (hashChildrenV2 sha c sr))
      else (CHR 0x01 # sr @ c) # walk_inputs sha cs (fn div 2) (sn div 2) fr (hashChildrenV2 sha sr c))"

lemma walk_inputs_append:
  "walk sha P f s fr sr = Some (f', s', a, b) \<Longrightarrow>
    walk_inputs sha (P @ Q) f s fr sr = walk_inputs sha P f s fr sr @ walk_inputs sha Q f' s' a b"
  by (induction P arbitrary: f s fr sr) (auto split: prod.splits if_splits)

lemma shift_even_odd: "f mod 2 = 1 \<Longrightarrow> shift_even f s = (f, s)"
  by (simp add: shift_even.simps[of f s])

lemma half_pow: "(2 ^ Suc q - 1) div 2 = (2 ^ q - 1 :: nat)"
  by (induction q) auto

lemma walk_left:
  assumes "f < 2 ^ p" "x < 2 ^ p" "walk sha P f (2 ^ p - 1) fr sr = Some (f', 0, a, b)"
  shows "walk sha P f (2 ^ p + x) fr sr = Some (0, 1, a, b)
    \<and> walk_inputs sha P f (2 ^ p + x) fr sr = walk_inputs sha P f (2 ^ p - 1) fr sr"
  using assms
proof (induction P arbitrary: f p x fr sr)
  case Nil
  have "p = 0"
  proof (cases p)
    case (Suc q)
    have "(1 :: nat) \<le> 2 ^ q" by simp
    with Nil Suc show ?thesis by simp
  qed
  with Nil show ?case by simp
next
  case (Cons c P)
  then have "(2 :: nat) ^ p - 1 \<noteq> 0" by (auto split: if_splits)
  then obtain q where p: "p = Suc q" by (cases p) auto
  have ne: "f \<noteq> 2 ^ p + x" using Cons.prems(1) by simp
  have odd: "f = 2 ^ p - 1 \<Longrightarrow> f mod 2 = 1" unfolding p
    by (simp add: mod_2_eq_odd)
  have half: "f div 2 < 2 ^ q" "x div 2 < 2 ^ q" "(2 ^ p + x) div 2 = 2 ^ q + x div 2" "(2 ^ p - 1) div 2 = (2 ^ q - 1 :: nat)"
    using Cons.prems(1,2) p half_pow[of q] by auto
  show ?case
  proof (cases "f mod 2 = 1")
    case True
    with Cons.prems(3) \<open>2 ^ p - 1 \<noteq> 0\<close> have
      "walk sha P (f div 2) (2 ^ q - 1) (hashChildrenV2 sha c fr) (hashChildrenV2 sha c sr) = Some (f', 0, a, b)"
      by (simp add: shift_even_odd half(4) del: One_nat_def)
    from Cons.IH[OF half(1,2) this] True \<open>2 ^ p - 1 \<noteq> 0\<close> show ?thesis
      by (simp add: shift_even_odd half(3,4) del: One_nat_def)
  next
    case False
    with odd have "f \<noteq> 2 ^ p - 1" by blast
    with Cons.prems(3) False \<open>2 ^ p - 1 \<noteq> 0\<close> have
      "walk sha P (f div 2) (2 ^ q - 1) fr (hashChildrenV2 sha sr c) = Some (f', 0, a, b)"
      by (simp add: half(4) del: One_nat_def)
    from Cons.IH[OF half(1,2) this] False ne \<open>f \<noteq> 2 ^ p - 1\<close> \<open>2 ^ p - 1 \<noteq> 0\<close> show ?thesis
      by (simp add: half(3,4) del: One_nat_def)
  qed
qed

lemma shift_even_lift:
  assumes "f \<noteq> 0" "f < 2 ^ p"
  shows "\<exists>g r. shift_even f f = (g, g) \<and> shift_even (2 ^ p + f) (2 ^ p + f) = (2 ^ r + g, 2 ^ r + g) \<and> g < 2 ^ r"
  using assms
proof (induction f arbitrary: p rule: less_induct)
  case (less f)
  obtain q where p: "p = Suc q" using less.prems by (cases p) auto
  show ?case
  proof (cases "f mod 2 = 0")
    case True
    then have half: "f div 2 < f" "f div 2 \<noteq> 0" "f div 2 < 2 ^ q" "(2 ^ p + f) div 2 = 2 ^ q + f div 2" "(2 ^ p + f) mod 2 = 0"
      using less.prems p by auto
    from less.IH[OF half(1-3)] True less.prems half(4,5) show ?thesis
      by (simp add: shift_even.simps[of f f] shift_even.simps[of "2 ^ p + f" "2 ^ p + f"])
  next
    case False
    then have "f mod 2 = 1" "(2 ^ p + f) mod 2 = 1" using p by auto
    with less.prems show ?thesis by (metis shift_even_odd)
  qed
qed

lemma walk_right:
  assumes "f \<le> s" "s < 2 ^ p" "walk sha P f s fr sr = Some (f', 0, a, b)"
  shows "(\<exists>q. walk sha P (2 ^ p + f) (2 ^ p + s) fr sr = Some (2 ^ q, 2 ^ q, a, b))
    \<and> walk_inputs sha P (2 ^ p + f) (2 ^ p + s) fr sr = walk_inputs sha P f s fr sr"
  using assms
proof (induction P arbitrary: f s p fr sr)
  case Nil
  then show ?case by auto
next
  case (Cons c P)
  then have s0: "s \<noteq> 0" by (auto split: if_splits)
  with Cons.prems(2) obtain q where p: "p = Suc q" by (cases p) auto
  have par: "(2 ^ p + f) mod 2 = f mod 2" using p by simp
  have half: "f div 2 \<le> s div 2" "s div 2 < 2 ^ q" "(2 ^ p + f) div 2 = 2 ^ q + f div 2" "(2 ^ p + s) div 2 = 2 ^ q + s div 2"
    using Cons.prems(1,2) p by (auto simp: div_le_mono)
  consider (odd) "f mod 2 = 1" | (eq) "f mod 2 \<noteq> 1" "f = s" | (even) "f mod 2 \<noteq> 1" "f \<noteq> s" by blast
  then show ?case
  proof cases
    case odd
    with Cons.prems(3) s0 have
      "walk sha P (f div 2) (s div 2) (hashChildrenV2 sha c fr) (hashChildrenV2 sha c sr) = Some (f', 0, a, b)"
      by (simp add: shift_even_odd)
    from Cons.IH[OF half(1,2) this] odd s0 show ?thesis by (simp add: par shift_even_odd half(3,4))
  next
    case eq
    obtain g r where g: "shift_even s s = (g, g)" "shift_even (2 ^ p + s) (2 ^ p + s) = (2 ^ r + g, 2 ^ r + g)" "g < 2 ^ r"
      using shift_even_lift[OF s0 Cons.prems(2)] by blast
    have step: "walk sha P (g div 2) (g div 2) (hashChildrenV2 sha c fr) (hashChildrenV2 sha c sr) = Some (f', 0, a, b)"
      using Cons.prems(3) s0 eq g(1) by simp
    show ?thesis
    proof (cases r)
      case 0
      with g(3) have "g = 0" by simp
      have "g \<noteq> 0"
        using g(1) s0
      proof (induction s rule: less_induct)
        case (less s)
        show ?case
        proof (cases "s mod 2 = 0")
          case True
          then have "s div 2 < s" "s div 2 \<noteq> 0" using less.prems(2) by auto
          moreover have "shift_even (s div 2) (s div 2) = (g, g)"
            using less.prems True by (simp add: shift_even.simps[of s s])
          ultimately show ?thesis using less.IH by blast
        qed (use less in \<open>auto simp: shift_even.simps[of s s]\<close>)
      qed
      with \<open>g = 0\<close> show ?thesis by simp
    next
      case (Suc r')
      then have "g div 2 < 2 ^ r'" "(2 ^ r + g) div 2 = 2 ^ r' + g div 2" using g(3) by auto
      from Cons.IH[OF order_refl this(1) step] this(2) eq g s0 show ?thesis by simp
    qed
  next
    case even
    with Cons.prems(3) s0 have
      "walk sha P (f div 2) (s div 2) fr (hashChildrenV2 sha sr c) = Some (f', 0, a, b)" by simp
    from Cons.IH[OF half(1,2) this] even s0 show ?thesis by (simp add: par half(3,4))
  qed
qed

lemma shift_common_left:
  assumes "f < 2 ^ p" "x < 2 ^ p"
  shows "\<exists>q g y. shift_common f (2 ^ p - 1) = (g, 2 ^ q - 1) \<and> shift_common f (2 ^ p + x) = (g, 2 ^ q + y)
    \<and> g < 2 ^ q \<and> y < 2 ^ q"
  using assms
proof (induction f arbitrary: p x rule: less_induct)
  case (less f)
  show ?case
  proof (cases "f mod 2 = 1")
    case True
    then obtain q where p: "p = Suc q" using less.prems by (cases p) auto
    have half: "f div 2 < f" "f div 2 < 2 ^ q" "x div 2 < 2 ^ q" "(2 ^ p + x) div 2 = 2 ^ q + x div 2"
      "(2 ^ p - 1) div 2 = (2 ^ q - 1 :: nat)"
      using less.prems p True half_pow[of q] by (auto intro: Nat.gr0I)
    from less.IH[OF half(1-3)] True half(4,5) show ?thesis
      by (simp add: shift_common.simps[of f "2 ^ p - 1"] shift_common.simps[of f "2 ^ p + x"] del: One_nat_def)
  next
    case False
    then have "shift_common f z = (f, z)" for z by (simp add: shift_common.simps[of f z])
    with less.prems show ?thesis by blast
  qed
qed

lemma shift_common_right:
  assumes "f < s" "s < 2 ^ p"
  shows "\<exists>q g t. shift_common f s = (g, t) \<and> shift_common (2 ^ p + f) (2 ^ p + s) = (2 ^ q + g, 2 ^ q + t)
    \<and> g < t \<and> t < 2 ^ q"
  using assms
proof (induction f arbitrary: p s rule: less_induct)
  case (less f)
  obtain q where p: "p = Suc q" using less.prems by (cases p) auto
  show ?case
  proof (cases "f mod 2 = 1")
    case True
    have lt: "f div 2 < s div 2" using less.prems(1) True by presburger
    have half: "f div 2 < f" "f div 2 < s div 2" "s div 2 < 2 ^ q" "(2 ^ p + f) div 2 = 2 ^ q + f div 2"
      "(2 ^ p + s) div 2 = 2 ^ q + s div 2" "(2 ^ p + f) mod 2 = 1"
      using less.prems p True lt by (auto intro: Nat.gr0I)
    from less.IH[OF half(1-3)] True half(4-6) show ?thesis
      by (simp add: shift_common.simps[of f s] shift_common.simps[of "2 ^ p + f" "2 ^ p + s"])
  next
    case False
    then have "(2 ^ p + f) mod 2 \<noteq> 1" using p by simp
    with False less.prems show ?thesis
      by (auto simp: shift_common.simps[of f s] shift_common.simps[of "2 ^ p + f" "2 ^ p + s"])
  qed
qed

lemma shift_common_ones: "shift_common (2 ^ j - 1) (2 ^ j - 1) = (0, 0)"
proof (induction j)
  case (Suc j)
  have "(2 ^ Suc j - 1) mod 2 = (1 :: nat)" by (simp add: mod_2_eq_odd)
  with Suc show ?case
    by (simp add: shift_common.simps[of "2 ^ Suc j - 1"] half_pow del: power_Suc One_nat_def)
qed (simp add: shift_common.simps[of 0])

subsection \<open>Honest proofs\<close>

text \<open>The sizes that occur in the recursion: a proper prefix, or a whole perfect subtree.\<close>

definition proof_sizes :: "nat \<Rightarrow> nat \<Rightarrow> bool" where
  "proof_sizes m n \<longleftrightarrow> 1 \<le> m \<and> (m < n \<or> (m = n \<and> (\<exists>j. n = 2 ^ j)))"

lemma shift_even_power: "shift_even (2 ^ q) (2 ^ q) = (1, 1)"
proof (induction q)
  case (Suc q)
  then show ?case by (simp add: shift_even.simps[of "2 * 2 ^ q"])
qed (simp add: shift_even.simps[of "Suc 0"])

text \<open>How a run for a subtree becomes a run for the tree, one node longer.\<close>

definition start :: "nat \<Rightarrow> nat \<Rightarrow> nat \<times> nat" where
  "start m n = shift_common (m - 1) (n - 1)"

definition run :: "(string \<Rightarrow> string) \<Rightarrow> nat \<Rightarrow> nat \<Rightarrow> string \<Rightarrow> string list \<Rightarrow> (nat \<times> nat \<times> string \<times> string) option" where
  "run sha m n seed P = walk sha P (fst (start m n)) (snd (start m n)) seed seed"

definition run_inputs :: "(string \<Rightarrow> string) \<Rightarrow> nat \<Rightarrow> nat \<Rightarrow> string \<Rightarrow> string list \<Rightarrow> string list" where
  "run_inputs sha m n seed P = walk_inputs sha P (fst (start m n)) (snd (start m n)) seed seed"

lemma run_left:
  assumes "1 \<le> m" "m \<le> 2 ^ j" "2 ^ j < n" "n \<le> 2 ^ Suc j"
    and "run sha m (2 ^ j) seed P = Some (f', 0, a, b)"
  shows "run sha m n seed (P @ [c]) = Some (0, 0, a, hashChildrenV2 sha b c)
    \<and> run_inputs sha m n seed (P @ [c]) = run_inputs sha m (2 ^ j) seed P @ [CHR 0x01 # b @ c]"
proof -
  define x where "x = n - 1 - 2 ^ j"
  have x: "n - 1 = 2 ^ j + x" "x < 2 ^ j" using assms(3,4) by (auto simp: x_def)
  have "m - 1 < 2 ^ j" using assms(1,2) by simp
  from shift_common_left[OF this x(2)] obtain q g y where q: "start m (2 ^ j) = (g, 2 ^ q - 1)"
    "start m n = (g, 2 ^ q + y)" "g < 2 ^ q" "y < 2 ^ q"
    unfolding start_def x(1) by blast
  have "walk sha P g (2 ^ q + y) seed seed = Some (0, 1, a, b)
    \<and> walk_inputs sha P g (2 ^ q + y) seed seed = walk_inputs sha P g (2 ^ q - 1) seed seed"
    by (rule walk_left[OF q(3,4)]) (use assms(5) q(1) in \<open>simp add: run_def\<close>)
  then show ?thesis by (simp add: run_def run_inputs_def q(1,2) walk_append walk_inputs_append)
qed

lemma run_right:
  assumes "2 ^ j < m" "m < n" "n \<le> 2 ^ Suc j"
    and "run sha (m - 2 ^ j) (n - 2 ^ j) seed P = Some (f', 0, a, b)"
  shows "run sha m n seed (P @ [c]) = Some (0, 0, hashChildrenV2 sha c a, hashChildrenV2 sha c b)
    \<and> run_inputs sha m n seed (P @ [c])
      = run_inputs sha (m - 2 ^ j) (n - 2 ^ j) seed P @ [CHR 0x01 # c @ a, CHR 0x01 # c @ b]"
proof -
  let ?f = "m - 2 ^ j - 1" and ?s = "n - 2 ^ j - 1"
  have fs: "?f < ?s" "?s < 2 ^ j" "m - 1 = 2 ^ j + ?f" "n - 1 = 2 ^ j + ?s" using assms(1-3) by auto
  from shift_common_right[OF fs(1,2)] obtain q g t where q: "start (m - 2 ^ j) (n - 2 ^ j) = (g, t)"
    "start m n = (2 ^ q + g, 2 ^ q + t)" "g < t" "t < 2 ^ q"
    unfolding start_def fs(3,4) by blast
  obtain r where "walk sha P (2 ^ q + g) (2 ^ q + t) seed seed = Some (2 ^ r, 2 ^ r, a, b)"
    "walk_inputs sha P (2 ^ q + g) (2 ^ q + t) seed seed = walk_inputs sha P g t seed seed"
    using walk_right[of g t q sha P seed seed] assms(4) q by (auto simp: run_def)
  then show ?thesis
    by (simp add: run_def run_inputs_def q(1,2) walk_append walk_inputs_append shift_even_power)
qed

lemma run_whole: "run sha (2 ^ j) (2 ^ j) seed [] = Some (0, 0, seed, seed)"
  unfolding run_def start_def shift_common_ones by simp

lemma subproof_whole: "subproof sha (length d) d b = (if b then [] else [mth sha d])"
  by (simp add: subproof.simps[of sha "length d"])

lemma subproof_split:
  assumes "m \<noteq> length d" "2 ^ j < length d" "length d \<le> 2 ^ Suc j"
  shows "subproof sha m d b = (if m \<le> 2 ^ j then subproof sha m (take (2 ^ j) d) b @ [mth sha (drop (2 ^ j) d)]
    else subproof sha (m - 2 ^ j) (drop (2 ^ j) d) False @ [mth sha (take (2 ^ j) d)])"
proof -
  have "(1 :: nat) \<le> 2 ^ j" by simp
  with assms(2) have "\<not> length d < 2" by linarith
  with assms show ?thesis by (simp add: subproof.simps[of sha m d b] largest_power_unique Let_def)
qed

text \<open>Induction over the splits of a tree.\<close>

lemma split_induct [consumes 1, case_names whole left right]:
  assumes "proof_sizes m (length d)"
    and "\<And>d j. length d = 2 ^ j \<Longrightarrow> P (length d) d"
    and "\<And>m d j. 1 \<le> m \<Longrightarrow> m \<le> 2 ^ j \<Longrightarrow> 2 ^ j < length d \<Longrightarrow> length d \<le> 2 ^ Suc j \<Longrightarrow> P m (take (2 ^ j) d) \<Longrightarrow> P m d"
    and "\<And>m d j. 2 ^ j < m \<Longrightarrow> m < length d \<Longrightarrow> length d \<le> 2 ^ Suc j \<Longrightarrow> P (m - 2 ^ j) (drop (2 ^ j) d) \<Longrightarrow> P m d"
  shows "P m (d :: 'a list)"
  using assms(1)
proof (induction "length d" arbitrary: m d rule: less_induct)
  case less
  show ?case
  proof (cases "m = length d")
    case True
    with less.prems assms(2) show ?thesis by (auto simp: proof_sizes_def)
  next
    case False
    with less.prems have m: "1 \<le> m" "m < length d" by (auto simp: proof_sizes_def)
    then obtain j where j: "2 ^ j < length d" "length d \<le> 2 ^ Suc j"
      using largest_power[of "length d"] by (metis One_nat_def Suc_1 Suc_leI le_less_trans)
    have pos: "(0 :: nat) < 2 ^ j" by simp
    show ?thesis
    proof (cases "m \<le> 2 ^ j")
      case True
      then have "proof_sizes m (length (take (2 ^ j) d))" using m j by (auto simp: proof_sizes_def min_def)
      moreover have "length (take (2 ^ j) d) < length d" using j by simp
      ultimately show ?thesis using less.hyps assms(3)[OF m(1) True j] by blast
    next
      case False
      then have "proof_sizes (m - 2 ^ j) (length (drop (2 ^ j) d))" using m by (auto simp: proof_sizes_def)
      moreover have "length (drop (2 ^ j) d) < length d" using j pos by (simp del: zero_less_power)
      ultimately show ?thesis using less.hyps assms(4)[of j m d] False m j by auto
    qed
  qed
qed

lemma honest_run:
  assumes "proof_sizes m (length d)" "list_all plain_hash d"
  shows "\<exists>seed P. subproof sha m d False = seed # P
    \<and> run sha m (length d) seed P = Some (0, 0, mth sha (take m d), mth sha d)"
  using assms
proof (induction m d rule: split_induct)
  case (whole d j)
  then show ?case using run_whole[of sha j "mth sha d"] subproof_whole[of sha d False] by auto
next
  case (left m d j)
  have "list_all plain_hash (take (2 ^ j) d)" using left.prems plain_take_drop by blast
  with left.IH obtain seed P where P: "subproof sha m (take (2 ^ j) d) False = seed # P"
    "run sha m (2 ^ j) seed P = Some (0, 0, mth sha (take m d), mth sha (take (2 ^ j) d))"
    using left.hyps by (auto simp: min_def split: if_splits)
  show ?case
    using subproof_split[of m d j sha False] left.hyps P(1) run_left[OF left.hyps P(2), of "mth sha (drop (2 ^ j) d)"]
      mth_split[OF left.prems left.hyps(3,4)] by auto
next
  case (right m d j)
  have j: "2 ^ j < length d" using right.hyps by simp
  have "list_all plain_hash (drop (2 ^ j) d)" using right.prems plain_take_drop by blast
  with right.IH obtain seed P where P: "subproof sha (m - 2 ^ j) (drop (2 ^ j) d) False = seed # P"
    "run sha (m - 2 ^ j) (length d - 2 ^ j) seed P
      = Some (0, 0, mth sha (take (m - 2 ^ j) (drop (2 ^ j) d)), mth sha (drop (2 ^ j) d))"
    by auto
  have old: "mth sha (take m d) = hashChildrenV2 sha (mth sha (take (2 ^ j) d)) (mth sha (take (m - 2 ^ j) (drop (2 ^ j) d)))"
    using mth_split[of "take m d" j sha] right.hyps right.prems plain_take_drop
    by (simp add: min_def drop_take)
  show ?case
    using subproof_split[of m d j sha False] right.hyps j P(1) run_right[OF right.hyps P(2), of "mth sha (take (2 ^ j) d)"]
      mth_split[OF right.prems j right.hyps(3)] old by auto
qed

text \<open>The seed is left out of the proof exactly when the old size is a power of two.\<close>

lemma power_between:
  assumes "(2 :: nat) ^ j < 2 ^ i" "(2 :: nat) ^ i < 2 ^ Suc j"
  shows False
proof -
  have "j < i" by (rule power_less_imp_less_exp[OF _ assms(1)]) simp
  moreover have "i < Suc j" by (rule power_less_imp_less_exp[OF _ assms(2)]) simp
  ultimately show False by simp
qed

lemma subproof_seed:
  assumes "proof_sizes m (length d)"
  shows "subproof sha m d False = (if \<exists>i. m = 2 ^ i then mth sha (take m d) # subproof sha m d True
    else subproof sha m d True)"
  using assms
proof (induction m d rule: split_induct)
  case (whole d j)
  then show ?case using subproof_whole[of sha d True] subproof_whole[of sha d False] by auto
next
  case (left m d j)
  then have "m \<noteq> length d" by simp
  with left subproof_split[of m d j sha] show ?case by (auto simp: min_def)
next
  case (right m d j)
  have "\<not> (\<exists>i. m = 2 ^ i)"
  proof
    assume "\<exists>i. m = 2 ^ i"
    then obtain i where "m = 2 ^ i" by blast
    with right.hyps have "(2 :: nat) ^ j < 2 ^ i" "(2 :: nat) ^ i < 2 ^ Suc j" by (auto intro: less_le_trans)
    then show False by (rule power_between)
  qed
  with right.hyps subproof_split[of m d j sha] show ?case by auto
qed

subsection \<open>The 32-bit test\<close>

lemma and_pred_power: "0 < n \<Longrightarrow> (n AND (n - 1)) = 0 \<longleftrightarrow> (\<exists>a. n = 2 ^ a)" for n :: nat
proof (induction n rule: less_induct)
  case (less n)
  show ?case
  proof (cases "even n")
    case True
    then obtain k where k: "n = 2 * k" by (auto elim: evenE)
    with less.prems have k0: "0 < k" "k < n" by auto
    have "(2 * k AND (2 * k - 1)) = 2 * (k AND (k - 1))"
    proof -
      have "(2 * k - 1) div 2 = k - 1" "odd (2 * k - 1)" using k0(1) by presburger+
      then show ?thesis by (subst and_nat_rec) auto
    qed
    with less.IH[OF k0(2,1)] k have "(n AND (n - 1)) = 0 \<longleftrightarrow> (\<exists>a. k = 2 ^ a)" by auto
    moreover have "(\<exists>a. k = 2 ^ a) \<longleftrightarrow> (\<exists>a. n = 2 ^ a)"
    proof
      assume "\<exists>a. k = 2 ^ a"
      then show "\<exists>a. n = 2 ^ a" unfolding k by (metis power_Suc)
    next
      assume "\<exists>a. n = 2 ^ a"
      then obtain a where a: "n = 2 ^ a" by blast
      with True obtain b where "a = Suc b" by (cases a) auto
      with a k show "\<exists>a. k = 2 ^ a" by auto
    qed
    ultimately show ?thesis by simp
  next
    case False
    then obtain k where k: "n = 2 * k + 1" by (auto elim: oddE)
    have "(2 * k + 1 AND 2 * k) = 2 * k"
      by (subst and_nat_rec) auto
    then have "(n AND (n - 1)) = 0 \<longleftrightarrow> n = 1" using k by auto
    moreover have "(\<exists>a. n = 2 ^ a) \<longleftrightarrow> n = 1"
    proof
      assume "\<exists>a. n = 2 ^ a"
      then obtain a where a: "n = 2 ^ a" by blast
      with False have "a = 0" by (cases a) auto
      with a show "n = 1" by simp
    next
      assume "n = 1"
      then have "n = 2 ^ 0" by simp
      then show "\<exists>a. n = 2 ^ a" by blast
    qed
    ultimately show ?thesis by simp
  qed
qed

lemma isPowerOfTwo_small:
  assumes "0 < n" "n < 2 ^ 32"
  shows "isPowerOfTwo (int n) \<longleftrightarrow> (\<exists>a. n = 2 ^ a)"
proof -
  have "(word_of_int (int n) AND word_of_int (int n - 1) :: 32 word) = word_of_nat (n AND (n - 1))"
    using assms(1) by (simp add: of_nat_and_eq of_nat_diff)
  moreover have "n AND (n - 1) < 2 ^ 32"
    using assms(2) take_bit_nat_eq_self_iff[of 32 "n AND (n - 1)"] by (simp add: take_bit_nat_eq_self)
  ultimately have "(word_of_int (int n) AND word_of_int (int n - 1) :: 32 word) = 0 \<longleftrightarrow> (n AND (n - 1)) = 0"
    by (simp add: word_of_nat_eq_0_iff nat_dvd_not_less) (metis dvd_0_right nat_dvd_not_less neq0_conv)
  then show ?thesis using and_pred_power[OF assms(1)] assms(1) by (simp add: isPowerOfTwo_def)
qed

subsection \<open>Completeness\<close>

lemma subproof_length:
  "length d \<le> 2 ^ h \<Longrightarrow> length (subproof sha m d b) \<le> h + 1"
proof (induction h arbitrary: m d b)
  case 0
  then have "length d < 2" by simp
  then show ?case by (simp add: subproof.simps[of sha m d b] Let_def)
next
  case (Suc h)
  show ?case
  proof (cases "m = length d \<or> length d < 2")
    case True
    then show ?thesis by (auto simp: subproof.simps[of sha m d b] Let_def)
  next
    case False
    then have "2 \<le> length d" by simp
    then obtain j where j: "2 ^ j < length d" "length d \<le> 2 ^ Suc j" by (rule largest_power)
    have "(2 :: nat) ^ j < 2 ^ Suc h" using j(1) Suc.prems by linarith
    then have "j < Suc h" by (rule power_less_imp_less_exp[rotated]) simp
    then have "(2 :: nat) ^ j \<le> 2 ^ h" by (simp add: power_increasing)
    then have "length (take (2 ^ j) d) \<le> 2 ^ h" "length (drop (2 ^ j) d) \<le> 2 ^ h"
      using j unfolding power_Suc length_drop length_take by linarith+
    with Suc.IH[of "take (2 ^ j) d"] Suc.IH[of "drop (2 ^ j) d"] subproof_split[of m d j sha b] False j show ?thesis
      by auto
  qed
qed

lemma subproof_plain:
  assumes "hex_digest sha" "proof_sizes m (length d)" "list_all plain_hash d"
  shows "list_all plain_hash (subproof sha m d b)"
  using assms(2,3)
proof (induction m d arbitrary: b rule: split_induct)
  case (whole d j)
  then have "d \<noteq> []" by auto
  with whole.prems show ?case unfolding subproof_whole by (auto simp: mth_plain[OF assms(1)])
next
  case (left m d j)
  then have "m \<noteq> length d" "drop (2 ^ j) d \<noteq> []" by auto
  with left subproof_split[of m d j sha b] plain_take_drop[OF left.prems] mth_plain[OF assms(1)] show ?case by auto
next
  case (right m d j)
  then have "m \<noteq> length d" "take (2 ^ j) d \<noteq> []" by auto
  with right subproof_split[of m d j sha b] plain_take_drop[OF right.prems] mth_plain[OF assms(1)] show ?case by auto
qed

lemma verify_path_run:
  assumes "0 < m" "m < 2 ^ 32"
  shows "verify_path sha r m r' n path \<longleftrightarrow>
    (let (seed, nodes) = (if \<exists>a. m = 2 ^ a then (r, path) else (hd path, tl path))
     in \<exists>f. run sha m n seed nodes = Some (f, 0, r, r'))"
  using isPowerOfTwo_small[OF assms]
  by (auto simp: verify_path_def run_def start_def split: prod.splits option.splits)

lemma honest_path:
  assumes "1 \<le> m" "m < length d" "m < 2 ^ 32" "list_all plain_hash d"
  shows "verify_path sha (mth sha (take m d)) m (mth sha d) (length d) (subproof sha m d True)"
proof -
  have sizes: "proof_sizes m (length d)" using assms(1,2) by (simp add: proof_sizes_def)
  obtain seed P where "subproof sha m d False = seed # P"
    "run sha m (length d) seed P = Some (0, 0, mth sha (take m d), mth sha d)"
    using honest_run[OF sizes assms(4)] by blast
  moreover have "0 < m" using assms(1) by simp
  ultimately show ?thesis
    using subproof_seed[OF sizes, of sha] by (auto simp: verify_path_run[OF _ assms(3)] split: if_splits)
qed

lemma subproof_nonempty: "1 \<le> m \<Longrightarrow> m < length d \<Longrightarrow> subproof sha m d b \<noteq> []"
proof -
  assume m: "1 \<le> m" "m < length d"
  then have "2 \<le> length d" by simp
  then obtain j where "2 ^ j < length d" "length d \<le> 2 ^ Suc j" by (rule largest_power)
  with m subproof_split[of m d j sha b] show ?thesis by simp
qed

lemma consistency_proof_complete_path:
  assumes "hex_digest sha" "list_all plain_hash D" "1 \<le> m" "m < n" "n \<le> length D" "m < 2 ^ 32" "n \<le> 2 ^ 53"
  shows "verifyCheckpointConsistency sha (mth sha (take m D)) (Integral (int m)) (mth sha (take n D)) (Integral (int n))
    (subproof sha m (map hexOf (take n D)) True)"
proof -
  let ?d = "take n D" let ?P = "subproof sha m ?d True"
  have d: "list_all plain_hash ?d" "length ?d = n" using assms(2,5) plain_take_drop by auto
  have sizes: "proof_sizes m (length ?d)" using assms d by (simp add: proof_sizes_def)
  have old: "list_all plain_hash (take m D)" "take m D \<noteq> []" "take m ?d = take m D" "?d \<noteq> []"
    using assms plain_take_drop by auto
  have roots: "plain_hash (mth sha (take m D))" "plain_hash (mth sha ?d)"
    using mth_plain[OF assms(1)] d old by auto
  have P: "list_all plain_hash ?P" "?P \<noteq> []" "length ?P \<le> 54"
    using subproof_plain[OF assms(1) sizes d(1)] subproof_nonempty[of m ?d] subproof_length[of ?d 53 sha m True] assms d by auto
  have "\<not> list_ex (\<lambda>h. h = []) ?P" using P(1) plain_nonempty by (auto simp: list_ex_iff list_all_iff)
  moreover have "verify_path sha (mth sha (take m D)) m (mth sha ?d) n ?P"
    using honest_path[of m ?d sha] assms d old by simp
  ultimately show ?thesis
    using assms P roots by (simp add: plain_map[OF d(1)] plain_map[OF P(1)] hexOf_plain plain_nonempty Let_def)
qed

subsection \<open>Soundness\<close>

function mth_inputs :: "(string \<Rightarrow> string) \<Rightarrow> string list \<Rightarrow> string list" where
  "mth_inputs sha d = (let k = largestPowerOfTwoLessThan (length d) in
     if length d < 2 then []
     else (CHR 0x01 # mth sha (take k d) @ mth sha (drop k d)) # mth_inputs sha (take k d) @ mth_inputs sha (drop k d))"
  by auto
termination
proof (relation "measure (\<lambda>(sha, leaves). length leaves)", goal_cases)
  case (2 sha d k)
  then show ?case using largest_bounds[of "length d"] by simp
next
  case (3 sha d k)
  then show ?case using largest_bounds[of "length d"] by simp
qed simp

declare mth_inputs.simps [simp del]

lemma mth_inputs_split:
  assumes "2 ^ j < length d" "length d \<le> 2 ^ Suc j"
  shows "mth_inputs sha d = (CHR 0x01 # mth sha (take (2 ^ j) d) @ mth sha (drop (2 ^ j) d))
    # mth_inputs sha (take (2 ^ j) d) @ mth_inputs sha (drop (2 ^ j) d)"
proof -
  have "(1 :: nat) \<le> 2 ^ j" by simp
  with assms(1) have "\<not> length d < 2" by linarith
  with assms show ?thesis by (simp add: mth_inputs.simps[of sha d] largest_power_unique Let_def)
qed

text \<open>One collision-free comparison of two inner nodes.\<close>

lemma node_eq:
  assumes "hashChildrenV2 sha a b = hashChildrenV2 sha a' b'" "inj_on sha X"
    and "CHR 0x01 # a @ b \<in> X" "CHR 0x01 # a' @ b' \<in> X"
    and "length a = length a' \<or> length b = length b'"
  shows "a = a' \<and> b = b'"
proof -
  have "CHR 0x01 # a @ b = CHR 0x01 # a' @ b'"
    by (rule inj_onD[OF assms(2)]) (use assms(1,3,4) in \<open>auto simp: hashChildrenV2_def\<close>)
  then have "a @ b = a' @ b'" by simp
  with assms(5) show ?thesis by auto
qed

lemma plain_length: "hex_digest sha \<Longrightarrow> list_all plain_hash d \<Longrightarrow> d \<noteq> [] \<Longrightarrow> length (mth sha d) = 64"
  using mth_plain by (auto simp: plain_hash_def)

lemma mth_inj:
  assumes "hex_digest sha" "inj_on sha X"
  shows "length d = length e \<Longrightarrow> d \<noteq> [] \<Longrightarrow> list_all plain_hash d \<Longrightarrow> list_all plain_hash e
    \<Longrightarrow> set (mth_inputs sha d) \<subseteq> X \<Longrightarrow> set (mth_inputs sha e) \<subseteq> X \<Longrightarrow> mth sha d = mth sha e \<Longrightarrow> d = e"
proof (induction "length d" arbitrary: d e rule: less_induct)
  case less
  show ?case
  proof (cases "2 \<le> length d")
    case True
    then obtain j where j: "2 ^ j < length d" "length d \<le> 2 ^ Suc j" by (rule largest_power)
    let ?k = "2 ^ j :: nat"
    have plain: "list_all plain_hash (take ?k d)" "list_all plain_hash (drop ?k d)"
      "list_all plain_hash (take ?k e)" "list_all plain_hash (drop ?k e)"
      using less.prems(3,4) plain_take_drop by blast+
    have ne: "take ?k d \<noteq> []" "take ?k e \<noteq> []" "drop ?k d \<noteq> []" "drop ?k e \<noteq> []" using j less.prems(1) by auto
    have sub: "set (mth_inputs sha (take ?k d)) \<subseteq> X" "set (mth_inputs sha (drop ?k d)) \<subseteq> X"
      "CHR 0x01 # mth sha (take ?k d) @ mth sha (drop ?k d) \<in> X"
      "set (mth_inputs sha (take ?k e)) \<subseteq> X" "set (mth_inputs sha (drop ?k e)) \<subseteq> X"
      "CHR 0x01 # mth sha (take ?k e) @ mth sha (drop ?k e) \<in> X"
      using less.prems(1,5,6) j mth_inputs_split[of j d sha] mth_inputs_split[of j e sha] by auto
    have "mth sha (take ?k d) = mth sha (take ?k e) \<and> mth sha (drop ?k d) = mth sha (drop ?k e)"
      by (rule node_eq[OF _ assms(2) sub(3,6)])
        (use less.prems j mth_split[of d j sha] mth_split[of e j sha] plain_length[OF assms(1)] plain ne in auto)
    then have "take ?k d = take ?k e" "drop ?k d = drop ?k e"
      using less.hyps[of "take ?k d" "take ?k e"] less.hyps[of "drop ?k d" "drop ?k e"] plain ne sub j less.prems(1) by auto
    then show ?thesis by (metis append_take_drop_id)
  next
    case False
    moreover have "length d \<noteq> 0" using less.prems(2) by simp
    ultimately have "length d = 1" "length e = 1" using less.prems(1) by linarith+
    then obtain x y where "d = [x]" "e = [y]" by (auto simp: length_Suc_conv)
    with less.prems mth_single show ?thesis by simp
  qed
qed

text \<open>The control does not depend on the hashes, so the number of nodes is that of the honest proof.\<close>

lemma walk_control:
  "length P = length Q \<Longrightarrow> rel_option (\<lambda>x y. fst x = fst y \<and> fst (snd x) = fst (snd y))
    (walk sha P f s a b) (walk sha Q f s a' b')"
  by (induction P Q arbitrary: f s a b a' b' rule: list_induct2) (auto split: prod.splits)

lemma walk_past: "walk sha P f s a b = Some (f', 0, x, y) \<Longrightarrow> walk sha (P @ c # Q) f s a b = None"
  by (simp add: walk_append)

lemma walk_length_le:
  assumes "walk sha P f s a b = Some (f', 0, x, y)" "walk sha Q f s a' b' = Some (g', 0, x', y')"
  shows "length Q \<le> length P"
proof (rule ccontr)
  assume "\<not> length Q \<le> length P"
  then obtain c Q' where Q: "Q = take (length P) Q @ c # Q'" by (metis id_take_nth_drop not_le)
  have "length P = length (take (length P) Q)" using \<open>\<not> length Q \<le> length P\<close> by simp
  from walk_control[OF this, of sha f s a b a' b'] assms(1) obtain g x'' y'' where
    "walk sha (take (length P) Q) f s a' b' = Some (g, 0, x'', y'')" by (auto simp: option_rel_Some1)
  from walk_past[OF this, of c Q'] Q assms(2) show False by simp
qed

lemma run_length:
  assumes "run sha m n a P = Some (f, 0, x, y)" "run sha m n a' Q = Some (f', 0, x', y')"
  shows "length P = length Q"
  using assms walk_length_le unfolding run_def by (metis le_antisym)

lemma run_control:
  assumes "run sha m n a P = Some (f, 0, x, y)" "length P = length Q"
  obtains x' y' where "run sha m n a' Q = Some (f, 0, x', y')"
  using walk_control[OF assms(2), of sha "fst (start m n)" "snd (start m n)" a a a' a'] assms(1)
  by (auto simp: run_def option_rel_Some1)

lemma honest_run_exists:
  assumes "proof_sizes m n"
  obtains seed P f a b where "run sha m n seed P = Some (f, 0, a, b)"
proof -
  let ?d = "replicate n (replicate 64 (CHR ''a''))"
  have "list_all plain_hash ?d" by (simp add: list_all_iff plain_hash_def char_class_defs)
  with honest_run[of m ?d sha] assms that show ?thesis by auto
qed

lemma snoc_of_length: "length P = Suc k \<Longrightarrow> \<exists>P' c. P = P' @ [c] \<and> length P' = k"
  by (metis append_butlast_last_id diff_Suc_1 length_0_conv length_butlast nat.distinct(1))

lemma run_left_inv:
  assumes m: "1 \<le> m" "m \<le> 2 ^ j" "2 ^ j < n" "n \<le> 2 ^ Suc j"
    and P: "run sha m n seed P = Some (f, 0, a, b)"
  obtains P' c b' f' where "P = P' @ [c]" "run sha m (2 ^ j) seed P' = Some (f', 0, a, b')"
    "b = hashChildrenV2 sha b' c" "run_inputs sha m n seed P = run_inputs sha m (2 ^ j) seed P' @ [CHR 0x01 # b' @ c]"
proof -
  have "proof_sizes m (2 ^ j)" using m(1,2) by (auto simp: proof_sizes_def)
  then obtain s Q g x y where Q: "run sha m (2 ^ j) s Q = Some (g, 0, x, y)" by (rule honest_run_exists)
  from run_left[OF m Q] have "length P = length (Q @ [[]])" using run_length[OF P] by metis
  then obtain P' c where P': "P = P' @ [c]" "length Q = length P'" using snoc_of_length[of P "length Q"] by auto
  obtain x' y' where r: "run sha m (2 ^ j) seed P' = Some (g, 0, x', y')" using run_control[OF Q P'(2)] .
  from run_left[OF m this, of c] P P'(1) have
    "a = x'" "b = hashChildrenV2 sha y' c" "run_inputs sha m n seed P = run_inputs sha m (2 ^ j) seed P' @ [CHR 0x01 # y' @ c]"
    by auto
  with that[OF P'(1)] r show ?thesis by simp
qed

lemma run_right_inv:
  assumes m: "2 ^ j < m" "m < n" "n \<le> 2 ^ Suc j"
    and P: "run sha m n seed P = Some (f, 0, a, b)"
  obtains P' c a' b' f' where "P = P' @ [c]" "run sha (m - 2 ^ j) (n - 2 ^ j) seed P' = Some (f', 0, a', b')"
    "a = hashChildrenV2 sha c a'" "b = hashChildrenV2 sha c b'"
    "run_inputs sha m n seed P
      = run_inputs sha (m - 2 ^ j) (n - 2 ^ j) seed P' @ [CHR 0x01 # c @ a', CHR 0x01 # c @ b']"
proof -
  have "proof_sizes (m - 2 ^ j) (n - 2 ^ j)" using m by (auto simp: proof_sizes_def)
  then obtain s Q g x y where Q: "run sha (m - 2 ^ j) (n - 2 ^ j) s Q = Some (g, 0, x, y)" by (rule honest_run_exists)
  from run_right[OF m Q] have "length P = length (Q @ [[]])" using run_length[OF P] by metis
  then obtain P' c where P': "P = P' @ [c]" "length Q = length P'" using snoc_of_length[of P "length Q"] by auto
  obtain x' y' where r: "run sha (m - 2 ^ j) (n - 2 ^ j) seed P' = Some (g, 0, x', y')" using run_control[OF Q P'(2)] .
  from run_right[OF m this, of c] P P'(1) have
    "a = hashChildrenV2 sha c x'" "b = hashChildrenV2 sha c y'"
    "run_inputs sha m n seed P = run_inputs sha (m - 2 ^ j) (n - 2 ^ j) seed P' @ [CHR 0x01 # c @ x', CHR 0x01 # c @ y']"
    by auto
  with that[OF P'(1)] r show ?thesis by simp
qed

text \<open>The new side of an accepted run is a hash as soon as the old size is smaller.\<close>

lemma run_new_length:
  assumes "hex_digest sha" "1 \<le> m" "m < n" "run sha m n seed P = Some (f, 0, a, b)"
  shows "length b = 64"
proof -
  have len: "length (hashChildrenV2 sha x y) = 64" for x y
    using assms(1) by (simp add: hex_digest_def hashChildrenV2_def plain_hash_def)
  have "2 \<le> n" using assms(2,3) by simp
  then obtain j where j: "2 ^ j < n" "n \<le> 2 ^ Suc j" by (rule largest_power)
  show ?thesis
  proof (cases "m \<le> 2 ^ j")
    case True
    show ?thesis by (rule run_left_inv[OF assms(2) True j assms(4)]) (simp add: len)
  next
    case False
    then have gt: "2 ^ j < m" by simp
    show ?thesis by (rule run_right_inv[OF gt assms(3) j(2) assms(4)]) (simp add: len)
  qed
qed

lemma accepted_run_prefix:
  assumes sha: "hex_digest sha" "inj_on sha X"
    and "proof_sizes m (length d)" "list_all plain_hash d" "list_all plain_hash e" "length e = m"
    and "set (mth_inputs sha d) \<subseteq> X" "set (mth_inputs sha e) \<subseteq> X"
    and "run sha m (length d) seed P = Some (f, 0, mth sha e, mth sha d)"
    and "set (run_inputs sha m (length d) seed P) \<subseteq> X"
  shows "e = take m d"
  using assms(3-)
proof (induction m d arbitrary: e P f rule: split_induct)
  case (whole d j)
  have "length P = length ([] :: string list)"
    by (rule run_length[OF whole.prems(6)]) (use whole.hyps run_whole[of sha j seed] in simp)
  then have "P = []" by simp
  then have "mth sha e = mth sha d" using whole.prems(6) whole.hyps run_whole[of sha j seed] by auto
  moreover have "e \<noteq> []" using whole.hyps whole.prems(3) by auto
  ultimately show ?case using mth_inj[OF sha, of e d] whole.prems by auto
next
  case (left m d j)
  let ?l = "take (2 ^ j) d" and ?r = "drop (2 ^ j) d"
  from left.prems(6) obtain P' c b' f' where P: "P = P' @ [c]" "run sha m (2 ^ j) seed P' = Some (f', 0, mth sha e, b')"
    "mth sha d = hashChildrenV2 sha b' c"
    "run_inputs sha m (length d) seed P = run_inputs sha m (2 ^ j) seed P' @ [CHR 0x01 # b' @ c]"
    by (rule run_left_inv[OF left.hyps])
  have len: "length ?l = 2 ^ j" using left.hyps by simp
  have ne: "?l \<noteq> []" "e \<noteq> []" using left.hyps left.prems(3) by auto
  have plain: "list_all plain_hash ?l" using left.prems(1) plain_take_drop by blast
  note ins = mth_inputs_split[OF left.hyps(3,4), of sha]
  have b': "length b' = 64"
  proof (cases "m = 2 ^ j")
    case True
    with P(2) run_whole[of sha j seed] have "P' = []" using run_length by fastforce
    with P(2) run_whole[of sha j seed] True have "b' = mth sha e" by auto
    with plain_length[OF sha(1) left.prems(2) ne(2)] show ?thesis by simp
  next
    case False
    with left.hyps have "m < 2 ^ j" by simp
    from run_new_length[OF sha(1) left.hyps(1) this P(2)] show ?thesis .
  qed
  have "b' = mth sha ?l \<and> c = mth sha ?r"
    by (rule node_eq[OF _ sha(2)])
      (use P(3,4) mth_split[OF left.prems(1) left.hyps(3,4)] ins left.prems(4,7) b' plain_length[OF sha(1) plain ne(1)] in auto)
  then have "e = take m ?l"
    using left.IH[of e P' f'] plain left.prems P(2,4) ins len by auto
  with left.hyps show ?case by (simp add: min_def)
next
  case (right m d j)
  let ?k = "2 ^ j :: nat"
  let ?l = "take ?k d" and ?r = "drop ?k d"
  have j: "2 ^ j < length d" "2 ^ j < length e" "length e \<le> 2 ^ Suc j" using right.hyps right.prems(3) by auto
  from right.prems(6) obtain P' c a' b' f' where P: "P = P' @ [c]"
    "run sha (m - ?k) (length d - ?k) seed P' = Some (f', 0, a', b')"
    "mth sha e = hashChildrenV2 sha c a'" "mth sha d = hashChildrenV2 sha c b'"
    "run_inputs sha m (length d) seed P
      = run_inputs sha (m - ?k) (length d - ?k) seed P' @ [CHR 0x01 # c @ a', CHR 0x01 # c @ b']"
    by (rule run_right_inv[OF right.hyps])
  have plain: "list_all plain_hash ?l" "list_all plain_hash ?r" "list_all plain_hash (take ?k e)" "list_all plain_hash (drop ?k e)"
    using right.prems(1,2) plain_take_drop by blast+
  have ne: "?l \<noteq> []" "?r \<noteq> []" "take ?k e \<noteq> []" using j by auto
  note ins = mth_inputs_split[OF j(1) right.hyps(3), of sha] mth_inputs_split[OF j(2,3), of sha]
  have "length b' = 64" by (rule run_new_length[OF sha(1) _ _ P(2)]) (use right.hyps in auto)
  then have new: "c = mth sha ?l \<and> b' = mth sha ?r"
    by (intro node_eq[OF _ sha(2)])
      (use P(4,5) mth_split[OF right.prems(1) j(1) right.hyps(3)] ins right.prems(4,7) plain_length[OF sha(1) plain(2) ne(2)] in auto)
  then have old: "c = mth sha (take ?k e) \<and> a' = mth sha (drop ?k e)"
    by (intro node_eq[OF _ sha(2)])
      (use P(3,5) mth_split[OF right.prems(2) j(2,3)] ins right.prems(5,7) plain_length[OF sha(1)] plain ne in auto)
  have "take ?k e = ?l"
    by (rule mth_inj[OF sha]) (use new old plain ne ins right.prems(4,5) j in auto)
  moreover have "drop ?k e = take (m - ?k) ?r"
    using right.IH[of "drop ?k e" P' f'] plain new old P(2,5) ins right.prems(3-7) by auto
  ultimately show ?case
    using right.hyps by (metis append_take_drop_id le_add_diff_inverse less_imp_le_nat take_add)
qed

text \<open>All texts that the verification of one proof hashes.\<close>

definition power32 :: "nat \<Rightarrow> bool" where
  "power32 m \<longleftrightarrow> m \<in> set (map (\<lambda>a. 2 ^ a) [0..<32])"

lemma power32_iff: "m < 2 ^ 32 \<Longrightarrow> power32 m \<longleftrightarrow> (\<exists>a. m = 2 ^ a)"
proof
  assume "m < 2 ^ 32" "\<exists>a. m = 2 ^ a"
  then obtain a where "m = 2 ^ a" "(2 :: nat) ^ a < 2 ^ 32" by auto
  moreover from this(2) have "a < 32" by (rule power_less_imp_less_exp[rotated]) simp
  ultimately show "power32 m" unfolding power32_def set_map by (intro image_eqI[of _ _ a]) auto
qed (auto simp: power32_def simp del: upt_rec_numeral)

definition verify_inputs :: "(string \<Rightarrow> string) \<Rightarrow> string \<Rightarrow> nat \<Rightarrow> nat \<Rightarrow> string list \<Rightarrow> string list" where
  "verify_inputs sha r m n P = (let path = map hexOf P in
     if power32 m then run_inputs sha m n r path else run_inputs sha m n (hd path) (tl path))"

subsection \<open>Properties\<close>

text \<open>
  Property C31. The reference prover is complete for the verifier: for logs of plain digests, an old
  size from 1 to below 2^32 and a new size up to 2^53, the prover returns a proof and
  \<open>verifyCheckpointConsistency\<close> accepts it for the two roots of the log.
\<close>

theorem consistency_proof_complete:
  assumes "hex_digest sha" "list_all plain_hash D" "1 \<le> m" "m \<le> n" "n \<le> length D" "m < 2 ^ 32" "n \<le> 2 ^ 53"
  shows "\<exists>P r r'. buildConsistencyProof sha m n D = Some P \<and> merkleRoot sha (take m D) = Some r
    \<and> merkleRoot sha (take n D) = Some r'
    \<and> verifyCheckpointConsistency sha r (Integral (int m)) r' (Integral (int n)) P"
proof -
  have ne: "take m D \<noteq> []" "take n D \<noteq> []" using assms by auto
  have "\<exists>P. buildConsistencyProof sha m n D = Some P
    \<and> verifyCheckpointConsistency sha (mth sha (take m D)) (Integral (int m)) (mth sha (take n D)) (Integral (int n)) P"
  proof (cases "m = n")
    case True
    have "plain_hash (mth sha (take n D))" using mth_plain[OF assms(1) _ ne(2)] plain_take_drop[OF assms(2)] by blast
    with True assms show ?thesis by (simp add: buildConsistencyProof_def hexOf_plain plain_nonempty)
  next
    case False
    with assms consistency_proof_complete_path[of sha D m n] show ?thesis by (auto simp: buildConsistencyProof_def)
  qed
  with ne show ?thesis by (auto simp: merkleRoot_def)
qed

definition sample_digest :: "string \<Rightarrow> string" where
  "sample_digest x = replicate 64 (if x \<noteq> [] \<and> is_lhex (last x) then last x else CHR ''0'')"

definition sample_leaf :: "char \<Rightarrow> string" where
  "sample_leaf c = replicate 64 c"

lemma sample_digest_plain: "hex_digest sample_digest"
  by (auto simp: hex_digest_def plain_hash_def sample_digest_def list_all_iff char_class_defs)

lemma sample_leaf_plain: "is_lhex c \<Longrightarrow> plain_hash (sample_leaf c)"
  by (simp add: plain_hash_def sample_leaf_def list_all_iff)

theorem consistency_proof_complete_witness:
  "\<exists>P r r'. buildConsistencyProof sample_digest 2 3 (map sample_leaf ''abc'') = Some P
    \<and> merkleRoot sample_digest (take 2 (map sample_leaf ''abc'')) = Some r
    \<and> merkleRoot sample_digest (take 3 (map sample_leaf ''abc'')) = Some r'
    \<and> verifyCheckpointConsistency sample_digest r (Integral 2) r' (Integral 3) P"
  using consistency_proof_complete[of sample_digest "map sample_leaf ''abc''" 2 3] sample_digest_plain
  by (simp add: sample_leaf_plain char_class_defs)

text \<open>
  Property C9. The verifier is sound: if it accepts any proof between the root of one log and the
  root of another, and SHA-256 has no collision among the texts that the two roots and the
  verification itself hash, then the smaller log is a prefix of the larger one. The nodes of the
  accepted proof are arbitrary texts.
\<close>

theorem consistency_proof_sound:
  assumes "hex_digest sha" "list_all plain_hash D" "list_all plain_hash E" "1 \<le> length E" "length E < 2 ^ 32"
    and "merkleRoot sha E = Some r" "merkleRoot sha D = Some r'"
    and "verifyCheckpointConsistency sha r (Integral (int (length E))) r' (Integral (int (length D))) P"
    and "inj_on sha (set (mth_inputs sha D) \<union> set (mth_inputs sha E) \<union> set (verify_inputs sha r (length E) (length D) P))"
  shows "E = take (length E) D"
proof (cases "length E = length D")
  case True
  have ne: "E \<noteq> []" "D \<noteq> []" and r: "r = mth sha E" "r' = mth sha D" using assms(4,6,7) True by (auto simp: merkleRoot_def split: if_splits)
  have "hexOf r = hexOf r'" using assms(8) True by (auto simp: Let_def split: if_splits)
  then have "mth sha E = mth sha D" using hexOf_plain mth_plain[OF assms(1)] assms(2,3) ne r by auto
  then have "E = D" using mth_inj[OF assms(1,9) True ne(1) assms(3,2)] by auto
  then show ?thesis by simp
next
  case False
  let ?m = "length E" and ?n = "length D" and ?path = "map hexOf P"
  have lt: "?m < ?n" using assms(8) False by (auto simp: Let_def split: if_splits)
  have ne: "E \<noteq> []" "D \<noteq> []" and r: "r = mth sha E" "r' = mth sha D"
    using assms(4,6,7) lt by (auto simp: merkleRoot_def split: if_splits)
  have hex: "hexOf r = r" "hexOf r' = r'" using hexOf_plain mth_plain[OF assms(1)] assms(2,3) ne r by auto
  have "verify_path sha r ?m r' ?n ?path" using assms(8) False lt hex by (auto simp: Let_def split: if_splits)
  then have run: "let (seed, nodes) = (if \<exists>a. ?m = 2 ^ a then (r, ?path) else (hd ?path, tl ?path))
    in \<exists>f. run sha ?m ?n seed nodes = Some (f, 0, r, r')"
    by (subst (asm) verify_path_run) (use assms(4,5) in auto)
  have small: "power32 ?m \<longleftrightarrow> (\<exists>a. ?m = 2 ^ a)"
    using assms(5) by (rule power32_iff)
  obtain seed nodes f where acc: "run sha ?m ?n seed nodes = Some (f, 0, mth sha E, mth sha D)"
    and ins: "verify_inputs sha r ?m ?n P = run_inputs sha ?m ?n seed nodes"
    using run unfolding small verify_inputs_def Let_def r by (auto split: if_splits)
  have sizes: "proof_sizes ?m ?n" using assms(4) lt by (simp add: proof_sizes_def)
  show ?thesis
    by (rule accepted_run_prefix[OF assms(1,9) sizes assms(2,3) refl _ _ acc]) (auto simp: ins)
qed

lemma sample_hash: "c \<in> set ''abcdef'' \<Longrightarrow> hashChildrenV2 sample_digest x (sample_leaf c) = sample_leaf c"
  by (auto simp: hashChildrenV2_def sample_digest_def sample_leaf_def char_class_defs)

lemma sample_root:
  "mth sample_digest [sample_leaf CHR ''a''] = sample_leaf CHR ''a''"
  "mth sample_digest [sample_leaf CHR ''b''] = sample_leaf CHR ''b''"
  "mth sample_digest [sample_leaf CHR ''c''] = sample_leaf CHR ''c''"
  "mth sample_digest [sample_leaf CHR ''a'', sample_leaf CHR ''b''] = sample_leaf CHR ''b''"
  "mth sample_digest [sample_leaf CHR ''a'', sample_leaf CHR ''b'', sample_leaf CHR ''c''] = sample_leaf CHR ''c''"
proof -
  have leaf: "plain_hash (sample_leaf c)" if "c \<in> set ''abcdef''" for c
    using that by (auto intro!: sample_leaf_plain simp: char_class_defs)
  show single: "mth sample_digest [sample_leaf CHR ''a''] = sample_leaf CHR ''a''"
    "mth sample_digest [sample_leaf CHR ''b''] = sample_leaf CHR ''b''"
    "mth sample_digest [sample_leaf CHR ''c''] = sample_leaf CHR ''c''"
    by (simp_all add: mth_single leaf)
  show two: "mth sample_digest [sample_leaf CHR ''a'', sample_leaf CHR ''b''] = sample_leaf CHR ''b''"
    using mth_split[of "[sample_leaf CHR ''a'', sample_leaf CHR ''b'']" 0 sample_digest] single
    by (simp add: leaf sample_hash)
  show "mth sample_digest [sample_leaf CHR ''a'', sample_leaf CHR ''b'', sample_leaf CHR ''c''] = sample_leaf CHR ''c''"
    using mth_split[of "[sample_leaf CHR ''a'', sample_leaf CHR ''b'', sample_leaf CHR ''c'']" 1 sample_digest] single two
    by (simp add: leaf sample_hash)
qed

theorem consistency_proof_sound_witness:
  "map sample_leaf ''ab'' = take (length (map sample_leaf ''ab'')) (map sample_leaf ''abc'')"
proof (rule consistency_proof_sound[where sha = sample_digest and P = "[sample_leaf CHR ''c'']"
      and r = "sample_leaf CHR ''b''" and r' = "sample_leaf CHR ''c''"])
  show "hex_digest sample_digest" by (rule sample_digest_plain)
  have leaf: "plain_hash (sample_leaf c)" if "c \<in> set ''abcdef''" for c
    using that by (auto intro!: sample_leaf_plain simp: char_class_defs)
  then show "list_all plain_hash (map sample_leaf ''abc'')" "list_all plain_hash (map sample_leaf ''ab'')" by simp_all
  have start: "start 2 3 = (0, 1)" by (simp add: start_def shift_common.simps)
  have "power32 2" unfolding power32_def set_map by (intro image_eqI[of _ _ 1]) auto
  then have ver: "verify_inputs sample_digest (sample_leaf CHR ''b'') (length (map sample_leaf ''ab'')) (length (map sample_leaf ''abc'')) [sample_leaf CHR ''c'']
      = [CHR 0x01 # sample_leaf CHR ''b'' @ sample_leaf CHR ''c'']"
    by (simp add: verify_inputs_def run_inputs_def start hexOf_plain leaf numeral_2_eq_2[symmetric] numeral_3_eq_3[symmetric])
  have d: "mth_inputs sample_digest (map sample_leaf ''ab'') = [CHR 0x01 # sample_leaf CHR ''a'' @ sample_leaf CHR ''b'']"
    "mth_inputs sample_digest (map sample_leaf ''abc'') = [CHR 0x01 # sample_leaf CHR ''b'' @ sample_leaf CHR ''c'', CHR 0x01 # sample_leaf CHR ''a'' @ sample_leaf CHR ''b'']"
    using mth_inputs_split[of 0 "map sample_leaf ''ab''" sample_digest] mth_inputs_split[of 1 "map sample_leaf ''abc''" sample_digest]
      mth_inputs_split[of 0 "map sample_leaf ''ab''" sample_digest]
    by (simp_all add: sample_root mth_inputs.simps[of sample_digest "[x]" for x])
  have "sample_digest (CHR 0x01 # sample_leaf CHR ''b'' @ sample_leaf CHR ''c'') \<noteq> sample_digest (CHR 0x01 # sample_leaf CHR ''a'' @ sample_leaf CHR ''b'')"
    by (simp add: sample_digest_def sample_leaf_def char_class_defs)
  then show "inj_on sample_digest (set (mth_inputs sample_digest (map sample_leaf ''abc''))
      \<union> set (mth_inputs sample_digest (map sample_leaf ''ab''))
      \<union> set (verify_inputs sample_digest (sample_leaf CHR ''b'') (length (map sample_leaf ''ab'')) (length (map sample_leaf ''abc'')) [sample_leaf CHR ''c'']))"
    unfolding ver d by (auto simp: inj_on_def)
  show "merkleRoot sample_digest (map sample_leaf ''ab'') = Some (sample_leaf CHR ''b'')"
    "merkleRoot sample_digest (map sample_leaf ''abc'') = Some (sample_leaf CHR ''c'')"
    by (simp_all add: merkleRoot_def sample_root)
  have ne: "sample_leaf c \<noteq> []" for c by (simp add: sample_leaf_def)
  have "isPowerOfTwo 2" by (simp add: isPowerOfTwo_def)
  then have "verify_path sample_digest (sample_leaf CHR ''b'') 2 (sample_leaf CHR ''c'') 3 [sample_leaf CHR ''c'']"
    using start by (simp add: verify_path_def start_def sample_hash)
  then show "verifyCheckpointConsistency sample_digest (sample_leaf CHR ''b'') (Integral (int (length (map sample_leaf ''ab''))))
    (sample_leaf CHR ''c'') (Integral (int (length (map sample_leaf ''abc'')))) [sample_leaf CHR ''c'']"
    by (simp add: hexOf_plain leaf ne Let_def)
qed simp_all

text \<open>
  Property C40. The 32-bit test of the code is exact below 2^32, and only there: the number
  2^32 + 1 passes for a power of two.
\<close>

theorem isPowerOfTwo_exact:
  "{n. isPowerOfTwo (int n) \<and> n < 2 ^ 32} = {n. power32 n} \<and> isPowerOfTwo (2 ^ 32 + 1)
    \<and> (\<nexists>a. 2 ^ 32 + 1 = (2 :: nat) ^ a)"
proof (intro conjI)
  have less: "power32 n \<Longrightarrow> n < 2 ^ 32" for n
    unfolding power32_def set_map by (auto intro: power_strict_increasing simp del: power_numeral)
  have "isPowerOfTwo (int n) \<and> n < 2 ^ 32 \<longleftrightarrow> power32 n" for n
  proof (cases "n < 2 ^ 32 \<and> n \<noteq> 0")
    case True
    then show ?thesis using isPowerOfTwo_small[of n] power32_iff[of n] by simp
  next
    case False
    then have "\<not> power32 n" using less power32_iff[of 0] by auto
    with False show ?thesis by (auto simp: isPowerOfTwo_def)
  qed
  then show "{n. isPowerOfTwo (int n) \<and> n < 2 ^ 32} = {n. power32 n}" by blast
next
  show "isPowerOfTwo (2 ^ 32 + 1)" by (simp add: isPowerOfTwo_def)
  show "\<nexists>a. 2 ^ 32 + 1 = (2 :: nat) ^ a"
  proof
    assume "\<exists>a. 2 ^ 32 + 1 = (2 :: nat) ^ a"
    then obtain a where a: "(2 :: nat) ^ a = 2 ^ 32 + 1" by metis
    then have "\<not> even ((2 :: nat) ^ a)" by simp
    then have "a = 0" by simp
    with a show False by simp
  qed
qed

end
