(* ===== verification/Aec_Expression.thy ===== *)
theory Aec_Expression
  imports Js_Text
begin

section \<open>Requirement expressions of the authorization evidence chain\<close>

text \<open>
  Model of the expression language of \<open>packages/verify/src/evidence-chain.ts\<close>: the lexer with its
  length and token caps, the recursive-descent parser with its depth cap, the canonical rendering,
  the parse identity and the evaluation. An argument that is not a string is \<open>None\<close>. The array of
  tokens and the index into it are the list of the tokens that are left. SHA-256 is a parameter.
\<close>

datatype aec_operator = Op_AND | Op_OR
datatype aec_node = Identifier js_string | Operator aec_operator aec_node aec_node
datatype aec_token = T_identifier js_string | T_operator aec_operator js_string | T_open | T_close
datatype invalid_class = Syntax | Limit

type_synonym aec_refusal = "invalid_class \<times> string"

definition MAX_REQUIREMENT_LENGTH :: nat where "MAX_REQUIREMENT_LENGTH = 4096"
definition MAX_REQUIREMENT_TOKENS :: nat where "MAX_REQUIREMENT_TOKENS = 256"
definition MAX_REQUIREMENT_DEPTH :: nat where "MAX_REQUIREMENT_DEPTH = 32"

text \<open>\<open>/[A-Za-z0-9_.:-]/\<close>\<close>

definition IDENT_CHAR :: "16 word \<Rightarrow> bool" where
  "IDENT_CHAR u \<longleftrightarrow> (0x41 \<le> u \<and> u \<le> 0x5A) \<or> (0x61 \<le> u \<and> u \<le> 0x7A) \<or> (0x30 \<le> u \<and> u \<le> 0x39)
     \<or> u \<in> set (jstr ''_.:-'')"

definition expression_space :: "16 word \<Rightarrow> bool" where
  "expression_space u \<longleftrightarrow> u = 0x20 \<or> u = 0x09 \<or> u = 0x0D \<or> u = 0x0A"

fun utf8Octets :: "js_string \<Rightarrow> nat" where
  "utf8Octets [] = 0"
| "utf8Octets (u # us) =
     (if u < 0x80 then 1 + utf8Octets us
      else if u < 0x800 then 2 + utf8Octets us
      else (case us of
          [] \<Rightarrow> 3
        | n # ns \<Rightarrow> if 0xD800 \<le> u \<and> u \<le> 0xDBFF \<and> 0xDC00 \<le> n \<and> n \<le> 0xDFFF then 4 + utf8Octets ns
            else 3 + utf8Octets us))"

definition hasExpressionContent :: "js_string option \<Rightarrow> bool" where
  "hasExpressionContent value = (case value of None \<Rightarrow> False | Some s \<Rightarrow> list_ex (\<lambda>u. \<not> expression_space u) s)"

subsection \<open>The lexer\<close>

definition classify_run :: "js_string \<Rightarrow> aec_token" where
  "classify_run run = (if run = jstr ''AND'' then T_operator Op_AND run
     else if run = jstr ''OR'' then T_operator Op_OR run else T_identifier run)"

definition token_limit :: "aec_token list \<Rightarrow> bool" where
  "token_limit tokens \<longleftrightarrow> length tokens > MAX_REQUIREMENT_TOKENS"

function lex_loop :: "js_string \<Rightarrow> aec_token list \<Rightarrow> aec_refusal + aec_token list" where
  "lex_loop [] tokens = (if length tokens > 0 then Inr tokens else Inl (Syntax, ''empty''))"
| "lex_loop (ch # rest) tokens =
     (if expression_space ch then lex_loop rest tokens
      else if ch = u16 CHR ''('' \<or> ch = u16 CHR '')'' then
        (let tokens' = tokens @ [if ch = u16 CHR ''('' then T_open else T_close] in
         if token_limit tokens' then Inl (Limit, ''token_limit'') else lex_loop rest tokens')
      else if (ch = u16 CHR ''&'' \<or> ch = u16 CHR ''|'') \<and> rest \<noteq> [] \<and> hd rest = ch then
        (let tokens' = tokens @ [T_operator (if ch = u16 CHR ''&'' then Op_AND else Op_OR) [ch, ch]] in
         if token_limit tokens' then Inl (Limit, ''token_limit'') else lex_loop (tl rest) tokens')
      else if IDENT_CHAR ch then
        (let tokens' = tokens @ [classify_run (ch # takeWhile IDENT_CHAR rest)] in
         if token_limit tokens' then Inl (Limit, ''token_limit'') else lex_loop (dropWhile IDENT_CHAR rest) tokens')
      else Inl (Syntax, ''invalid_character''))"
  by pat_completeness auto
termination
  by (relation "measure (\<lambda>(s, tokens). length s)") (auto simp: less_Suc_eq_le length_dropWhile_le)

declare lex_loop.simps(2) [simp del]

definition lexAecExpression :: "js_string option \<Rightarrow> aec_refusal + aec_token list" where
  "lexAecExpression expression = (case expression of
       None \<Rightarrow> Inl (Syntax, ''not_a_string'')
     | Some s \<Rightarrow> if utf8Octets s > MAX_REQUIREMENT_LENGTH then Inl (Limit, ''length_limit'') else lex_loop s [])"

subsection \<open>The parser\<close>

text \<open>\<open>parseRest\<close> is the loop of \<open>parseExpr\<close> over the operators that follow a term.\<close>

function (sequential) parseExpr :: "nat \<Rightarrow> aec_token list \<Rightarrow> aec_refusal + aec_node \<times> aec_token list"
  and parseRest :: "nat \<Rightarrow> aec_node \<Rightarrow> aec_token list \<Rightarrow> aec_refusal + aec_node \<times> aec_token list"
  and parseTerm :: "nat \<Rightarrow> aec_token list \<Rightarrow> aec_refusal + aec_node \<times> aec_token list" where
  "parseExpr depth ts =
     (if depth > MAX_REQUIREMENT_DEPTH then Inl (Limit, ''depth_limit'')
      else (case parseTerm depth ts of Inl e \<Rightarrow> Inl e | Inr (node, r) \<Rightarrow> parseRest depth node r))"
| "parseRest depth node (T_operator op txt # r) =
     (case parseTerm depth r of Inl e \<Rightarrow> Inl e | Inr (right, r') \<Rightarrow> parseRest depth (Operator op node right) r')"
| "parseRest depth node ts = Inr (node, ts)"
| "parseTerm depth [] = Inl (Syntax, ''unexpected_end'')"
| "parseTerm depth (T_open # r) =
     (case parseExpr (depth + 1) r of
        Inl e \<Rightarrow> Inl e
      | Inr (inner, []) \<Rightarrow> Inl (Syntax, ''unclosed_group'')
      | Inr (inner, T_close # r') \<Rightarrow> Inr (inner, r')
      | Inr (inner, t # r') \<Rightarrow> Inl (Syntax, ''unexpected_token''))"
| "parseTerm depth (T_identifier txt # r) = Inr (Identifier txt, r)"
| "parseTerm depth (t # r) = Inl (Syntax, ''unexpected_token'')"
  by pat_completeness auto

text \<open>Every successful call consumes tokens, which is why the descent ends.\<close>

lemma parse_consumes:
  "parseExpr_parseRest_parseTerm_dom (Inl (depth, ts)) \<Longrightarrow> (\<forall>n r. parseExpr depth ts = Inr (n, r) \<longrightarrow> length r < length ts)"
  "parseExpr_parseRest_parseTerm_dom (Inr (Inl (depth, node, ts))) \<Longrightarrow> (\<forall>n r. parseRest depth node ts = Inr (n, r) \<longrightarrow> length r \<le> length ts)"
  "parseExpr_parseRest_parseTerm_dom (Inr (Inr (depth, ts))) \<Longrightarrow> (\<forall>n r. parseTerm depth ts = Inr (n, r) \<longrightarrow> length r < length ts)"
  by (induction depth ts and depth node ts and depth ts rule: parseExpr_parseRest_parseTerm.pinduct)
    (fastforce simp: parseExpr.psimps parseRest.psimps parseTerm.psimps split: if_splits sum.splits list.splits aec_token.splits)+

termination parseExpr
proof (relation "measure (\<lambda>x. case x of Inl (d, ts) \<Rightarrow> 2 * length ts + 1
    | Inr (Inl (d, n, ts)) \<Rightarrow> 2 * length ts | Inr (Inr (d, ts)) \<Rightarrow> 2 * length ts)", goal_cases)
qed (auto dest: parse_consumes)

declare parseExpr.simps [simp del]

record parsed_expression =
  tree :: aec_node
  token_count :: nat

definition parseAecExpression :: "js_string option \<Rightarrow> aec_refusal + parsed_expression" where
  "parseAecExpression expression = (case lexAecExpression expression of
       Inl e \<Rightarrow> Inl e
     | Inr tokens \<Rightarrow> (case parseExpr 0 tokens of
         Inl e \<Rightarrow> Inl e
       | Inr (t, r) \<Rightarrow> if r \<noteq> [] then Inl (Syntax, ''trailing_input'')
           else Inr \<lparr>tree = t, token_count = length tokens\<rparr>))"

subsection \<open>Rendering and evaluation\<close>

fun operator_text :: "aec_operator \<Rightarrow> js_string" where
  "operator_text Op_AND = jstr ''AND''"
| "operator_text Op_OR = jstr ''OR''"

fun renderAecExpression :: "aec_node \<Rightarrow> js_string" where
  "renderAecExpression (Identifier name) = name"
| "renderAecExpression (Operator op left right) =
     jstr ''('' @ renderAecExpression left @ jstr '' '' @ operator_text op @ jstr '' '' @ renderAecExpression right @ jstr '')''"

definition AEC_EXPRESSION_PARSE_DOMAIN :: string where
  "AEC_EXPRESSION_PARSE_DOMAIN = ''EP-AEC-EXPRESSION-PARSE-v1''"

definition aecParseIdentity :: "(js_string \<Rightarrow> string) \<Rightarrow> js_string \<Rightarrow> string" where
  "aecParseIdentity sha canon = ''sha256:'' @ sha (jstr AEC_EXPRESSION_PARSE_DOMAIN @ 0 # canon)"

fun evaluateAecExpressionTree :: "aec_node \<Rightarrow> js_string set \<Rightarrow> bool" where
  "evaluateAecExpressionTree (Identifier name) eligible = (name \<in> eligible)"
| "evaluateAecExpressionTree (Operator op left right) eligible =
     (let l = evaluateAecExpressionTree left eligible; r = evaluateAecExpressionTree right eligible
      in if op = Op_AND then l \<and> r else l \<or> r)"

record aec_evaluation =
  syntax_valid :: bool
  ev_invalid_class :: "invalid_class option"
  ev_value :: "bool option"
  satisfied :: bool
  ev_canonical_parse :: "js_string option"
  ev_parse_identity :: "string option"

text \<open>The compiled expression; its \<open>evaluate\<close> closure is \<open>compiled_evaluate\<close>.\<close>

record aec_compiled =
  compiled_tree :: "aec_node option"
  c_invalid_class :: "invalid_class option"
  detail :: "string option"
  c_token_count :: "nat option"
  c_canonical_parse :: "js_string option"
  c_parse_identity :: "string option"

definition compileAecRequirementExpression :: "(js_string \<Rightarrow> string) \<Rightarrow> js_string option \<Rightarrow> aec_compiled" where
  "compileAecRequirementExpression sha expression = (case parseAecExpression expression of
       Inl (cl, det) \<Rightarrow> \<lparr>compiled_tree = None, c_invalid_class = Some cl, detail = Some det, c_token_count = None,
         c_canonical_parse = None, c_parse_identity = None\<rparr>
     | Inr p \<Rightarrow> (let canon = renderAecExpression (tree p) in
         \<lparr>compiled_tree = Some (tree p), c_invalid_class = None, detail = None, c_token_count = Some (token_count p),
          c_canonical_parse = Some canon, c_parse_identity = Some (aecParseIdentity sha canon)\<rparr>))"

definition compiled_evaluate :: "aec_compiled \<Rightarrow> js_string list \<Rightarrow> aec_evaluation" where
  "compiled_evaluate c eligibleTypes = (case compiled_tree c of
       None \<Rightarrow> \<lparr>syntax_valid = False, ev_invalid_class = c_invalid_class c, ev_value = None, satisfied = False,
         ev_canonical_parse = None, ev_parse_identity = None\<rparr>
     | Some t \<Rightarrow> (let value = evaluateAecExpressionTree t (set eligibleTypes) in
         \<lparr>syntax_valid = True, ev_invalid_class = None, ev_value = Some value, satisfied = value,
          ev_canonical_parse = c_canonical_parse c, ev_parse_identity = c_parse_identity c\<rparr>))"

definition evaluateAecRequirementExpression :: "(js_string \<Rightarrow> string) \<Rightarrow> js_string option \<Rightarrow> js_string list \<Rightarrow> aec_evaluation" where
  "evaluateAecRequirementExpression sha expression eligibleTypes =
     compiled_evaluate (compileAecRequirementExpression sha expression) eligibleTypes"

fun token_text :: "aec_token \<Rightarrow> js_string" where
  "token_text (T_identifier txt) = txt"
| "token_text (T_operator op txt) = txt"
| "token_text T_open = jstr ''(''"
| "token_text T_close = jstr '')''"

definition tokenizeRequirement :: "js_string option \<Rightarrow> js_string list option" where
  "tokenizeRequirement expr = (case lexAecExpression expr of Inl e \<Rightarrow> None | Inr ts \<Rightarrow> Some (map token_text ts))"

definition evalRequirement :: "(js_string \<Rightarrow> string) \<Rightarrow> js_string option \<Rightarrow> js_string list \<Rightarrow> bool \<times> bool" where
  "evalRequirement sha expr sat = (let e = evaluateAecRequirementExpression sha expr sat
     in (syntax_valid e, ev_value e = Some True))"

subsection \<open>The grammar\<close>

text \<open>
  The declared grammar, with operators of equal precedence grouped to the left and the nesting
  depth of parentheses as an index.
\<close>

inductive expr_g :: "nat \<Rightarrow> aec_token list \<Rightarrow> aec_node \<Rightarrow> bool"
  and term_g :: "nat \<Rightarrow> aec_token list \<Rightarrow> aec_node \<Rightarrow> bool" where
  ident: "term_g d [T_identifier x] (Identifier x)"
| group: "expr_g (d + 1) ts n \<Longrightarrow> d + 1 \<le> MAX_REQUIREMENT_DEPTH \<Longrightarrow> term_g d (T_open # ts @ [T_close]) n"
| single: "term_g d ts n \<Longrightarrow> expr_g d ts n"
| chain: "expr_g d ts n \<Longrightarrow> term_g d us m \<Longrightarrow> expr_g d (ts @ T_operator op x # us) (Operator op n m)"

text \<open>What follows an expression or a group: anything but an operator.\<close>

definition stops :: "aec_token list \<Rightarrow> bool" where
  "stops r \<longleftrightarrow> (\<forall>op x r'. r \<noteq> T_operator op x # r')"

lemma parseRest_stops: "stops r \<Longrightarrow> parseRest d n r = Inr (n, r)"
  by (cases "(d, n, r)" rule: parseRest.cases) (auto simp: stops_def)

lemma parse_complete:
  "expr_g d ts n \<Longrightarrow> \<forall>r. (case parseTerm d (ts @ r) of Inl e \<Rightarrow> False | Inr (m, r') \<Rightarrow> parseRest d m r' = parseRest d n r)"
  "term_g d ts n \<Longrightarrow> \<forall>r. parseTerm d (ts @ r) = Inr (n, r)"
proof (induction rule: expr_g_term_g.inducts)
  case (group d ts n)
  have "parseExpr (d + 1) (ts @ T_close # r) = Inr (n, T_close # r)" for r
    using group.IH[rule_format, of "T_close # r"] group.hyps(2) parseRest_stops[of "T_close # r" "d + 1" n]
    by (auto simp: parseExpr.simps stops_def split: sum.splits)
  then show ?case by simp
next
  case (chain d ts n us m op x)
  show ?case
  proof
    fix r
    show "case parseTerm d ((ts @ T_operator op x # us) @ r) of Inl e \<Rightarrow> False
      | Inr (m', r') \<Rightarrow> parseRest d m' r' = parseRest d (Operator op n m) r"
      using chain.IH(1)[rule_format, of "T_operator op x # us @ r"] chain.IH(2)[rule_format, of r]
      by (auto split: sum.splits)
  qed
qed auto

lemma parse_sound:
  "parseExpr d ts = Inr (n, r) \<Longrightarrow> \<exists>us. ts = us @ r \<and> expr_g d us n \<and> stops r"
  "parseRest d m ts = Inr (n, r) \<Longrightarrow> stops r \<and> (\<exists>us. ts = us @ r \<and> (\<forall>vs. expr_g d vs m \<longrightarrow> expr_g d (vs @ us) n))"
  "parseTerm d ts = Inr (n, r) \<Longrightarrow> \<exists>us. ts = us @ r \<and> term_g d us n"
proof (induction d ts and d m ts and d ts arbitrary: n r and n r and n r rule: parseExpr_parseRest_parseTerm.induct)
  case (1 depth ts)
  then show ?case
    by (auto simp: parseExpr.simps[of depth ts] split: if_splits sum.splits dest: single)
      (metis append.assoc single)
next
  case (2 dep node op tx r')
  from "2.prems" obtain right r1 where t: "parseTerm dep r' = Inr (right, r1)"
    and rest: "parseRest dep (Operator op node right) r1 = Inr (n, r)"
    by (auto split: sum.splits)
  obtain us where us: "r' = us @ r1" "term_g dep us right" using "2.IH"(1)[OF t] by blast
  obtain ws where ws: "stops r" "r1 = ws @ r" "\<forall>vs. expr_g dep vs (Operator op node right) \<longrightarrow> expr_g dep (vs @ ws) n"
    using "2.IH"(2)[OF t refl rest] by blast
  have "expr_g dep (vs @ (T_operator op tx # us) @ ws) n" if "expr_g dep vs node" for vs
    using ws(3) chain[OF that us(2), of op tx] by (metis append.assoc append_Cons)
  with us(1) ws(1,2) show ?case by (metis append.assoc append_Cons)
next
  case (5 dep r')
  then obtain r1 where e: "parseExpr (dep + 1) r' = Inr (n, T_close # r)"
    by (auto split: sum.splits list.splits aec_token.splits)
  obtain us where us: "r' = us @ T_close # r" "expr_g (dep + 1) us n" using "5.IH"[OF e] by blast
  have "dep + 1 \<le> MAX_REQUIREMENT_DEPTH" using e by (auto simp: parseExpr.simps split: if_splits)
  from group[OF us(2) this] us(1) show ?case by (intro exI[of _ "T_open # us @ [T_close]"]) simp
qed (auto simp: stops_def intro: ident)

lemma parseExpr_iff: "parseExpr 0 ts = Inr (n, []) \<longleftrightarrow> expr_g 0 ts n"
proof
  assume "parseExpr 0 ts = Inr (n, [])"
  then show "expr_g 0 ts n" using parse_sound(1) by fastforce
next
  assume "expr_g 0 ts n"
  then show "parseExpr 0 ts = Inr (n, [])"
    using parse_complete(1)[of 0 ts n] parseRest_stops[of "[]" 0 n]
    by (auto simp: parseExpr.simps stops_def split: sum.splits dest!: spec[of _ "[]"])
qed

text \<open>The tokens of a text: blanks separate, runs of identifier characters are maximal.\<close>

definition ends_run :: "js_string \<Rightarrow> bool" where
  "ends_run s \<longleftrightarrow> (s = [] \<or> \<not> IDENT_CHAR (hd s))"

inductive lex_g :: "js_string \<Rightarrow> aec_token list \<Rightarrow> bool" where
  lex_nil: "lex_g [] []"
| lex_space: "lex_g s ts \<Longrightarrow> expression_space u \<Longrightarrow> lex_g (u # s) ts"
| lex_open: "lex_g s ts \<Longrightarrow> lex_g (u16 CHR ''('' # s) (T_open # ts)"
| lex_close: "lex_g s ts \<Longrightarrow> lex_g (u16 CHR '')'' # s) (T_close # ts)"
| lex_and: "lex_g s ts \<Longrightarrow> lex_g (jstr ''&&'' @ s) (T_operator Op_AND (jstr ''&&'') # ts)"
| lex_or: "lex_g s ts \<Longrightarrow> lex_g (jstr ''||'' @ s) (T_operator Op_OR (jstr ''||'') # ts)"
| lex_run: "lex_g s ts \<Longrightarrow> run \<noteq> [] \<Longrightarrow> list_all IDENT_CHAR run \<Longrightarrow> ends_run s
    \<Longrightarrow> lex_g (run @ s) (classify_run run # ts)"

lemma punctuation [simp]:
  "\<not> expression_space (u16 CHR ''('')" "\<not> expression_space (u16 CHR '')'')"
  "\<not> expression_space (u16 CHR ''&'')" "\<not> expression_space (u16 CHR ''|'')"
  "\<not> IDENT_CHAR (u16 CHR ''('')" "\<not> IDENT_CHAR (u16 CHR '')'')" "\<not> IDENT_CHAR (u16 CHR '' '')"
  "expression_space (u16 CHR '' '')"
  by (simp_all add: expression_space_def IDENT_CHAR_def u16_def)

lemma ident_not_punctuation:
  "IDENT_CHAR u \<Longrightarrow> \<not> expression_space u \<and> u \<notin> {u16 CHR ''('', u16 CHR '')'', u16 CHR ''&'', u16 CHR ''|''}"
  by (auto simp: expression_space_def IDENT_CHAR_def u16_def)

lemma lex_loop_run:
  assumes "run \<noteq> []" "list_all IDENT_CHAR run" "ends_run s"
  shows "lex_loop (run @ s) acc = (let acc' = acc @ [classify_run run] in
     if token_limit acc' then Inl (Limit, ''token_limit'') else lex_loop s acc')"
proof -
  obtain c cs where run: "run = c # cs" using assms(1) by (cases run) auto
  have s: "takeWhile IDENT_CHAR s = []" "dropWhile IDENT_CHAR s = s"
    using assms(3) by (cases s; auto simp: ends_run_def)+
  have "takeWhile IDENT_CHAR (cs @ s) = cs" "dropWhile IDENT_CHAR (cs @ s) = s"
    using assms(2) run s by (auto simp: list_all_iff takeWhile_append2 dropWhile_append2)
  moreover have "IDENT_CHAR c" using assms(2) run by simp
  ultimately show ?thesis using ident_not_punctuation[of c] by (simp add: run lex_loop.simps Let_def)
qed

lemma ends_run_dropWhile: "ends_run (dropWhile IDENT_CHAR s)"
  using hd_dropWhile[of IDENT_CHAR s] by (auto simp: ends_run_def)

lemma lex_sound:
  "lex_loop s acc = Inr ts \<Longrightarrow> length acc \<le> MAX_REQUIREMENT_TOKENS \<Longrightarrow>
    \<exists>us. lex_g s us \<and> ts = acc @ us \<and> 0 < length ts \<and> length ts \<le> MAX_REQUIREMENT_TOKENS"
proof (induction s acc rule: lex_loop.induct)
  case (1 tokens)
  then show ?case by (auto split: if_splits intro: lex_nil)
next
  case (2 ch rest tokens)
  consider (space) "expression_space ch" | (paren) "\<not> expression_space ch" "ch = u16 CHR ''('' \<or> ch = u16 CHR '')''"
    | (op) "\<not> expression_space ch" "\<not> (ch = u16 CHR ''('' \<or> ch = u16 CHR '')'')"
        "(ch = u16 CHR ''&'' \<or> ch = u16 CHR ''|'') \<and> rest \<noteq> [] \<and> hd rest = ch"
    | (run) "\<not> expression_space ch" "\<not> (ch = u16 CHR ''('' \<or> ch = u16 CHR '')'')"
        "\<not> ((ch = u16 CHR ''&'' \<or> ch = u16 CHR ''|'') \<and> rest \<noteq> [] \<and> hd rest = ch)" "IDENT_CHAR ch"
    using "2.prems"(1) by (auto simp: lex_loop.simps(2) split: if_splits)
  then show ?case
  proof cases
    case space
    then show ?thesis using "2.IH"(1)[OF space] "2.prems" lex_space by (auto simp: lex_loop.simps(2))
  next
    case paren
    then show ?thesis using "2.IH"(2)[OF paren refl] "2.prems" lex_open lex_close
      by (fastforce simp: lex_loop.simps(2) Let_def token_limit_def split: if_splits)
  next
    case op
    then obtain rest' where r: "rest = ch # rest'" by (cases rest) auto
    show ?thesis using "2.IH"(3)[OF op refl] op r "2.prems" lex_and[of rest'] lex_or[of rest']
      by (fastforce simp: lex_loop.simps(2) Let_def token_limit_def split: if_splits)
  next
    case run
    let ?run = "ch # takeWhile IDENT_CHAR rest" and ?s = "dropWhile IDENT_CHAR rest"
    have all: "list_all IDENT_CHAR ?run" using run by (auto simp: list_all_iff dest: set_takeWhileD)
    have split: "?run @ ?s = ch # rest" by simp
    have "lex_loop ?s (tokens @ [classify_run ?run]) = Inr ts" "\<not> token_limit (tokens @ [classify_run ?run])"
      using run "2.prems" by (auto simp: lex_loop.simps(2) Let_def split: if_splits)
    with "2.IH"(4)[OF run refl] have "\<exists>us. lex_g ?s us \<and> ts = (tokens @ [classify_run ?run]) @ us
        \<and> 0 < length ts \<and> length ts \<le> MAX_REQUIREMENT_TOKENS"
      by (simp add: token_limit_def)
    then obtain us where us: "lex_g ?s us" "ts = (tokens @ [classify_run ?run]) @ us" "0 < length ts" "length ts \<le> MAX_REQUIREMENT_TOKENS"
      by blast
    from lex_run[OF us(1) _ all ends_run_dropWhile] split have "lex_g (ch # rest) (classify_run ?run # us)" by simp
    with us show ?thesis by (intro exI[of _ "classify_run ?run # us"]) simp
  qed
qed

lemma lex_complete:
  "lex_g s us \<Longrightarrow> length (acc @ us) \<le> MAX_REQUIREMENT_TOKENS \<Longrightarrow> acc @ us \<noteq> [] \<Longrightarrow> lex_loop s acc = Inr (acc @ us)"
proof (induction s us arbitrary: acc rule: lex_g.induct)
  case (lex_run s ts run)
  then show ?case by (simp add: lex_loop_run token_limit_def)
qed (auto simp: lex_loop.simps(2) token_limit_def Let_def)

lemma lex_loop_iff:
  "lex_loop s [] = Inr ts \<longleftrightarrow> lex_g s ts \<and> 0 < length ts \<and> length ts \<le> MAX_REQUIREMENT_TOKENS"
  using lex_sound[of s "[]" ts] lex_complete[of s ts "[]"] by auto

subsection \<open>Trees of parsed expressions\<close>

definition ident_name :: "js_string \<Rightarrow> bool" where
  "ident_name x \<longleftrightarrow> x \<noteq> [] \<and> list_all IDENT_CHAR x \<and> x \<noteq> jstr ''AND'' \<and> x \<noteq> jstr ''OR''"

fun wf_node :: "aec_node \<Rightarrow> bool" where
  "wf_node (Identifier x) = ident_name x"
| "wf_node (Operator op l r) = (wf_node l \<and> wf_node r)"

lemma lex_names: "lex_g s ts \<Longrightarrow> T_identifier x \<in> set ts \<Longrightarrow> ident_name x"
  by (induction rule: lex_g.induct) (auto simp: classify_run_def ident_name_def split: if_splits)

lemma grammar_names:
  "expr_g d ts n \<Longrightarrow> (\<forall>x. T_identifier x \<in> set ts \<longrightarrow> ident_name x) \<longrightarrow> wf_node n"
  "term_g d ts n \<Longrightarrow> (\<forall>x. T_identifier x \<in> set ts \<longrightarrow> ident_name x) \<longrightarrow> wf_node n"
  by (induction rule: expr_g_term_g.inducts) auto

lemma parse_iff:
  "parseAecExpression (Some s) = Inr p \<longleftrightarrow>
     utf8Octets s \<le> MAX_REQUIREMENT_LENGTH \<and> token_count p \<le> MAX_REQUIREMENT_TOKENS
     \<and> (\<exists>ts. lex_g s ts \<and> length ts = token_count p \<and> expr_g 0 ts (tree p))"
proof
  assume "parseAecExpression (Some s) = Inr p"
  then obtain ts where ts: "utf8Octets s \<le> MAX_REQUIREMENT_LENGTH" "lex_loop s [] = Inr ts" "parseExpr 0 ts = Inr (tree p, [])"
    "token_count p = length ts"
    by (auto simp: parseAecExpression_def lexAecExpression_def split: sum.splits if_splits)
  then show "utf8Octets s \<le> MAX_REQUIREMENT_LENGTH \<and> token_count p \<le> MAX_REQUIREMENT_TOKENS
     \<and> (\<exists>ts. lex_g s ts \<and> length ts = token_count p \<and> expr_g 0 ts (tree p))"
    using lex_loop_iff[of s ts] parseExpr_iff[of ts "tree p"] by auto
next
  assume a: "utf8Octets s \<le> MAX_REQUIREMENT_LENGTH \<and> token_count p \<le> MAX_REQUIREMENT_TOKENS
     \<and> (\<exists>ts. lex_g s ts \<and> length ts = token_count p \<and> expr_g 0 ts (tree p))"
  then obtain ts where ts: "lex_g s ts" "length ts = token_count p" "expr_g 0 ts (tree p)" by blast
  have "parseExpr 0 ts = Inr (tree p, [])" using ts(3) parseExpr_iff by blast
  moreover from this have "ts \<noteq> []" by (auto simp: parseExpr.simps)
  ultimately show "parseAecExpression (Some s) = Inr p"
    using a ts lex_loop_iff[of s ts] by (auto simp: parseAecExpression_def lexAecExpression_def)
qed

lemma parsed_wf: "parseAecExpression e = Inr p \<Longrightarrow> wf_node (tree p)"
  by (cases e) (auto simp: parseAecExpression_def lexAecExpression_def lex_loop_iff parseExpr_iff lex_names
      dest!: grammar_names(1) split: sum.splits if_splits)

subsection \<open>The canonical text\<close>

lemma run_split:
  assumes "list_all IDENT_CHAR x" "list_all IDENT_CHAR y" "ends_run r" "ends_run r'" "x @ r = y @ r'"
  shows "x = y \<and> r = r'"
proof -
  have "takeWhile IDENT_CHAR (x @ r) = x" "takeWhile IDENT_CHAR (y @ r') = y"
    using assms(1-4) by (auto simp: takeWhile_append2 list_all_iff ends_run_def) (metis hd_Cons_tl takeWhile.simps)+
  with assms(5) show ?thesis by auto
qed

lemma render_inj:
  "wf_node t \<Longrightarrow> wf_node u \<Longrightarrow> ends_run r \<Longrightarrow> ends_run r' \<Longrightarrow>
    renderAecExpression t @ r = renderAecExpression u @ r' \<Longrightarrow> t = u \<and> r = r'"
proof (induction t arbitrary: u r r')
  case (Identifier x)
  show ?case
  proof (cases u)
    case (Identifier y)
    then show ?thesis using Identifier.prems Identifier run_split[of x y r r'] by (auto simp: ident_name_def)
  next
    case (Operator op l q)
    then show ?thesis using Identifier.prems by (cases x) (auto simp: ident_name_def)
  qed
next
  case (Operator op a b)
  show ?case
  proof (cases u)
    case (Identifier y)
    then show ?thesis using Operator.prems by (cases y) (auto simp: ident_name_def)
  next
    case u: (Operator op' c d)
    let ?f = "\<lambda>op b r. jstr '' '' @ operator_text op @ jstr '' '' @ renderAecExpression b @ jstr '')'' @ r"
    have "a = c \<and> ?f op b r = ?f op' d r'"
      by (rule Operator.IH(1)) (use Operator.prems u in \<open>auto simp: ends_run_def\<close>)
    moreover from this have "op = op' \<and> renderAecExpression b @ jstr '')'' @ r = renderAecExpression d @ jstr '')'' @ r'"
      by (cases op; cases op') auto
    moreover from this have "b = d \<and> jstr '')'' @ r = jstr '')'' @ r'"
      by (intro Operator.IH(2)) (use Operator.prems u in \<open>auto simp: ends_run_def\<close>)
    ultimately show ?thesis using u by simp
  qed
qed

fun render_tokens :: "aec_node \<Rightarrow> aec_token list" where
  "render_tokens (Identifier x) = [T_identifier x]"
| "render_tokens (Operator op l r) =
     T_open # render_tokens l @ T_operator op (operator_text op) # render_tokens r @ [T_close]"

fun op_depth :: "aec_node \<Rightarrow> nat" where
  "op_depth (Identifier x) = 0"
| "op_depth (Operator op l r) = Suc (max (op_depth l) (op_depth r))"

lemma operator_run: "list_all IDENT_CHAR (operator_text op) \<and> operator_text op \<noteq> [] \<and> classify_run (operator_text op) = T_operator op (operator_text op)"
  by (cases op) (auto simp: classify_run_def IDENT_CHAR_def u16_def)

lemma lex_g_prefix_render:
  "wf_node t \<Longrightarrow> ends_run r \<Longrightarrow> lex_g r ts \<Longrightarrow> lex_g (renderAecExpression t @ r) (render_tokens t @ ts)"
proof (induction t arbitrary: r ts)
  case (Identifier x)
  then show ?case using lex_run[of r ts x] by (auto simp: ident_name_def classify_run_def)
next
  case (Operator op a b)
  let ?sp = "u16 CHR '' ''"
  have b: "lex_g (renderAecExpression b @ u16 CHR '')'' # r) (render_tokens b @ T_close # ts)"
    by (rule Operator.IH(2)) (use Operator.prems lex_close in \<open>auto simp: ends_run_def\<close>)
  have sp: "lex_g (?sp # renderAecExpression b @ u16 CHR '')'' # r) (render_tokens b @ T_close # ts)"
    by (rule lex_space[OF b]) simp
  have "lex_g (operator_text op @ ?sp # renderAecExpression b @ u16 CHR '')'' # r)
      (T_operator op (operator_text op) # render_tokens b @ T_close # ts)"
    using lex_run[OF sp, of "operator_text op"] operator_run[of op] by (simp add: ends_run_def)
  from lex_space[OF this, of ?sp] have "lex_g (renderAecExpression a @ ?sp # operator_text op @ ?sp # renderAecExpression b @ u16 CHR '')'' # r)
      (render_tokens a @ T_operator op (operator_text op) # render_tokens b @ T_close # ts)"
    by (intro Operator.IH(1)) (use Operator.prems in \<open>auto simp: ends_run_def\<close>)
  from lex_open[OF this] show ?case by simp
qed

lemma render_grammar: "d + op_depth t \<le> MAX_REQUIREMENT_DEPTH \<Longrightarrow> term_g d (render_tokens t) t"
proof (induction t arbitrary: d)
  case (Operator op l r)
  have "expr_g (d + 1) (render_tokens l @ T_operator op (operator_text op) # render_tokens r) (Operator op l r)"
    using Operator by (intro chain single) auto
  from group[OF this] Operator.prems show ?case by simp
qed (simp add: ident)

subsection \<open>Properties\<close>

text \<open>
  Property C25. The lexer and the recursive-descent parser accept exactly the texts of the declared
  grammar within the caps (4096 octets, 256 tokens, 32 levels of parentheses), and return the one
  tree in which operators of equal precedence are grouped to the left.
\<close>

theorem aec_parse_iff_grammar:
  "parseAecExpression (Some s) = Inr p \<longleftrightarrow>
     utf8Octets s \<le> MAX_REQUIREMENT_LENGTH \<and> token_count p \<le> MAX_REQUIREMENT_TOKENS
     \<and> (\<exists>ts. lex_g s ts \<and> length ts = token_count p \<and> expr_g 0 ts (tree p))"
  by (rule parse_iff)

text \<open>
  The canonical parse of an accepted expression, where it is itself within the caps,
  compiles to the same tree, hence to the same canonical parse and the same parse identity.
\<close>

theorem aec_canonical_stable:
  assumes "parseAecExpression e = Inr p" "op_depth (tree p) \<le> MAX_REQUIREMENT_DEPTH"
    and "length (render_tokens (tree p)) \<le> MAX_REQUIREMENT_TOKENS"
    and "utf8Octets (renderAecExpression (tree p)) \<le> MAX_REQUIREMENT_LENGTH"
  shows "parseAecExpression (Some (renderAecExpression (tree p))) = Inr (p\<lparr>token_count := length (render_tokens (tree p))\<rparr>)
    \<and> c_parse_identity (compileAecRequirementExpression sha (Some (renderAecExpression (tree p))))
      = c_parse_identity (compileAecRequirementExpression sha e)"
proof -
  have "lex_g (renderAecExpression (tree p)) (render_tokens (tree p))"
    using lex_g_prefix_render[OF parsed_wf[OF assms(1)] _ lex_nil] by (simp add: ends_run_def)
  moreover have "expr_g 0 (render_tokens (tree p)) (tree p)" using render_grammar[of 0] assms(2) by (simp add: single)
  ultimately have "parseAecExpression (Some (renderAecExpression (tree p))) = Inr (p\<lparr>token_count := length (render_tokens (tree p))\<rparr>)"
    using assms(3,4) by (subst parse_iff) auto
  with assms(1) show ?thesis by (simp add: compileAecRequirementExpression_def Let_def)
qed

definition sample_expression :: js_string where
  "sample_expression = jstr ''a OR b && (c)''"

lemma sample_parse:
  "parseAecExpression (Some sample_expression) = Inr
     \<lparr>tree = Operator Op_AND (Operator Op_OR (Identifier (jstr ''a'')) (Identifier (jstr ''b''))) (Identifier (jstr ''c'')), token_count = 7\<rparr>"
  by code_simp

theorem aec_canonical_stable_witness:
  "renderAecExpression (Operator Op_AND (Operator Op_OR (Identifier (jstr ''a'')) (Identifier (jstr ''b''))) (Identifier (jstr ''c'')))
     = jstr ''((a OR b) AND c)''
   \<and> c_parse_identity (compileAecRequirementExpression (\<lambda>_. ''00'') (Some (jstr ''((a OR b) AND c)'')))
     = c_parse_identity (compileAecRequirementExpression (\<lambda>_. ''00'') (Some sample_expression))"
  using aec_canonical_stable[OF sample_parse, of "\<lambda>_. ''00''"]
  by (simp add: MAX_REQUIREMENT_DEPTH_def MAX_REQUIREMENT_TOKENS_def MAX_REQUIREMENT_LENGTH_def u16_def)

text \<open>
  The parse identity names the grouping: two accepted expressions have the same
  identity exactly when they have the same tree, provided SHA-256 does not collide on the two
  hashed texts; expressions with the same tree evaluate alike for every set of evidence types.
\<close>

theorem aec_identity_names_tree:
  assumes "parseAecExpression e = Inr p" "parseAecExpression f = Inr q"
    and "inj_on sha {jstr AEC_EXPRESSION_PARSE_DOMAIN @ 0 # renderAecExpression (tree p),
      jstr AEC_EXPRESSION_PARSE_DOMAIN @ 0 # renderAecExpression (tree q)}"
  shows "(c_parse_identity (compileAecRequirementExpression sha e) = c_parse_identity (compileAecRequirementExpression sha f))
    \<longleftrightarrow> tree p = tree q"
proof
  assume "c_parse_identity (compileAecRequirementExpression sha e) = c_parse_identity (compileAecRequirementExpression sha f)"
  then have "sha (jstr AEC_EXPRESSION_PARSE_DOMAIN @ 0 # renderAecExpression (tree p))
      = sha (jstr AEC_EXPRESSION_PARSE_DOMAIN @ 0 # renderAecExpression (tree q))"
    using assms(1,2) by (simp add: compileAecRequirementExpression_def aecParseIdentity_def Let_def)
  then have "renderAecExpression (tree p) = renderAecExpression (tree q)" using assms(3) by (auto dest: inj_onD)
  with render_inj[OF parsed_wf[OF assms(1)] parsed_wf[OF assms(2)], of "[]" "[]"] show "tree p = tree q"
    by (simp add: ends_run_def)
qed (use assms(1,2) in \<open>simp add: compileAecRequirementExpression_def Let_def\<close>)

lemma sample_parse_other:
  "parseAecExpression (Some (jstr ''a||b AND c'')) = Inr
     \<lparr>tree = Operator Op_AND (Operator Op_OR (Identifier (jstr ''a'')) (Identifier (jstr ''b''))) (Identifier (jstr ''c'')), token_count = 5\<rparr>"
  by code_simp

theorem aec_identity_names_tree_witness:
  "c_parse_identity (compileAecRequirementExpression (\<lambda>_. ''00'') (Some sample_expression))
     = c_parse_identity (compileAecRequirementExpression (\<lambda>_. ''00'') (Some (jstr ''a||b AND c'')))"
  using aec_identity_names_tree[OF sample_parse sample_parse_other, of "\<lambda>_. ''00''"] by simp

text \<open>The labels of the two classes of refusal.\<close>

definition limit_details :: "string list" where
  "limit_details = [''length_limit'', ''token_limit'', ''depth_limit'']"

definition syntax_details :: "string list" where
  "syntax_details = [''not_a_string'', ''empty'', ''invalid_character'', ''unexpected_end'', ''unclosed_group'', ''unexpected_token'', ''trailing_input'']"

definition refusal_ok :: "aec_refusal \<Rightarrow> bool" where
  "refusal_ok e \<longleftrightarrow> (case e of (cl, det) \<Rightarrow> (cl = Limit \<longleftrightarrow> det \<in> set limit_details) \<and> (cl = Syntax \<longleftrightarrow> det \<in> set syntax_details))"

lemma refusal_labels [simp]:
  "refusal_ok (Limit, ''length_limit'')" "refusal_ok (Limit, ''token_limit'')" "refusal_ok (Limit, ''depth_limit'')"
  "refusal_ok (Syntax, ''not_a_string'')" "refusal_ok (Syntax, ''empty'')" "refusal_ok (Syntax, ''invalid_character'')"
  "refusal_ok (Syntax, ''unexpected_end'')" "refusal_ok (Syntax, ''unclosed_group'')"
  "refusal_ok (Syntax, ''unexpected_token'')" "refusal_ok (Syntax, ''trailing_input'')"
  by (simp_all add: refusal_ok_def limit_details_def syntax_details_def)

lemma lex_refusal: "lex_loop s acc = Inl e \<Longrightarrow> refusal_ok e"
proof (induction s acc rule: lex_loop.induct)
  case (2 ch rest tokens)
  show ?case
    using "2.prems" "2.IH" by (auto simp: lex_loop.simps(2) Let_def split: if_splits)
qed (auto split: if_splits)

lemma parse_refusal:
  "parseExpr d ts = Inl e \<Longrightarrow> refusal_ok e"
  "parseRest d m ts = Inl e \<Longrightarrow> refusal_ok e"
  "parseTerm d ts = Inl e \<Longrightarrow> refusal_ok e"
proof (induction d ts and d m ts and d ts arbitrary: e and e and e rule: parseExpr_parseRest_parseTerm.induct)
  case (1 depth ts)
  then show ?case
    by (cases e) (auto simp: parseExpr.simps[of depth ts] split: if_splits sum.splits)
qed (auto split: sum.splits list.splits aec_token.splits)

lemma parse_expression_refusal: "parseAecExpression x = Inl e \<Longrightarrow> refusal_ok e"
  by (auto simp: parseAecExpression_def lexAecExpression_def split: sum.splits if_splits option.splits
      dest: lex_refusal parse_refusal(1))

text \<open>
  Refusals are classified and fail closed: an expression is refused as over a limit
  exactly with one of the three cap labels and as malformed exactly with one of the seven syntax
  labels, and a refused expression is unsatisfied, without a value, whatever the evidence; an
  accepted one is satisfied exactly when its tree is true of the evidence types.
\<close>

theorem aec_refusals_fail_closed:
  "case parseAecExpression x of
     Inl (cl, det) \<Rightarrow> (cl = Limit \<longleftrightarrow> det \<in> set limit_details) \<and> (cl = Syntax \<longleftrightarrow> det \<in> set syntax_details)
       \<and> evaluateAecRequirementExpression sha x types = \<lparr>syntax_valid = False, ev_invalid_class = Some cl, ev_value = None,
           satisfied = False, ev_canonical_parse = None, ev_parse_identity = None\<rparr>
   | Inr p \<Rightarrow> satisfied (evaluateAecRequirementExpression sha x types) = evaluateAecExpressionTree (tree p) (set types)"
  using parse_expression_refusal[of x]
  by (auto simp: refusal_ok_def evaluateAecRequirementExpression_def compiled_evaluate_def
      compileAecRequirementExpression_def Let_def split: sum.splits)

lemma tree_monotone: "evaluateAecExpressionTree t E \<Longrightarrow> E \<subseteq> E' \<Longrightarrow> evaluateAecExpressionTree t E'"
  by (induction t) (auto simp: Let_def split: if_splits)

text \<open>
  A requirement is monotone in the evidence: more eligible component types never turn a
  satisfied requirement into an unsatisfied one.
\<close>

theorem aec_requirement_monotone:
  assumes "satisfied (evaluateAecRequirementExpression sha x types)" "set types \<subseteq> set types'"
  shows "satisfied (evaluateAecRequirementExpression sha x types')"
  using assms tree_monotone
  by (auto simp: evaluateAecRequirementExpression_def compiled_evaluate_def compileAecRequirementExpression_def Let_def
      split: sum.splits)

theorem aec_requirement_monotone_witness:
  "satisfied (evaluateAecRequirementExpression (\<lambda>_. ''00'') (Some sample_expression) [jstr ''c'', jstr ''a'', jstr ''d''])"
  by (rule aec_requirement_monotone[where types = "[jstr ''c'', jstr ''a'']"])
    (simp_all add: evaluateAecRequirementExpression_def compiled_evaluate_def compileAecRequirementExpression_def sample_parse Let_def)

end
