(* ===== verification/Decimal_Strings.thy ===== *)
theory Decimal_Strings
  imports Complex_Main Js_Text
begin

section \<open>Exact decimal strings\<close>

text \<open>
  Model of the decimal-string arithmetic of \<open>packages/verify/src/effect-predicates.ts\<close>: the canonical
  form (sign, integer part without leading zeros, optional fraction) and the ordering by string
  comparison only. The ordering is shown to be that of the rational numbers the strings denote.
\<close>

definition is_digit16 :: "16 word \<Rightarrow> bool" where
  "is_digit16 u \<longleftrightarrow> 0x30 \<le> u \<and> u \<le> 0x39"

record decimal =
  neg :: bool
  int_part :: js_string
  frac :: js_string

definition trimTrailingDecimalZeros :: "js_string \<Rightarrow> js_string" where
  "trimTrailingDecimalZeros s = rev (dropWhile (\<lambda>u. u = 0x30) (rev s))"

text \<open>\<open>/^(-?)(0|[1-9][0-9]*)(?:\.([0-9]+))?$/\<close> with its three groups.\<close>

definition decimal_groups :: "js_string \<Rightarrow> (bool \<times> js_string \<times> js_string) option" where
  "decimal_groups s = (let
       n = (s \<noteq> [] \<and> hd s = 0x2D); body = (if n then tl s else s);
       i = takeWhile is_digit16 body; r = dropWhile is_digit16 body in
     if i = [] \<or> (hd i = 0x30 \<and> tl i \<noteq> []) then None
     else if r = [] then Some (n, i, [])
     else if hd r = 0x2E \<and> tl r \<noteq> [] \<and> list_all is_digit16 (tl r) then Some (n, i, tl r) else None)"

definition splitDecimal :: "js_string \<Rightarrow> decimal option" where
  "splitDecimal s = (case decimal_groups s of None \<Rightarrow> None
     | Some (n, i, f) \<Rightarrow> (let fr = trimTrailingDecimalZeros f in
         Some \<lparr>neg = (if i = [0x30] \<and> fr = [] then False else n), int_part = i, frac = fr\<rparr>))"

definition isDecimalString :: "js_string \<Rightarrow> bool" where
  "isDecimalString s \<longleftrightarrow> splitDecimal s \<noteq> None"

definition padEnd0 :: "nat \<Rightarrow> js_string \<Rightarrow> js_string" where
  "padEnd0 n s = s @ replicate (n - length s) 0x30"

definition compare_magnitude :: "decimal \<Rightarrow> decimal \<Rightarrow> int" where
  "compare_magnitude A B =
     (if length (int_part A) \<noteq> length (int_part B) then (if length (int_part A) < length (int_part B) then -1 else 1)
      else if int_part A \<noteq> int_part B then (if int_part A < int_part B then -1 else 1)
      else (let len = max (length (frac A)) (length (frac B)); af = padEnd0 len (frac A); bf = padEnd0 len (frac B)
            in if af < bf then -1 else if af > bf then 1 else 0))"

definition compareDecimalStrings :: "js_string \<Rightarrow> js_string \<Rightarrow> int option" where
  "compareDecimalStrings a b = (case (splitDecimal a, splitDecimal b) of
       (Some A, Some B) \<Rightarrow> Some (if neg A \<noteq> neg B then (if neg A then -1 else 1)
         else (let mag = compare_magnitude A B in if neg A then - mag else mag))
     | _ \<Rightarrow> None)"

subsection \<open>The denoted numbers\<close>

definition digit16_val :: "16 word \<Rightarrow> nat" where
  "digit16_val u = unat u - 48"

definition digits_val :: "js_string \<Rightarrow> nat" where
  "digits_val s = foldl (\<lambda>n u. 10 * n + digit16_val u) 0 s"

definition magnitude :: "js_string \<Rightarrow> js_string \<Rightarrow> rat" where
  "magnitude i f = of_nat (digits_val i) + of_nat (digits_val f) / 10 ^ length f"

definition decimal_value :: "js_string \<Rightarrow> rat" where
  "decimal_value s = (case decimal_groups s of None \<Rightarrow> 0
     | Some (n, i, f) \<Rightarrow> (if n then - magnitude i f else magnitude i f))"

lemma foldl_digits: "foldl (\<lambda>n u. 10 * n + digit16_val u) a s = a * 10 ^ length s + digits_val s"
proof (induction s arbitrary: a)
  case (Cons u s)
  have "foldl (\<lambda>n u. 10 * n + digit16_val u) a (u # s) = (10 * a + digit16_val u) * 10 ^ length s + digits_val s"
    using Cons.IH by simp
  moreover have "digits_val (u # s) = digit16_val u * 10 ^ length s + digits_val s"
    using Cons.IH[of "digit16_val u"] by (simp add: digits_val_def)
  ultimately show ?case by (simp add: algebra_simps)
qed (simp add: digits_val_def)

lemma digits_val_simps [simp]:
  "digits_val [] = 0"
  "digits_val (u # s) = digit16_val u * 10 ^ length s + digits_val s"
  using foldl_digits[of "digit16_val u" s] by (simp_all add: digits_val_def)

lemma digits_val_append: "digits_val (s @ t) = digits_val s * 10 ^ length t + digits_val t"
  using foldl_digits[of "digits_val s" t] by (simp add: digits_val_def)

lemma digit16_lt: "is_digit16 u \<Longrightarrow> digit16_val u < 10"
  by (auto simp: is_digit16_def digit16_val_def word_le_nat_alt)

lemma digit16_mono: "is_digit16 u \<Longrightarrow> is_digit16 v \<Longrightarrow> u < v \<longleftrightarrow> digit16_val u < digit16_val v"
  by (auto simp: is_digit16_def digit16_val_def word_le_nat_alt word_less_nat_alt)

lemma digits_val_lt: "list_all is_digit16 s \<Longrightarrow> digits_val s < 10 ^ length s"
proof (induction s)
  case (Cons u s)
  then have "digits_val s < 10 ^ length s" "digit16_val u \<le> 9" using digit16_lt[of u] by auto
  then have "digit16_val u * 10 ^ length s + digits_val s < 9 * 10 ^ length s + 10 ^ length s"
    by (intro add_le_less_mono) auto
  then show ?case by simp
qed simp

text \<open>Strings of digits of equal length compare as numbers.\<close>

lemma digits_less:
  assumes "length s = length t" "list_all is_digit16 s" "list_all is_digit16 t"
  shows "s < t \<longleftrightarrow> digits_val s < digits_val t"
  using assms
proof (induction s t rule: list_induct2)
  case (Cons u s v t)
  have small: "digits_val s < 10 ^ length s" "digits_val t < 10 ^ length s"
    using digits_val_lt[of s] digits_val_lt[of t] Cons by auto
  consider "u < v" | "u = v" | "v < u" by (meson linorder_less_linear)
  then show ?case
  proof cases
    case 1
    then have "digit16_val u + 1 \<le> digit16_val v" using digit16_mono[of u v] Cons.prems by auto
    then have "(digit16_val u + 1) * 10 ^ length s \<le> digit16_val v * 10 ^ length s" by (rule mult_le_mono1)
    with small 1 Cons.hyps show ?thesis by (simp add: algebra_simps)
  next
    case 2
    with Cons show ?thesis by simp
  next
    case 3
    then have "digit16_val v + 1 \<le> digit16_val u" using digit16_mono[of v u] Cons.prems by auto
    then have "(digit16_val v + 1) * 10 ^ length s \<le> digit16_val u * 10 ^ length s" by (rule mult_le_mono1)
    with small 3 Cons.hyps show ?thesis by (auto simp: algebra_simps)
  qed
qed simp

lemma digits_eq:
  assumes "length s = length t" "list_all is_digit16 s" "list_all is_digit16 t" "digits_val s = digits_val t"
  shows "s = t"
proof -
  have "\<not> s < t" "\<not> t < s" using digits_less[OF assms(1-3)] digits_less[OF assms(1)[symmetric] assms(3,2)] assms(4) by auto
  then show ?thesis by (meson linorder_less_linear)
qed

subsection \<open>Well-formed decimals\<close>

definition wf_int :: "js_string \<Rightarrow> bool" where
  "wf_int i \<longleftrightarrow> i \<noteq> [] \<and> list_all is_digit16 i \<and> (hd i = 0x30 \<longrightarrow> i = [0x30])"

definition wf_frac :: "js_string \<Rightarrow> bool" where
  "wf_frac f \<longleftrightarrow> list_all is_digit16 f \<and> (f \<noteq> [] \<longrightarrow> last f \<noteq> 0x30)"

lemma takeWhile_all: "list_all P (takeWhile P s)"
  by (auto simp: list_all_iff dest: set_takeWhileD)

lemma decimal_groups_wf:
  assumes "decimal_groups s = Some (n, i, f)"
  shows "wf_int i \<and> list_all is_digit16 f"
proof -
  obtain body where b: "i = takeWhile is_digit16 body" "\<not> (i = [] \<or> (hd i = 0x30 \<and> tl i \<noteq> []))" "list_all is_digit16 f"
    using assms by (auto simp: decimal_groups_def Let_def split: if_splits)
  then have "wf_int i" using takeWhile_all[of is_digit16 body] by (auto simp: wf_int_def) (metis list.collapse)
  with b(3) show ?thesis by simp
qed

lemma trim_decomp: "\<exists>k. s = trimTrailingDecimalZeros s @ replicate k 0x30"
proof -
  let ?z = "takeWhile (\<lambda>u. u = 0x30) (rev s)"
  have "?z = replicate (length ?z) 0x30" by (intro replicate_eqI) (auto dest: set_takeWhileD)
  then have "rev s = replicate (length ?z) 0x30 @ dropWhile (\<lambda>u. u = 0x30) (rev s)" by (metis takeWhile_dropWhile_id)
  then have "s = rev (dropWhile (\<lambda>u. u = 0x30) (rev s)) @ replicate (length ?z) 0x30"
    by (metis rev_append rev_replicate rev_rev_ident)
  then show ?thesis by (auto simp: trimTrailingDecimalZeros_def)
qed

lemma trim_wf: "list_all is_digit16 s \<Longrightarrow> wf_frac (trimTrailingDecimalZeros s)"
proof -
  assume "list_all is_digit16 s"
  then have "list_all is_digit16 (trimTrailingDecimalZeros s)" using trim_decomp[of s] by (metis list_all_append)
  moreover have "last (trimTrailingDecimalZeros s) \<noteq> 0x30" if "trimTrailingDecimalZeros s \<noteq> []"
    using that hd_dropWhile[of "\<lambda>u. u = 0x30" "rev s"] by (auto simp: trimTrailingDecimalZeros_def last_rev)
  ultimately show ?thesis by (simp add: wf_frac_def)
qed

lemma digits_val_zeros [simp]: "digits_val (replicate k 0x30) = 0"
  by (induction k) (auto simp: digit16_val_def)

lemma magnitude_zeros [simp]: "magnitude i (f @ replicate k 0x30) = magnitude i f"
  by (simp add: magnitude_def digits_val_append power_add)

lemma magnitude_trim [simp]: "magnitude i (trimTrailingDecimalZeros f) = magnitude i f"
  using trim_decomp[of f] by (metis magnitude_zeros)

lemma magnitude_pad [simp]: "magnitude i (padEnd0 n f) = magnitude i f"
  by (simp add: padEnd0_def)

lemma fraction_lt: "list_all is_digit16 f \<Longrightarrow> 0 \<le> (of_nat (digits_val f) :: rat) / 10 ^ length f \<and> (of_nat (digits_val f) :: rat) / 10 ^ length f < 1"
proof -
  assume "list_all is_digit16 f"
  then have "of_nat (digits_val f) < (of_nat (10 ^ length f) :: rat)" unfolding of_nat_less_iff by (rule digits_val_lt)
  then show ?thesis by (simp add: divide_less_eq)
qed

lemma magnitude_nonneg: "list_all is_digit16 f \<Longrightarrow> 0 \<le> magnitude i f"
  using fraction_lt[of f] by (simp add: magnitude_def)

lemma magnitude_int_less:
  assumes "digits_val i < digits_val j" "list_all is_digit16 f" "list_all is_digit16 g"
  shows "magnitude i f < magnitude j g"
proof -
  have "of_nat (digits_val i + 1) \<le> (of_nat (digits_val j) :: rat)" unfolding of_nat_le_iff using assms(1) by simp
  then have "of_nat (digits_val i) + 1 \<le> (of_nat (digits_val j) :: rat)" by simp
  with fraction_lt[OF assms(2)] fraction_lt[OF assms(3)] show ?thesis unfolding magnitude_def by linarith
qed

lemma wf_int_bound:
  assumes "wf_int i" "length i \<ge> 2"
  shows "10 ^ (length i - 1) \<le> digits_val i"
proof -
  obtain u s where i: "i = u # s" using assms(1) by (cases i) (auto simp: wf_int_def)
  have "u \<noteq> 0x30" "is_digit16 u" using assms i by (auto simp: wf_int_def)
  then have "48 \<noteq> unat u" "48 \<le> unat u" by (auto simp: is_digit16_def word_le_nat_alt word_unat_eq_iff)
  then have "1 \<le> digit16_val u" by (simp add: digit16_val_def)
  then have "1 * 10 ^ length s \<le> digit16_val u * 10 ^ length s" by (rule mult_le_mono1)
  then have "10 ^ length s \<le> digits_val i" unfolding i digits_val_simps by linarith
  with i show ?thesis by simp
qed

lemma wf_int_shorter:
  assumes "wf_int i" "wf_int j" "length i < length j"
  shows "digits_val i < digits_val j"
proof -
  have "length i \<ge> 1" using assms(1) by (cases i) (auto simp: wf_int_def)
  then have "10 ^ (length j - 1) \<le> digits_val j" using assms wf_int_bound by simp
  moreover have "digits_val i < 10 ^ length i" using assms(1) digits_val_lt by (simp add: wf_int_def)
  moreover have "(10 :: nat) ^ length i \<le> 10 ^ (length j - 1)" using assms(3) by (intro power_increasing) auto
  ultimately show ?thesis by linarith
qed

definition same_sign :: "int \<Rightarrow> rat \<Rightarrow> bool" where
  "same_sign c x \<longleftrightarrow> (c = -1 \<and> x < 0) \<or> (c = 0 \<and> x = 0) \<or> (c = 1 \<and> x > 0)"

lemma same_sign_minus: "same_sign c x \<Longrightarrow> same_sign (- c) (- x)"
  by (auto simp: same_sign_def)

lemma compare_magnitude_exact:
  assumes "wf_int (int_part A)" "wf_int (int_part B)" "wf_frac (frac A)" "wf_frac (frac B)"
  shows "same_sign (compare_magnitude A B) (magnitude (int_part A) (frac A) - magnitude (int_part B) (frac B))"
proof -
  let ?i = "int_part A" and ?j = "int_part B" and ?f = "frac A" and ?g = "frac B"
  have digits: "list_all is_digit16 ?i" "list_all is_digit16 ?j" "list_all is_digit16 ?f" "list_all is_digit16 ?g"
    using assms by (auto simp: wf_int_def wf_frac_def)
  consider (short) "length ?i < length ?j" | (long) "length ?j < length ?i"
    | (less) "length ?i = length ?j" "?i < ?j" | (greater) "length ?i = length ?j" "?j < ?i" | (eq) "?i = ?j"
    by (meson linorder_less_linear)
  then show ?thesis
  proof cases
    case short
    with magnitude_int_less[OF wf_int_shorter[OF assms(1,2) short] digits(3,4)] show ?thesis
      by (simp add: compare_magnitude_def same_sign_def)
  next
    case long
    with magnitude_int_less[OF wf_int_shorter[OF assms(2,1) long] digits(4,3)] show ?thesis
      by (simp add: compare_magnitude_def same_sign_def)
  next
    case less
    with digits_less[OF less(1) digits(1,2)] magnitude_int_less[OF _ digits(3,4), of ?i ?j] show ?thesis
      by (auto simp: compare_magnitude_def same_sign_def)
  next
    case greater
    with digits_less[OF greater(1)[symmetric] digits(2,1)] magnitude_int_less[OF _ digits(4,3), of ?j ?i] show ?thesis
      by (auto simp: compare_magnitude_def same_sign_def)
  next
    case eq
    let ?n = "max (length ?f) (length ?g)"
    let ?a = "padEnd0 ?n ?f" and ?b = "padEnd0 ?n ?g"
    have len: "length ?a = ?n" "length ?b = ?n" by (auto simp: padEnd0_def)
    have ab: "list_all is_digit16 ?a" "list_all is_digit16 ?b"
      using digits by (auto simp: padEnd0_def list_all_iff is_digit16_def)
    have diff: "magnitude ?i ?f - magnitude ?j ?g = (of_nat (digits_val ?a) - of_nat (digits_val ?b)) / 10 ^ ?n"
      using magnitude_pad[of ?i ?n ?f] magnitude_pad[of ?j ?n ?g] eq len by (simp add: magnitude_def diff_divide_distrib)
    have sign: "same_sign (if ?a < ?b then -1 else if ?a > ?b then 1 else 0) (of_nat (digits_val ?a) - of_nat (digits_val ?b))"
      using digits_less[of ?a ?b] digits_less[of ?b ?a] digits_eq[of ?a ?b] len ab
      by (auto simp: same_sign_def)
    then show ?thesis unfolding diff using eq
      by (auto simp: compare_magnitude_def same_sign_def Let_def divide_less_0_iff zero_less_divide_iff split: if_splits)
  qed
qed

lemma splitDecimal_value:
  assumes "splitDecimal s = Some A"
  shows "wf_int (int_part A) \<and> wf_frac (frac A)
    \<and> decimal_value s = (if neg A then - magnitude (int_part A) (frac A) else magnitude (int_part A) (frac A))
    \<and> (neg A \<longrightarrow> 0 < magnitude (int_part A) (frac A))"
proof -
  obtain n i f where g: "decimal_groups s = Some (n, i, f)"
    "A = \<lparr>neg = (if i = [0x30] \<and> trimTrailingDecimalZeros f = [] then False else n), int_part = i, frac = trimTrailingDecimalZeros f\<rparr>"
    using assms by (auto simp: splitDecimal_def Let_def split: option.splits)
  let ?f = "trimTrailingDecimalZeros f"
  have wf: "wf_int i" "wf_frac ?f" using decimal_groups_wf[OF g(1)] trim_wf by auto
  have zero: "magnitude [0x30] [] = 0" by (simp add: magnitude_def digit16_val_def)
  have pos: "0 < magnitude i ?f" if nz: "\<not> (i = [0x30] \<and> ?f = [])"
  proof (cases "?f = []")
    case True
    have "0 < digits_val i"
    proof (cases "length i \<ge> 2")
      case True
      then show ?thesis using wf_int_bound[OF wf(1)] by (meson less_le_trans zero_less_numeral zero_less_power)
    next
      case False
      then obtain u where u: "i = [u]" using wf(1) by (cases i) (auto simp: wf_int_def Suc_le_eq)
      then have "u \<noteq> 0x30" "is_digit16 u" using nz True wf(1) by (auto simp: wf_int_def)
      then show ?thesis using u by (auto simp: is_digit16_def digit16_val_def word_le_nat_alt word_unat_eq_iff)
    qed
    with True show ?thesis by (simp add: magnitude_def)
  next
    case False
    then obtain p u where u: "?f = p @ [u]" by (metis rev_exhaust)
    then have "u \<noteq> 0x30" "is_digit16 u" using wf(2) by (auto simp: wf_frac_def)
    then have "0 < digit16_val u" by (auto simp: is_digit16_def digit16_val_def word_le_nat_alt word_unat_eq_iff)
    then have "0 < digits_val ?f" using u by (simp add: digits_val_append)
    then have "0 < (of_nat (digits_val ?f) :: rat) / 10 ^ length ?f" by simp
    then show ?thesis unfolding magnitude_def by (rule add_nonneg_pos[rotated]) simp
  qed
  have val: "decimal_value s = (if n then - magnitude i ?f else magnitude i ?f)" using g(1) by (simp add: decimal_value_def)
  show ?thesis
  proof (cases "i = [0x30] \<and> ?f = []")
    case True
    with g(2) wf zero val show ?thesis by auto
  next
    case False
    with g(2) wf pos val show ?thesis by auto
  qed
qed

lemma compareDecimalStrings_cases:
  "case compareDecimalStrings a b of
     None \<Rightarrow> \<not> (isDecimalString a \<and> isDecimalString b)
   | Some c \<Rightarrow> isDecimalString a \<and> isDecimalString b \<and> rat_of_int c = sgn (decimal_value a - decimal_value b)"
proof (cases "isDecimalString a \<and> isDecimalString b")
  case False
  then show ?thesis by (auto simp: compareDecimalStrings_def isDecimalString_def split: option.splits)
next
  case True
  then obtain A B where AB: "splitDecimal a = Some A" "splitDecimal b = Some B" by (auto simp: isDecimalString_def)
  note A = splitDecimal_value[OF AB(1)] and B = splitDecimal_value[OF AB(2)]
  have nonneg: "0 \<le> magnitude (int_part A) (frac A)" "0 \<le> magnitude (int_part B) (frac B)"
    using A B magnitude_nonneg by (auto simp: wf_frac_def)
  have mag: "same_sign (compare_magnitude A B) (magnitude (int_part A) (frac A) - magnitude (int_part B) (frac B))"
    using compare_magnitude_exact A B by blast
  have sgn: "same_sign c x \<Longrightarrow> rat_of_int c = sgn x" for c x by (auto simp: same_sign_def)
  have "same_sign (the (compareDecimalStrings a b)) (decimal_value a - decimal_value b)"
  proof (cases "neg A = neg B")
    case True
    then show ?thesis using mag same_sign_minus[OF mag] A B AB by (auto simp: compareDecimalStrings_def Let_def)
  next
    case False
    then show ?thesis using nonneg A B AB by (auto simp: compareDecimalStrings_def same_sign_def)
  qed
  from sgn[OF this] True AB show ?thesis by (simp add: compareDecimalStrings_def)
qed

lemma compareDecimalStrings_sgn:
  assumes "isDecimalString a" "isDecimalString b"
  obtains c where "compareDecimalStrings a b = Some c" "rat_of_int c = sgn (decimal_value a - decimal_value b)"
  using compareDecimalStrings_cases[of a b] assms by (auto split: option.splits)

end
