(* ===== verification/Strict_Json.thy ===== *)
theory Strict_Json
  imports Canonical_Json "HOL-Library.Multiset"
begin

section \<open>Strict canonical JSON\<close>

text \<open>
  Model of the canonicalizer of \<open>packages/verify/src/strict-json.ts\<close> (the gate package carries the
  same file): one recursive pass that inspects a value, counts nodes and string octets in a shared
  state and writes the canonical text. Object identities are those of \<^typ>\<open>js_value\<close>; the
  \<open>ancestors\<close> set is a list. An error is the path and the reason of the refusal.
\<close>

record canonical_limits =
  maxDepth :: nat
  maxNodes :: nat
  maxStringBytes :: nat
  safeIntegersOnly :: bool

record canonical_state =
  st_nodes :: nat
  st_bytes :: nat

type_synonym domain_error = "js_string \<times> string"

fun hasUnpairedUtf16Surrogate :: "js_string \<Rightarrow> bool" where
  "hasUnpairedUtf16Surrogate [] = False"
| "hasUnpairedUtf16Surrogate (u # us) =
     (if 0xD800 \<le> u \<and> u \<le> 0xDBFF then
        (case us of [] \<Rightarrow> True
         | n # ns \<Rightarrow> if \<not> (0xDC00 \<le> n \<and> n \<le> 0xDFFF) then True else hasUnpairedUtf16Surrogate ns)
      else if 0xDC00 \<le> u \<and> u \<le> 0xDFFF then True else hasUnpairedUtf16Surrogate us)"

definition countString :: "canonical_limits \<Rightarrow> js_string \<Rightarrow> js_string \<Rightarrow> canonical_state \<Rightarrow> domain_error + canonical_state" where
  "countString lim value path st = (let b = st_bytes st + utf8_length value in
     if b > maxStringBytes lim then Inl (path, ''string bytes exceed '' @ dec_nat (maxStringBytes lim))
     else Inr (st\<lparr>st_bytes := b\<rparr>))"

fun number_admitted :: "bool \<Rightarrow> js_number \<Rightarrow> bool" where
  "number_admitted safeOnly NonFinite = False"
| "number_admitted safeOnly (Integral i) = safe_int i"
| "number_admitted safeOnly (Fractional t) = (\<not> safeOnly)"

fun number_json :: "js_number \<Rightarrow> js_string" where
  "number_json (Integral i) = jstr (dec_int i)"
| "number_json (Fractional t) = jstr t"
| "number_json NonFinite = jstr ''null''"

definition index_path :: "js_string \<Rightarrow> nat \<Rightarrow> js_string" where
  "index_path path i = path @ jstr ''['' @ jstr (dec_nat i) @ jstr '']''"

definition member_path :: "js_string \<Rightarrow> js_string \<Rightarrow> js_string" where
  "member_path path k = path @ jstr ''.'' @ k"

text \<open>
  \<open>canonEntries\<close> and \<open>canonMembers\<close> are the loops over the elements of an array and the sorted members
  of an object.
\<close>

function (sequential) canonicalizeValue :: "canonical_limits \<Rightarrow> js_value \<Rightarrow> js_string \<Rightarrow> nat list \<Rightarrow> nat \<Rightarrow> canonical_state
    \<Rightarrow> domain_error + js_string \<times> canonical_state"
  and canonEntries :: "canonical_limits \<Rightarrow> js_value list \<Rightarrow> nat \<Rightarrow> js_string \<Rightarrow> nat list \<Rightarrow> nat \<Rightarrow> canonical_state
    \<Rightarrow> domain_error + js_string list \<times> canonical_state"
  and canonMembers :: "canonical_limits \<Rightarrow> (js_string \<times> js_value) list \<Rightarrow> js_string \<Rightarrow> nat list \<Rightarrow> nat \<Rightarrow> canonical_state
    \<Rightarrow> domain_error + js_string list \<times> canonical_state" where
  "canonicalizeValue lim value path anc depth st0 =
     (let st = st0\<lparr>st_nodes := st_nodes st0 + 1\<rparr> in
      if st_nodes st > maxNodes lim then Inl (path, ''node count exceeds '' @ dec_nat (maxNodes lim))
      else if depth > maxDepth lim then Inl (path, ''nesting depth exceeds '' @ dec_nat (maxDepth lim))
      else (case value of
          VNull \<Rightarrow> Inr (jstr ''null'', st)
        | VStr s \<Rightarrow>
            if hasUnpairedUtf16Surrogate s then Inl (path, ''unpaired Unicode surrogate'')
            else (case countString lim s path st of Inl e \<Rightarrow> Inl e | Inr st' \<Rightarrow> Inr (js_quote s, st'))
        | VBool b \<Rightarrow> Inr (jstr (if b then ''true'' else ''false''), st)
        | VNum n \<Rightarrow>
            if \<not> number_admitted (safeIntegersOnly lim) n
            then Inl (path, if safeIntegersOnly lim then ''numbers must be safe integers; encode other quantities as strings''
              else ''numbers must be finite and integer values must be safe'')
            else Inr (number_json n, st)
        | VHostile why \<Rightarrow> Inl (path, why)
        | VArr i xs \<Rightarrow>
            if i \<in> set anc then Inl (path, ''cyclic reference'')
            else (case canonEntries lim xs 0 path (i # anc) depth st of Inl e \<Rightarrow> Inl e
              | Inr (entries, st') \<Rightarrow> Inr (jstr ''['' @ join_units comma entries @ jstr '']'', st'))
        | VObj i ms \<Rightarrow>
            if i \<in> set anc then Inl (path, ''cyclic reference'')
            else (case canonMembers lim (sort_key fst ms) path (i # anc) depth st of Inl e \<Rightarrow> Inl e
              | Inr (members, st') \<Rightarrow> Inr (jstr ''{'' @ join_units comma members @ jstr ''}'', st'))))"
| "canonEntries lim [] i path anc depth st = Inr ([], st)"
| "canonEntries lim (x # xs) i path anc depth st =
     (case canonicalizeValue lim x (index_path path i) anc (depth + 1) st of Inl e \<Rightarrow> Inl e
      | Inr (t, st') \<Rightarrow> (case canonEntries lim xs (i + 1) path anc depth st' of Inl e \<Rightarrow> Inl e
        | Inr (ts, st'') \<Rightarrow> Inr (t # ts, st'')))"
| "canonMembers lim [] path anc depth st = Inr ([], st)"
| "canonMembers lim ((k, v) # ms) path anc depth st =
     (if hasUnpairedUtf16Surrogate k then Inl (member_path path k, ''member name contains an unpaired Unicode surrogate'')
      else (case countString lim k (member_path path k) st of Inl e \<Rightarrow> Inl e
        | Inr st1 \<Rightarrow> (case canonicalizeValue lim v (member_path path k) anc (depth + 1) st1 of Inl e \<Rightarrow> Inl e
          | Inr (t, st2) \<Rightarrow> (case canonMembers lim ms path anc depth st2 of Inl e \<Rightarrow> Inl e
            | Inr (ts, st3) \<Rightarrow> Inr ((js_quote k @ jstr '':'' @ t) # ts, st3)))))"
  by pat_completeness auto

lemma members_nodes_sorted:
  "sum_list (map (\<lambda>(k, v). value_nodes v) (sort_key fst ms)) = sum_list (map (\<lambda>(k, v). value_nodes v) ms)"
  by (metis mset_map mset_sort sum_mset_sum_list)

termination canonicalizeValue
  by (relation "measure (\<lambda>x. case x of Inl (l, v, p, a, d, s) \<Rightarrow> 2 * value_nodes v
      | Inr (Inl (l, xs, i, p, a, d, s)) \<Rightarrow> 2 * sum_list (map value_nodes xs) + 1
      | Inr (Inr (l, ms, p, a, d, s)) \<Rightarrow> 2 * sum_list (map (\<lambda>(k, v). value_nodes v) ms) + 1)")
    (auto simp: members_nodes_sorted value_nodes_pos)

declare canonicalizeValue.simps [simp del]

text \<open>The entry points; a limit that the caller leaves out has its default.\<close>

definition DEFAULT_MAX_JSON_NODES :: nat where "DEFAULT_MAX_JSON_NODES = 100000"
definition DEFAULT_MAX_JSON_STRING_BYTES :: nat where "DEFAULT_MAX_JSON_STRING_BYTES = 1024 * 1024"

record given_limits =
  g_maxDepth :: "js_number option"
  g_maxNodes :: "js_number option"
  g_maxStringBytes :: "js_number option"

definition limit_or :: "js_number option \<Rightarrow> nat \<Rightarrow> js_number" where
  "limit_or g d = (case g of None \<Rightarrow> Integral (int d) | Some n \<Rightarrow> n)"

definition canonicalizeJsonDomain :: "js_value \<Rightarrow> given_limits \<Rightarrow> bool \<Rightarrow> domain_error + js_string" where
  "canonicalizeJsonDomain value limits safeOnly = (let
       d = limit_or (g_maxDepth limits) MAX_JSON_DEPTH;
       n = limit_or (g_maxNodes limits) DEFAULT_MAX_JSON_NODES;
       b = limit_or (g_maxStringBytes limits) DEFAULT_MAX_JSON_STRING_BYTES in
     if \<not> is_safe_integer d \<or> num_val d < 0 \<or> \<not> is_safe_integer n \<or> num_val n < 1 \<or> \<not> is_safe_integer b \<or> num_val b < 0
     then Inl ([], ''strict canonical JSON limits must be non-negative safe integers'')
     else (case canonicalizeValue \<lparr>maxDepth = nat (num_val d), maxNodes = nat (num_val n), maxStringBytes = nat (num_val b),
           safeIntegersOnly = safeOnly\<rparr> value (jstr ''$'') [] 0 \<lparr>st_nodes = 0, st_bytes = 0\<rparr> of
         Inl e \<Rightarrow> Inl e | Inr (t, st) \<Rightarrow> Inr t))"

definition no_limits :: given_limits where
  "no_limits = \<lparr>g_maxDepth = None, g_maxNodes = None, g_maxStringBytes = None\<rparr>"

definition canonicalizeStrictJson :: "js_value \<Rightarrow> given_limits \<Rightarrow> domain_error + js_string" where
  "canonicalizeStrictJson value limits = canonicalizeJsonDomain value limits True"

definition canonicalizeFiniteJson :: "js_value \<Rightarrow> given_limits \<Rightarrow> domain_error + js_string" where
  "canonicalizeFiniteJson value limits = canonicalizeJsonDomain value limits False"

definition isStrictCanonicalJson :: "js_value \<Rightarrow> bool" where
  "isStrictCanonicalJson value = (case canonicalizeStrictJson value no_limits of Inl e \<Rightarrow> False | Inr t \<Rightarrow> True)"

subsection \<open>The domain\<close>

lemma surrogate_valid: "hasUnpairedUtf16Surrogate s \<longleftrightarrow> \<not> validUnicodeString s"
  by (induction s rule: validUnicodeString.induct) (auto simp: is_high_def is_low_def split: list.splits)

fun admitted :: "bool \<Rightarrow> js_value \<Rightarrow> bool" where
  "admitted safeOnly (VStr s) = validUnicodeString s"
| "admitted safeOnly (VNum n) = number_admitted safeOnly n"
| "admitted safeOnly (VHostile w) = False"
| "admitted safeOnly (VArr i xs) = list_all (admitted safeOnly) xs"
| "admitted safeOnly (VObj i ms) = list_all (\<lambda>(k, v). validUnicodeString k \<and> admitted safeOnly v) ms"
| "admitted safeOnly _ = True"

fun shallow :: "nat \<Rightarrow> nat \<Rightarrow> js_value \<Rightarrow> bool" where
  "shallow mx d (VArr i xs) = (d \<le> mx \<and> list_all (shallow mx (d + 1)) xs)"
| "shallow mx d (VObj i ms) = (d \<le> mx \<and> list_all (\<lambda>(k, v). shallow mx (d + 1) v) ms)"
| "shallow mx d _ = (d \<le> mx)"

fun acyclic_below :: "nat list \<Rightarrow> js_value \<Rightarrow> bool" where
  "acyclic_below anc (VArr i xs) = (i \<notin> set anc \<and> list_all (acyclic_below (i # anc)) xs)"
| "acyclic_below anc (VObj i ms) = (i \<notin> set anc \<and> list_all (\<lambda>(k, v). acyclic_below (i # anc) v) ms)"
| "acyclic_below anc _ = True"

definition good :: "canonical_limits \<Rightarrow> nat list \<Rightarrow> nat \<Rightarrow> js_value \<Rightarrow> bool" where
  "good lim anc d v \<longleftrightarrow> admitted (safeIntegersOnly lim) v \<and> shallow (maxDepth lim) d v \<and> acyclic_below anc v"

definition fits :: "canonical_limits \<Rightarrow> nat \<Rightarrow> nat \<Rightarrow> canonical_state \<Rightarrow> bool" where
  "fits lim n b st \<longleftrightarrow> st_nodes st + n \<le> maxNodes lim \<and> st_bytes st + b \<le> maxStringBytes lim"

definition advance :: "nat \<Rightarrow> nat \<Rightarrow> canonical_state \<Rightarrow> canonical_state" where
  "advance n b st = \<lparr>st_nodes = st_nodes st + n, st_bytes = st_bytes st + b\<rparr>"

text \<open>The result without the error, so that a call is described by one equation.\<close>

definition ok_of :: "'e + 'a \<Rightarrow> 'a option" where
  "ok_of r = (case r of Inl e \<Rightarrow> None | Inr x \<Rightarrow> Some x)"

lemma ok_of_simps [simp]: "ok_of (Inl e) = None" "ok_of (Inr x) = Some x"
  by (simp_all add: ok_of_def)

lemma ok_of_case: "ok_of (case r of Inl e \<Rightarrow> Inl e | Inr x \<Rightarrow> f x) = (case ok_of r of None \<Rightarrow> None | Some x \<Rightarrow> ok_of (f x))"
  by (cases r) auto

lemma ok_of_if: "ok_of (if c then x else y) = (if c then ok_of x else ok_of y)"
  by simp

lemma ok_of_countString:
  "ok_of (countString lim s p st) = (if fits lim 0 (utf8_length s) st \<or> st_nodes st > maxNodes lim \<and> st_bytes st + utf8_length s \<le> maxStringBytes lim
     then Some (advance 0 (utf8_length s) st) else None)"
  by (auto simp: countString_def Let_def fits_def advance_def)

lemma fits_advance [simp]: "fits lim n b (advance n' b' st) = fits lim (n' + n) (b' + b) st"
  and advance_advance [simp]: "advance n b (advance n' b' st) = advance (n' + n) (b' + b) st"
  and advance_node: "st\<lparr>st_nodes := Suc (st_nodes st)\<rparr> = advance 1 0 st" "st\<lparr>st_nodes := st_nodes st + 1\<rparr> = advance 1 0 st"
  by (auto simp: fits_def advance_def add.assoc)

lemma fits_mono: "fits lim n b st \<Longrightarrow> n' \<le> n \<Longrightarrow> b' \<le> b \<Longrightarrow> fits lim n' b' st"
  by (auto simp: fits_def)

abbreviation spec_value :: "canonical_limits \<Rightarrow> js_value \<Rightarrow> nat list \<Rightarrow> nat \<Rightarrow> canonical_state \<Rightarrow> (js_string \<times> canonical_state) option" where
  "spec_value lim v anc d st \<equiv> (if good lim anc d v \<and> fits lim (value_nodes v) (value_bytes v) st
     then Some (canonicalizeValidated v, advance (value_nodes v) (value_bytes v) st) else None)"

abbreviation spec_entries :: "canonical_limits \<Rightarrow> js_value list \<Rightarrow> nat list \<Rightarrow> nat \<Rightarrow> canonical_state \<Rightarrow> (js_string list \<times> canonical_state) option" where
  "spec_entries lim xs anc d st \<equiv> (let n = sum_list (map value_nodes xs); b = sum_list (map value_bytes xs) in
     if list_all (good lim anc (d + 1)) xs \<and> fits lim n b st then Some (map canonicalizeValidated xs, advance n b st) else None)"

abbreviation spec_members :: "canonical_limits \<Rightarrow> (js_string \<times> js_value) list \<Rightarrow> nat list \<Rightarrow> nat \<Rightarrow> canonical_state \<Rightarrow> (js_string list \<times> canonical_state) option" where
  "spec_members lim ms anc d st \<equiv> (let n = sum_list (map (\<lambda>m. value_nodes (snd m)) ms);
       b = sum_list (map (\<lambda>m. utf8_length (fst m) + value_bytes (snd m)) ms) in
     if list_all (\<lambda>m. validUnicodeString (fst m) \<and> good lim anc (d + 1) (snd m)) ms \<and> fits lim n b st
     then Some (map member_text ms, advance n b st) else None)"

lemma sum_sorted: "sum_list (map f (sort_key g xs)) = (sum_list (map f xs) :: nat)"
  by (metis mset_map mset_sort sum_mset_sum_list)

lemma canonicalize_value_spec:
  "fits lim 0 0 st \<Longrightarrow> ok_of (canonicalizeValue lim v path anc d st) = spec_value lim v anc d st"
  "fits lim 0 0 st \<Longrightarrow> ok_of (canonEntries lim xs i path anc d st) = spec_entries lim xs anc d st"
  "fits lim 0 0 st \<Longrightarrow> ok_of (canonMembers lim ms path anc d st) = spec_members lim ms anc d st"
proof (induction lim v path anc d st and lim xs i path anc d st and lim ms path anc d st
    rule: canonicalizeValue_canonEntries_canonMembers.induct)
  case (1 lim val path anc depth st0)
  note unf = canonicalizeValue.simps[of lim val path anc depth st0]
  show ?case
  proof (cases "fits lim 1 0 st0 \<and> depth \<le> maxDepth lim")
    case False
    then have "ok_of (canonicalizeValue lim val path anc depth st0) = None"
      using "1.prems" by (auto simp: unf Let_def fits_def)
    moreover from False have "\<not> (good lim anc depth val \<and> fits lim (value_nodes val) (value_bytes val) st0)"
      using value_nodes_pos[of val] by (cases val) (auto simp: good_def fits_def)
    ultimately show ?thesis by simp
  next
    case True
    then have go: "\<not> (st_nodes (st0\<lparr>st_nodes := st_nodes st0 + 1\<rparr>) > maxNodes lim)" "\<not> (depth > maxDepth lim)"
      by (auto simp: fits_def)
    have fit: "fits lim 0 0 (advance 1 0 st0)" using True by simp
    have unf: "ok_of (canonicalizeValue lim val path anc depth st0) = ok_of (case val of
          VNull \<Rightarrow> Inr (jstr ''null'', advance 1 0 st0)
        | VStr s \<Rightarrow> if hasUnpairedUtf16Surrogate s then Inl (path, ''unpaired Unicode surrogate'')
            else (case countString lim s path (advance 1 0 st0) of Inl e \<Rightarrow> Inl e | Inr st' \<Rightarrow> Inr (js_quote s, st'))
        | VBool b \<Rightarrow> Inr (jstr (if b then ''true'' else ''false''), advance 1 0 st0)
        | VNum n \<Rightarrow> if \<not> number_admitted (safeIntegersOnly lim) n then Inl ([], []) else Inr (number_json n, advance 1 0 st0)
        | VHostile why \<Rightarrow> Inl (path, why)
        | VArr i xs \<Rightarrow> if i \<in> set anc then Inl (path, [])
            else (case canonEntries lim xs 0 path (i # anc) depth (advance 1 0 st0) of Inl e \<Rightarrow> Inl e
              | Inr (entries, st') \<Rightarrow> Inr (jstr ''['' @ join_units comma entries @ jstr '']'', st'))
        | VObj i ms \<Rightarrow> if i \<in> set anc then Inl (path, [])
            else (case canonMembers lim (sort_key fst ms) path (i # anc) depth (advance 1 0 st0) of Inl e \<Rightarrow> Inl e
              | Inr (members, st') \<Rightarrow> Inr (jstr ''{'' @ join_units comma members @ jstr ''}'', st')))"
      unfolding unf Let_def using go by (cases val) (auto simp: advance_node)
    show ?thesis
    proof (cases val)
      case (VArr i xs)
      have "i \<notin> set anc \<Longrightarrow> ok_of (canonEntries lim xs 0 path (i # anc) depth (advance 1 0 st0)) = spec_entries lim xs (i # anc) depth (advance 1 0 st0)"
        using "1.IH"(1)[OF refl go VArr] fit unfolding advance_node(2) by blast
      then show ?thesis
        using True unfolding unf by (auto simp: VArr Let_def good_def list_all_iff ok_of_case ok_of_if)
    next
      case (VObj i ms)
      have "i \<notin> set anc \<Longrightarrow> ok_of (canonMembers lim (sort_key fst ms) path (i # anc) depth (advance 1 0 st0))
          = spec_members lim (sort_key fst ms) (i # anc) depth (advance 1 0 st0)"
        using "1.IH"(2)[OF refl go VObj] fit unfolding advance_node(2) by blast
      then show ?thesis
        using True unfolding unf
        by (auto simp: VObj Let_def good_def list_all_iff ok_of_case ok_of_if sum_sorted
            canonicalize_obj case_prod_unfold simp del: canonicalizeValidated.simps)
    next
      case (VStr s)
      then show ?thesis using fit True unfolding unf by (auto simp: good_def surrogate_valid ok_of_case ok_of_countString fits_def advance_def)
    next
      case (VNum n)
      then show ?thesis using True unfolding unf by (cases n) (auto simp: good_def)
    qed (use True in \<open>unfold unf, auto simp: good_def\<close>)
  qed
next
  case (3 lim x xs i path anc depth st)
  show ?case
  proof (cases "good lim anc (depth + 1) x \<and> fits lim (value_nodes x) (value_bytes x) st")
    case False
    then show ?thesis using "3.IH"(1)[OF "3.prems"] by (auto simp: ok_of_case Let_def fits_def)
  next
    case True
    then obtain t st' where r: "canonicalizeValue lim x (index_path path i) anc (depth + 1) st = Inr (t, st')"
      "t = canonicalizeValidated x" "st' = advance (value_nodes x) (value_bytes x) st"
      using "3.IH"(1)[OF "3.prems"] by (auto simp: ok_of_def split: sum.splits)
    show ?thesis using "3.IH"(2)[OF r(1) refl] True r by (auto simp: ok_of_case Let_def)
  qed
next
  case (5 lim k v ms path anc depth st)
  let ?st1 = "advance 0 (utf8_length k) st"
  let ?good = "list_all (\<lambda>m. validUnicodeString (fst m) \<and> good lim anc (depth + 1) (snd m)) ((k, v) # ms)"
  show ?case
  proof (cases "validUnicodeString k \<and> fits lim 0 (utf8_length k) st")
    case False
    then have "ok_of (canonMembers lim ((k, v) # ms) path anc depth st) = None"
      using "5.prems" by (auto simp: surrogate_valid ok_of_case ok_of_countString fits_def)
    with False show ?thesis by (auto simp: Let_def fits_def)
  next
    case key: True
    then have c: "countString lim k (member_path path k) st = Inr ?st1"
      by (auto simp: countString_def advance_def fits_def Let_def)
    have fit1: "fits lim 0 0 ?st1" using key by simp
    have sur: "\<not> hasUnpairedUtf16Surrogate k" using key by (simp add: surrogate_valid)
    note IH1 = "5.IH"(1)[OF sur c fit1]
    show ?thesis
    proof (cases "good lim anc (depth + 1) v \<and> fits lim (value_nodes v) (value_bytes v) ?st1")
      case False
      then have "ok_of (canonMembers lim ((k, v) # ms) path anc depth st) = None"
        using IH1 c sur by (auto simp: ok_of_case)
      with False show ?thesis by (auto simp: Let_def fits_def advance_def)
    next
      case True
      then obtain t st2 where r: "canonicalizeValue lim v (member_path path k) anc (depth + 1) ?st1 = Inr (t, st2)"
        "t = canonicalizeValidated v" "st2 = advance (value_nodes v) (value_bytes v) ?st1"
        using IH1 by (auto simp: ok_of_def split: sum.splits)
      have fit2: "fits lim 0 0 st2" using True r(3) by simp
      show ?thesis
        using "5.IH"(2)[OF sur c r(1) refl fit2] True key r c sur
        by (auto simp: ok_of_case Let_def member_text_def add.assoc)
    qed
  qed
qed (auto simp: advance_def)

subsection \<open>Properties\<close>

lemma shallow_within: "shallow MAX_JSON_DEPTH d v = within_depth d v"
  by (induction v arbitrary: d) (auto simp: list_all_iff)

lemma admitted_plain: "admitted True v = plain_json v"
proof (induction v)
  case (VNum n)
  then show ?case by (cases n) auto
qed (auto simp: list_all_iff)

lemma distinct_acyclic:
  "distinct (identities v) \<Longrightarrow> set (identities v) \<inter> set anc = {} \<Longrightarrow> acyclic_below anc v"
proof (induction v arbitrary: anc)
  case (VArr i xs)
  have "acyclic_below (i # anc) x" if "x \<in> set xs" for x
  proof (rule VArr.IH[OF that])
    show "distinct (identities x)" using VArr.prems(1) that by (auto simp: distinct_concat_iff)
    show "set (identities x) \<inter> set (i # anc) = {}" using VArr.prems that by auto
  qed
  with VArr.prems(2) show ?case by (auto simp: list_all_iff)
next
  case (VObj i ms)
  have "acyclic_below (i # anc) v" if m: "(k, v) \<in> set ms" for k v
  proof (rule VObj.IH[of "(k, v)" v])
    have sub: "set (identities v) \<subseteq> set (concat (map (\<lambda>(k, y). identities y) ms))" using m by force
    show "distinct (identities v)" using VObj.prems(1) m by (auto simp: distinct_concat_iff)
    show "set (identities v) \<inter> set (i # anc) = {}" using VObj.prems sub by auto
  qed (use m in auto)
  with VObj.prems(2) show ?case by (auto simp: list_all_iff)
qed auto

lemma domain_ok_of:
  assumes "d \<le> nat max_safe" "1 \<le> n" "n \<le> nat max_safe" "b \<le> nat max_safe"
  shows "ok_of (canonicalizeJsonDomain v \<lparr>g_maxDepth = Some (Integral (int d)), g_maxNodes = Some (Integral (int n)),
      g_maxStringBytes = Some (Integral (int b))\<rparr> safeOnly) =
    (if admitted safeOnly v \<and> shallow d 0 v \<and> acyclic_below [] v \<and> value_nodes v \<le> n \<and> value_bytes v \<le> b
     then Some (canonicalizeValidated v) else None)"
proof -
  let ?lim = "\<lparr>maxDepth = d, maxNodes = n, maxStringBytes = b, safeIntegersOnly = safeOnly\<rparr>"
  let ?st = "\<lparr>st_nodes = 0, st_bytes = 0\<rparr>"
  have "fits ?lim 0 0 ?st" by (simp add: fits_def)
  from canonicalize_value_spec(1)[OF this, of v "jstr ''$''" "[]" 0] assms show ?thesis
    by (auto simp: canonicalizeJsonDomain_def limit_or_def Let_def safe_int_def max_safe_def ok_of_case good_def fits_def)
qed

text \<open>
  Property C37. The strict canonicalizer decides its domain and writes the canonical text: with any
  admissible limits it succeeds exactly on the values that are JSON of the domain, within the
  depth, node and octet limits and free of cycles, and then returns the text that the execution
  binding writes. The other two entry points differ in the numbers only.
\<close>

theorem canonicalizeJsonDomain_decides:
  assumes "d \<le> nat max_safe" "1 \<le> n" "n \<le> nat max_safe" "b \<le> nat max_safe"
  shows "ok_of (canonicalizeJsonDomain v \<lparr>g_maxDepth = Some (Integral (int d)), g_maxNodes = Some (Integral (int n)),
      g_maxStringBytes = Some (Integral (int b))\<rparr> safeOnly) =
    (if admitted safeOnly v \<and> shallow d 0 v \<and> acyclic_below [] v \<and> value_nodes v \<le> n \<and> value_bytes v \<le> b
     then Some (canonicalizeValidated v) else None)"
  using assms by (rule domain_ok_of)

theorem canonicalizeJsonDomain_decides_witness:
  "ok_of (canonicalizeJsonDomain (VArr 1 [VNum (Fractional ''0.5'')]) \<lparr>g_maxDepth = Some (Integral (int 1)), g_maxNodes = Some (Integral (int 2)),
      g_maxStringBytes = Some (Integral (int 0))\<rparr> False) = Some (jstr ''[0.5]'')
   \<and> ok_of (canonicalizeJsonDomain (VArr 1 [VNum (Fractional ''0.5'')]) \<lparr>g_maxDepth = Some (Integral (int 1)), g_maxNodes = Some (Integral (int 2)),
      g_maxStringBytes = Some (Integral (int 0))\<rparr> True) = None"
  using canonicalizeJsonDomain_decides[of 1 2 0 "VArr 1 [VNum (Fractional ''0.5'')]" False]
    canonicalizeJsonDomain_decides[of 1 2 0 "VArr 1 [VNum (Fractional ''0.5'')]" True]
  by (simp add: max_safe_def)

lemma default_limits:
  "canonicalizeJsonDomain v no_limits safeOnly =
   canonicalizeJsonDomain v \<lparr>g_maxDepth = Some (Integral (int MAX_JSON_DEPTH)), g_maxNodes = Some (Integral (int DEFAULT_MAX_JSON_NODES)),
      g_maxStringBytes = Some (Integral (int DEFAULT_MAX_JSON_STRING_BYTES))\<rparr> safeOnly"
  by (simp add: canonicalizeJsonDomain_def limit_or_def no_limits_def)

lemma strict_ok_of:
  "ok_of (canonicalizeStrictJson v no_limits) =
     (if plain_json v \<and> within_depth 0 v \<and> acyclic_below [] v \<and> value_nodes v \<le> DEFAULT_MAX_JSON_NODES
        \<and> value_bytes v \<le> DEFAULT_MAX_JSON_STRING_BYTES
      then Some (canonicalizeValidated v) else None)"
  unfolding canonicalizeStrictJson_def default_limits
  by (subst domain_ok_of) (simp_all add: MAX_JSON_DEPTH_def DEFAULT_MAX_JSON_NODES_def DEFAULT_MAX_JSON_STRING_BYTES_def
      max_safe_def admitted_plain shallow_within[unfolded MAX_JSON_DEPTH_def])

text \<open>
  The two canonicalizers of the packages agree: a value that the execution binding
  admits is admitted by the strict canonicalizer, with the same text; and the strict text
  determines the value up to the order of object members.
\<close>

theorem canonicalizers_agree:
  assumes "canonicalize v = Inr t"
  shows "canonicalizeStrictJson v no_limits = Inr t
    \<and> (ok_of (canonicalizeStrictJson w no_limits) = Some t \<longrightarrow> same_json v = same_json w)"
proof -
  have j: "canonical_json v" "t = canonicalizeValidated v"
    using assms by (auto simp: canonicalize_def canonical_json_def split: option.splits)
  then have p: "json_profile v" by (simp add: canonical_json_profile)
  then have "ok_of (canonicalizeStrictJson v no_limits) = Some t"
    using distinct_acyclic[of v "[]"] j(2)
    by (simp add: strict_ok_of json_profile_def MAX_JSON_NODES_def DEFAULT_MAX_JSON_NODES_def
        MAX_JSON_STRING_BYTES_def DEFAULT_MAX_JSON_STRING_BYTES_def)
  then have "canonicalizeStrictJson v no_limits = Inr t" by (auto simp: ok_of_def split: sum.splits)
  moreover have "same_json v = same_json w" if "ok_of (canonicalizeStrictJson w no_limits) = Some t"
  proof -
    have w: "plain_json w" "t = canonicalizeValidated w" using that by (auto simp: strict_ok_of split: if_splits)
    have "plain_json v" using p by (simp add: json_profile_def)
    then show ?thesis
      using text_determinesD[OF text_determines_all[of v], of w "[]" "[]"] w j(2) by (simp add: ends_def)
  qed
  ultimately show ?thesis by blast
qed

theorem canonicalizers_agree_witness:
  "canonicalizeStrictJson (VObj 1 [(jstr ''b'', VNum (Integral 2)), (jstr ''a'', VBool True)]) no_limits
    = Inr (jstr ''{'' @ 0x22 # jstr ''a'' @ 0x22 # jstr '':true,'' @ 0x22 # jstr ''b'' @ 0x22 # jstr '':2}'')"
proof -
  let ?v = "VObj 1 [(jstr ''b'', VNum (Integral 2)), (jstr ''a'', VBool True)]"
  have "canonical_json ?v"
    by (simp add: canonical_json_profile json_profile_def MAX_JSON_NODES_def MAX_JSON_STRING_BYTES_def
        MAX_JSON_DEPTH_def u16_def is_high_def is_low_def safe_int_def max_safe_def)
  then have "canonicalize ?v = Inr (canonicalizeValidated ?v)"
    by (simp add: canonicalize_def canonical_json_def split: option.splits)
  moreover have "canonicalizeValidated ?v = jstr ''{'' @ 0x22 # jstr ''a'' @ 0x22 # jstr '':true,'' @ 0x22 # jstr ''b'' @ 0x22 # jstr '':2}''"
    by (simp add: u16_def js_quote_def comma_def is_high_def is_low_def escape_unit_def dec_int_def dec_nat.simps digit_char_def)
  ultimately show ?thesis using canonicalizers_agree[of ?v _ VNull] by simp
qed

end
