(* ===== verification/Effect_Predicates.thy ===== *)
theory Effect_Predicates
  imports Decimal_Strings Strict_Json
begin

section \<open>Predicted effects and their divergence\<close>

text \<open>
  Model of \<open>packages/verify/src/effect-predicates.ts\<close>: the structural validation of the signed
  prediction array and of the observed array, and the evaluation of every prediction. Inputs are
  JSON values (\<^typ>\<open>js_value\<close>; a member that is absent is \<open>None\<close>). The texts of reasons are
  structured values that carry what the code interpolates. \<open>canon\<close> can throw, which is the left
  value of a sum.
\<close>

subsection \<open>Reading members\<close>

fun members_of :: "js_value \<Rightarrow> (js_string \<times> js_value) list option" where
  "members_of (VObj i ms) = Some ms"
| "members_of _ = None"

definition member :: "(js_string \<times> js_value) list \<Rightarrow> string \<Rightarrow> js_value option" where
  "member ms k = map_of ms (jstr k)"

fun string_of :: "js_value option \<Rightarrow> js_string option" where
  "string_of (Some (VStr s)) = Some s"
| "string_of _ = None"

fun is_number :: "js_value option \<Rightarrow> bool" where
  "is_number (Some (VNum n)) = True"
| "is_number _ = False"

fun array_of :: "js_value option \<Rightarrow> js_value list option" where
  "array_of (Some (VArr i xs)) = Some xs"
| "array_of _ = None"

definition MAX_PREDICTED_EFFECTS :: nat where "MAX_PREDICTED_EFFECTS = 64"
definition MAX_OBSERVED_EFFECTS :: nat where "MAX_OBSERVED_EFFECTS = 256"
definition MAX_EFFECT_STRING_LENGTH :: nat where "MAX_EFFECT_STRING_LENGTH = 512"

definition PREDICATE_OPS :: "string list" where
  "PREDICATE_OPS = [''eq'', ''lte'', ''gte'', ''range'', ''set_eq'', ''count_lte'', ''absent'']"
definition OUTCOME_SOURCE_ROLES :: "string list" where
  "OUTCOME_SOURCE_ROLES = [''executor'', ''system_of_record'', ''independent_observer'']"
definition ENTRY_KEYS :: "string list" where
  "ENTRY_KEYS = [''effect_type'', ''target'', ''predicate'', ''required_source_role'', ''required_source_class'']"
definition OBSERVED_ENTRY_KEYS :: "string list" where
  "OBSERVED_ENTRY_KEYS = [''effect_type'', ''target'', ''value'', ''values'']"

definition PREDICATE_KEYS :: "string \<Rightarrow> string list" where
  "PREDICATE_KEYS op = (if op = ''range'' then [''op'', ''min'', ''max''] else if op = ''set_eq'' then [''op'', ''values'']
     else if op = ''absent'' then [''op''] else [''op'', ''value''])"

text \<open>\<open>[...value].length\<close> counts code points.\<close>

fun code_points :: "js_string \<Rightarrow> nat" where
  "code_points [] = 0"
| "code_points (u # us) = (case us of [] \<Rightarrow> 1
     | n # ns \<Rightarrow> if is_high u \<and> is_low n then 1 + code_points ns else 1 + code_points us)"

definition tooLong :: "js_string \<Rightarrow> bool" where
  "tooLong s \<longleftrightarrow> code_points s > MAX_EFFECT_STRING_LENGTH"

definition bounded_string :: "js_value option \<Rightarrow> bool" where
  "bounded_string x = (case string_of x of None \<Rightarrow> False | Some s \<Rightarrow> \<not> tooLong s)"

definition nonempty_bounded :: "js_value option \<Rightarrow> bool" where
  "nonempty_bounded x = (case string_of x of None \<Rightarrow> False | Some s \<Rightarrow> s \<noteq> [] \<and> \<not> tooLong s)"

definition bounded_decimal :: "js_value option \<Rightarrow> bool" where
  "bounded_decimal x = (case string_of x of None \<Rightarrow> False | Some s \<Rightarrow> \<not> tooLong s \<and> isDecimalString s)"

text \<open>\<open>/^(0|[1-9][0-9]*)$/\<close>\<close>

definition integer_text :: "js_string \<Rightarrow> bool" where
  "integer_text s \<longleftrightarrow> s \<noteq> [] \<and> list_all is_digit16 s \<and> (hd s = 0x30 \<longrightarrow> tl s = [])"

definition bounded_count :: "js_value option \<Rightarrow> bool" where
  "bounded_count x = (case string_of x of None \<Rightarrow> False | Some s \<Rightarrow> \<not> tooLong s \<and> integer_text s)"

definition has_star :: "js_value option \<Rightarrow> bool" where
  "has_star x = (case string_of x of None \<Rightarrow> False | Some s \<Rightarrow> 0x2A \<in> set s)"

definition op_name :: "js_value option \<Rightarrow> string option" where
  "op_name x = (case string_of x of None \<Rightarrow> None | Some s \<Rightarrow> List.find (\<lambda>op. jstr op = s) PREDICATE_OPS)"

definition known_role :: "js_value option \<Rightarrow> bool" where
  "known_role x = (case string_of x of None \<Rightarrow> False | Some s \<Rightarrow> list_ex (\<lambda>r. jstr r = s) OUTCOME_SOURCE_ROLES)"

definition unknown_key :: "string list \<Rightarrow> (js_string \<times> js_value) list \<Rightarrow> js_string option" where
  "unknown_key allowed ms = List.find (\<lambda>k. k \<notin> set (map jstr allowed)) (map fst ms)"

subsection \<open>Validation of the signed predictions\<close>

datatype entry_problem = Not_object | Unknown_member js_string | Bad_effect_type | Bad_target | Target_pattern
  | Bad_source_role | Bad_source_class | Predicate_not_object | Unknown_op "js_value option"
  | Unknown_predicate_member string js_string | Is_number string | Not_bounded_string string | Not_decimal string
  | Min_above_max | Not_bounded_array | Values_contain_number | Values_not_strings | Not_count
  | Not_one_of_value_or_values

datatype effect_reason = Not_array | Too_many | Problem nat entry_problem

definition decimal_field :: "(js_string \<times> js_value) list \<Rightarrow> string \<Rightarrow> entry_problem list" where
  "decimal_field p f = (if is_number (member p f) then [Is_number f]
     else if \<not> bounded_decimal (member p f) then [Not_decimal f] else [])"

fun values_problem :: "js_value list \<Rightarrow> entry_problem list" where
  "values_problem [] = []"
| "values_problem (v # vs) = (if is_number (Some v) then [Values_contain_number]
     else if \<not> bounded_string (Some v) then [Values_not_strings] else values_problem vs)"

definition text_of :: "js_value option \<Rightarrow> js_string" where
  "text_of x = (case string_of x of None \<Rightarrow> [] | Some s \<Rightarrow> s)"

definition predicate_problems :: "(js_string \<times> js_value) list \<Rightarrow> entry_problem list" where
  "predicate_problems p = (case op_name (member p ''op'') of
       None \<Rightarrow> [Unknown_op (member p ''op'')]
     | Some op \<Rightarrow> (case unknown_key (PREDICATE_KEYS op) p of
         Some k \<Rightarrow> [Unknown_predicate_member op k]
       | None \<Rightarrow>
          if op = ''eq'' then
            (if is_number (member p ''value'') then [Is_number ''value'']
             else if \<not> bounded_string (member p ''value'') then [Not_bounded_string ''value''] else [])
          else if op = ''lte'' \<or> op = ''gte'' then decimal_field p ''value''
          else if op = ''range'' then
            (let bad = decimal_field p ''min'' @ decimal_field p ''max'' in
             if bad = [] \<and> compareDecimalStrings (text_of (member p ''min'')) (text_of (member p ''max'')) = Some 1
             then [Min_above_max] else bad)
          else if op = ''set_eq'' then
            (case array_of (member p ''values'') of
               None \<Rightarrow> [Not_bounded_array]
             | Some vs \<Rightarrow> if length vs > MAX_OBSERVED_EFFECTS then [Not_bounded_array] else values_problem vs)
          else if op = ''count_lte'' then
            (if is_number (member p ''value'') then [Is_number ''value'']
             else if \<not> bounded_count (member p ''value'') then [Not_count] else [])
          else []))"

definition prediction_problems :: "js_value \<Rightarrow> entry_problem list" where
  "prediction_problems entry = (case members_of entry of
       None \<Rightarrow> [Not_object]
     | Some ms \<Rightarrow> (case unknown_key ENTRY_KEYS ms of
         Some k \<Rightarrow> [Unknown_member k]
       | None \<Rightarrow>
          if \<not> nonempty_bounded (member ms ''effect_type'') then [Bad_effect_type]
          else if \<not> nonempty_bounded (member ms ''target'') then [Bad_target]
          else if has_star (member ms ''target'') then [Target_pattern]
          else if member ms ''required_source_role'' \<noteq> None \<and> \<not> known_role (member ms ''required_source_role'') then [Bad_source_role]
          else if member ms ''required_source_class'' \<noteq> None \<and> \<not> nonempty_bounded (member ms ''required_source_class'')
            then [Bad_source_class]
          else (case member ms ''predicate'' of None \<Rightarrow> [Predicate_not_object]
            | Some pv \<Rightarrow> (case members_of pv of None \<Rightarrow> [Predicate_not_object] | Some p \<Rightarrow> predicate_problems p))))"

definition indexed :: "('a \<Rightarrow> entry_problem list) \<Rightarrow> 'a list \<Rightarrow> effect_reason list" where
  "indexed f xs = concat (map (\<lambda>(i, x). map (Problem i) (f x)) (enumerate 0 xs))"

definition validatePredictedEffects :: "js_value \<Rightarrow> effect_reason list" where
  "validatePredictedEffects predicted = (case array_of (Some predicted) of
       None \<Rightarrow> [Not_array]
     | Some entries \<Rightarrow> if length entries = 0 then [Not_array]
         else if length entries > MAX_PREDICTED_EFFECTS then [Too_many] else indexed prediction_problems entries)"

subsection \<open>Validation of the observed effects\<close>

definition observation_problems :: "js_value \<Rightarrow> entry_problem list" where
  "observation_problems entry = (case members_of entry of
       None \<Rightarrow> [Not_object]
     | Some ms \<Rightarrow> (let hasValue = member ms ''value'' \<noteq> None; hasValues = member ms ''values'' \<noteq> None in
         map Unknown_member (filter (\<lambda>k. k \<notin> set (map jstr OBSERVED_ENTRY_KEYS)) (map fst ms))
         @ (if \<not> nonempty_bounded (member ms ''effect_type'') then [Bad_effect_type] else [])
         @ (if \<not> nonempty_bounded (member ms ''target'') \<or> has_star (member ms ''target'') then [Bad_target] else [])
         @ (if hasValue = hasValues then [Not_one_of_value_or_values] else [])
         @ (if hasValue \<and> is_number (member ms ''value'') then [Is_number ''value'']
            else if hasValue \<and> \<not> bounded_string (member ms ''value'') then [Not_bounded_string ''value''] else [])
         @ (if \<not> hasValues then []
            else (case array_of (member ms ''values'') of
                None \<Rightarrow> [Not_bounded_array]
              | Some vs \<Rightarrow> if length vs > MAX_OBSERVED_EFFECTS then [Not_bounded_array]
                  else map (\<lambda>v. Values_not_strings) (filter (\<lambda>v. \<not> bounded_string (Some v)) vs)))))"

definition validateObservedEffects :: "js_value \<Rightarrow> effect_reason list" where
  "validateObservedEffects observed = (case array_of (Some observed) of
       None \<Rightarrow> [Not_array]
     | Some entries \<Rightarrow> if length entries > MAX_OBSERVED_EFFECTS then [Too_many] else indexed observation_problems entries)"

subsection \<open>Evaluation\<close>

datatype divergence_outcome = In_bounds | Divergent | Incomparable

datatype entry_reason = Absent_observed nat | Count_above js_string js_string | No_observed | Ambiguous nat
  | No_values_array | Values_non_string | Set_differs "js_string list" "js_string list" | Value_number | No_string_value
  | Eq_differs js_string js_string | Value_not_decimal js_string | Above js_string js_string | Below js_string js_string
  | Below_min js_string | Above_max js_string

type_synonym entry_result = "divergence_outcome \<times> entry_reason option"

definition in_bounds :: entry_result where "in_bounds = (In_bounds, None)"
definition divergent :: "entry_reason \<Rightarrow> entry_result" where "divergent r = (Divergent, Some r)"
definition incomparable :: "entry_reason \<Rightarrow> entry_result" where "incomparable r = (Incomparable, Some r)"

text \<open>A comparison that the comments of the code show never to be null; \<open>0\<close> stands for null here.\<close>

definition cmp :: "js_string \<Rightarrow> js_string \<Rightarrow> int" where
  "cmp a b = (case compareDecimalStrings a b of None \<Rightarrow> 0 | Some c \<Rightarrow> c)"

definition strings_of :: "js_value list \<Rightarrow> js_string list" where
  "strings_of vs = map (\<lambda>v. text_of (Some v)) vs"

text \<open>\<open>[...new Set(values)].sort()\<close>\<close>

definition sorted_set :: "js_string list \<Rightarrow> js_string list" where
  "sorted_set xs = sort (remdups xs)"

definition canon :: "js_string list \<Rightarrow> domain_error + js_string" where
  "canon xs = canonicalizeStrictJson (VArr 0 (map VStr xs)) no_limits"

definition evaluateEntry :: "(js_string \<times> js_value) list \<Rightarrow> (js_string \<times> js_value) list list \<Rightarrow> domain_error + entry_result" where
  "evaluateEntry p matches = (let op = text_of (member p ''op''); pv = text_of (member p ''value'') in
     if op = jstr ''absent'' then Inr (if length matches = 0 then in_bounds else divergent (Absent_observed (length matches)))
     else if op = jstr ''count_lte'' then
       (let count = jstr (dec_nat (length matches)) in
        Inr (if cmp count pv \<le> 0 then in_bounds else divergent (Count_above pv count)))
     else if length matches = 0 then Inr (incomparable No_observed)
     else if length matches > 1 then Inr (incomparable (Ambiguous (length matches)))
     else (let obs = hd matches in
       if op = jstr ''set_eq'' then
         (case array_of (member obs ''values'') of
            None \<Rightarrow> Inr (incomparable No_values_array)
          | Some vs \<Rightarrow>
              if list_ex (\<lambda>v. string_of (Some v) = None) vs then Inr (incomparable Values_non_string)
              else (let want = sorted_set (strings_of (case array_of (member p ''values'') of None \<Rightarrow> [] | Some ws \<Rightarrow> ws));
                        got = sorted_set (strings_of vs) in
                case canon want of Inl e \<Rightarrow> Inl e
                | Inr w \<Rightarrow> (case canon got of Inl e \<Rightarrow> Inl e
                  | Inr g \<Rightarrow> Inr (if w = g then in_bounds else divergent (Set_differs want got)))))
       else if is_number (member obs ''value'') then Inr (incomparable Value_number)
       else (case string_of (member obs ''value'') of
           None \<Rightarrow> Inr (incomparable No_string_value)
         | Some ov \<Rightarrow>
             if op = jstr ''eq'' then Inr (if ov = pv then in_bounds else divergent (Eq_differs pv ov))
             else if \<not> isDecimalString ov then Inr (incomparable (Value_not_decimal ov))
             else if op = jstr ''lte'' then Inr (if cmp ov pv \<le> 0 then in_bounds else divergent (Above pv ov))
             else if op = jstr ''gte'' then Inr (if cmp ov pv \<ge> 0 then in_bounds else divergent (Below pv ov))
             else if cmp ov (text_of (member p ''min'')) < 0 then Inr (divergent (Below_min ov))
             else if cmp ov (text_of (member p ''max'')) > 0 then Inr (divergent (Above_max ov))
             else Inr in_bounds)))"

record effect_result =
  r_effect_type :: js_string
  r_target :: js_string
  r_op :: js_string
  r_outcome :: divergence_outcome
  r_reason :: "entry_reason option"

datatype evaluation_reason = Malformed_predicted effect_reason | Malformed_observed effect_reason | Entry_reason entry_reason

record effects_evaluation =
  outcome :: divergence_outcome
  results :: "effect_result list"
  reasons :: "evaluation_reason list"

definition matches_entry :: "(js_string \<times> js_value) list \<Rightarrow> js_value \<Rightarrow> bool" where
  "matches_entry ms ob = (case members_of ob of None \<Rightarrow> False
     | Some os \<Rightarrow> member os ''effect_type'' = member ms ''effect_type'' \<and> member os ''target'' = member ms ''target'')"

definition object_members :: "js_value \<Rightarrow> (js_string \<times> js_value) list" where
  "object_members v = (case members_of v of None \<Rightarrow> [] | Some ms \<Rightarrow> ms)"

definition entry_predicate :: "js_value \<Rightarrow> (js_string \<times> js_value) list" where
  "entry_predicate e = (case member (object_members e) ''predicate'' of None \<Rightarrow> [] | Some p \<Rightarrow> object_members p)"

definition entry_matches :: "js_value \<Rightarrow> js_value list \<Rightarrow> (js_string \<times> js_value) list list" where
  "entry_matches e obs = map object_members (filter (matches_entry (object_members e)) obs)"

definition evaluate_one :: "js_value list \<Rightarrow> js_value \<Rightarrow> domain_error + effect_result" where
  "evaluate_one obs e = (case evaluateEntry (entry_predicate e) (entry_matches e obs) of Inl err \<Rightarrow> Inl err
     | Inr (oc, r) \<Rightarrow> Inr \<lparr>r_effect_type = text_of (member (object_members e) ''effect_type''),
         r_target = text_of (member (object_members e) ''target''), r_op = text_of (member (entry_predicate e) ''op''),
         r_outcome = oc, r_reason = r\<rparr>)"

fun map_throw :: "('a \<Rightarrow> 'e + 'b) \<Rightarrow> 'a list \<Rightarrow> 'e + 'b list" where
  "map_throw f [] = Inr []"
| "map_throw f (x # xs) = (case f x of Inl e \<Rightarrow> Inl e | Inr y \<Rightarrow>
     (case map_throw f xs of Inl e \<Rightarrow> Inl e | Inr ys \<Rightarrow> Inr (y # ys)))"

definition overall :: "effect_result list \<Rightarrow> divergence_outcome" where
  "overall rs = (if list_ex (\<lambda>r. r_outcome r = Divergent) rs then Divergent
     else if list_ex (\<lambda>r. r_outcome r = Incomparable) rs then Incomparable else In_bounds)"

definition evaluatePredictedEffects :: "js_value \<Rightarrow> js_value \<Rightarrow> domain_error + effects_evaluation" where
  "evaluatePredictedEffects predicted observed = (let structural = validatePredictedEffects predicted in
     if structural \<noteq> [] then Inr \<lparr>outcome = Incomparable, results = [], reasons = map Malformed_predicted structural\<rparr>
     else (let observedStructural = validateObservedEffects observed in
       if observedStructural \<noteq> [] then Inr \<lparr>outcome = Incomparable, results = [], reasons = map Malformed_observed observedStructural\<rparr>
       else (case map_throw (evaluate_one (case array_of (Some observed) of None \<Rightarrow> [] | Some os \<Rightarrow> os))
             (case array_of (Some predicted) of None \<Rightarrow> [] | Some es \<Rightarrow> es) of
           Inl e \<Rightarrow> Inl e
         | Inr rs \<Rightarrow> Inr \<lparr>outcome = overall rs, results = rs,
             reasons = map (\<lambda>r. Entry_reason (the (r_reason r))) (filter (\<lambda>r. r_reason r \<noteq> None) rs)\<rparr>)))"

definition predictedEffectsDigest :: "(js_string \<Rightarrow> string) \<Rightarrow> js_value \<Rightarrow> domain_error + string" where
  "predictedEffectsDigest sha v = (case canonicalizeStrictJson v no_limits of Inl e \<Rightarrow> Inl e | Inr t \<Rightarrow> Inr (''sha256:'' @ sha t))"

subsection \<open>What a prediction says\<close>

definition single_value :: "(js_string \<times> js_value) list list \<Rightarrow> (js_string \<Rightarrow> bool) \<Rightarrow> bool" where
  "single_value ms P \<longleftrightarrow> (\<exists>ob v. ms = [ob] \<and> string_of (member ob ''value'') = Some v \<and> P v)"

definition predicate_holds :: "(js_string \<times> js_value) list \<Rightarrow> (js_string \<times> js_value) list list \<Rightarrow> bool" where
  "predicate_holds p ms \<longleftrightarrow> (let op = text_of (member p ''op''); pv = text_of (member p ''value'') in
     if op = jstr ''absent'' then ms = []
     else if op = jstr ''count_lte'' then rat_of_nat (length ms) \<le> decimal_value pv
     else if op = jstr ''set_eq'' then (\<exists>ob vs ws. ms = [ob] \<and> array_of (member ob ''values'') = Some vs
       \<and> array_of (member p ''values'') = Some ws \<and> set (strings_of vs) = set (strings_of ws))
     else if op = jstr ''eq'' then single_value ms (\<lambda>v. v = pv)
     else if op = jstr ''lte'' then single_value ms (\<lambda>v. isDecimalString v \<and> decimal_value v \<le> decimal_value pv)
     else if op = jstr ''gte'' then single_value ms (\<lambda>v. isDecimalString v \<and> decimal_value pv \<le> decimal_value v)
     else single_value ms (\<lambda>v. isDecimalString v \<and> decimal_value (text_of (member p ''min'')) \<le> decimal_value v
       \<and> decimal_value v \<le> decimal_value (text_of (member p ''max''))))"

lemma cmp_sign:
  assumes "isDecimalString a" "isDecimalString b"
  shows "cmp a b \<le> 0 \<longleftrightarrow> decimal_value a \<le> decimal_value b" "0 \<le> cmp a b \<longleftrightarrow> decimal_value b \<le> decimal_value a"
    "cmp a b < 0 \<longleftrightarrow> decimal_value a < decimal_value b" "0 < cmp a b \<longleftrightarrow> decimal_value b < decimal_value a"
proof -
  have "rat_of_int (cmp a b) = sgn (decimal_value a - decimal_value b)"
    by (rule compareDecimalStrings_sgn[OF assms]) (simp add: cmp_def)
  then have "cmp a b = (if decimal_value a < decimal_value b then -1 else if decimal_value a = decimal_value b then 0 else 1)"
    by (auto simp: sgn_if split: if_splits)
  then show "cmp a b \<le> 0 \<longleftrightarrow> decimal_value a \<le> decimal_value b" "0 \<le> cmp a b \<longleftrightarrow> decimal_value b \<le> decimal_value a"
    "cmp a b < 0 \<longleftrightarrow> decimal_value a < decimal_value b" "0 < cmp a b \<longleftrightarrow> decimal_value b < decimal_value a"
    by auto
qed

text \<open>Counts are decimal strings.\<close>

lemma integer_groups: "integer_text s \<Longrightarrow> decimal_groups s = Some (False, s, [])"
proof -
  assume s: "integer_text s"
  then have all: "\<And>u. u \<in> set s \<Longrightarrow> is_digit16 u" by (auto simp: integer_text_def list_all_iff)
  then have tw: "takeWhile is_digit16 s = s" "dropWhile is_digit16 s = []" by auto
  have "hd s \<noteq> 0x2D" using all[of "hd s"] s by (auto simp: integer_text_def is_digit16_def)
  with s show ?thesis unfolding decimal_groups_def integer_text_def Let_def
    by (simp add: tw del: takeWhile_eq_all_conv dropWhile_eq_Nil_conv)
qed

lemma integer_decimal: "integer_text s \<Longrightarrow> isDecimalString s \<and> decimal_value s = of_nat (digits_val s)"
  using integer_groups[of s] by (simp add: isDecimalString_def splitDecimal_def decimal_value_def magnitude_def Let_def)

lemma digit_unit: "d < 10 \<Longrightarrow> is_digit16 (u16 (digit_char d)) \<and> digit16_val (u16 (digit_char d)) = d \<and> (u16 (digit_char d) = 0x30 \<longleftrightarrow> d = 0)"
proof -
  assume "d < 10"
  then have "unat (u16 (digit_char d)) = 48 + d" by (simp add: u16_nat digit_char_def)
  with \<open>d < 10\<close> show ?thesis by (auto simp: is_digit16_def digit16_val_def word_le_nat_alt word_unat_eq_iff)
qed

lemma dec_nat_text: "integer_text (jstr (dec_nat n)) \<and> digits_val (jstr (dec_nat n)) = n \<and> (hd (jstr (dec_nat n)) = 0x30 \<longrightarrow> n = 0)"
proof (induction n rule: dec_nat.induct)
  case (1 n)
  show ?case
  proof (cases "n < 10")
    case True
    then show ?thesis using digit_unit[of n] by (simp add: dec_nat.simps[of n] integer_text_def)
  next
    case False
    with 1 have IH: "integer_text (jstr (dec_nat (n div 10)))" "digits_val (jstr (dec_nat (n div 10))) = n div 10"
      "hd (jstr (dec_nat (n div 10))) \<noteq> 0x30" by auto
    with digit_unit[of "n mod 10"] False show ?thesis
      by (simp add: dec_nat.simps[of n] integer_text_def digits_val_append hd_append)
  qed
qed

lemma count_value: "isDecimalString (jstr (dec_nat n)) \<and> decimal_value (jstr (dec_nat n)) = of_nat n"
  using integer_decimal[of "jstr (dec_nat n)"] dec_nat_text[of n] by simp

text \<open>Canonical texts of lists of strings.\<close>

lemma canon_ok_of:
  "ok_of (canon xs) = (if list_all validUnicodeString xs \<and> length xs < DEFAULT_MAX_JSON_NODES
      \<and> sum_list (map utf8_length xs) \<le> DEFAULT_MAX_JSON_STRING_BYTES
    then Some (canonicalizeValidated (VArr 0 (map VStr xs))) else None)"
proof -
  have "sum_list (map (\<lambda>x. Suc 0) xs) = length xs" by (induction xs) auto
  then show ?thesis
    unfolding canon_def strict_ok_of
    by (auto simp: MAX_JSON_DEPTH_def comp_def list_all_iff)
qed

lemma canon_inj:
  assumes "canon xs = Inr w" "canon ys = Inr g"
  shows "w = g \<longleftrightarrow> xs = ys"
proof
  assume "w = g"
  have v: "list_all validUnicodeString xs" "w = canonicalizeValidated (VArr 0 (map VStr xs))"
    "list_all validUnicodeString ys" "g = canonicalizeValidated (VArr 0 (map VStr ys))"
    using canon_ok_of[of xs] canon_ok_of[of ys] assms by (auto split: if_splits)
  then have "same_json (VArr 0 (map VStr xs)) = same_json (VArr 0 (map VStr ys))"
    using text_determinesD[OF text_determines_all[of "VArr 0 (map VStr xs)"], of "VArr 0 (map VStr ys)" "[]" "[]"] \<open>w = g\<close>
    by (auto simp: ends_def list_all_iff)
  then have "map VStr xs = map VStr ys" by (simp add: comp_def)
  then show "xs = ys" by (metis inj_map_eq_map injI js_value.inject(3))
qed (use assms in simp)

lemma sorted_set_eq: "sorted_set xs = sorted_set ys \<longleftrightarrow> set xs = set ys"
proof
  assume "sorted_set xs = sorted_set ys"
  then have "set (sorted_set xs) = set (sorted_set ys)" by simp
  then show "set xs = set ys" by (simp add: sorted_set_def)
next
  assume "set xs = set ys"
  then show "sorted_set xs = sorted_set ys"
    unfolding sorted_set_def by (metis sorted_list_of_set_sort_remdups)
qed

subsection \<open>What validation guarantees\<close>

definition op_in :: "(js_string \<times> js_value) list \<Rightarrow> string \<Rightarrow> bool" where
  "op_in p op \<longleftrightarrow> text_of (member p ''op'') = jstr op"

lemma op_name_Some: "op_name x = Some op \<Longrightarrow> op \<in> set PREDICATE_OPS \<and> text_of x = jstr op"
  by (auto simp: op_name_def text_of_def find_Some_iff split: option.splits)

lemma decimal_field_ok: "decimal_field p f = [] \<Longrightarrow> isDecimalString (text_of (member p f))"
  by (auto simp: decimal_field_def bounded_decimal_def text_of_def split: option.splits if_splits)

lemma bounded_count_ok: "bounded_count x \<Longrightarrow> isDecimalString (text_of x)"
  using integer_decimal by (auto simp: bounded_count_def text_of_def split: option.splits)

text \<open>The operations are told apart by their names.\<close>

lemma predicate_valid:
  assumes "predicate_problems p = []"
  obtains (eq) "op_in p ''eq''"
  | (lte) "op_in p ''lte''" "isDecimalString (text_of (member p ''value''))"
  | (gte) "op_in p ''gte''" "isDecimalString (text_of (member p ''value''))"
  | (range) "op_in p ''range''" "isDecimalString (text_of (member p ''min''))" "isDecimalString (text_of (member p ''max''))"
  | (set_eq) ws where "op_in p ''set_eq''" "array_of (member p ''values'') = Some ws" "length ws \<le> MAX_OBSERVED_EFFECTS" "values_problem ws = []"
  | (count_lte) "op_in p ''count_lte''" "isDecimalString (text_of (member p ''value''))"
  | (absent) "op_in p ''absent''"
proof -
  have "op_name (member p ''op'') \<noteq> None"
  proof
    assume "op_name (member p ''op'') = None"
    then have "predicate_problems p = [Unknown_op (member p ''op'')]" by (simp add: predicate_problems_def)
    with assms show False by simp
  qed
  then obtain op where op: "op_name (member p ''op'') = Some op" by blast
  have "unknown_key (PREDICATE_KEYS op) p = None"
  proof (rule ccontr)
    assume "unknown_key (PREDICATE_KEYS op) p \<noteq> None"
    then obtain k where "unknown_key (PREDICATE_KEYS op) p = Some k" by blast
    with op have "predicate_problems p = [Unknown_predicate_member op k]" by (simp add: predicate_problems_def)
    with assms show False by simp
  qed
  note body = assms[unfolded predicate_problems_def op option.case this]
  have name: "op_in p op" "op \<in> set PREDICATE_OPS" using op_name_Some[OF op] by (auto simp: op_in_def)
  have "op = ''eq'' \<or> op = ''lte'' \<or> op = ''gte'' \<or> op = ''range'' \<or> op = ''set_eq'' \<or> op = ''count_lte'' \<or> op = ''absent''"
    using name(2) by (simp only: PREDICATE_OPS_def list.set insert_iff empty_iff simp_thms)
  then show ?thesis
  proof (elim disjE, goal_cases)
    case 1
    with name(1) show ?thesis by (intro eq) simp
  next
    case 2
    with name(1) body show ?thesis by (intro lte) (auto intro: decimal_field_ok)
  next
    case 3
    with name(1) body show ?thesis by (intro gte) (auto intro: decimal_field_ok)
  next
    case 4
    with body have "decimal_field p ''min'' = []" "decimal_field p ''max'' = []" by (auto simp: Let_def split: if_splits)
    with 4 name(1) show ?thesis by (intro range) (auto intro: decimal_field_ok)
  next
    case 5
    with body obtain ws where "array_of (member p ''values'') = Some ws" "length ws \<le> MAX_OBSERVED_EFFECTS" "values_problem ws = []"
      by (auto split: option.splits if_splits)
    with 5 name(1) show ?thesis by (intro set_eq) simp_all
  next
    case 6
    with name(1) body show ?thesis by (intro count_lte) (auto intro: bounded_count_ok split: if_splits)
  next
    case 7
    with name(1) show ?thesis by (intro absent) simp
  qed
qed

lemma values_strings: "values_problem ws = [] \<Longrightarrow> list_all (\<lambda>v. bounded_string (Some v)) ws"
  by (induction ws) (auto split: if_splits)

lemma in_bounds_simps [simp]:
  "fst in_bounds = In_bounds" "fst (divergent r) = Divergent" "fst (incomparable r) = Incomparable"
  by (simp_all add: in_bounds_def divergent_def incomparable_def)

lemma single_match: "length ms \<noteq> 0 \<Longrightarrow> \<not> length ms > 1 \<Longrightarrow> \<exists>ob. ms = [ob]"
  by (cases ms) auto

lemma not_single: "length ms = 0 \<or> length ms > 1 \<Longrightarrow> \<not> single_value ms P \<and> (\<forall>ob. ms \<noteq> [ob])"
  by (auto simp: single_value_def)

definition observation_strings :: "(js_string \<times> js_value) list \<Rightarrow> bool" where
  "observation_strings ob \<longleftrightarrow> (\<forall>vs. array_of (member ob ''values'') = Some vs \<longrightarrow> list_all (\<lambda>v. string_of (Some v) \<noteq> None) vs)"

lemma op_inD: "op_in p op \<Longrightarrow> text_of (member p ''op'') = jstr op"
  by (simp add: op_in_def)

lemma evaluate_single:
  assumes op: "op_in p op" "op \<in> {''eq'', ''lte'', ''gte'', ''range''}" and r: "evaluateEntry p [ob] = Inr r"
    and dec: "op \<noteq> ''eq'' \<longrightarrow> (if op = ''range'' then isDecimalString (text_of (member p ''min'')) \<and> isDecimalString (text_of (member p ''max''))
      else isDecimalString (text_of (member p ''value'')))"
  shows "fst r = In_bounds \<longleftrightarrow> predicate_holds p [ob]"
proof (cases "string_of (member ob ''value'')")
  case None
  then have "fst r \<noteq> In_bounds" using r op(2) by (auto simp: evaluateEntry_def op_inD[OF op(1)] Let_def split: if_splits)
  moreover have "\<not> single_value [ob] P" for P using None by (simp add: single_value_def)
  ultimately show ?thesis using op by (auto simp: predicate_holds_def op_inD[OF op(1)])
next
  case (Some v)
  then have num: "\<not> is_number (member ob ''value'')" by (cases "member ob ''value''" rule: is_number.cases) auto
  have one: "single_value [ob] P \<longleftrightarrow> P v" for P using Some by (simp add: single_value_def)
  show ?thesis
    using op(2) r dec num Some
    by (elim insertE emptyE)
      (auto simp: evaluateEntry_def predicate_holds_def op_inD[OF op(1)] Let_def one cmp_sign not_less split: if_splits)
qed

lemma evaluate_not_single:
  assumes "op_in p op" "op \<in> {''eq'', ''lte'', ''gte'', ''range'', ''set_eq''}" "evaluateEntry p ms = Inr r" "length ms = 0 \<or> length ms > 1"
  shows "fst r \<noteq> In_bounds \<and> \<not> predicate_holds p ms"
proof
  show "fst r \<noteq> In_bounds"
    using assms(2-4) by (auto simp: evaluateEntry_def op_inD[OF assms(1)] Let_def split: if_splits)
  show "\<not> predicate_holds p ms"
    using assms(2) not_single[OF assms(4)] by (auto simp: predicate_holds_def op_inD[OF assms(1)])
qed

lemma evaluate_set:
  assumes op: "op_in p ''set_eq''" and ws: "array_of (member p ''values'') = Some ws"
    and r: "evaluateEntry p [ob] = Inr r" and ob: "observation_strings ob"
  shows "fst r = In_bounds \<longleftrightarrow> predicate_holds p [ob]"
proof (cases "array_of (member ob ''values'')")
  case None
  then show ?thesis using r by (auto simp: evaluateEntry_def predicate_holds_def op_inD[OF op] Let_def)
next
  case (Some vs)
  have str: "\<not> list_ex (\<lambda>v. string_of (Some v) = None) vs" using ob Some by (auto simp: observation_strings_def list_all_iff list_ex_iff)
  let ?w = "sorted_set (strings_of ws)" and ?g = "sorted_set (strings_of vs)"
  obtain w g where wg: "canon ?w = Inr w" "canon ?g = Inr g" "fst r = In_bounds \<longleftrightarrow> w = g"
    using r str Some ws by (auto simp: evaluateEntry_def op_inD[OF op] Let_def split: sum.splits if_splits)
  have "predicate_holds p [ob] \<longleftrightarrow> set (strings_of vs) = set (strings_of ws)"
    using Some ws by (simp add: predicate_holds_def op_inD[OF op])
  with wg(3) canon_inj[OF wg(1,2)] show ?thesis by (auto simp: sorted_set_eq)
qed

lemma evaluateEntry_in_bounds:
  assumes valid: "predicate_problems p = []" and r: "evaluateEntry p ms = Inr r"
    and obs: "\<And>ob. ob \<in> set ms \<Longrightarrow> observation_strings ob"
  shows "fst r = In_bounds \<longleftrightarrow> predicate_holds p ms"
proof -
  have single: ?thesis if "op_in p op" "op \<in> {''eq'', ''lte'', ''gte'', ''range'', ''set_eq''}"
      "\<And>ob. ms = [ob] \<Longrightarrow> fst r = In_bounds \<longleftrightarrow> predicate_holds p [ob]" for op
  proof (cases "length ms = 0 \<or> length ms > 1")
    case True
    from evaluate_not_single[OF that(1,2) r this] show ?thesis by blast
  next
    case False
    with single_match[of ms] that(3) show ?thesis by blast
  qed
  show ?thesis
    using valid
  proof (cases rule: predicate_valid)
    case absent
    then show ?thesis using r by (auto simp: evaluateEntry_def predicate_holds_def op_inD[OF absent] Let_def split: if_splits)
  next
    case count_lte
    then show ?thesis
      using r count_value[of "length ms"]
      by (auto simp: evaluateEntry_def predicate_holds_def op_inD[OF count_lte(1)] Let_def cmp_sign split: if_splits)
  next
    case (set_eq ws)
    show ?thesis by (rule single[OF set_eq(1)]) (use evaluate_set[OF set_eq(1,2)] r obs in auto)
  next
    case eq
    show ?thesis by (rule single[OF eq]) (use evaluate_single[OF eq] r in auto)
  next
    case lte
    show ?thesis by (rule single[OF lte(1)]) (use evaluate_single[OF lte(1)] lte(2) r in auto)
  next
    case gte
    show ?thesis by (rule single[OF gte(1)]) (use evaluate_single[OF gte(1)] gte(2) r in auto)
  next
    case range
    show ?thesis by (rule single[OF range(1)]) (use evaluate_single[OF range(1)] range(2,3) r in auto)
  qed
qed

subsection \<open>The whole evaluation\<close>

lemma indexed_Nil: "indexed f xs = [] \<longleftrightarrow> (\<forall>x \<in> set xs. f x = [])"
proof -
  have "concat (map (\<lambda>(i, x). map (Problem i) (f x)) (enumerate n xs)) = [] \<longleftrightarrow> (\<forall>x \<in> set xs. f x = [])" for n
    by (induction xs arbitrary: n) auto
  then show ?thesis by (simp add: indexed_def)
qed

lemma predicted_valid:
  "validatePredictedEffects predicted = [] \<longleftrightarrow>
    (\<exists>es. array_of (Some predicted) = Some es \<and> es \<noteq> [] \<and> length es \<le> MAX_PREDICTED_EFFECTS \<and> (\<forall>e \<in> set es. prediction_problems e = []))"
  by (auto simp: validatePredictedEffects_def indexed_Nil split: option.splits)

lemma observed_valid:
  "validateObservedEffects observed = [] \<longleftrightarrow>
    (\<exists>obs. array_of (Some observed) = Some obs \<and> length obs \<le> MAX_OBSERVED_EFFECTS \<and> (\<forall>ob \<in> set obs. observation_problems ob = []))"
  by (auto simp: validateObservedEffects_def indexed_Nil split: option.splits)

lemma if_Nil: "(if c then [x] else ys) = [] \<longleftrightarrow> \<not> c \<and> ys = []"
  by simp

lemma prediction_predicate_ok:
  assumes "prediction_problems e = []"
  shows "predicate_problems (entry_predicate e) = []"
proof -
  obtain ms where ms: "members_of e = Some ms" using assms by (cases "members_of e") (simp_all add: prediction_problems_def)
  note a1 = assms[unfolded prediction_problems_def ms option.case]
  have uk: "unknown_key ENTRY_KEYS ms = None" using a1 by (cases "unknown_key ENTRY_KEYS ms") simp_all
  note a2 = a1[unfolded uk option.case if_Nil]
  obtain pv where pv: "member ms ''predicate'' = Some pv" using a2 by (cases "member ms ''predicate''") simp_all
  obtain p where p: "members_of pv = Some p" using a2 unfolding pv option.case by (cases "members_of pv") simp_all
  have "predicate_problems p = []" using a2 unfolding pv option.case p by blast
  then show ?thesis by (simp add: entry_predicate_def object_members_def ms pv p)
qed

lemma array_of_Some: "array_of x = Some vs \<Longrightarrow> \<exists>i. x = Some (VArr i vs)"
  by (cases x rule: array_of.cases) auto

lemma observation_values:
  assumes "observation_problems ob = []"
  shows "\<forall>vs. array_of (member (object_members ob) ''values'') = Some vs \<longrightarrow> length vs \<le> MAX_OBSERVED_EFFECTS \<and> list_all (\<lambda>v. bounded_string (Some v)) vs"
proof (intro allI impI)
  fix vs
  assume vs: "array_of (member (object_members ob) ''values'') = Some vs"
  obtain ms where ms: "members_of ob = Some ms" using assms by (cases "members_of ob") (simp_all add: observation_problems_def)
  then have vs': "array_of (member ms ''values'') = Some vs" using vs by (simp add: object_members_def)
  then have some: "member ms ''values'' \<noteq> None" using array_of_Some by fastforce
  note parts = assms[unfolded observation_problems_def ms option.case Let_def append_is_Nil_conv]
  have "(if \<not> (member ms ''values'' \<noteq> None) then []
      else (case array_of (member ms ''values'') of None \<Rightarrow> [Not_bounded_array]
        | Some vs \<Rightarrow> if length vs > MAX_OBSERVED_EFFECTS then [Not_bounded_array]
            else map (\<lambda>v. Values_not_strings) (filter (\<lambda>v. \<not> bounded_string (Some v)) vs))) = []"
    using parts by blast
  then show "length vs \<le> MAX_OBSERVED_EFFECTS \<and> list_all (\<lambda>v. bounded_string (Some v)) vs"
    unfolding vs' option.case using some by (simp add: list_all_iff filter_empty_conv not_less split: if_splits)
qed

lemma entry_matches_values:
  assumes "\<forall>ob \<in> set obs. observation_problems ob = []" "om \<in> set (entry_matches e obs)"
    "array_of (member om ''values'') = Some vs"
  shows "length vs \<le> MAX_OBSERVED_EFFECTS \<and> list_all (\<lambda>v. bounded_string (Some v)) vs"
  using assms observation_values by (auto simp: entry_matches_def)

lemma bounded_is_string: "bounded_string x \<Longrightarrow> string_of x \<noteq> None"
  by (auto simp: bounded_string_def split: option.splits)

lemma matches_observation_strings:
  "\<forall>ob \<in> set obs. observation_problems ob = [] \<Longrightarrow> om \<in> set (entry_matches e obs) \<Longrightarrow> observation_strings om"
  using entry_matches_values[of obs om e] bounded_is_string by (auto simp: observation_strings_def list_all_iff)

lemma map_throw_Inr: "map_throw f xs = Inr ys \<longleftrightarrow> map f xs = map Inr ys"
proof (induction xs arbitrary: ys)
  case (Cons x xs)
  show ?case using Cons.IH[of "tl ys"] by (cases ys) (auto split: sum.splits)
qed auto

lemma overall_in_bounds: "overall rs = In_bounds \<longleftrightarrow> (\<forall>r \<in> set rs. r_outcome r = In_bounds)"
proof
  assume "overall rs = In_bounds"
  then show "\<forall>r \<in> set rs. r_outcome r = In_bounds"
    by (auto simp: overall_def list_ex_iff split: if_splits) (metis divergence_outcome.exhaust)
qed (auto simp: overall_def list_ex_iff)

lemma evaluate_one_in_bounds:
  assumes "prediction_problems e = []" "\<forall>ob \<in> set obs. observation_problems ob = []" "evaluate_one obs e = Inr r"
  shows "r_outcome r = In_bounds \<longleftrightarrow> predicate_holds (entry_predicate e) (entry_matches e obs)"
proof -
  obtain x where x: "evaluateEntry (entry_predicate e) (entry_matches e obs) = Inr x" "r_outcome r = fst x"
    using assms(3) by (auto simp: evaluate_one_def split: sum.splits)
  with evaluateEntry_in_bounds[OF prediction_predicate_ok[OF assms(1)] x(1)] matches_observation_strings[OF assms(2)] show ?thesis
    by auto
qed

definition elements :: "js_value \<Rightarrow> js_value list" where
  "elements v = (case array_of (Some v) of None \<Rightarrow> [] | Some xs \<Rightarrow> xs)"

subsection \<open>Properties\<close>

text \<open>
  Property C10. The verdict \<open>in_bounds\<close> means what the predicates say: it is returned exactly when both
  arrays are well formed and every signed prediction holds of the observed effects, with numeric
  bounds read as exact rational numbers, sets as sets, and a comparison only ever made with exactly
  one matching observation.
\<close>

theorem effects_in_bounds_iff:
  assumes "evaluatePredictedEffects predicted observed = Inr ev"
  shows "outcome ev = In_bounds \<longleftrightarrow>
    validatePredictedEffects predicted = [] \<and> validateObservedEffects observed = []
    \<and> (\<forall>e \<in> set (elements predicted). predicate_holds (entry_predicate e) (entry_matches e (elements observed)))"
proof (cases "validatePredictedEffects predicted = [] \<and> validateObservedEffects observed = []")
  case False
  then have "outcome ev = Incomparable" using assms by (auto simp: evaluatePredictedEffects_def Let_def split: if_splits)
  with False show ?thesis by auto
next
  case True
  obtain rs where rs: "map (evaluate_one (elements observed)) (elements predicted) = map Inr rs" "outcome ev = overall rs"
    using assms True by (auto simp: evaluatePredictedEffects_def Let_def elements_def map_throw_Inr[symmetric] split: sum.splits)
  have e: "\<forall>e \<in> set (elements predicted). prediction_problems e = []" "\<forall>ob \<in> set (elements observed). observation_problems ob = []"
    using True by (auto simp: predicted_valid observed_valid elements_def)
  have len: "length rs = length (elements predicted)" using rs(1) by (metis length_map)
  have "(r_outcome (rs ! i) = In_bounds) = predicate_holds (entry_predicate (elements predicted ! i)) (entry_matches (elements predicted ! i) (elements observed))"
    if "i < length rs" for i
  proof (rule evaluate_one_in_bounds)
    show "evaluate_one (elements observed) (elements predicted ! i) = Inr (rs ! i)"
      using rs(1) that len by (metis nth_map)
  qed (use e that len in auto)
  then have "(\<forall>r \<in> set rs. r_outcome r = In_bounds) \<longleftrightarrow>
      (\<forall>e \<in> set (elements predicted). predicate_holds (entry_predicate e) (entry_matches e (elements observed)))"
    unfolding all_set_conv_all_nth len by auto
  with True rs(2) overall_in_bounds show ?thesis by simp
qed

definition sample_prediction :: "js_string \<Rightarrow> js_value" where
  "sample_prediction bound = VArr 1 [VObj 2 [(jstr ''effect_type'', VStr (jstr ''transfer'')), (jstr ''target'', VStr (jstr ''acct'')),
     (jstr ''predicate'', VObj 3 [(jstr ''op'', VStr (jstr ''lte'')), (jstr ''value'', VStr bound)])]]"

definition sample_observation :: "js_string \<Rightarrow> js_value" where
  "sample_observation v = VArr 4 [VObj 5 [(jstr ''effect_type'', VStr (jstr ''transfer'')), (jstr ''target'', VStr (jstr ''acct'')),
     (jstr ''value'', VStr v)]]"

lemma sample_evaluation:
  "evaluatePredictedEffects (sample_prediction (jstr ''10'')) (sample_observation (jstr ''9.50'')) =
    Inr \<lparr>outcome = In_bounds, results = [\<lparr>r_effect_type = jstr ''transfer'', r_target = jstr ''acct'', r_op = jstr ''lte'',
      r_outcome = In_bounds, r_reason = None\<rparr>], reasons = []\<rparr>"
  by code_simp

theorem effects_in_bounds_iff_witness:
  "validatePredictedEffects (sample_prediction (jstr ''10'')) = [] \<and> validateObservedEffects (sample_observation (jstr ''9.50'')) = []
    \<and> list_all (\<lambda>e. predicate_holds (entry_predicate e) (entry_matches e (elements (sample_observation (jstr ''9.50'')))))
        (elements (sample_prediction (jstr ''10'')))"
  using effects_in_bounds_iff[OF sample_evaluation] by (simp add: list_all_iff)

subsection \<open>When the evaluation throws\<close>

lemma high_big: "is_high u \<Longrightarrow> \<not> u < 0x80 \<and> \<not> u < 0x800"
  by (auto simp: is_high_def word_less_nat_alt word_le_nat_alt)

lemma utf8_code_points: "utf8_length s \<le> 4 * code_points s"
proof (induction s rule: code_points.induct)
  case (2 u us)
  show ?case
  proof (cases us)
    case Nil
    then show ?thesis by simp
  next
    case (Cons n ns)
    show ?thesis
    proof (cases "is_high u \<and> is_low n")
      case True
      with 2(1)[OF Cons] Cons high_big[of u] show ?thesis by simp
    next
      case False
      with 2(2)[OF Cons] Cons have IH: "utf8_length us \<le> 4 * code_points us" by blast
      have "utf8_length (u # us) \<le> 3 + utf8_length us" using Cons False by simp
      moreover have "code_points (u # us) = 1 + code_points us" using Cons False by (auto simp del: code_points.simps(2) simp: code_points.simps(2)[of u])
      ultimately show ?thesis using IH by linarith
    qed
  qed
qed simp

lemma bounded_bytes: "bounded_string (Some v) \<Longrightarrow> utf8_length (text_of (Some v)) \<le> 2048"
  using utf8_code_points[of "text_of (Some v)"]
  by (auto simp: bounded_string_def text_of_def tooLong_def MAX_EFFECT_STRING_LENGTH_def split: option.splits)

lemma canon_total:
  assumes "length vs \<le> MAX_OBSERVED_EFFECTS" "list_all (\<lambda>v. bounded_string (Some v)) vs" "list_all plain_json vs"
  shows "\<exists>t. canon (sorted_set (strings_of vs)) = Inr t"
proof -
  let ?xs = "sorted_set (strings_of vs)"
  have set: "set ?xs = (\<lambda>v. text_of (Some v)) ` set vs" by (auto simp: sorted_set_def strings_of_def)
  have len: "length ?xs \<le> 256"
    using assms(1) length_remdups_leq[of "strings_of vs"] by (simp add: sorted_set_def strings_of_def MAX_OBSERVED_EFFECTS_def)
  have "utf8_length x \<le> 2048" if "x \<in> set ?xs" for x
    using that set bounded_bytes assms(2) by (auto simp: list_all_iff)
  then have "sum_list (map utf8_length ?xs) \<le> sum_list (map (\<lambda>_. 2048) ?xs)" by (rule sum_list_mono)
  also have "\<dots> = 2048 * length ?xs" by (simp add: sum_list_triv)
  finally have bytes: "sum_list (map utf8_length ?xs) \<le> 524288" using len by simp
  have "validUnicodeString (text_of (Some v))" if "v \<in> set vs" for v
  proof -
    have "bounded_string (Some v)" "plain_json v" using that assms(2,3) by (auto simp: list_all_iff)
    then show ?thesis by (cases v) (auto simp: text_of_def bounded_string_def)
  qed
  then have "list_all validUnicodeString ?xs" using set by (auto simp: list_all_iff)
  with len bytes have "ok_of (canon ?xs) \<noteq> None" by (simp add: canon_ok_of DEFAULT_MAX_JSON_NODES_def DEFAULT_MAX_JSON_STRING_BYTES_def)
  then show ?thesis by (auto simp: ok_of_def split: sum.splits)
qed

lemma plain_member: "list_all (\<lambda>(k, v). validUnicodeString k \<and> plain_json v) ms \<Longrightarrow> member ms k = Some v \<Longrightarrow> plain_json v"
  using map_of_SomeD[of ms "jstr k" v] by (force simp: member_def list_all_iff)

lemma plain_members: "plain_json v \<Longrightarrow> list_all (\<lambda>(k, v). validUnicodeString k \<and> plain_json v) (object_members v)"
  by (cases v) (auto simp: object_members_def)

lemma plain_array: "list_all (\<lambda>(k, v). validUnicodeString k \<and> plain_json v) ms \<Longrightarrow> array_of (member ms k) = Some vs \<Longrightarrow> list_all plain_json vs"
proof -
  assume ms: "list_all (\<lambda>(k, v). validUnicodeString k \<and> plain_json v) ms" and vs: "array_of (member ms k) = Some vs"
  then obtain i where i: "member ms k = Some (VArr i vs)" using array_of_Some by blast
  have "plain_json (VArr i vs)" by (rule plain_member[OF ms i])
  then show "list_all plain_json vs" by simp
qed

lemma evaluateEntry_total:
  assumes "predicate_problems p = []" "list_all (\<lambda>(k, v). validUnicodeString k \<and> plain_json v) p"
    and "\<And>ob vs. ob \<in> set ms \<Longrightarrow> array_of (member ob ''values'') = Some vs \<Longrightarrow>
      length vs \<le> MAX_OBSERVED_EFFECTS \<and> list_all (\<lambda>v. bounded_string (Some v)) vs \<and> list_all plain_json vs"
  shows "\<exists>r. evaluateEntry p ms = Inr r"
proof (cases "op_in p ''set_eq'' \<and> (\<exists>ob. ms = [ob])")
  case False
  then consider "text_of (member p ''op'') \<noteq> jstr ''set_eq''" | "length ms = 0" | "length ms > 1"
    using single_match[of ms] unfolding op_in_def by blast
  then have "\<not> isl (evaluateEntry p ms)"
    unfolding evaluateEntry_def Let_def if_distrib[of isl] by cases (simp_all add: option.case_distrib[of isl] if_distrib[of isl] cong: if_cong option.case_cong split: option.split)
  then show ?thesis by (cases "evaluateEntry p ms") auto
next
  case True
  then obtain ob where ob: "ms = [ob]" and op: "op_in p ''set_eq''" by blast
  show ?thesis
    using assms(1)
  proof (cases rule: predicate_valid)
    case (set_eq ws)
    obtain w where w: "canon (sorted_set (strings_of ws)) = Inr w"
      using canon_total[OF set_eq(3) values_strings[OF set_eq(4)] plain_array[OF assms(2) set_eq(2)]] by blast
    show ?thesis
    proof (cases "array_of (member ob ''values'')")
      case None
      then show ?thesis using ob by (auto simp: evaluateEntry_def op_inD[OF op] Let_def)
    next
      case (Some vs)
      with assms(3)[of ob vs] ob canon_total[of vs] obtain g where "canon (sorted_set (strings_of vs)) = Inr g" by auto
      with Some w set_eq(2) ob show ?thesis by (auto simp: evaluateEntry_def op_inD[OF op] Let_def)
    qed
  qed (use op in \<open>auto simp: op_in_def\<close>)
qed

lemma plain_elements: "plain_json v \<Longrightarrow> list_all plain_json (elements v)"
  by (cases v) (auto simp: elements_def)

lemma plain_predicate: "plain_json e \<Longrightarrow> list_all (\<lambda>(k, v). validUnicodeString k \<and> plain_json v) (entry_predicate e)"
proof (cases "member (object_members e) ''predicate''")
  case None
  then show ?thesis by (simp add: entry_predicate_def)
next
  case (Some p)
  assume "plain_json e"
  from plain_members[OF plain_member[OF plain_members[OF this] Some]] Some show ?thesis by (simp add: entry_predicate_def)
qed

lemma evaluate_one_total:
  assumes "plain_json e" "prediction_problems e = []" "list_all plain_json obs" "\<forall>ob \<in> set obs. observation_problems ob = []"
  shows "\<exists>r. evaluate_one obs e = Inr r"
proof -
  have "\<exists>r. evaluateEntry (entry_predicate e) (entry_matches e obs) = Inr r"
  proof (rule evaluateEntry_total[OF prediction_predicate_ok[OF assms(2)] plain_predicate[OF assms(1)]])
    fix ob vs
    assume ob: "ob \<in> set (entry_matches e obs)" and vs: "array_of (member ob ''values'') = Some vs"
    then obtain v where "v \<in> set obs" "ob = object_members v" by (auto simp: entry_matches_def)
    with assms(3) plain_members plain_array[OF _ vs] have "list_all plain_json vs" by (auto simp: list_all_iff)
    with entry_matches_values[OF assms(4) ob vs] show "length vs \<le> MAX_OBSERVED_EFFECTS \<and> list_all (\<lambda>v. bounded_string (Some v)) vs \<and> list_all plain_json vs"
      by blast
  qed
  then show ?thesis by (auto simp: evaluate_one_def split: prod.splits)
qed

text \<open>
  Property C38. On canonical JSON the evaluation always returns one of its three outcomes: it never
  throws when the predictions and the observations hold well-formed strings only.
\<close>

theorem effects_evaluation_total:
  assumes "plain_json predicted" "plain_json observed"
  shows "\<exists>ev. evaluatePredictedEffects predicted observed = Inr ev"
proof (cases "validatePredictedEffects predicted = [] \<and> validateObservedEffects observed = []")
  case False
  then show ?thesis by (auto simp: evaluatePredictedEffects_def Let_def)
next
  case True
  have e: "\<forall>e \<in> set (elements predicted). prediction_problems e = []" "\<forall>ob \<in> set (elements observed). observation_problems ob = []"
    using True by (auto simp: predicted_valid observed_valid elements_def)
  have "\<exists>rs. map_throw (evaluate_one (elements observed)) es = Inr rs" if "set es \<subseteq> set (elements predicted)" for es
    using that
  proof (induction es)
    case (Cons x es)
    then obtain r where "evaluate_one (elements observed) x = Inr r"
      using evaluate_one_total[of x "elements observed"] plain_elements[OF assms(1)] plain_elements[OF assms(2)] e
      by (auto simp: list_all_iff)
    with Cons show ?case by auto
  qed simp
  then show ?thesis using True unfolding evaluatePredictedEffects_def Let_def elements_def[symmetric] by fastforce
qed

theorem effects_evaluation_total_witness:
  "\<exists>ev. evaluatePredictedEffects (sample_prediction (jstr ''10'')) (sample_observation (jstr ''9.50'')) = Inr ev"
  by (rule effects_evaluation_total)
    (simp_all add: sample_prediction_def sample_observation_def u16_def is_high_def is_low_def)

text \<open>An unpaired surrogate in a compared set, by contrast, escapes as an exception of the canonicalizer.\<close>

definition set_prediction :: "js_string \<Rightarrow> js_value" where
  "set_prediction x = VArr 1 [VObj 2 [(jstr ''effect_type'', VStr (jstr ''t'')), (jstr ''target'', VStr (jstr ''a'')),
     (jstr ''predicate'', VObj 3 [(jstr ''op'', VStr (jstr ''set_eq'')), (jstr ''values'', VArr 6 [VStr x])])]]"

definition set_observation :: "js_string \<Rightarrow> js_value" where
  "set_observation x = VArr 4 [VObj 5 [(jstr ''effect_type'', VStr (jstr ''t'')), (jstr ''target'', VStr (jstr ''a'')),
     (jstr ''values'', VArr 7 [VStr x])]]"

theorem set_eq_surrogate_throws:
  "validatePredictedEffects (set_prediction [0xD800]) = [] \<and> validateObservedEffects (set_observation [0xD800]) = []
    \<and> isl (evaluatePredictedEffects (set_prediction [0xD800]) (set_observation [0xD800]))"
proof -
  have v: "validatePredictedEffects (set_prediction [0xD800]) = []" "validateObservedEffects (set_observation [0xD800]) = []"
    by code_simp+
  have "ok_of (canon [[0xD800]]) = None" by (simp add: canon_ok_of is_high_def)
  then obtain e where e: "canon [[0xD800]] = Inl e" by (cases "canon [[0xD800]]") auto
  have "isl (evaluatePredictedEffects (set_prediction [0xD800]) (set_observation [0xD800]))"
    unfolding evaluatePredictedEffects_def Let_def v
    by (simp add: set_prediction_def set_observation_def evaluate_one_def entry_matches_def matches_entry_def member_def
        object_members_def entry_predicate_def evaluateEntry_def text_of_def strings_of_def sorted_set_def e)
  with v show ?thesis by simp
qed

end
