(* ===== verification/Authority_Allocation.thy ===== *)
theory Authority_Allocation
  imports Complex_Main Js_Time Js_Json
begin

section \<open>Authority allocation\<close>

text \<open>
  Model of \<open>packages/gate/src/authority-allocation.ts\<close> up to the PostgreSQL adapter: the validation of
  an allocation snapshot against its relying-party pin, and the in-memory store with its five
  operations. Inputs have the shapes of the TypeScript interfaces; numbers are JavaScript numbers
  until they are validated. An exception is its \<open>code\<close> in the left of a sum. The store serialises its
  operations in one queue, so a run of the store is a sequence of operations. \<open>localeCompare\<close> depends
  on the host's locale and is a parameter of the definitions that sort with it; SHA-256 is a
  parameter; so is \<open>Date.now()\<close>. Fencing tokens are exact integers.
\<close>

subsection \<open>Data\<close>

record raw_budget =
  raw_cents :: js_number
  raw_calls :: js_number

record allocation_budget =
  cents :: int
  calls :: int

record allocation_pin =
  pin_relying_party :: string
  pin_head :: string
  pin_epoch :: js_number

record raw_branch =
  rb_allocation_id :: string
  rb_parent_id :: string
  rb_actions :: "string list"
  rb_audiences :: "string list"
  rb_budget :: raw_budget
  rb_expires_at :: string

record branch_allocation =
  b_allocation_id :: string
  b_parent_id :: string
  b_actions :: "string list"
  b_audiences :: "string list"
  b_budget :: allocation_budget
  b_expires_at :: string

record raw_snapshot =
  rs_version :: string
  rs_relying_party_id :: string
  rs_parent_id :: string
  rs_authority_head :: string
  rs_authority_epoch :: js_number
  rs_actions :: "string list"
  rs_audiences :: "string list"
  rs_budget :: raw_budget
  rs_max_active_children :: js_number
  rs_expires_at :: string
  rs_siblings :: "raw_branch list"

record allocation_snapshot =
  s_relying_party_id :: string
  s_parent_id :: string
  s_authority_head :: string
  s_authority_epoch :: int
  s_actions :: "string list"
  s_audiences :: "string list"
  s_budget :: allocation_budget
  s_max_active_children :: int
  s_expires_at :: string
  s_siblings :: "branch_allocation list"

text \<open>\<open>now?: string | number | Date\<close>; a number that is not finite is \<open>None\<close>.\<close>

datatype now_input = Now_absent | Now_text string | Now_number "rat option" | Now_date "int option"

record reservation_request =
  q_relying_party_id :: string
  q_parent_id :: string
  q_allocation_id :: string
  q_reservation_id :: string
  q_authority_head :: string
  q_authority_epoch :: js_number
  q_budget :: raw_budget
  q_now :: now_input

record finalize_request =
  f_relying_party_id :: string
  f_parent_id :: string
  f_allocation_id :: string
  f_reservation_id :: string
  f_authority_head :: string
  f_authority_epoch :: js_number
  f_owner_token :: string
  f_fencing_token :: js_number

datatype refusal_reason = Allocation_not_found | Allocation_expired | Authority_pin_mismatch | Budget_exceeded
  | Reservation_replayed | Reservation_not_found | Reservation_owner_mismatch | Reservation_already_committed
  | Reservation_already_released | Snapshot_conflict | Stale_authority_epoch | Reservations_in_flight

datatype reservation_state = Reserved | Committed | Released

record reservation =
  v_reservation_id :: string
  v_allocation_id :: string
  v_authority_head :: string
  v_authority_epoch :: int
  v_budget :: allocation_budget
  v_state :: reservation_state
  v_fencing_token :: nat
  v_owner_token :: string

record parent_state =
  snapshot :: allocation_snapshot
  fingerprint :: string
  nextFence :: nat
  reservations :: "(string, reservation) js_map"

type_synonym store = "(string, parent_state) js_map"
type_synonym error = string

definition AUTHORITY_ALLOCATION_VERSION :: string where
  "AUTHORITY_ALLOCATION_VERSION = ''EP-AUTHORITY-ALLOCATION-v1''"

subsection \<open>Field validators\<close>

definition identifier_of :: "string \<Rightarrow> error + string" where
  "identifier_of v = (if identifier_re v then Inr v else Inl ''invalid_identifier'')"

definition authorityHead :: "string \<Rightarrow> error + string" where
  "authorityHead v = (if sha256_re v then Inr v else Inl ''missing_authority_pin'')"

definition authorityEpoch :: "js_number \<Rightarrow> error + int" where
  "authorityEpoch v = (if is_safe_integer v \<and> num_val v \<ge> 0 then Inr (num_val v) else Inl ''missing_authority_pin'')"

definition budget_of :: "raw_budget \<Rightarrow> error + allocation_budget" where
  "budget_of v = (if list_all (\<lambda>n. is_safe_integer n \<and> num_val n \<ge> 0) [raw_cents v, raw_calls v]
     then Inr \<lparr>cents = num_val (raw_cents v), calls = num_val (raw_calls v)\<rparr> else Inl ''invalid_budget'')"

definition checkedAdd :: "int \<Rightarrow> int \<Rightarrow> error + int" where
  "checkedAdd l r = (if safe_int (l + r) then Inr (l + r) else Inl ''budget_overflow'')"

definition addBudget :: "allocation_budget \<Rightarrow> allocation_budget \<Rightarrow> error + allocation_budget" where
  "addBudget l r = (case checkedAdd (cents l) (cents r) of Inl e \<Rightarrow> Inl e
     | Inr c \<Rightarrow> (case checkedAdd (calls l) (calls r) of Inl e \<Rightarrow> Inl e | Inr k \<Rightarrow> Inr \<lparr>cents = c, calls = k\<rparr>))"

definition subtractBudget :: "allocation_budget \<Rightarrow> allocation_budget \<Rightarrow> allocation_budget" where
  "subtractBudget cap used = \<lparr>cents = cents cap - cents used, calls = calls cap - calls used\<rparr>"

definition withinBudget :: "allocation_budget \<Rightarrow> allocation_budget \<Rightarrow> bool" where
  "withinBudget candidate cap \<longleftrightarrow> cents candidate \<le> cents cap \<and> calls candidate \<le> calls cap"

definition emptyBudget :: allocation_budget where
  "emptyBudget = \<lparr>cents = 0, calls = 0\<rparr>"

definition strictInstantMs :: "string \<Rightarrow> error + int" where
  "strictInstantMs v = (case rfc3339_instant v of None \<Rightarrow> Inl ''invalid_expiry'' | Some t \<Rightarrow> Inr t)"

definition operationTimeMs :: "int \<Rightarrow> now_input \<Rightarrow> error + rat" where
  "operationTimeMs clock v = (case v of
       Now_absent \<Rightarrow> Inr (of_int clock)
     | Now_text s \<Rightarrow> (case strictInstantMs s of Inl e \<Rightarrow> Inl e | Inr t \<Rightarrow> Inr (of_int t))
     | Now_number n \<Rightarrow> (case n of None \<Rightarrow> Inl ''invalid_time'' | Some t \<Rightarrow> Inr t)
     | Now_date d \<Rightarrow> (case d of None \<Rightarrow> Inl ''invalid_time'' | Some t \<Rightarrow> Inr (of_int t)))"

definition exactSet :: "string list \<Rightarrow> error + string list" where
  "exactSet vs = (if \<not> list_all identifier_re vs then Inl ''invalid_identifier''
     else if \<not> distinct vs then Inl ''duplicate_selector'' else Inr (sort vs))"

definition isSubset :: "string list \<Rightarrow> string list \<Rightarrow> bool" where
  "isSubset child parent \<longleftrightarrow> list_all (\<lambda>x. x \<in> set parent) child"

subsection \<open>Fingerprints and keys\<close>

definition strings_json :: "string list \<Rightarrow> jsonish" where
  "strings_json xs = JArr (map JStr xs)"

definition budget_json :: "allocation_budget \<Rightarrow> jsonish" where
  "budget_json b = JObj [(''cents'', JNum (Integral (cents b))), (''calls'', JNum (Integral (calls b)))]"

definition branch_json :: "branch_allocation \<Rightarrow> jsonish" where
  "branch_json b = JObj [(''allocation_id'', JStr (b_allocation_id b)), (''parent_id'', JStr (b_parent_id b)),
     (''actions'', strings_json (b_actions b)), (''audiences'', strings_json (b_audiences b)),
     (''budget'', budget_json (b_budget b)), (''expires_at'', JStr (b_expires_at b))]"

definition canonicalSnapshot :: "allocation_snapshot \<Rightarrow> string" where
  "canonicalSnapshot s = json_text (JObj [(''version'', JStr AUTHORITY_ALLOCATION_VERSION),
     (''relying_party_id'', JStr (s_relying_party_id s)), (''parent_id'', JStr (s_parent_id s)),
     (''authority_head'', JStr (s_authority_head s)), (''authority_epoch'', JNum (Integral (s_authority_epoch s))),
     (''actions'', strings_json (s_actions s)), (''audiences'', strings_json (s_audiences s)),
     (''budget'', budget_json (s_budget s)), (''max_active_children'', JNum (Integral (s_max_active_children s))),
     (''expires_at'', JStr (s_expires_at s)), (''sibling_allocations'', JArr (map branch_json (s_siblings s)))])"

definition snapshotFingerprint :: "hash \<Rightarrow> allocation_snapshot \<Rightarrow> string" where
  "snapshotFingerprint sha s = ''sha256:'' @ sha (canonicalSnapshot s)"

definition parentKey :: "string \<Rightarrow> string \<Rightarrow> string" where
  "parentKey rp p = json_text (JArr [JStr rp, JStr p])"

subsection \<open>Snapshot validation\<close>

definition assertExactPin :: "allocation_snapshot \<Rightarrow> allocation_pin \<Rightarrow> error + unit" where
  "assertExactPin s pin = (case identifier_of (pin_relying_party pin) of Inl e \<Rightarrow> Inl e
     | Inr rp \<Rightarrow> (case authorityHead (pin_head pin) of Inl e \<Rightarrow> Inl e
     | Inr head \<Rightarrow> (case authorityEpoch (pin_epoch pin) of Inl e \<Rightarrow> Inl e
     | Inr epoch \<Rightarrow> if s_relying_party_id s \<noteq> rp \<or> s_authority_head s \<noteq> head \<or> s_authority_epoch s \<noteq> epoch
         then Inl ''authority_pin_mismatch'' else Inr ())))"

text \<open>The parent's values that a sibling is checked against.\<close>

record parent_bounds =
  pb_parent_id :: string
  pb_actions :: "string list"
  pb_audiences :: "string list"
  pb_budget :: allocation_budget
  pb_expiry :: int

definition validate_sibling :: "parent_bounds \<Rightarrow> string list \<Rightarrow> allocation_budget \<Rightarrow> raw_branch
    \<Rightarrow> error + branch_allocation \<times> allocation_budget" where
  "validate_sibling pb seen aggregate raw =
     (case identifier_of (rb_allocation_id raw) of Inl e \<Rightarrow> Inl e
      | Inr aid \<Rightarrow> if aid \<in> set seen then Inl ''duplicate_branch''
      else (case identifier_of (rb_parent_id raw) of Inl e \<Rightarrow> Inl e
      | Inr pid \<Rightarrow> if pid \<noteq> pb_parent_id pb then Inl ''parent_mismatch''
      else (case exactSet (rb_actions raw) of Inl e \<Rightarrow> Inl e
      | Inr actions \<Rightarrow> if \<not> isSubset actions (pb_actions pb) then Inl ''child_action_widening''
      else (case exactSet (rb_audiences raw) of Inl e \<Rightarrow> Inl e
      | Inr audiences \<Rightarrow> if \<not> isSubset audiences (pb_audiences pb) then Inl ''child_audience_widening''
      else (case budget_of (rb_budget raw) of Inl e \<Rightarrow> Inl e
      | Inr bud \<Rightarrow> if \<not> withinBudget bud (pb_budget pb) then Inl ''child_budget_widening''
      else (case strictInstantMs (rb_expires_at raw) of Inl e \<Rightarrow> Inl e
      | Inr t \<Rightarrow> if t > pb_expiry pb then Inl ''child_expiry_widening''
      else (case addBudget aggregate bud of Inl e \<Rightarrow> Inl e
      | Inr agg \<Rightarrow> Inr (\<lparr>b_allocation_id = aid, b_parent_id = pid, b_actions = actions, b_audiences = audiences,
          b_budget = bud, b_expires_at = rb_expires_at raw\<rparr>, agg))))))))"

fun validate_siblings :: "parent_bounds \<Rightarrow> string list \<Rightarrow> allocation_budget \<Rightarrow> raw_branch list
    \<Rightarrow> error + branch_allocation list \<times> allocation_budget" where
  "validate_siblings pb seen aggregate [] = Inr ([], aggregate)"
| "validate_siblings pb seen aggregate (raw # raws) =
     (case validate_sibling pb seen aggregate raw of Inl e \<Rightarrow> Inl e
      | Inr (b, agg) \<Rightarrow> (case validate_siblings pb (b_allocation_id b # seen) agg raws of Inl e \<Rightarrow> Inl e
        | Inr (bs, agg') \<Rightarrow> Inr (b # bs, agg')))"

text \<open>A stable sort by a comparison that need not be a known order.\<close>

fun insert_by :: "('a \<Rightarrow> 'a \<Rightarrow> bool) \<Rightarrow> 'a \<Rightarrow> 'a list \<Rightarrow> 'a list" where
  "insert_by le x [] = [x]"
| "insert_by le x (y # ys) = (if le x y then x # y # ys else y # insert_by le x ys)"

fun sort_by :: "('a \<Rightarrow> 'a \<Rightarrow> bool) \<Rightarrow> 'a list \<Rightarrow> 'a list" where
  "sort_by le [] = []"
| "sort_by le (x # xs) = insert_by le x (sort_by le xs)"

type_synonym locale_le = "string \<Rightarrow> string \<Rightarrow> bool"

definition validateAuthorityAllocationSnapshot :: "locale_le \<Rightarrow> raw_snapshot \<Rightarrow> allocation_pin \<Rightarrow> error + allocation_snapshot" where
  "validateAuthorityAllocationSnapshot le raw pin =
     (if rs_version raw \<noteq> AUTHORITY_ALLOCATION_VERSION then Inl ''unsupported_version''
      else (case identifier_of (rs_relying_party_id raw) of Inl e \<Rightarrow> Inl e
      | Inr rp \<Rightarrow> (case identifier_of (rs_parent_id raw) of Inl e \<Rightarrow> Inl e
      | Inr pid \<Rightarrow> (case authorityHead (rs_authority_head raw) of Inl e \<Rightarrow> Inl e
      | Inr head \<Rightarrow> (case authorityEpoch (rs_authority_epoch raw) of Inl e \<Rightarrow> Inl e
      | Inr epoch \<Rightarrow> (case exactSet (rs_actions raw) of Inl e \<Rightarrow> Inl e
      | Inr actions \<Rightarrow> (case exactSet (rs_audiences raw) of Inl e \<Rightarrow> Inl e
      | Inr audiences \<Rightarrow> (case budget_of (rs_budget raw) of Inl e \<Rightarrow> Inl e
      | Inr bud \<Rightarrow> (let maxc = rs_max_active_children raw in
        if \<not> is_safe_integer maxc \<or> num_val maxc < 1 \<or> num_val maxc > 1000000 then Inl ''invalid_active_child_limit''
        else (case strictInstantMs (rs_expires_at raw) of Inl e \<Rightarrow> Inl e
      | Inr expiry \<Rightarrow> if int (length (rs_siblings raw)) > num_val maxc then Inl ''active_child_limit_exceeded''
        else (case validate_siblings \<lparr>pb_parent_id = pid, pb_actions = actions, pb_audiences = audiences, pb_budget = bud,
              pb_expiry = expiry\<rparr> [] emptyBudget (rs_siblings raw) of Inl e \<Rightarrow> Inl e
      | Inr (siblings, aggregate) \<Rightarrow> if \<not> withinBudget aggregate bud then Inl ''aggregate_sibling_overspend''
        else (let normalized = \<lparr>s_relying_party_id = rp, s_parent_id = pid, s_authority_head = head, s_authority_epoch = epoch,
              s_actions = actions, s_audiences = audiences, s_budget = bud, s_max_active_children = num_val maxc,
              s_expires_at = rs_expires_at raw,
              s_siblings = sort_by (\<lambda>l r. le (b_allocation_id l) (b_allocation_id r)) siblings\<rparr>
          in (case assertExactPin normalized pin of Inl e \<Rightarrow> Inl e | Inr u \<Rightarrow> Inr normalized)))))))))))))"

subsection \<open>Request validation\<close>

record valid_reservation =
  vq_key :: string
  vq_allocation_id :: string
  vq_reservation_id :: string
  vq_head :: string
  vq_epoch :: int
  vq_budget :: allocation_budget
  vq_now :: now_input

definition validateReservationRequest :: "reservation_request \<Rightarrow> error + valid_reservation" where
  "validateReservationRequest q =
     (case identifier_of (q_relying_party_id q) of Inl e \<Rightarrow> Inl e
      | Inr rp \<Rightarrow> (case identifier_of (q_parent_id q) of Inl e \<Rightarrow> Inl e
      | Inr pid \<Rightarrow> (case identifier_of (q_allocation_id q) of Inl e \<Rightarrow> Inl e
      | Inr aid \<Rightarrow> (case identifier_of (q_reservation_id q) of Inl e \<Rightarrow> Inl e
      | Inr rid \<Rightarrow> (case authorityHead (q_authority_head q) of Inl e \<Rightarrow> Inl e
      | Inr head \<Rightarrow> (case authorityEpoch (q_authority_epoch q) of Inl e \<Rightarrow> Inl e
      | Inr epoch \<Rightarrow> (case budget_of (q_budget q) of Inl e \<Rightarrow> Inl e
      | Inr bud \<Rightarrow> Inr \<lparr>vq_key = parentKey rp pid, vq_allocation_id = aid, vq_reservation_id = rid, vq_head = head,
          vq_epoch = epoch, vq_budget = bud, vq_now = q_now q\<rparr>)))))))"

record valid_finalize =
  vf_key :: string
  vf_allocation_id :: string
  vf_reservation_id :: string
  vf_head :: string
  vf_epoch :: int
  vf_owner_token :: string
  vf_fencing_token :: int

definition OWNER_PATTERN :: "string \<Rightarrow> bool" where
  "OWNER_PATTERN s = token_re ''authority-owner:v1:'' 16 128 s"

definition validateFinalizeRequest :: "finalize_request \<Rightarrow> error + valid_finalize" where
  "validateFinalizeRequest q =
     (if \<not> OWNER_PATTERN (f_owner_token q) then Inl ''invalid_owner_token''
      else if \<not> is_safe_integer (f_fencing_token q) \<or> num_val (f_fencing_token q) < 1 then Inl ''invalid_fencing_token''
      else (case identifier_of (f_relying_party_id q) of Inl e \<Rightarrow> Inl e
      | Inr rp \<Rightarrow> (case identifier_of (f_parent_id q) of Inl e \<Rightarrow> Inl e
      | Inr pid \<Rightarrow> (case identifier_of (f_allocation_id q) of Inl e \<Rightarrow> Inl e
      | Inr aid \<Rightarrow> (case identifier_of (f_reservation_id q) of Inl e \<Rightarrow> Inl e
      | Inr rid \<Rightarrow> (case authorityHead (f_authority_head q) of Inl e \<Rightarrow> Inl e
      | Inr head \<Rightarrow> (case authorityEpoch (f_authority_epoch q) of Inl e \<Rightarrow> Inl e
      | Inr epoch \<Rightarrow> Inr \<lparr>vf_key = parentKey rp pid, vf_allocation_id = aid, vf_reservation_id = rid, vf_head = head,
          vf_epoch = epoch, vf_owner_token = f_owner_token q, vf_fencing_token = num_val (f_fencing_token q)\<rparr>)))))))"

subsection \<open>Usage\<close>

definition pinMatches :: "parent_state \<Rightarrow> string \<Rightarrow> int \<Rightarrow> bool" where
  "pinMatches st head epoch \<longleftrightarrow> s_authority_head (snapshot st) = head \<and> s_authority_epoch (snapshot st) = epoch"

record usage =
  reserved :: allocation_budget
  committed :: allocation_budget

definition counted :: "allocation_snapshot \<Rightarrow> string option \<Rightarrow> reservation \<Rightarrow> bool" where
  "counted s aid r \<longleftrightarrow> (aid = None \<or> Some (v_allocation_id r) = aid)
     \<and> v_authority_head r = s_authority_head s \<and> v_authority_epoch r = s_authority_epoch s"

fun usage_loop :: "allocation_snapshot \<Rightarrow> string option \<Rightarrow> reservation list \<Rightarrow> usage \<Rightarrow> error + usage" where
  "usage_loop s aid [] u = Inr u"
| "usage_loop s aid (r # rs) u =
     (if \<not> counted s aid r then usage_loop s aid rs u
      else (case v_state r of
          Reserved \<Rightarrow> (case addBudget (reserved u) (v_budget r) of Inl e \<Rightarrow> Inl e
            | Inr b \<Rightarrow> usage_loop s aid rs (u\<lparr>reserved := b\<rparr>))
        | Committed \<Rightarrow> (case addBudget (committed u) (v_budget r) of Inl e \<Rightarrow> Inl e
            | Inr b \<Rightarrow> usage_loop s aid rs (u\<lparr>committed := b\<rparr>))
        | Released \<Rightarrow> usage_loop s aid rs u))"

definition usageFor :: "parent_state \<Rightarrow> string option \<Rightarrow> error + usage" where
  "usageFor st aid = usage_loop (snapshot st) aid (map_values (reservations st)) \<lparr>reserved = emptyBudget, committed = emptyBudget\<rparr>"

subsection \<open>The memory store\<close>

text \<open>\<open>n.toString(36).padStart(16, '0')\<close>\<close>

fun radix36 :: "nat \<Rightarrow> string" where
  "radix36 n = (if n < 36 then [if n < 10 then char_of (48 + n) else char_of (87 + n)]
     else radix36 (n div 36) @ [if n mod 36 < 10 then char_of (48 + n mod 36) else char_of (87 + n mod 36)])"

declare radix36.simps [simp del]

definition padStart0 :: "nat \<Rightarrow> string \<Rightarrow> string" where
  "padStart0 k s = replicate (k - length s) CHR ''0'' @ s"

definition memory_owner_token :: "nat \<Rightarrow> string" where
  "memory_owner_token fence = ''authority-owner:v1:memory_'' @ padStart0 16 (radix36 fence)"

type_synonym install_result = "bool \<times> string"

definition installSnapshot :: "locale_le \<Rightarrow> hash \<Rightarrow> raw_snapshot \<Rightarrow> allocation_pin \<Rightarrow> store
    \<Rightarrow> (refusal_reason, install_result) outcome \<times> store" where
  "installSnapshot le sha raw pin parents =
     (case validateAuthorityAllocationSnapshot le raw pin of Inl e \<Rightarrow> (Throw e, parents)
      | Inr normalized \<Rightarrow> (let fp = snapshotFingerprint sha normalized;
            key = parentKey (s_relying_party_id normalized) (s_parent_id normalized);
            current = map_get parents key;
            install = (\<lambda>fence rsvs. (Ok (True, fp), map_set key \<lparr>snapshot = normalized, fingerprint = fp, nextFence = fence, reservations = rsvs\<rparr> parents))
          in (case current of
              None \<Rightarrow> install 1 []
            | Some cur \<Rightarrow>
                if s_authority_head (snapshot cur) = s_authority_head normalized \<and> s_authority_epoch (snapshot cur) = s_authority_epoch normalized
                then (if fingerprint cur = fp then (Ok (False, fp), parents) else (Refuse Snapshot_conflict, parents))
                else if s_authority_epoch normalized \<le> s_authority_epoch (snapshot cur) then (Refuse Stale_authority_epoch, parents)
                else if list_ex (\<lambda>r. v_state r = Reserved) (map_values (reservations cur)) then (Refuse Reservations_in_flight, parents)
                else install (nextFence cur) (reservations cur))))"

record reserve_result =
  rr_reservation_id :: string
  rr_allocation_id :: string
  rr_budget :: allocation_budget
  rr_remaining :: allocation_budget
  rr_owner_token :: string
  rr_fencing_token :: nat
  rr_authority_head :: string
  rr_authority_epoch :: int

definition expired_at :: "rat \<Rightarrow> parent_state \<Rightarrow> branch_allocation \<Rightarrow> error + bool" where
  "expired_at t0 st b = (case strictInstantMs (s_expires_at (snapshot st)) of Inl e \<Rightarrow> Inl e
     | Inr t \<Rightarrow> if t0 \<ge> of_int t then Inr True
       else (case strictInstantMs (b_expires_at b) of Inl e \<Rightarrow> Inl e | Inr t' \<Rightarrow> Inr (t0 \<ge> of_int t')))"

text \<open>Branch and parent usage with the requested budget added.\<close>

definition candidate_for :: "parent_state \<Rightarrow> string option \<Rightarrow> allocation_budget \<Rightarrow> error + allocation_budget" where
  "candidate_for st aid bud = (case usageFor st aid of Inl e \<Rightarrow> Inl e
     | Inr u \<Rightarrow> (case addBudget (reserved u) (committed u) of Inl e \<Rightarrow> Inl e
       | Inr used \<Rightarrow> addBudget used bud))"

definition reserve_allocation :: "int \<Rightarrow> reservation_request \<Rightarrow> store \<Rightarrow> (refusal_reason, reserve_result) outcome \<times> store" where
  "reserve_allocation clock rawRequest parents =
     (case validateReservationRequest rawRequest of Inl e \<Rightarrow> (Throw e, parents)
      | Inr q \<Rightarrow> (case map_get parents (vq_key q) of None \<Rightarrow> (Refuse Allocation_not_found, parents)
      | Some st \<Rightarrow>
        if \<not> pinMatches st (vq_head q) (vq_epoch q) then (Refuse Authority_pin_mismatch, parents)
        else if map_has (reservations st) (vq_reservation_id q) then (Refuse Reservation_replayed, parents)
        else (case List.find (\<lambda>b. b_allocation_id b = vq_allocation_id q) (s_siblings (snapshot st)) of
            None \<Rightarrow> (Refuse Allocation_not_found, parents)
          | Some b \<Rightarrow> (case operationTimeMs clock (vq_now q) of Inl e \<Rightarrow> (Throw e, parents)
          | Inr t0 \<Rightarrow> (case expired_at t0 st b of Inl e \<Rightarrow> (Throw e, parents)
          | Inr True \<Rightarrow> (Refuse Allocation_expired, parents)
          | Inr False \<Rightarrow> (case candidate_for st (Some (b_allocation_id b)) (vq_budget q) of Inl e \<Rightarrow> (Throw e, parents)
          | Inr branchCandidate \<Rightarrow> (case candidate_for st None (vq_budget q) of Inl e \<Rightarrow> (Throw e, parents)
          | Inr parentCandidate \<Rightarrow>
              if \<not> withinBudget branchCandidate (b_budget b) \<or> \<not> withinBudget parentCandidate (s_budget (snapshot st))
              then (Refuse Budget_exceeded, parents)
              else (let fence = nextFence st; token = memory_owner_token fence;
                  r = \<lparr>v_reservation_id = vq_reservation_id q, v_allocation_id = vq_allocation_id q, v_authority_head = vq_head q,
                    v_authority_epoch = vq_epoch q, v_budget = vq_budget q, v_state = Reserved, v_fencing_token = fence,
                    v_owner_token = token\<rparr>
                in (Ok \<lparr>rr_reservation_id = vq_reservation_id q, rr_allocation_id = vq_allocation_id q, rr_budget = vq_budget q,
                      rr_remaining = subtractBudget (b_budget b) branchCandidate, rr_owner_token = token, rr_fencing_token = fence,
                      rr_authority_head = vq_head q, rr_authority_epoch = vq_epoch q\<rparr>,
                    map_set (vq_key q) (st\<lparr>nextFence := fence + 1, reservations := map_set (vq_reservation_id q) r (reservations st)\<rparr>) parents)))))))))"

text \<open>\<open>commit\<close> and \<open>release\<close> have the same body, up to the state they write.\<close>

definition finalize_allocation :: "reservation_state \<Rightarrow> finalize_request \<Rightarrow> store \<Rightarrow> (refusal_reason, reservation_state) outcome \<times> store" where
  "finalize_allocation target rawRequest parents =
     (case validateFinalizeRequest rawRequest of Inl e \<Rightarrow> (Throw e, parents)
      | Inr q \<Rightarrow> (case map_get parents (vf_key q) of None \<Rightarrow> (Refuse Reservation_not_found, parents)
      | Some st \<Rightarrow>
        if \<not> pinMatches st (vf_head q) (vf_epoch q) then (Refuse Authority_pin_mismatch, parents)
        else (case map_get (reservations st) (vf_reservation_id q) of None \<Rightarrow> (Refuse Reservation_not_found, parents)
          | Some r \<Rightarrow>
            if v_allocation_id r \<noteq> vf_allocation_id q then (Refuse Reservation_not_found, parents)
            else if v_state r = Committed then (Refuse Reservation_already_committed, parents)
            else if v_state r = Released then (Refuse Reservation_already_released, parents)
            else if v_owner_token r \<noteq> vf_owner_token q \<or> int (v_fencing_token r) \<noteq> vf_fencing_token q
              \<or> v_authority_head r \<noteq> vf_head q \<or> v_authority_epoch r \<noteq> vf_epoch q then (Refuse Reservation_owner_mismatch, parents)
            else (Ok target, map_set (vf_key q)
              (st\<lparr>reservations := map_set (vf_reservation_id q) (r\<lparr>v_state := target\<rparr>) (reservations st)\<rparr>) parents))))"

definition commit_allocation :: "finalize_request \<Rightarrow> store \<Rightarrow> (refusal_reason, reservation_state) outcome \<times> store" where
  "commit_allocation = finalize_allocation Committed"

definition release_allocation :: "finalize_request \<Rightarrow> store \<Rightarrow> (refusal_reason, reservation_state) outcome \<times> store" where
  "release_allocation = finalize_allocation Released"

record state_view =
  sv_snapshot :: allocation_snapshot
  sv_fingerprint :: string
  sv_parent_usage :: usage
  sv_branch_usage :: "(string, usage) js_map"
  sv_reservations :: "reservation list"

fun branch_usages :: "parent_state \<Rightarrow> branch_allocation list \<Rightarrow> (string, usage) js_map \<Rightarrow> error + (string, usage) js_map" where
  "branch_usages st [] m = Inr m"
| "branch_usages st (b # bs) m = (case usageFor st (Some (b_allocation_id b)) of Inl e \<Rightarrow> Inl e
     | Inr u \<Rightarrow> branch_usages st bs (map_set (b_allocation_id b) u m))"

text \<open>The view drops the owner tokens.\<close>

definition stateView :: "parent_state \<Rightarrow> error + state_view" where
  "stateView st = (case branch_usages st (s_siblings (snapshot st)) [] of Inl e \<Rightarrow> Inl e
     | Inr bs \<Rightarrow> (case usageFor st None of Inl e \<Rightarrow> Inl e
     | Inr u \<Rightarrow> Inr \<lparr>sv_snapshot = snapshot st, sv_fingerprint = fingerprint st, sv_parent_usage = u, sv_branch_usage = bs,
         sv_reservations = sort_key v_fencing_token (map (\<lambda>r. r\<lparr>v_owner_token := []\<rparr>) (map_values (reservations st)))\<rparr>))"

definition inspect_allocation :: "allocation_pin \<Rightarrow> string \<Rightarrow> store \<Rightarrow> error + state_view option" where
  "inspect_allocation pin parentId parents =
     (case identifier_of (pin_relying_party pin) of Inl e \<Rightarrow> Inl e
      | Inr rp \<Rightarrow> (case identifier_of parentId of Inl e \<Rightarrow> Inl e
      | Inr pid \<Rightarrow> (case authorityHead (pin_head pin) of Inl e \<Rightarrow> Inl e
      | Inr head \<Rightarrow> (case authorityEpoch (pin_epoch pin) of Inl e \<Rightarrow> Inl e
      | Inr epoch \<Rightarrow> (case map_get parents (parentKey rp pid) of None \<Rightarrow> Inr None
        | Some st \<Rightarrow> if \<not> pinMatches st head epoch then Inl ''authority_pin_mismatch''
            else (case stateView st of Inl e \<Rightarrow> Inl e | Inr v \<Rightarrow> Inr (Some v)))))))"

end
