(* ===== verification/Authority_Conservation.thy ===== *)
theory Authority_Conservation
  imports Authority_Allocation "HOL-Library.Multiset"
begin

section \<open>Conservation of authority\<close>

text \<open>
  Runs of the allocation store keep, for every parent and every branch of its current snapshot, the
  reserved and committed budget within the allocated budget; reservations are final once committed
  or released, and only their owner finalises them.
\<close>

subsection \<open>Validated snapshots\<close>

lemma insert_by_mset: "mset (insert_by le x xs) = {#x#} + mset xs"
  by (induction xs) auto

lemma sort_by_mset [simp]: "mset (sort_by le xs) = mset xs"
  by (induction xs) (auto simp: insert_by_mset)

lemma sort_by_set [simp]: "set (sort_by le xs) = set xs"
  by (metis set_mset_mset sort_by_mset)

definition budget_ok :: "allocation_budget \<Rightarrow> bool" where
  "budget_ok b \<longleftrightarrow> 0 \<le> cents b \<and> cents b \<le> max_safe \<and> 0 \<le> calls b \<and> calls b \<le> max_safe"

lemma budget_of_ok: "budget_of v = Inr b \<Longrightarrow> budget_ok b"
proof -
  assume "budget_of v = Inr b"
  then have n: "is_safe_integer (raw_cents v)" "num_val (raw_cents v) \<ge> 0" "is_safe_integer (raw_calls v)" "num_val (raw_calls v) \<ge> 0"
    "b = \<lparr>cents = num_val (raw_cents v), calls = num_val (raw_calls v)\<rparr>"
    by (auto simp: budget_of_def split: if_splits)
  then show ?thesis by (cases "raw_cents v"; cases "raw_calls v") (auto simp: budget_ok_def safe_int_def)
qed

lemma addBudget_Inr: "addBudget l r = Inr b \<Longrightarrow> cents b = cents l + cents r \<and> calls b = calls l + calls r"
  by (auto simp: addBudget_def checkedAdd_def split: if_splits)

lemma addBudget_ok:
  "0 \<le> cents l + cents r \<Longrightarrow> cents l + cents r \<le> max_safe \<Longrightarrow> 0 \<le> calls l + calls r \<Longrightarrow> calls l + calls r \<le> max_safe \<Longrightarrow>
   addBudget l r = Inr \<lparr>cents = cents l + cents r, calls = calls l + calls r\<rparr>"
  by (simp add: addBudget_def checkedAdd_def safe_int_def max_safe_def)

text \<open>What a branch may claim of its parent.\<close>

definition within_parent :: "parent_bounds \<Rightarrow> branch_allocation \<Rightarrow> bool" where
  "within_parent pb b \<longleftrightarrow> b_parent_id b = pb_parent_id pb \<and> set (b_actions b) \<subseteq> set (pb_actions pb)
     \<and> set (b_audiences b) \<subseteq> set (pb_audiences pb) \<and> withinBudget (b_budget b) (pb_budget pb) \<and> budget_ok (b_budget b)
     \<and> (\<exists>t \<le> pb_expiry pb. strictInstantMs (b_expires_at b) = Inr t)"

lemma exactSet_Inr: "exactSet vs = Inr ws \<Longrightarrow> set ws = set vs \<and> distinct ws \<and> sorted ws \<and> list_all identifier_re ws"
  by (auto simp: exactSet_def list_all_iff split: if_splits)

lemma validate_sibling_Inr:
  assumes "validate_sibling pb seen agg raw = Inr (b, agg')"
  shows "within_parent pb b \<and> b_allocation_id b = rb_allocation_id raw \<and> b_allocation_id b \<notin> set seen
    \<and> cents agg' = cents agg + cents (b_budget b) \<and> calls agg' = calls agg + calls (b_budget b)"
proof -
  obtain acts auds bud t where *: "exactSet (rb_actions raw) = Inr acts" "isSubset acts (pb_actions pb)"
    "exactSet (rb_audiences raw) = Inr auds" "isSubset auds (pb_audiences pb)" "budget_of (rb_budget raw) = Inr bud"
    "withinBudget bud (pb_budget pb)" "strictInstantMs (rb_expires_at raw) = Inr t" "t \<le> pb_expiry pb"
    "addBudget agg bud = Inr agg'" "rb_allocation_id raw \<notin> set seen" "rb_parent_id raw = pb_parent_id pb"
    "b = \<lparr>b_allocation_id = rb_allocation_id raw, b_parent_id = rb_parent_id raw, b_actions = acts, b_audiences = auds,
          b_budget = bud, b_expires_at = rb_expires_at raw\<rparr>"
    using assms by (auto simp: validate_sibling_def identifier_of_def split: sum.splits if_splits)
  with budget_of_ok[OF *(5)] addBudget_Inr[OF *(9)] show ?thesis
    by (auto simp: within_parent_def isSubset_def list_all_iff)
qed

lemma validate_siblings_Inr:
  assumes "validate_siblings pb seen agg raws = Inr (bs, agg')"
  shows "list_all (within_parent pb) bs \<and> map b_allocation_id bs = map rb_allocation_id raws
    \<and> distinct (map b_allocation_id bs) \<and> set (map b_allocation_id bs) \<inter> set seen = {}
    \<and> cents agg' = cents agg + sum_list (map (\<lambda>b. cents (b_budget b)) bs)
    \<and> calls agg' = calls agg + sum_list (map (\<lambda>b. calls (b_budget b)) bs)"
  using assms
proof (induction pb seen agg raws arbitrary: bs agg' rule: validate_siblings.induct)
  case (2 pb seen agg raw raws)
  obtain b agg1 bs' where b: "validate_sibling pb seen agg raw = Inr (b, agg1)"
    "validate_siblings pb (b_allocation_id b # seen) agg1 raws = Inr (bs', agg')" "bs = b # bs'"
    using "2.prems" by (auto split: sum.splits)
  note IH = "2.IH"[OF b(1) refl b(2)]
  then have "set (map b_allocation_id bs') = set (map rb_allocation_id raws)" by metis
  then have ids: "b_allocation_id ` set bs' = rb_allocation_id ` set raws" by simp
  from validate_sibling_Inr[OF b(1)] IH b(3) show ?case by (auto simp: ids)
qed auto

definition snapshot_bounds :: "allocation_snapshot \<Rightarrow> int \<Rightarrow> parent_bounds" where
  "snapshot_bounds s t = \<lparr>pb_parent_id = s_parent_id s, pb_actions = s_actions s, pb_audiences = s_audiences s,
     pb_budget = s_budget s, pb_expiry = t\<rparr>"

text \<open>A snapshot that conserves the authority of its parent.\<close>

definition conserving :: "allocation_snapshot \<Rightarrow> bool" where
  "conserving s \<longleftrightarrow> budget_ok (s_budget s) \<and> distinct (map b_allocation_id (s_siblings s))
     \<and> int (length (s_siblings s)) \<le> s_max_active_children s
     \<and> (\<exists>t. strictInstantMs (s_expires_at s) = Inr t \<and> list_all (within_parent (snapshot_bounds s t)) (s_siblings s))
     \<and> sum_list (map (\<lambda>b. cents (b_budget b)) (s_siblings s)) \<le> cents (s_budget s)
     \<and> sum_list (map (\<lambda>b. calls (b_budget b)) (s_siblings s)) \<le> calls (s_budget s)"

definition pinned :: "allocation_snapshot \<Rightarrow> allocation_pin \<Rightarrow> bool" where
  "pinned s pin \<longleftrightarrow> s_relying_party_id s = pin_relying_party pin \<and> s_authority_head s = pin_head pin
     \<and> Integral (s_authority_epoch s) = pin_epoch pin"

lemma epoch_of: "authorityEpoch v = Inr e \<Longrightarrow> v = Integral e \<and> 0 \<le> e"
  by (cases v) (auto simp: authorityEpoch_def split: if_splits)

lemma assertExactPin_Inr: "assertExactPin s pin = Inr u \<Longrightarrow> pinned s pin"
  by (auto simp: assertExactPin_def pinned_def identifier_of_def authorityHead_def split: sum.splits if_splits dest: epoch_of)

lemma sum_list_mset_eq: "mset xs = mset ys \<Longrightarrow> sum_list (map f xs) = (sum_list (map f ys) :: int)"
  by (metis mset_map sum_mset_sum_list)

lemma validated_snapshot:
  assumes "validateAuthorityAllocationSnapshot le raw pin = Inr n"
  shows "conserving n \<and> pinned n pin \<and> mset (map b_allocation_id (s_siblings n)) = mset (map rb_allocation_id (rs_siblings raw))"
proof -
  obtain acts auds bud t bs agg where v: "budget_of (rs_budget raw) = Inr bud" "strictInstantMs (rs_expires_at raw) = Inr t"
    "int (length (rs_siblings raw)) \<le> num_val (rs_max_active_children raw)"
    "validate_siblings \<lparr>pb_parent_id = rs_parent_id raw, pb_actions = acts, pb_audiences = auds, pb_budget = bud, pb_expiry = t\<rparr>
        [] emptyBudget (rs_siblings raw) = Inr (bs, agg)"
    "withinBudget agg bud" "assertExactPin n pin = Inr ()"
    "s_budget n = bud" "s_max_active_children n = num_val (rs_max_active_children raw)" "s_expires_at n = rs_expires_at raw"
    "s_siblings n = sort_by (\<lambda>l r. le (b_allocation_id l) (b_allocation_id r)) bs"
    "s_parent_id n = rs_parent_id raw" "s_actions n = acts" "s_audiences n = auds"
    using assms
    by (auto simp: validateAuthorityAllocationSnapshot_def identifier_of_def Let_def not_less split: sum.splits if_splits)
  note bs = validate_siblings_Inr[OF v(4)]
  have ms: "mset (s_siblings n) = mset bs" using v(10) by simp
  have ids: "mset (map b_allocation_id (s_siblings n)) = mset (map rb_allocation_id (rs_siblings raw))" using ms bs by (metis mset_map)
  have "distinct (map b_allocation_id (s_siblings n))" using ids bs by (metis mset_eq_imp_distinct_iff)
  moreover have "length (s_siblings n) = length (rs_siblings raw)" using ids by (metis length_map size_mset)
  moreover have "list_all (within_parent (snapshot_bounds n t)) (s_siblings n)"
    using bs v by (simp add: snapshot_bounds_def list_all_iff)
  moreover have "sum_list (map (\<lambda>b. cents (b_budget b)) (s_siblings n)) \<le> cents bud" "sum_list (map (\<lambda>b. calls (b_budget b)) (s_siblings n)) \<le> calls bud"
    using sum_list_mset_eq[OF ms] bs v(5) by (auto simp: withinBudget_def emptyBudget_def)
  ultimately show ?thesis
    using v budget_of_ok[OF v(1)] assertExactPin_Inr[OF v(6)] ids by (simp add: conserving_def)
qed

subsection \<open>Usage of a parent\<close>

definition live :: "allocation_snapshot \<Rightarrow> string option \<Rightarrow> reservation \<Rightarrow> bool" where
  "live s aid r \<longleftrightarrow> counted s aid r \<and> v_state r \<noteq> Released"

definition used :: "(allocation_budget \<Rightarrow> int) \<Rightarrow> parent_state \<Rightarrow> string option \<Rightarrow> int" where
  "used field st aid = sum_where (live (snapshot st) aid) (\<lambda>r. field (v_budget r)) (map_values (reservations st))"

lemma usage_loop_Inr:
  "usage_loop s aid rs u = Inr u' \<Longrightarrow>
     cents (reserved u') + cents (committed u') = cents (reserved u) + cents (committed u) + sum_where (live s aid) (\<lambda>r. cents (v_budget r)) rs
   \<and> calls (reserved u') + calls (committed u') = calls (reserved u) + calls (committed u) + sum_where (live s aid) (\<lambda>r. calls (v_budget r)) rs"
proof (induction s aid rs u arbitrary: u' rule: usage_loop.induct)
  case (2 s aid r rs u)
  show ?case
  proof (cases "counted s aid r")
    case False
    with 2 show ?thesis by (simp add: live_def)
  next
    case True
    then show ?thesis using 2 by (cases "v_state r") (auto simp: live_def split: sum.splits dest!: addBudget_Inr)
  qed
qed simp

lemma candidate_for_Inr:
  assumes "candidate_for st aid bud = Inr c"
  shows "cents c = used cents st aid + cents bud \<and> calls c = used calls st aid + calls bud"
proof -
  obtain u d where u: "usageFor st aid = Inr u" "addBudget (reserved u) (committed u) = Inr d" "addBudget d bud = Inr c"
    using assms by (auto simp: candidate_for_def split: sum.splits)
  from usage_loop_Inr[OF u(1)[unfolded usageFor_def]] addBudget_Inr[OF u(2)] addBudget_Inr[OF u(3)] show ?thesis
    by (simp add: used_def emptyBudget_def)
qed

text \<open>Within the safe range the usage is computed, and no addition overflows.\<close>

lemma usage_loop_total:
  assumes "\<And>r. r \<in> set rs \<Longrightarrow> budget_ok (v_budget r)"
    and "0 \<le> cents (reserved u)" "0 \<le> calls (reserved u)" "0 \<le> cents (committed u)" "0 \<le> calls (committed u)"
    and "cents (reserved u) + cents (committed u) + sum_where (live s aid) (\<lambda>r. cents (v_budget r)) rs \<le> max_safe"
    and "calls (reserved u) + calls (committed u) + sum_where (live s aid) (\<lambda>r. calls (v_budget r)) rs \<le> max_safe"
  shows "\<exists>u'. usage_loop s aid rs u = Inr u' \<and> 0 \<le> cents (reserved u') \<and> 0 \<le> calls (reserved u') \<and> 0 \<le> cents (committed u') \<and> 0 \<le> calls (committed u')"
  using assms
proof (induction rs arbitrary: u)
  case (Cons r rs)
  have b: "0 \<le> cents (v_budget r)" "0 \<le> calls (v_budget r)" using Cons.prems(1) by (auto simp: budget_ok_def)
  have rest: "0 \<le> sum_where (live s aid) (\<lambda>r. cents (v_budget r)) rs" "0 \<le> sum_where (live s aid) (\<lambda>r. calls (v_budget r)) rs"
    using Cons.prems(1) by (auto intro!: sum_where_nonneg simp: budget_ok_def)
  have IH: "\<And>u. 0 \<le> cents (reserved u) \<Longrightarrow> 0 \<le> calls (reserved u) \<Longrightarrow> 0 \<le> cents (committed u) \<Longrightarrow> 0 \<le> calls (committed u) \<Longrightarrow>
      cents (reserved u) + cents (committed u) + sum_where (live s aid) (\<lambda>r. cents (v_budget r)) rs \<le> max_safe \<Longrightarrow>
      calls (reserved u) + calls (committed u) + sum_where (live s aid) (\<lambda>r. calls (v_budget r)) rs \<le> max_safe \<Longrightarrow>
      \<exists>u'. usage_loop s aid rs u = Inr u' \<and> 0 \<le> cents (reserved u') \<and> 0 \<le> calls (reserved u') \<and> 0 \<le> cents (committed u') \<and> 0 \<le> calls (committed u')"
    using Cons.IH Cons.prems(1) by simp
  consider (skip) "\<not> live s aid r" | (res) "counted s aid r" "v_state r = Reserved" | (com) "counted s aid r" "v_state r = Committed"
    by (cases "v_state r") (auto simp: live_def)
  then show ?case
  proof cases
    case skip
    then have "usage_loop s aid (r # rs) u = usage_loop s aid rs u" by (cases "v_state r") (auto simp: live_def)
    with IH[of u] skip Cons.prems(2-) show ?thesis by simp
  next
    case res
    then have "live s aid r" by (simp add: live_def)
    let ?b = "\<lparr>cents = cents (reserved u) + cents (v_budget r), calls = calls (reserved u) + calls (v_budget r)\<rparr>"
    have "addBudget (reserved u) (v_budget r) = Inr ?b"
      by (rule addBudget_ok) (use b rest Cons.prems(2-) \<open>live s aid r\<close> in auto)
    then have "usage_loop s aid (r # rs) u = usage_loop s aid rs (u\<lparr>reserved := ?b\<rparr>)" using res by simp
    with IH[of "u\<lparr>reserved := ?b\<rparr>"] b Cons.prems(2-) \<open>live s aid r\<close> show ?thesis by simp
  next
    case com
    then have "live s aid r" by (simp add: live_def)
    let ?b = "\<lparr>cents = cents (committed u) + cents (v_budget r), calls = calls (committed u) + calls (v_budget r)\<rparr>"
    have "addBudget (committed u) (v_budget r) = Inr ?b"
      by (rule addBudget_ok) (use b rest Cons.prems(2-) \<open>live s aid r\<close> in auto)
    then have "usage_loop s aid (r # rs) u = usage_loop s aid rs (u\<lparr>committed := ?b\<rparr>)" using com by simp
    with IH[of "u\<lparr>committed := ?b\<rparr>"] b Cons.prems(2-) \<open>live s aid r\<close> show ?thesis by simp
  qed
qed simp

subsection \<open>The invariant of a parent\<close>

definition reservation_ok :: "parent_state \<Rightarrow> string \<Rightarrow> reservation \<Rightarrow> bool" where
  "reservation_ok st rid r \<longleftrightarrow> v_reservation_id r = rid \<and> budget_ok (v_budget r)
     \<and> v_authority_epoch r \<le> s_authority_epoch (snapshot st)
     \<and> (v_authority_epoch r = s_authority_epoch (snapshot st) \<longrightarrow> v_authority_head r = s_authority_head (snapshot st))
     \<and> (v_state r = Reserved \<longrightarrow> v_authority_epoch r = s_authority_epoch (snapshot st))
     \<and> v_fencing_token r < nextFence st \<and> v_owner_token r = memory_owner_token (v_fencing_token r)"

definition within_allocation :: "parent_state \<Rightarrow> bool" where
  "within_allocation st \<longleftrightarrow> used cents st None \<le> cents (s_budget (snapshot st)) \<and> used calls st None \<le> calls (s_budget (snapshot st))
     \<and> (\<forall>b \<in> set (s_siblings (snapshot st)). used cents st (Some (b_allocation_id b)) \<le> cents (b_budget b)
         \<and> used calls st (Some (b_allocation_id b)) \<le> calls (b_budget b))"

definition parent_inv :: "parent_state \<Rightarrow> bool" where
  "parent_inv st \<longleftrightarrow> conserving (snapshot st) \<and> map_ok (reservations st)
     \<and> (\<forall>rid r. map_get (reservations st) rid = Some r \<longrightarrow> reservation_ok st rid r)
     \<and> distinct (map v_fencing_token (map_values (reservations st))) \<and> within_allocation st"

definition store_inv :: "store \<Rightarrow> bool" where
  "store_inv parents \<longleftrightarrow> (\<forall>key st. map_get parents key = Some st \<longrightarrow> parent_inv st)"

lemma store_inv_set: "store_inv parents \<Longrightarrow> parent_inv st \<Longrightarrow> store_inv (map_set key st parents)"
  by (simp add: store_inv_def)

lemma conserving_budgets:
  assumes "conserving s"
  shows "budget_ok (s_budget s)" "b \<in> set (s_siblings s) \<Longrightarrow> budget_ok (b_budget b)"
  using assms by (auto simp: conserving_def within_parent_def list_all_iff)

lemma values_budget_ok: "parent_inv st \<Longrightarrow> r \<in> set (map_values (reservations st)) \<Longrightarrow> budget_ok (v_budget r)"
  by (auto simp: parent_inv_def map_values_mem reservation_ok_def)

text \<open>A snapshot of a new epoch starts without usage.\<close>

lemma used_fresh:
  assumes "\<And>r. r \<in> set (map_values (reservations st)) \<Longrightarrow> v_authority_epoch r < s_authority_epoch (snapshot st)"
  shows "used field st aid = 0"
proof -
  have "sum_where (live (snapshot st) aid) (\<lambda>r. field (v_budget r)) (map_values (reservations st)) =
      sum_where (\<lambda>_. False) (\<lambda>r. field (v_budget r)) (map_values (reservations st))"
    by (rule sum_where_cong) (use assms in \<open>fastforce simp: live_def counted_def\<close>)+
  then show ?thesis by (simp add: used_def sum_where_def)
qed

lemma fresh_within: "conserving (snapshot st) \<Longrightarrow> (\<And>field aid. used field st aid = 0) \<Longrightarrow> within_allocation st"
  using conserving_budgets[of "snapshot st"] by (simp add: within_allocation_def budget_ok_def)

lemma install_preserves:
  assumes "store_inv parents"
  shows "store_inv (snd (installSnapshot le sha raw pin parents))"
proof (cases "validateAuthorityAllocationSnapshot le raw pin")
  case (Inl e)
  then show ?thesis using assms by (simp add: installSnapshot_def)
next
  case (Inr n)
  have cons: "conserving n" using validated_snapshot[OF Inr] by simp
  let ?fp = "snapshotFingerprint sha n" and ?key = "parentKey (s_relying_party_id n) (s_parent_id n)"
  show ?thesis
  proof (cases "map_get parents ?key")
    case None
    let ?st = "\<lparr>snapshot = n, fingerprint = ?fp, nextFence = 1, reservations = []\<rparr>"
    have "within_allocation ?st" by (rule fresh_within) (use cons in \<open>simp_all add: used_def map_values_def\<close>)
    then have "parent_inv ?st" using cons by (simp add: parent_inv_def map_values_def)
    then show ?thesis using assms Inr None by (simp add: installSnapshot_def Let_def store_inv_set)
  next
    case (Some cur)
    let ?st = "\<lparr>snapshot = n, fingerprint = ?fp, nextFence = nextFence cur, reservations = reservations cur\<rparr>"
    have inv: "parent_inv cur" using assms Some by (simp add: store_inv_def)
    show ?thesis
    proof (cases "s_authority_epoch (snapshot cur) < s_authority_epoch n \<and> \<not> list_ex (\<lambda>r. v_state r = Reserved) (map_values (reservations cur))")
      case True
      have ok: "reservation_ok cur rid r" "v_state r \<noteq> Reserved" if "map_get (reservations cur) rid = Some r" for rid r
      proof -
        show "reservation_ok cur rid r" using inv that by (simp add: parent_inv_def)
        have "r \<in> set (map_values (reservations cur))" using inv that by (auto simp: map_values_mem parent_inv_def)
        then show "v_state r \<noteq> Reserved" using True by (auto simp: list_ex_iff)
      qed
      have old: "v_authority_epoch r < s_authority_epoch n" if "r \<in> set (map_values (reservations cur))" for r
        using that ok inv True by (force simp: map_values_mem parent_inv_def reservation_ok_def)
      have "within_allocation ?st" by (rule fresh_within) (use cons used_fresh[of ?st] old in auto)
      moreover have "reservation_ok ?st rid r" if "map_get (reservations cur) rid = Some r" for rid r
        using ok[OF that] True by (auto simp: reservation_ok_def)
      ultimately have "parent_inv ?st" using cons inv by (simp add: parent_inv_def)
      then show ?thesis using assms Inr Some True by (auto simp: installSnapshot_def Let_def store_inv_set)
    next
      case False
      then show ?thesis using assms Inr Some by (auto simp: installSnapshot_def Let_def)
    qed
  qed
qed

subsection \<open>Reservations\<close>

definition new_reservation :: "valid_reservation \<Rightarrow> nat \<Rightarrow> reservation" where
  "new_reservation q fence = \<lparr>v_reservation_id = vq_reservation_id q, v_allocation_id = vq_allocation_id q, v_authority_head = vq_head q,
     v_authority_epoch = vq_epoch q, v_budget = vq_budget q, v_state = Reserved, v_fencing_token = fence,
     v_owner_token = memory_owner_token fence\<rparr>"

definition with_reservation :: "parent_state \<Rightarrow> valid_reservation \<Rightarrow> parent_state" where
  "with_reservation st q = st\<lparr>nextFence := nextFence st + 1,
     reservations := map_set (vq_reservation_id q) (new_reservation q (nextFence st)) (reservations st)\<rparr>"

lemma reserve_Ok:
  assumes "reserve_allocation clock raw parents = (Ok res, parents')"
  obtains q st b where "validateReservationRequest raw = Inr q" "map_get parents (vq_key q) = Some st"
    "pinMatches st (vq_head q) (vq_epoch q)" "map_get (reservations st) (vq_reservation_id q) = None"
    "b \<in> set (s_siblings (snapshot st))" "b_allocation_id b = vq_allocation_id q"
    "used cents st (Some (vq_allocation_id q)) + cents (vq_budget q) \<le> cents (b_budget b)"
    "used calls st (Some (vq_allocation_id q)) + calls (vq_budget q) \<le> calls (b_budget b)"
    "used cents st None + cents (vq_budget q) \<le> cents (s_budget (snapshot st))"
    "used calls st None + calls (vq_budget q) \<le> calls (s_budget (snapshot st))"
    "parents' = map_set (vq_key q) (with_reservation st q) parents"
    "rr_fencing_token res = nextFence st" "rr_owner_token res = memory_owner_token (nextFence st)"
    "cents (rr_remaining res) = cents (b_budget b) - used cents st (Some (vq_allocation_id q)) - cents (vq_budget q)"
    "calls (rr_remaining res) = calls (b_budget b) - used calls st (Some (vq_allocation_id q)) - calls (vq_budget q)"
proof -
  obtain q st b bc pc where q: "validateReservationRequest raw = Inr q" "map_get parents (vq_key q) = Some st"
    "pinMatches st (vq_head q) (vq_epoch q)" "\<not> map_has (reservations st) (vq_reservation_id q)"
    "List.find (\<lambda>b. b_allocation_id b = vq_allocation_id q) (s_siblings (snapshot st)) = Some b"
    "candidate_for st (Some (b_allocation_id b)) (vq_budget q) = Inr bc" "candidate_for st None (vq_budget q) = Inr pc"
    "withinBudget bc (b_budget b)" "withinBudget pc (s_budget (snapshot st))"
    "parents' = map_set (vq_key q) (with_reservation st q) parents" "rr_fencing_token res = nextFence st"
    "rr_owner_token res = memory_owner_token (nextFence st)" "rr_remaining res = subtractBudget (b_budget b) bc"
    using assms
    by (auto simp: reserve_allocation_def with_reservation_def new_reservation_def Let_def split: sum.splits option.splits if_splits bool.splits)
  have b: "b \<in> set (s_siblings (snapshot st))" "b_allocation_id b = vq_allocation_id q" using q(5) by (auto simp: find_Some_iff)
  show thesis
    by (rule that[OF q(1-3) _ b])
      (use q(4) q(8-13) candidate_for_Inr[OF q(6)] candidate_for_Inr[OF q(7)] b in
        \<open>auto simp: map_has_def withinBudget_def subtractBudget_def\<close>)
qed

lemma reserve_not_Ok: "reserve_allocation clock raw parents = (r, parents') \<Longrightarrow> \<not> is_ok r \<Longrightarrow> parents' = parents"
  by (auto simp: reserve_allocation_def Let_def split: sum.splits option.splits if_splits bool.splits)

lemma request_ok: "validateReservationRequest raw = Inr q \<Longrightarrow> budget_ok (vq_budget q)"
  by (auto simp: validateReservationRequest_def split: sum.splits dest: budget_of_ok)

lemma used_with_reservation:
  assumes "map_get (reservations st) (vq_reservation_id q) = None" "pinMatches st (vq_head q) (vq_epoch q)"
  shows "used field (with_reservation st q) aid = used field st aid + (if aid = None \<or> aid = Some (vq_allocation_id q) then field (vq_budget q) else 0)"
  using assms
  by (auto simp: used_def with_reservation_def map_values_set_new live_def counted_def new_reservation_def pinMatches_def)

lemma with_reservation_inv:
  assumes inv: "parent_inv st" and q: "map_get (reservations st) (vq_reservation_id q) = None" "pinMatches st (vq_head q) (vq_epoch q)"
    and b: "b \<in> set (s_siblings (snapshot st))" "b_allocation_id b = vq_allocation_id q" and bud: "budget_ok (vq_budget q)"
    and fit: "used cents st (Some (vq_allocation_id q)) + cents (vq_budget q) \<le> cents (b_budget b)"
      "used calls st (Some (vq_allocation_id q)) + calls (vq_budget q) \<le> calls (b_budget b)"
      "used cents st None + cents (vq_budget q) \<le> cents (s_budget (snapshot st))"
      "used calls st None + calls (vq_budget q) \<le> calls (s_budget (snapshot st))"
  shows "parent_inv (with_reservation st q)"
proof -
  let ?st = "with_reservation st q"
  have snap: "snapshot ?st = snapshot st" by (simp add: with_reservation_def)
  have same: "b' = b" if "b' \<in> set (s_siblings (snapshot st))" "b_allocation_id b' = vq_allocation_id q" for b'
  proof -
    have "distinct (map b_allocation_id (s_siblings (snapshot st)))" using inv by (simp add: parent_inv_def conserving_def)
    then show ?thesis using that b by (metis distinct_map inj_onD)
  qed
  have "used cents ?st (Some (b_allocation_id b')) \<le> cents (b_budget b') \<and> used calls ?st (Some (b_allocation_id b')) \<le> calls (b_budget b')"
    if b': "b' \<in> set (s_siblings (snapshot st))" for b'
  proof (cases "b_allocation_id b' = vq_allocation_id q")
    case True
    with same[OF b' True] fit show ?thesis by (simp add: used_with_reservation[OF q])
  next
    case False
    with b' inv show ?thesis by (auto simp: used_with_reservation[OF q] parent_inv_def within_allocation_def)
  qed
  then have "within_allocation ?st" using fit by (simp add: within_allocation_def used_with_reservation[OF q] snap)
  moreover have "reservation_ok ?st rid r" if r: "map_get (reservations ?st) rid = Some r" for rid r
  proof (cases "rid = vq_reservation_id q")
    case True
    then show ?thesis using r q(2) bud by (auto simp: with_reservation_def reservation_ok_def new_reservation_def pinMatches_def)
  next
    case False
    then have "reservation_ok st rid r" using r inv by (simp add: with_reservation_def parent_inv_def)
    then show ?thesis by (auto simp: with_reservation_def reservation_ok_def)
  qed
  moreover have "distinct (map v_fencing_token (map_values (reservations ?st)))"
  proof -
    have "v_fencing_token r \<noteq> nextFence st" if r: "r \<in> set (map_values (reservations st))" for r
    proof -
      obtain k where "map_get (reservations st) k = Some r" using r inv by (auto simp: parent_inv_def map_values_mem)
      then have "reservation_ok st k r" using inv unfolding parent_inv_def by blast
      then show ?thesis by (simp add: reservation_ok_def)
    qed
    then have "nextFence st \<notin> v_fencing_token ` set (map_values (reservations st))" by force
    then show ?thesis using inv by (simp add: with_reservation_def map_values_set_new[OF q(1)] parent_inv_def new_reservation_def)
  qed
  ultimately show ?thesis using inv snap by (simp add: parent_inv_def with_reservation_def)
qed

lemma reserve_preserves:
  assumes "store_inv parents"
  shows "store_inv (snd (reserve_allocation clock raw parents))"
proof (cases "reserve_allocation clock raw parents")
  case (Pair r parents')
  show ?thesis
  proof (cases r)
    case (Ok res)
    show ?thesis
      using Pair[unfolded Ok]
    proof (rule reserve_Ok, goal_cases)
      case (1 q st b)
      have "parent_inv st" using assms 1(2) by (simp add: store_inv_def)
      from with_reservation_inv[OF this 1(4,3,5,6) request_ok[OF 1(1)] 1(7-10)] assms 1(11) Pair show ?case by (simp add: store_inv_set)
    qed
  qed (use assms Pair reserve_not_Ok[OF Pair] in auto)
qed

subsection \<open>Finalisation\<close>

lemma finalize_Ok:
  assumes "finalize_allocation target raw parents = (Ok s, parents')"
  obtains q st r where "validateFinalizeRequest raw = Inr q" "map_get parents (vf_key q) = Some st"
    "pinMatches st (vf_head q) (vf_epoch q)" "map_get (reservations st) (vf_reservation_id q) = Some r" "v_state r = Reserved"
    "v_owner_token r = vf_owner_token q" "int (v_fencing_token r) = vf_fencing_token q" "v_allocation_id r = vf_allocation_id q" "s = target"
    "parents' = map_set (vf_key q) (st\<lparr>reservations := map_set (vf_reservation_id q) (r\<lparr>v_state := target\<rparr>) (reservations st)\<rparr>) parents"
proof -
  have "\<exists>q st r. validateFinalizeRequest raw = Inr q \<and> map_get parents (vf_key q) = Some st
    \<and> pinMatches st (vf_head q) (vf_epoch q) \<and> map_get (reservations st) (vf_reservation_id q) = Some r \<and> v_state r = Reserved
    \<and> v_owner_token r = vf_owner_token q \<and> int (v_fencing_token r) = vf_fencing_token q \<and> v_allocation_id r = vf_allocation_id q \<and> s = target
    \<and> parents' = map_set (vf_key q) (st\<lparr>reservations := map_set (vf_reservation_id q) (r\<lparr>v_state := target\<rparr>) (reservations st)\<rparr>) parents"
    using assms by (auto simp: finalize_allocation_def split: sum.splits option.splits if_splits) (metis reservation_state.exhaust)+
  with that show thesis by blast
qed

lemma finalize_not_Ok: "finalize_allocation target raw parents = (r, parents') \<Longrightarrow> \<not> is_ok r \<Longrightarrow> parents' = parents"
  by (auto simp: finalize_allocation_def split: sum.splits option.splits if_splits)

lemma finalized_inv:
  assumes inv: "parent_inv st" and r: "map_get (reservations st) rid = Some r" "v_state r = Reserved" and t: "target \<noteq> Reserved"
  shows "parent_inv (st\<lparr>reservations := map_set rid (r\<lparr>v_state := target\<rparr>) (reservations st)\<rparr>)"
proof -
  let ?m = "map_set rid (r\<lparr>v_state := target\<rparr>) (reservations st)"
  let ?st = "st\<lparr>reservations := ?m\<rparr>"
  have rok: "reservation_ok st rid r" using inv r(1) by (simp add: parent_inv_def)
  have "used field ?st aid = used field st aid - (if live (snapshot st) aid r then field (v_budget r) else 0)
      + (if live (snapshot st) aid (r\<lparr>v_state := target\<rparr>) then field (v_budget r) else 0)" for field aid
    using sum_where_map_set[OF r(1), of "live (snapshot st) aid" "\<lambda>r. field (v_budget r)"] by (simp add: used_def)
  moreover have "live (snapshot st) aid (r\<lparr>v_state := target\<rparr>) \<Longrightarrow> live (snapshot st) aid r" for aid
    using r(2) by (auto simp: live_def counted_def)
  ultimately have less: "used cents ?st aid \<le> used cents st aid" "used calls ?st aid \<le> used calls st aid" for aid
    using rok by (auto simp: reservation_ok_def budget_ok_def)
  have "within_allocation st" using inv by (simp add: parent_inv_def)
  then have "within_allocation ?st"
    unfolding within_allocation_def using order_trans[OF less(1)] order_trans[OF less(2)] by simp
  moreover have "reservation_ok ?st k x" if "map_get ?m k = Some x" for k x
    using that rok inv t by (auto simp: reservation_ok_def parent_inv_def split: if_splits)
  moreover have "map v_fencing_token (map_values ?m) = map v_fencing_token (map_values (reservations st))"
    using r(1) by (elim map_set_split[where k = rid]) (simp add: map_values_def)
  ultimately show ?thesis using inv by (simp add: parent_inv_def)
qed

lemma finalize_preserves:
  assumes "store_inv parents" "target \<noteq> Reserved"
  shows "store_inv (snd (finalize_allocation target raw parents))"
proof (cases "finalize_allocation target raw parents")
  case (Pair r parents')
  show ?thesis
  proof (cases r)
    case (Ok s)
    show ?thesis
      using Pair[unfolded Ok]
    proof (rule finalize_Ok, goal_cases)
      case (1 q st r)
      have "parent_inv st" using assms 1(2) by (simp add: store_inv_def)
      from finalized_inv[OF this 1(4,5) assms(2)] assms(1) 1(10) Pair show ?case by (simp add: store_inv_set)
    qed
  qed (use assms Pair finalize_not_Ok[OF Pair] in auto)
qed

subsection \<open>Runs of the store\<close>

text \<open>
  The store runs one operation after another, in the order of its queue. Every operation is a step,
  also one that refuses or throws.
\<close>

inductive store_step :: "locale_le \<Rightarrow> hash \<Rightarrow> store \<Rightarrow> store \<Rightarrow> bool" for le sha where
  step_install: "store_step le sha parents (snd (installSnapshot le sha raw pin parents))"
| step_reserve: "store_step le sha parents (snd (reserve_allocation clock request parents))"
| step_commit: "store_step le sha parents (snd (commit_allocation final parents))"
| step_release: "store_step le sha parents (snd (release_allocation final parents))"

abbreviation store_run :: "locale_le \<Rightarrow> hash \<Rightarrow> store \<Rightarrow> store \<Rightarrow> bool" where
  "store_run le sha \<equiv> (store_step le sha)\<^sup>*\<^sup>*"

lemma step_preserves: "store_step le sha parents parents' \<Longrightarrow> store_inv parents \<Longrightarrow> store_inv parents'"
  by (induction rule: store_step.induct)
    (auto simp: commit_allocation_def release_allocation_def intro: install_preserves reserve_preserves finalize_preserves)

interpretation allocation: store_invariant "store_step le sha" store_inv for le sha
  by unfold_locales (rule step_preserves)

lemma run_inv: "store_run le sha [] parents \<Longrightarrow> map_get parents key = Some st \<Longrightarrow> parent_inv st"
  using allocation.run_keeps[of le sha "[]" parents] by (simp add: store_inv_def)

definition spent :: "usage \<Rightarrow> allocation_budget" where
  "spent u = \<lparr>cents = cents (reserved u) + cents (committed u), calls = calls (reserved u) + calls (committed u)\<rparr>"

lemma usageFor_total:
  assumes "parent_inv st" "used cents st aid \<le> max_safe" "used calls st aid \<le> max_safe"
  obtains u where "usageFor st aid = Inr u" "spent u = \<lparr>cents = used cents st aid, calls = used calls st aid\<rparr>"
    "0 \<le> cents (reserved u)" "0 \<le> calls (reserved u)" "0 \<le> cents (committed u)" "0 \<le> calls (committed u)"
proof -
  let ?u0 = "\<lparr>reserved = emptyBudget, committed = emptyBudget\<rparr>"
  obtain u where u: "usage_loop (snapshot st) aid (map_values (reservations st)) ?u0 = Inr u"
    "0 \<le> cents (reserved u)" "0 \<le> calls (reserved u)" "0 \<le> cents (committed u)" "0 \<le> calls (committed u)"
    using usage_loop_total[of "map_values (reservations st)" ?u0 "snapshot st" aid] values_budget_ok[OF assms(1)] assms(2,3)
    by (auto simp: emptyBudget_def used_def)
  show thesis
    by (rule that[of u]) (use u usage_loop_Inr[OF u(1)] in \<open>auto simp: usageFor_def spent_def used_def emptyBudget_def\<close>)
qed

lemma used_bounds:
  assumes "parent_inv st"
  shows "used cents st None \<le> max_safe" "used calls st None \<le> max_safe"
    "b \<in> set (s_siblings (snapshot st)) \<Longrightarrow> used cents st (Some (b_allocation_id b)) \<le> max_safe"
    "b \<in> set (s_siblings (snapshot st)) \<Longrightarrow> used calls st (Some (b_allocation_id b)) \<le> max_safe"
proof -
  have c: "conserving (snapshot st)" "within_allocation st" using assms by (simp_all add: parent_inv_def)
  note ok = conserving_budgets[OF c(1), unfolded budget_ok_def] and w = c(2)[unfolded within_allocation_def]
  show "used cents st None \<le> max_safe" "used calls st None \<le> max_safe" using ok(1) w by linarith+
  show "b \<in> set (s_siblings (snapshot st)) \<Longrightarrow> used cents st (Some (b_allocation_id b)) \<le> max_safe"
    "b \<in> set (s_siblings (snapshot st)) \<Longrightarrow> used calls st (Some (b_allocation_id b)) \<le> max_safe"
    using ok(2) w by (meson order_trans)+
qed

text \<open>
  Property C6. In every store reached by a run from the empty store, the usage of a parent and of each
  of its branches is computed without overflow, the reserved and committed budget of each branch
  stays within the budget allocated to that branch, that of the parent within the parent's budget,
  and the budgets allocated to the branches sum up to at most the parent's budget, in cents and in
  calls.
\<close>

theorem authority_conserved:
  assumes "store_run le sha [] parents" and "map_get parents key = Some st"
  shows "(\<exists>u. usageFor st None = Inr u \<and> withinBudget (spent u) (s_budget (snapshot st)))
   \<and> (\<forall>b \<in> set (s_siblings (snapshot st)). \<exists>u. usageFor st (Some (b_allocation_id b)) = Inr u \<and> withinBudget (spent u) (b_budget b))
   \<and> (\<Sum>b\<leftarrow>s_siblings (snapshot st). cents (b_budget b)) \<le> cents (s_budget (snapshot st))
   \<and> (\<Sum>b\<leftarrow>s_siblings (snapshot st). calls (b_budget b)) \<le> calls (s_budget (snapshot st))"
proof (intro conjI)
  have inv: "parent_inv st" using assms by (rule run_inv)
  have w: "within_allocation st" and c: "conserving (snapshot st)" using inv by (simp_all add: parent_inv_def)
  show "\<exists>u. usageFor st None = Inr u \<and> withinBudget (spent u) (s_budget (snapshot st))"
    by (rule usageFor_total[OF inv used_bounds(1,2)[OF inv]]) (use w in \<open>auto simp: within_allocation_def withinBudget_def\<close>)
  show "\<forall>b \<in> set (s_siblings (snapshot st)). \<exists>u. usageFor st (Some (b_allocation_id b)) = Inr u \<and> withinBudget (spent u) (b_budget b)"
  proof
    fix b assume b: "b \<in> set (s_siblings (snapshot st))"
    show "\<exists>u. usageFor st (Some (b_allocation_id b)) = Inr u \<and> withinBudget (spent u) (b_budget b)"
      by (rule usageFor_total[OF inv used_bounds(3,4)[OF inv b]]) (use b w in \<open>auto simp: within_allocation_def withinBudget_def\<close>)
  qed
  show "(\<Sum>b\<leftarrow>s_siblings (snapshot st). cents (b_budget b)) \<le> cents (s_budget (snapshot st))"
    "(\<Sum>b\<leftarrow>s_siblings (snapshot st). calls (b_budget b)) \<le> calls (s_budget (snapshot st))"
    using c by (simp_all add: conserving_def)
qed

text \<open>
  A run that installs one snapshot, reserves on its first branch and commits the reservation.
\<close>

definition sample_head :: string where
  "sample_head = ''sha256:'' @ replicate 64 CHR ''a''"

definition sample_raw :: raw_snapshot where
  "sample_raw = \<lparr>rs_version = AUTHORITY_ALLOCATION_VERSION, rs_relying_party_id = ''rp'', rs_parent_id = ''parent'',
     rs_authority_head = sample_head, rs_authority_epoch = Integral 1, rs_actions = [''pay'', ''audit''],
     rs_audiences = [''bank''], rs_budget = \<lparr>raw_cents = Integral 100, raw_calls = Integral 5\<rparr>,
     rs_max_active_children = Integral 2, rs_expires_at = ''2026-01-01T00:00:00Z'',
     rs_siblings = [\<lparr>rb_allocation_id = ''a1'', rb_parent_id = ''parent'', rb_actions = [''pay''], rb_audiences = [''bank''],
       rb_budget = \<lparr>raw_cents = Integral 60, raw_calls = Integral 3\<rparr>, rb_expires_at = ''2026-01-01T00:00:00Z''\<rparr>]\<rparr>"

definition sample_pin :: allocation_pin where
  "sample_pin = \<lparr>pin_relying_party = ''rp'', pin_head = sample_head, pin_epoch = Integral 1\<rparr>"

definition sample_le :: locale_le where
  "sample_le l r \<longleftrightarrow> l \<le> r"

definition sample_sha :: hash where
  "sample_sha s = s"

definition sample_request :: reservation_request where
  "sample_request = \<lparr>q_relying_party_id = ''rp'', q_parent_id = ''parent'', q_allocation_id = ''a1'', q_reservation_id = ''r1'',
     q_authority_head = sample_head, q_authority_epoch = Integral 1, q_budget = \<lparr>raw_cents = Integral 40, raw_calls = Integral 1\<rparr>,
     q_now = Now_number (Some 0)\<rparr>"

definition sample_final :: finalize_request where
  "sample_final = \<lparr>f_relying_party_id = ''rp'', f_parent_id = ''parent'', f_allocation_id = ''a1'', f_reservation_id = ''r1'',
     f_authority_head = sample_head, f_authority_epoch = Integral 1,
     f_owner_token = ''authority-owner:v1:memory_0000000000000001'', f_fencing_token = Integral 1\<rparr>"

definition sample_key :: string where
  "sample_key = parentKey ''rp'' ''parent''"

definition sample_snapshot :: allocation_snapshot where
  "sample_snapshot = \<lparr>s_relying_party_id = ''rp'', s_parent_id = ''parent'', s_authority_head = sample_head, s_authority_epoch = 1,
     s_actions = [''audit'', ''pay''], s_audiences = [''bank''], s_budget = \<lparr>cents = 100, calls = 5\<rparr>, s_max_active_children = 2,
     s_expires_at = ''2026-01-01T00:00:00Z'',
     s_siblings = [\<lparr>b_allocation_id = ''a1'', b_parent_id = ''parent'', b_actions = [''pay''], b_audiences = [''bank''],
       b_budget = \<lparr>cents = 60, calls = 3\<rparr>, b_expires_at = ''2026-01-01T00:00:00Z''\<rparr>]\<rparr>"

definition sample_valid :: valid_reservation where
  "sample_valid = \<lparr>vq_key = sample_key, vq_allocation_id = ''a1'', vq_reservation_id = ''r1'', vq_head = sample_head,
     vq_epoch = 1, vq_budget = \<lparr>cents = 40, calls = 1\<rparr>, vq_now = Now_number (Some 0)\<rparr>"

definition sample_parent :: parent_state where
  "sample_parent = \<lparr>snapshot = sample_snapshot, fingerprint = snapshotFingerprint sample_sha sample_snapshot, nextFence = 1, reservations = []\<rparr>"

definition sample_installed :: store where
  "sample_installed = [(sample_key, sample_parent)]"

definition sample_reserved :: store where
  "sample_reserved = [(sample_key, with_reservation sample_parent sample_valid)]"

definition sample_committed :: store where
  "sample_committed = [(sample_key, (with_reservation sample_parent sample_valid)
     \<lparr>reservations := [(''r1'', (new_reservation sample_valid 1)\<lparr>v_state := Committed\<rparr>)]\<rparr>)]"

lemma sample_validates: "validateAuthorityAllocationSnapshot sample_le sample_raw sample_pin = Inr sample_snapshot"
  by code_simp

lemma sample_install: "installSnapshot sample_le sample_sha sample_raw sample_pin [] =
    (Ok (True, snapshotFingerprint sample_sha sample_snapshot), sample_installed)"
  by (simp add: installSnapshot_def sample_validates Let_def sample_installed_def sample_parent_def sample_key_def)
    (simp add: sample_snapshot_def)

lemma sample_request_valid: "validateReservationRequest sample_request = Inr sample_valid"
  by code_simp

lemma sample_not_expired: "b \<in> set (s_siblings sample_snapshot) \<Longrightarrow> expired_at 0 sample_parent b = Inr False"
proof -
  have "strictInstantMs ''2026-01-01T00:00:00Z'' = Inr 1767225600000" by code_simp
  then show "b \<in> set (s_siblings sample_snapshot) \<Longrightarrow> expired_at 0 sample_parent b = Inr False"
    by (auto simp: expired_at_def sample_parent_def sample_snapshot_def)
qed

lemma sample_reserve: "snd (reserve_allocation 0 sample_request sample_installed) = sample_reserved"
  using sample_not_expired
  by (simp add: reserve_allocation_def sample_request_valid sample_installed_def sample_reserved_def with_reservation_def new_reservation_def
      sample_valid_def sample_parent_def sample_snapshot_def pinMatches_def operationTimeMs_def candidate_for_def usageFor_def
      addBudget_def checkedAdd_def emptyBudget_def safe_int_def max_safe_def withinBudget_def Let_def map_values_def map_has_def)

lemma sample_final_valid: "validateFinalizeRequest sample_final = Inr \<lparr>vf_key = sample_key, vf_allocation_id = ''a1'',
    vf_reservation_id = ''r1'', vf_head = sample_head, vf_epoch = 1, vf_owner_token = memory_owner_token 1, vf_fencing_token = 1\<rparr>"
  by code_simp

lemma sample_commit: "snd (commit_allocation sample_final sample_reserved) = sample_committed"
  by (simp add: commit_allocation_def finalize_allocation_def sample_final_valid sample_reserved_def sample_committed_def
      with_reservation_def new_reservation_def sample_valid_def sample_parent_def sample_snapshot_def pinMatches_def)

lemma sample_runs:
  "store_run sample_le sample_sha [] sample_installed"
  "store_run sample_le sample_sha sample_installed sample_reserved"
  "store_run sample_le sample_sha sample_reserved sample_committed"
  using step_install[of sample_le sample_sha "[]" sample_raw sample_pin] step_reserve[of sample_le sample_sha sample_installed 0 sample_request]
    step_commit[of sample_le sample_sha sample_reserved sample_final]
  by (simp_all add: sample_install sample_reserve sample_commit)

theorem authority_conserved_witness:
  "usageFor (with_reservation sample_parent sample_valid) None = Inr \<lparr>reserved = \<lparr>cents = 40, calls = 1\<rparr>, committed = emptyBudget\<rparr>
   \<and> list_all (\<lambda>b. \<exists>u. usageFor (with_reservation sample_parent sample_valid) (Some (b_allocation_id b)) = Inr u
        \<and> withinBudget (spent u) (b_budget b)) (s_siblings sample_snapshot)"
proof
  have run: "store_run sample_le sample_sha [] sample_reserved" using sample_runs(1,2) by (rule rtranclp_trans)
  have get: "map_get sample_reserved sample_key = Some (with_reservation sample_parent sample_valid)" by (simp add: sample_reserved_def)
  show "usageFor (with_reservation sample_parent sample_valid) None = Inr \<lparr>reserved = \<lparr>cents = 40, calls = 1\<rparr>, committed = emptyBudget\<rparr>"
    by code_simp
  show "list_all (\<lambda>b. \<exists>u. usageFor (with_reservation sample_parent sample_valid) (Some (b_allocation_id b)) = Inr u
        \<and> withinBudget (spent u) (b_budget b)) (s_siblings sample_snapshot)"
    using authority_conserved[OF run get] by (simp add: list_all_iff with_reservation_def sample_parent_def)
qed

subsection \<open>Containment\<close>

text \<open>
  Property C36. A snapshot that the validator accepts conserves its parent's authority: it carries the
  pinned relying party, head and epoch, its branches are the submitted ones under distinct
  identifiers and no more than the limit on active children, every branch names the parent, narrows
  its actions and audiences, expires no later and has a safe non-negative budget within the parent's,
  and the branch budgets sum up to at most the parent's budget.
\<close>

theorem validated_snapshot_contains:
  assumes "validateAuthorityAllocationSnapshot le raw pin = Inr n"
  shows "conserving n \<and> pinned n pin \<and> mset (map b_allocation_id (s_siblings n)) = mset (map rb_allocation_id (rs_siblings raw))"
  using assms by (rule validated_snapshot)

theorem validated_snapshot_contains_witness:
  "conserving sample_snapshot \<and> pinned sample_snapshot sample_pin
   \<and> mset (map b_allocation_id (s_siblings sample_snapshot)) = mset (map rb_allocation_id (rs_siblings sample_raw))"
  by (rule validated_snapshot_contains[OF sample_validates])

subsection \<open>Admission\<close>

lemma candidate_for_total:
  assumes "parent_inv st" "budget_ok bud" "used cents st aid + cents bud \<le> max_safe" "used calls st aid + calls bud \<le> max_safe"
  shows "candidate_for st aid bud = Inr \<lparr>cents = used cents st aid + cents bud, calls = used calls st aid + calls bud\<rparr>"
proof -
  have b: "0 \<le> cents bud" "0 \<le> calls bud" using assms(2) by (simp_all add: budget_ok_def)
  obtain u where u: "usageFor st aid = Inr u" "spent u = \<lparr>cents = used cents st aid, calls = used calls st aid\<rparr>"
    "0 \<le> cents (reserved u)" "0 \<le> calls (reserved u)" "0 \<le> cents (committed u)" "0 \<le> calls (committed u)"
    by (rule usageFor_total[OF assms(1), of aid]) (use assms(3,4) b in linarith)+
  have s: "cents (reserved u) + cents (committed u) = used cents st aid" "calls (reserved u) + calls (committed u) = used calls st aid"
    using u(2) by (simp_all add: spent_def)
  have "addBudget (reserved u) (committed u) = Inr (spent u)"
    unfolding spent_def by (rule addBudget_ok) (use s u(3-) assms(3,4) b in linarith)+
  moreover have "addBudget (spent u) bud = Inr \<lparr>cents = used cents st aid + cents bud, calls = used calls st aid + calls bud\<rparr>"
    using addBudget_ok[of "spent u" bud] s u(2-) assms(3,4) b by simp
  ultimately show ?thesis using u(1) by (simp add: candidate_for_def)
qed

text \<open>
  In a store reached by a run, a well-formed request for a pinned parent, on a branch that
  has not expired and under a reservation identifier that is not in use, is admitted exactly if the
  requested budget still fits into the branch and into the parent, beside what is reserved and
  committed there.
\<close>

theorem reserve_admits_iff_fits:
  assumes run: "store_run le sha [] parents" and st: "map_get parents (vq_key q) = Some st"
    and q: "validateReservationRequest raw = Inr q" "pinMatches st (vq_head q) (vq_epoch q)"
      "map_get (reservations st) (vq_reservation_id q) = None"
    and b: "b \<in> set (s_siblings (snapshot st))" "b_allocation_id b = vq_allocation_id q"
    and time: "operationTimeMs clock (vq_now q) = Inr t" "expired_at t st b = Inr False"
  shows "is_ok (fst (reserve_allocation clock raw parents)) \<longleftrightarrow>
     used cents st (Some (b_allocation_id b)) + cents (vq_budget q) \<le> cents (b_budget b)
   \<and> used calls st (Some (b_allocation_id b)) + calls (vq_budget q) \<le> calls (b_budget b)
   \<and> used cents st None + cents (vq_budget q) \<le> cents (s_budget (snapshot st))
   \<and> used calls st None + calls (vq_budget q) \<le> calls (s_budget (snapshot st))" (is "_ \<longleftrightarrow> ?fits")
proof -
  have inv: "parent_inv st" using run st by (rule run_inv)
  have c: "conserving (snapshot st)" using inv by (simp add: parent_inv_def)
  note ok = conserving_budgets[OF c, unfolded budget_ok_def] and bud = request_ok[OF q(1)]
  have same: "b' = b" if "b' \<in> set (s_siblings (snapshot st))" "b_allocation_id b' = vq_allocation_id q" for b'
    using c that b by (metis conserving_def distinct_map inj_onD)
  have found: "List.find (\<lambda>b. b_allocation_id b = vq_allocation_id q) (s_siblings (snapshot st)) = Some b"
  proof (cases "List.find (\<lambda>b. b_allocation_id b = vq_allocation_id q) (s_siblings (snapshot st))")
    case None
    then show ?thesis using b by (auto simp: find_None_iff)
  next
    case (Some b')
    then have "b' \<in> set (s_siblings (snapshot st))" "b_allocation_id b' = vq_allocation_id q" by (auto simp: find_Some_iff)
    then show ?thesis using Some same by simp
  qed
  note run_to = reserve_allocation_def[of clock raw parents] q st found time map_has_def
  show ?thesis
  proof
    assume ?fits
    then have "candidate_for st (Some (b_allocation_id b)) (vq_budget q) = Inr \<lparr>cents = used cents st (Some (b_allocation_id b)) + cents (vq_budget q),
        calls = used calls st (Some (b_allocation_id b)) + calls (vq_budget q)\<rparr>"
      "candidate_for st None (vq_budget q) = Inr \<lparr>cents = used cents st None + cents (vq_budget q), calls = used calls st None + calls (vq_budget q)\<rparr>"
      using ok(1) ok(2)[OF b(1)] by (auto intro!: candidate_for_total[OF inv bud])
    then show "is_ok (fst (reserve_allocation clock raw parents))" using \<open>?fits\<close> by (simp add: run_to withinBudget_def Let_def)
  next
    assume "is_ok (fst (reserve_allocation clock raw parents))"
    then show ?fits
      by (auto simp: run_to withinBudget_def dest!: candidate_for_Inr split: sum.splits if_splits)
  qed
qed

theorem reserve_admits_iff_fits_witness: "is_ok (fst (reserve_allocation 0 sample_request sample_installed))"
proof -
  let ?b = "hd (s_siblings sample_snapshot)"
  have get: "map_get sample_installed (vq_key sample_valid) = Some sample_parent" by (simp add: sample_installed_def sample_valid_def)
  have b: "?b \<in> set (s_siblings (snapshot sample_parent))" by (simp add: sample_parent_def sample_snapshot_def)
  have "?b \<in> set (s_siblings sample_snapshot)" using b by (simp add: sample_parent_def)
  note fits = reserve_admits_iff_fits[OF sample_runs(1) get sample_request_valid _ _ b, of 0 0]
  show ?thesis
    by (subst fits) (use sample_not_expired[OF \<open>?b \<in> set (s_siblings sample_snapshot)\<close>] in
      \<open>simp_all add: pinMatches_def sample_parent_def sample_valid_def sample_snapshot_def operationTimeMs_def used_def map_values_def\<close>)
qed

subsection \<open>The life of a reservation\<close>

text \<open>A reservation keeps its fields, and its state changes at most once, away from \<open>Reserved\<close>.\<close>

definition settles_once :: "reservation \<Rightarrow> reservation \<Rightarrow> bool" where
  "settles_once r r' \<longleftrightarrow> r' = r \<or> v_state r = Reserved \<and> v_state r' \<noteq> Reserved \<and> r' = r\<lparr>v_state := v_state r'\<rparr>"

definition keeps_reservations :: "store \<Rightarrow> store \<Rightarrow> bool" where
  "keeps_reservations parents parents' \<longleftrightarrow> (\<forall>key st rid r. map_get parents key = Some st \<longrightarrow> map_get (reservations st) rid = Some r \<longrightarrow>
     (\<exists>st' r'. map_get parents' key = Some st' \<and> map_get (reservations st') rid = Some r' \<and> settles_once r r'))"

lemma settles_once_trans: "settles_once r r' \<Longrightarrow> settles_once r' r'' \<Longrightarrow> settles_once r r''"
  unfolding settles_once_def by metis

lemma keeps_reservations_refl [simp]: "keeps_reservations p p"
  by (auto simp: keeps_reservations_def settles_once_def)

lemma keeps_reservations_trans: "keeps_reservations p p' \<Longrightarrow> keeps_reservations p' p'' \<Longrightarrow> keeps_reservations p p''"
  unfolding keeps_reservations_def by (meson settles_once_trans)

lemma keeps_reservations_set:
  assumes "\<And>st rid r. map_get parents key = Some st \<Longrightarrow> map_get (reservations st) rid = Some r \<Longrightarrow>
      \<exists>r'. map_get (reservations st') rid = Some r' \<and> settles_once r r'"
  shows "keeps_reservations parents (map_set key st' parents)"
  unfolding keeps_reservations_def using assms by (auto simp: settles_once_def)

lemma install_keeps: "keeps_reservations parents (snd (installSnapshot le sha raw pin parents))"
  by (auto simp: installSnapshot_def Let_def settles_once_def split: sum.splits option.splits intro!: keeps_reservations_set)

lemma reserve_keeps: "keeps_reservations parents (snd (reserve_allocation clock raw parents))"
proof (cases "reserve_allocation clock raw parents")
  case (Pair r parents')
  show ?thesis
  proof (cases r)
    case (Ok res)
    show ?thesis
      using Pair[unfolded Ok]
    proof (rule reserve_Ok, goal_cases)
      case (1 q st b)
      then show ?case
        using Pair by (auto simp: with_reservation_def settles_once_def intro!: keeps_reservations_set)
    qed
  qed (use Pair reserve_not_Ok[OF Pair] in auto)
qed

lemma finalize_keeps:
  assumes "target \<noteq> Reserved"
  shows "keeps_reservations parents (snd (finalize_allocation target raw parents))"
proof (cases "finalize_allocation target raw parents")
  case (Pair r parents')
  show ?thesis
  proof (cases r)
    case (Ok s)
    show ?thesis
      using Pair[unfolded Ok]
    proof (rule finalize_Ok, goal_cases)
      case (1 q st r)
      then show ?case
        using Pair assms by (auto simp: settles_once_def intro!: keeps_reservations_set)
    qed
  qed (use Pair finalize_not_Ok[OF Pair] in auto)
qed

lemma step_keeps: "store_step le sha parents parents' \<Longrightarrow> keeps_reservations parents parents'"
  by (induction rule: store_step.induct)
    (simp_all add: install_keeps reserve_keeps finalize_keeps commit_allocation_def release_allocation_def)

text \<open>
  Property C35. No run of the store drops or rewrites a reservation: it stays under its identifier with
  its budget, owner token, fence and authority, whatever snapshots are installed meanwhile; its state
  changes at most once, from reserved to committed or released, and is final afterwards.
\<close>

theorem reservations_settle_once:
  assumes "store_run le sha parents parents'" "map_get parents key = Some st" "map_get (reservations st) rid = Some r"
  shows "\<exists>st' r'. map_get parents' key = Some st' \<and> map_get (reservations st') rid = Some r' \<and> settles_once r r'"
proof -
  have "keeps_reservations parents parents'"
    using assms(1) by (induction rule: rtranclp_induct) (auto intro: keeps_reservations_trans step_keeps)
  then show ?thesis using assms(2,3) unfolding keeps_reservations_def by blast
qed

theorem reservations_settle_once_witness:
  "\<exists>st' r'. map_get sample_committed sample_key = Some st' \<and> map_get (reservations st') ''r1'' = Some r'
     \<and> settles_once (new_reservation sample_valid 1) r'"
  by (rule reservations_settle_once[OF sample_runs(3), of _ "with_reservation sample_parent sample_valid"])
    (simp_all add: sample_reserved_def with_reservation_def sample_valid_def sample_parent_def)

text \<open>
  Property C24. In a store reached by a run, a successful commit or release settles the one reservation
  of its parent that holds the presented fencing token: that reservation was still reserved under the
  authority in force, on the named branch, and the request presented its owner token.
\<close>

theorem only_owner_finalizes:
  assumes run: "store_run le sha [] parents" and fin: "finalize_allocation target raw parents = (Ok s, parents')"
  shows "\<exists>q st r. validateFinalizeRequest raw = Inr q \<and> map_get parents (vf_key q) = Some st
     \<and> {r' \<in> set (map_values (reservations st)). int (v_fencing_token r') = vf_fencing_token q} = {r}
     \<and> v_reservation_id r = vf_reservation_id q \<and> v_allocation_id r = vf_allocation_id q \<and> v_state r = Reserved
     \<and> v_owner_token r = vf_owner_token q \<and> pinMatches st (v_authority_head r) (v_authority_epoch r)
     \<and> map_get parents' (vf_key q) = Some (st\<lparr>reservations := map_set (vf_reservation_id q) (r\<lparr>v_state := target\<rparr>) (reservations st)\<rparr>)"
  using fin
proof (rule finalize_Ok, goal_cases)
  case (1 q st r)
  have inv: "parent_inv st" using run 1(2) by (rule run_inv)
  then have rok: "reservation_ok st (vf_reservation_id q) r" using 1(4) by (simp add: parent_inv_def)
  have mem: "r \<in> set (map_values (reservations st))" using 1(4) inv by (auto simp: map_values_mem parent_inv_def)
  have "r' = r" if "r' \<in> set (map_values (reservations st))" "v_fencing_token r' = v_fencing_token r" for r'
    using inv that mem by (metis parent_inv_def distinct_map inj_onD)
  then have "{r' \<in> set (map_values (reservations st)). int (v_fencing_token r') = vf_fencing_token q} = {r}"
    using mem 1(7) by auto
  moreover have "pinMatches st (v_authority_head r) (v_authority_epoch r)" using rok 1(5) by (simp add: pinMatches_def reservation_ok_def)
  ultimately show ?case using 1 rok by (auto simp: reservation_ok_def)
qed

theorem only_owner_finalizes_witness:
  "\<exists>st r. map_get sample_reserved sample_key = Some st
     \<and> {r' \<in> set (map_values (reservations st)). v_fencing_token r' = 1} = {r} \<and> v_owner_token r = memory_owner_token 1"
proof -
  have run: "store_run sample_le sample_sha [] sample_reserved" using sample_runs(1,2) by (rule rtranclp_trans)
  have fin: "finalize_allocation Committed sample_final sample_reserved = (Ok Committed, sample_committed)"
    by (simp add: finalize_allocation_def sample_final_valid sample_reserved_def sample_committed_def
      with_reservation_def new_reservation_def sample_valid_def sample_parent_def sample_snapshot_def pinMatches_def)
  from only_owner_finalizes[OF run fin] show ?thesis by (auto simp: sample_final_valid)
qed

end
