(* ===== verification/Capability_Shares.thy ===== *)
theory Capability_Shares
  imports Complex_Main Ep_Prelude "HOL-Library.Word" "HOL-Library.Signed_Division"
begin

section \<open>Threshold shares of a capability secret\<close>

text \<open>
  Model of the secret sharing of \<open>packages/gate/src/capability-receipt.ts\<close>: the arithmetic modulo
  \<open>FIELD\<close> with the extended Euclidean inverse, the polynomial split of a 32-byte secret, and the
  interpolation that reconstructs it. Bytes are 8-bit words, bigints are integers whose division and
  remainder truncate. \<open>randomBytesFn\<close> is a sequence of byte strings, read from a position; the
  sampling loop is a partial function, so a source that never yields an acceptable candidate has no
  result. \<open>Number(text)\<close> and SHA-256 are parameters. An exception is the message of its error.
\<close>

unbundle bit_operations_syntax

type_synonym bytes = "8 word list"
type_synonym error = string

subsection \<open>Base64url\<close>

definition b64_alphabet :: string where
  "b64_alphabet = ''ABCDEFGHIJKLMNOPQRSTUVWXYZabcdefghijklmnopqrstuvwxyz0123456789-_''"

definition b64_char :: "nat \<Rightarrow> char" where
  "b64_char n = b64_alphabet ! n"

fun sextets :: "bytes \<Rightarrow> nat list" where
  "sextets [] = []"
| "sextets [a] = (let n = unat a * 16 in [n div 64, n mod 64])"
| "sextets [a, b] = (let n = (unat a * 256 + unat b) * 4 in [n div 4096, n div 64 mod 64, n mod 64])"
| "sextets (a # b # c # r) = (let n = (unat a * 256 + unat b) * 256 + unat c
     in [n div 262144, n div 4096 mod 64, n div 64 mod 64, n mod 64] @ sextets r)"

definition base64u :: "bytes \<Rightarrow> string" where
  "base64u bs = map b64_char (sextets bs)"

text \<open>
  The decoder of \<open>Buffer.from(text, 'base64url')\<close> takes both alphabets, skips every other character and
  drops the bits that fill no byte.
\<close>

definition b64_index :: "char \<Rightarrow> nat option" where
  "b64_index c = (let n = of_char c :: nat in
     if 65 \<le> n \<and> n \<le> 90 then Some (n - 65) else if 97 \<le> n \<and> n \<le> 122 then Some (n - 71)
     else if 48 \<le> n \<and> n \<le> 57 then Some (n + 4) else if n = 45 \<or> n = 43 then Some 62
     else if n = 95 \<or> n = 47 then Some 63 else None)"

definition byte_at :: "nat \<Rightarrow> 8 word" where
  "byte_at n = of_nat (n mod 256)"

fun bytes_of_sextets :: "nat list \<Rightarrow> bytes" where
  "bytes_of_sextets (p # q # r # s # xs) = (let n = ((p * 64 + q) * 64 + r) * 64 + s
     in [byte_at (n div 65536), byte_at (n div 256), byte_at n] @ bytes_of_sextets xs)"
| "bytes_of_sextets [p, q, r] = (let n = ((p * 64 + q) * 64 + r) div 4 in [byte_at (n div 256), byte_at n])"
| "bytes_of_sextets [p, q] = [byte_at ((p * 64 + q) div 16)]"
| "bytes_of_sextets _ = []"

definition buffer_from_base64url :: "string \<Rightarrow> bytes" where
  "buffer_from_base64url s = bytes_of_sextets (List.map_filter b64_index s)"

definition withoutBase64Padding :: "string \<Rightarrow> string" where
  "withoutBase64Padding s = rev (dropWhile (\<lambda>c. c = CHR 0x3D) (rev s))"

definition decodeBase64u :: "string \<Rightarrow> error + bytes" where
  "decodeBase64u s = (if s = [] then Inl ''must be base64url''
     else (let bs = buffer_from_base64url s in
       if bs = [] \<or> base64u bs \<noteq> withoutBase64Padding s then Inl ''is not canonical base64url'' else Inr bs))"

subsection \<open>The field\<close>

definition FIELD :: int where
  "FIELD = 2 ^ 521 - 1"

definition SHARE_BYTES :: nat where
  "SHARE_BYTES = 66"

definition HASH_BYTES :: nat where
  "HASH_BYTES = 32"

text \<open>The loop over the bytes from the last to the first.\<close>

fun field_bytes :: "nat \<Rightarrow> int \<Rightarrow> bytes" where
  "field_bytes 0 remaining = []"
| "field_bytes (Suc k) remaining = field_bytes k (drop_bit 8 remaining) @ [word_of_int (remaining AND 0xff)]"

definition fieldToBytes :: "int \<Rightarrow> bytes" where
  "fieldToBytes v = field_bytes SHARE_BYTES v"

definition bytesToField :: "bytes \<Rightarrow> int" where
  "bytesToField bs = foldl (\<lambda>v b. push_bit 8 v OR uint b) 0 bs smod FIELD"

definition mod_field :: "int \<Rightarrow> int" where
  "mod_field v = (let result = v smod FIELD in if result < 0 then result + FIELD else result)"

text \<open>The Euclidean loop: \<open>a\<close> and \<open>x\<close> when \<open>b\<close> has become zero.\<close>

function inverse_loop :: "int \<Rightarrow> int \<Rightarrow> int \<Rightarrow> int \<Rightarrow> int \<times> int" where
  "inverse_loop a b x y = (if b = 0 then (a, x)
     else (let quotient = a sdiv b in inverse_loop b (a - quotient * b) y (x - quotient * y)))"
  by auto
termination
proof (relation "measure (\<lambda>(a, b, x, y). nat \<bar>b\<bar>)", goal_cases)
  case (2 a b x y q)
  then have "\<bar>a smod b\<bar> < \<bar>b\<bar>" by (auto simp: signed_modulo_int_def abs_mult sgn_if)
  then show ?case using 2 by (simp add: minus_sdiv_mult_eq_smod)
qed simp

declare inverse_loop.simps [simp del]

definition modInverse :: "int \<Rightarrow> error + int" where
  "modInverse v = (case inverse_loop (mod_field v) FIELD 1 0 of (a, x) \<Rightarrow>
     if a \<noteq> 1 then Inl ''capability field inverse does not exist'' else Inr (mod_field x))"

text \<open>
  The sampling loop. \<open>source i\<close> is the result of the call number \<open>i\<close> of \<open>randomBytesFn(SHARE_BYTES)\<close>; the
  second component of a result is the number of the next call.
\<close>

type_synonym random_source = "nat \<Rightarrow> bytes"

definition candidate_field :: "bytes \<Rightarrow> int" where
  "candidate_field bs = bytesToField (bs[0 := bs ! 0 AND 0x01])"

partial_function (option) randomField :: "random_source \<Rightarrow> nat \<Rightarrow> (error + int \<times> nat) option" where
  "randomField source i =
     (if length (source i) \<noteq> SHARE_BYTES then Some (Inl ''randomBytesFn returned the wrong length'')
      else if candidate_field (source i) \<noteq> 0 \<and> candidate_field (source i) < FIELD then Some (Inr (candidate_field (source i), i + 1))
      else randomField source (i + 1))"

subsection \<open>Splitting\<close>

record threshold =
  th_m :: js_number
  th_n :: js_number

definition validateThreshold :: "threshold \<Rightarrow> error + nat \<times> nat" where
  "validateThreshold t = (if \<not> is_safe_integer (th_m t) \<or> \<not> is_safe_integer (th_n t)
       \<or> num_val (th_m t) < 1 \<or> num_val (th_n t) < num_val (th_m t) \<or> num_val (th_n t) > 255
     then Inl ''capability threshold must satisfy 1 <= m <= n <= 255''
     else Inr (nat (num_val (th_m t)), nat (num_val (th_n t))))"

datatype secret_input = Secret_buffer bytes | Secret_text string

record secret_digest =
  sd_bytes :: bytes
  sd_hash :: string

definition digestSecret :: "(bytes \<Rightarrow> string) \<Rightarrow> secret_input \<Rightarrow> error + secret_digest" where
  "digestSecret sha256Hex secret =
     (case (case secret of Secret_buffer b \<Rightarrow> Inr b | Secret_text t \<Rightarrow> decodeBase64u t) of Inl e \<Rightarrow> Inl e
      | Inr bs \<Rightarrow> if length bs \<noteq> HASH_BYTES then Inl ''capability secret must be exactly 32 bytes''
          else Inr \<lparr>sd_bytes = bs, sd_hash = ''sha256:'' @ sha256Hex bs\<rparr>)"

text \<open>The random coefficients, in the order of the calls.\<close>

fun random_coefficients :: "random_source \<Rightarrow> nat \<Rightarrow> nat \<Rightarrow> (error + int list) option" where
  "random_coefficients source 0 i = Some (Inr [])"
| "random_coefficients source (Suc k) i = (case randomField source i of None \<Rightarrow> None
     | Some (Inl e) \<Rightarrow> Some (Inl e)
     | Some (Inr (c, i')) \<Rightarrow> (case random_coefficients source k i' of None \<Rightarrow> None
       | Some (Inl e) \<Rightarrow> Some (Inl e)
       | Some (Inr cs) \<Rightarrow> Some (Inr (c # cs))))"

definition eval_step :: "int \<Rightarrow> int \<times> int \<Rightarrow> int \<Rightarrow> int \<times> int" where
  "eval_step x yp coefficient = (case yp of (y, pow) \<Rightarrow> (mod_field (y + coefficient * pow), mod_field (pow * x)))"

definition eval_share :: "int list \<Rightarrow> int \<Rightarrow> int" where
  "eval_share coefficients x = fst (foldl (eval_step x) (0, 1) coefficients)"

definition share_text :: "nat \<Rightarrow> int \<Rightarrow> string" where
  "share_text x y = ''ep-share-v1.'' @ dec_nat x @ ''.'' @ base64u (fieldToBytes y)"

definition splitCapabilitySecret :: "(bytes \<Rightarrow> string) \<Rightarrow> secret_input \<Rightarrow> threshold \<Rightarrow> random_source \<Rightarrow> (error + string list) option" where
  "splitCapabilitySecret sha256Hex secret t source =
     (case digestSecret sha256Hex secret of Inl e \<Rightarrow> Some (Inl e)
      | Inr normalized \<Rightarrow> (case validateThreshold t of Inl e \<Rightarrow> Some (Inl e)
      | Inr (m, n) \<Rightarrow> (case random_coefficients source (m - 1) 0 of None \<Rightarrow> None
      | Some (Inl e) \<Rightarrow> Some (Inl e)
      | Some (Inr cs) \<Rightarrow> Some (Inr (map (\<lambda>x. share_text x (eval_share (bytesToField (sd_bytes normalized) # cs) (int x))) [1..<n + 1])))))"

subsection \<open>Reconstruction\<close>

definition parseShare :: "(string \<Rightarrow> js_number) \<Rightarrow> string \<Rightarrow> error + int \<times> int" where
  "parseShare number share = (case split_on CHR ''.'' share of
       [version, index, scalar] \<Rightarrow>
         if version \<noteq> ''ep-share-v1'' then Inl ''invalid capability share version''
         else if \<not> is_safe_integer (number index) \<or> num_val (number index) < 1 \<or> num_val (number index) > 255
           then Inl ''capability share index is invalid''
         else (case decodeBase64u scalar of Inl e \<Rightarrow> Inl e
           | Inr y \<Rightarrow> if length y \<noteq> SHARE_BYTES then Inl ''capability share scalar has the wrong length''
               else Inr (num_val (number index), bytesToField y))
     | _ \<Rightarrow> Inl ''invalid capability share version'')"

fun parse_shares :: "(string \<Rightarrow> js_number) \<Rightarrow> string list \<Rightarrow> error + (int \<times> int) list" where
  "parse_shares number [] = Inr []"
| "parse_shares number (s # ss) = (case parseShare number s of Inl e \<Rightarrow> Inl e
     | Inr p \<Rightarrow> (case parse_shares number ss of Inl e \<Rightarrow> Inl e | Inr ps \<Rightarrow> Inr (p # ps)))"

text \<open>Numerator and denominator of one Lagrange coefficient at zero.\<close>

definition basis_step :: "int \<Rightarrow> int \<times> int \<Rightarrow> int \<times> int \<Rightarrow> int \<times> int" where
  "basis_step cx nd other = (case nd of (numerator, denominator) \<Rightarrow> case other of (ox, oy) \<Rightarrow>
     if cx = ox then nd else (mod_field (numerator * - ox), mod_field (denominator * (cx - ox))))"

fun interpolate :: "(int \<times> int) list \<Rightarrow> (int \<times> int) list \<Rightarrow> int \<Rightarrow> error + int" where
  "interpolate parsed [] secret = Inr secret"
| "interpolate parsed ((x, y) # rest) secret =
     (case foldl (basis_step x) (1, 1) parsed of (numerator, denominator) \<Rightarrow>
       (case modInverse denominator of Inl e \<Rightarrow> Inl e
        | Inr w \<Rightarrow> interpolate parsed rest (mod_field (secret + y * numerator * w))))"

definition reconstructCapabilitySecret :: "(string \<Rightarrow> js_number) \<Rightarrow> string list \<Rightarrow> threshold \<Rightarrow> error + bytes" where
  "reconstructCapabilitySecret number shares t =
     (case validateThreshold t of Inl e \<Rightarrow> Inl e
      | Inr (m, n) \<Rightarrow> if length shares < m \<or> length shares > n then Inl ''insufficient capability shares''
      else (case parse_shares number shares of Inl e \<Rightarrow> Inl e
      | Inr parsed \<Rightarrow> if \<not> distinct (map fst parsed) then Inl ''duplicate capability share index''
      else (case interpolate parsed parsed 0 of Inl e \<Rightarrow> Inl e
      | Inr secret \<Rightarrow> Inr (drop (SHARE_BYTES - HASH_BYTES) (fieldToBytes secret)))))"

subsection \<open>Arithmetic of the field\<close>

lemma FIELD_pos: "0 < FIELD" "1 < FIELD"
  by (simp_all add: FIELD_def)

lemma mod_field_eq: "mod_field v = v mod FIELD"
proof (cases "0 \<le> v")
  case True
  then have "v smod FIELD = v mod FIELD" using FIELD_pos(1) by (simp add: smod_mod_positive)
  then show ?thesis using FIELD_pos(1) by (simp add: mod_field_def Let_def not_less)
next
  case False
  then have s: "v smod FIELD = - ((- v) mod FIELD)" using FIELD_pos(1) by (simp add: signed_modulo_int_def)
  show ?thesis
  proof (cases "v mod FIELD = 0")
    case True
    then show ?thesis by (simp add: mod_field_def Let_def s zmod_zminus1_eq_if)
  next
    case False
    then have "(- v) mod FIELD = FIELD - v mod FIELD" by (simp add: zmod_zminus1_eq_if)
    then show ?thesis using FIELD_pos(1) pos_mod_bound[OF FIELD_pos(1), of v] by (simp add: mod_field_def Let_def s)
  qed
qed

lemma sdiv_nonneg: "0 \<le> a \<Longrightarrow> 0 \<le> b \<Longrightarrow> (a :: int) sdiv b = a div b"
  by (simp add: signed_divide_int_def sgn_if)

text \<open>
  The Euclidean loop keeps both pairs congruent to a multiple of the inverted value and ends with the
  greatest common divisor.
\<close>

lemma inverse_loop_spec:
  assumes "0 \<le> a" "0 \<le> b" "FIELD dvd a - x * v" "FIELD dvd b - y * v" "inverse_loop a b x y = (g, z)"
  shows "g = gcd a b \<and> FIELD dvd g - z * v"
  using assms
proof (induction a b x y rule: inverse_loop.induct)
  case (1 a b x y)
  show ?case
  proof (cases "b = 0")
    case True
    with 1 show ?thesis by (simp add: inverse_loop.simps)
  next
    case False
    let ?q = "a sdiv b"
    have q: "?q = a div b" and r: "a - ?q * b = a mod b" using 1(2,3) by (simp_all add: sdiv_nonneg minus_div_mult_eq_mod)
    have "FIELD dvd (a - x * v) - ?q * (b - y * v)" using "1.prems"(3,4) by (rule dvd_diff[OF _ dvd_mult])
    then have "FIELD dvd (a - ?q * b) - (x - ?q * y) * v" by (simp add: algebra_simps)
    from "1.IH"[OF False refl "1.prems"(2) _ "1.prems"(4) this] "1.prems"(5) False "1.prems"(2) show ?thesis
      by (auto simp: inverse_loop.simps[of a b x y] Let_def r gcd_red_int[of a b])
  qed
qed

lemma modInverse_coprime:
  assumes "coprime v FIELD"
  obtains w where "modInverse v = Inr w" "FIELD dvd w * v - 1"
proof -
  let ?v = "v mod FIELD"
  obtain g z where l: "inverse_loop ?v FIELD 1 0 = (g, z)" by fastforce
  have "g = gcd ?v FIELD \<and> FIELD dvd g - z * ?v"
    by (rule inverse_loop_spec[OF _ _ _ _ l]) (use FIELD_pos(1) in simp_all)
  moreover have "gcd ?v FIELD = 1" using assms by (simp add: coprime_iff_gcd_eq_1 gcd.commute flip: gcd_red_int)
  ultimately have z: "g = 1" "FIELD dvd 1 - z * ?v" by auto
  have "FIELD dvd (z mod FIELD) * v - 1"
  proof -
    have "((z mod FIELD) * v - 1) mod FIELD = (z * ?v - 1) mod FIELD"
      by (metis mod_diff_left_eq mod_mult_left_eq mod_mult_right_eq)
    moreover have "FIELD dvd z * ?v - 1" using z(2) by (metis dvd_minus_iff minus_diff_eq)
    ultimately show ?thesis by (simp add: dvd_eq_mod_eq_0)
  qed
  with l z(1) show thesis by (intro that[of "z mod FIELD"]) (simp_all add: modInverse_def mod_field_eq)
qed

text \<open>
  Every difference of two share indices is a unit: the order of 2 modulo a divisor of \<open>FIELD\<close> divides
  521, and modulo an odd number below 255 it is below 255.
\<close>

lemma dvd_power_diff:
  fixes g b :: int
  assumes "g dvd b - 1"
  shows "g dvd b ^ q - 1"
proof (induction q)
  case (Suc q)
  have "b ^ Suc q - 1 = b * (b ^ q - 1) + (b - 1)" by (simp add: algebra_simps)
  with Suc assms show ?case by (metis dvd_add dvd_mult)
qed simp

lemma order_below:
  fixes g :: int
  assumes "1 < g" "coprime g 2"
  obtains k :: nat where "0 < k" "int k < g" "g dvd 2 ^ k - 1"
proof -
  let ?f = "\<lambda>i::nat. 2 ^ i mod g"
  have "?f i \<in> {1..<g}" for i
  proof -
    have "coprime g (2 ^ i)" using assms(2) by simp
    then have "is_unit g" if "g dvd 2 ^ i" using that by (rule coprime_common_divisor[OF _ dvd_refl])
    then have "\<not> g dvd 2 ^ i" using assms(1) by auto
    then have "?f i \<noteq> 0" by (simp add: dvd_eq_mod_eq_0)
    moreover have "0 \<le> ?f i" "?f i < g" using assms(1) by simp_all
    ultimately show ?thesis by simp
  qed
  then have "?f ` {..<nat g} \<subseteq> {1..<g}" by blast
  then have "card (?f ` {..<nat g}) < card {..<nat g}"
    using assms(1) card_mono[of "{1..<g}" "?f ` {..<nat g}"] by simp
  then have "\<not> inj_on ?f {..<nat g}" by (rule pigeonhole)
  then obtain i j where ij: "i < j" "j < nat g" "?f i = ?f j" unfolding inj_on_def by (metis lessThan_iff linorder_neqE_nat)
  have "g dvd 2 ^ j - 2 ^ i" using ij(3) by (metis mod_eq_dvd_iff)
  moreover have "(2 :: int) ^ j - 2 ^ i = 2 ^ i * (2 ^ (j - i) - 1)" using ij(1) by (simp add: algebra_simps flip: power_add)
  ultimately have "g dvd 2 ^ (j - i) - 1" using assms(2) by (simp add: coprime_dvd_mult_right_iff)
  then show thesis using ij by (intro that[of "j - i"]) auto
qed

lemma no_small_factor:
  fixes g :: int
  assumes "1 < g" "g < 255"
  shows "\<not> g dvd 2 ^ 521 - 1"
proof
  assume g: "g dvd 2 ^ 521 - 1"
  have "coprime (2 ^ 521 - 1) (2 :: int)" by (simp add: coprime_right_2_iff_odd)
  then have odd: "coprime g 2" using g by (metis coprime_divisors dvd_refl)
  define k where "k = (LEAST k. 0 < k \<and> g dvd 2 ^ k - 1)"
  obtain k0 where k0: "0 < k0" "int k0 < g" "g dvd 2 ^ k0 - 1" using order_below[OF assms(1) odd] .
  have k: "0 < k" "g dvd 2 ^ k - 1" unfolding k_def using LeastI[of "\<lambda>k. 0 < k \<and> g dvd 2 ^ k - 1" k0] k0 by auto
  have least: "\<not> g dvd 2 ^ r - 1" if "0 < r" "r < k" for r using that not_less_Least unfolding k_def by blast
  have "k \<le> k0" unfolding k_def by (rule Least_le) (use k0 in simp)
  then have "k < 255" using k0(2) assms(2) by linarith
  have "g dvd 2 ^ (521 mod k) - 1"
  proof -
    have "521 = k * (521 div k) + 521 mod k" by simp
    then have "(2 :: int) ^ 521 = (2 ^ k) ^ (521 div k) * 2 ^ (521 mod k)" by (metis power_add power_mult)
    then have "(2 :: int) ^ 521 - 1 = 2 ^ (521 mod k) * ((2 ^ k) ^ (521 div k) - 1) + (2 ^ (521 mod k) - 1)" by (simp add: algebra_simps)
    then show ?thesis using g dvd_power_diff[OF k(2)] by (metis dvd_add_right_iff dvd_mult)
  qed
  then have "521 mod k = 0" using least[of "521 mod k"] k(1) by fastforce
  moreover have "\<forall>k \<in> set [2..<255::nat]. 521 mod k \<noteq> 0" by (simp add: upt_rec_numeral)
  ultimately have "\<not> 2 \<le> k" using \<open>k < 255\<close> by (metis atLeastLessThan_iff set_upt)
  then have "k = 1" using k(1) by simp
  then show False using k(2) assms(1) by simp
qed

lemma coprime_small:
  assumes "d \<noteq> 0" "\<bar>d\<bar> < 255"
  shows "coprime d FIELD"
proof -
  let ?g = "gcd d FIELD"
  have g: "0 < ?g" "?g dvd FIELD" using assms(1) by simp_all
  have "?g \<le> \<bar>d\<bar>" using assms(1) by (intro zdvd_imp_le) simp_all
  with g(2) have "\<not> 1 < ?g" using no_small_factor[folded FIELD_def, of ?g] assms(2) by linarith
  then have "?g = 1" using g(1) by linarith
  then show ?thesis by (simp add: coprime_iff_gcd_eq_1)
qed

subsection \<open>Interpolation\<close>

text \<open>Functions that are polynomials of a bounded degree.\<close>

definition poly_upto :: "nat \<Rightarrow> (real \<Rightarrow> real) \<Rightarrow> bool" where
  "poly_upto n f \<longleftrightarrow> (\<exists>c. \<forall>z. f z = (\<Sum>i\<le>n. c i * z ^ i))"

lemma poly_upto_const: "poly_upto 0 (\<lambda>z. k)"
  unfolding poly_upto_def by (rule exI[of _ "\<lambda>_. k"]) simp

lemma poly_upto_mono: "poly_upto n f \<Longrightarrow> n \<le> n' \<Longrightarrow> poly_upto n' f"
proof -
  assume "poly_upto n f" and le: "n \<le> n'"
  then obtain c where c: "\<And>z. f z = (\<Sum>i\<le>n. c i * z ^ i)" by (auto simp: poly_upto_def)
  have "(\<Sum>i\<le>n'. (if i \<le> n then c i else 0) * z ^ i) = (\<Sum>i\<le>n. c i * z ^ i)" for z
    by (rule sum.mono_neutral_cong_right) (use le in auto)
  then show "poly_upto n' f" unfolding poly_upto_def by (intro exI[of _ "\<lambda>i. if i \<le> n then c i else 0"]) (simp add: c)
qed

lemma poly_upto_add: "poly_upto n f \<Longrightarrow> poly_upto n g \<Longrightarrow> poly_upto n (\<lambda>z. f z + g z)"
  unfolding poly_upto_def by (elim exE) (rule_tac x = "\<lambda>i. c i + ca i" in exI, simp add: sum.distrib ring_distribs)

lemma poly_upto_scale: "poly_upto n f \<Longrightarrow> poly_upto n (\<lambda>z. k * f z)"
  unfolding poly_upto_def by (elim exE) (rule_tac x = "\<lambda>i. k * c i" in exI, simp add: sum_distrib_left mult.assoc)

lemma poly_upto_shift: "poly_upto n f \<Longrightarrow> poly_upto (Suc n) (\<lambda>z. z * f z)"
proof -
  assume "poly_upto n f"
  then obtain c where c: "\<And>z. f z = (\<Sum>i\<le>n. c i * z ^ i)" by (auto simp: poly_upto_def)
  have "(\<Sum>i\<le>Suc n. (case i of 0 \<Rightarrow> 0 | Suc j \<Rightarrow> c j) * z ^ i) = z * (\<Sum>i\<le>n. c i * z ^ i)" for z
    by (simp add: sum.atMost_Suc_shift sum_distrib_left algebra_simps del: sum.atMost_Suc)
  then show "poly_upto (Suc n) (\<lambda>z. z * f z)" unfolding poly_upto_def by (intro exI[of _ "\<lambda>i. case i of 0 \<Rightarrow> 0 | Suc j \<Rightarrow> c j"]) (simp add: c)
qed

lemma poly_upto_prod: "finite S \<Longrightarrow> poly_upto (card S) (\<lambda>z. \<Prod>t\<in>S. (z - t) * k t)"
proof (induction S rule: finite_induct)
  case empty
  then show ?case using poly_upto_const[of 1] by simp
next
  case (insert s S)
  let ?f = "\<lambda>z. \<Prod>t\<in>S. (z - t) * k t"
  have "poly_upto (Suc (card S)) (\<lambda>z. k s * (z * ?f z) + (- s * k s) * ?f z)"
    by (intro poly_upto_add poly_upto_scale poly_upto_shift insert poly_upto_mono[OF insert.IH]) simp
  moreover have "(\<lambda>z. k s * (z * ?f z) + (- s * k s) * ?f z) = (\<lambda>z. \<Prod>t\<in>insert s S. (z - t) * k t)"
    using insert by (simp add: algebra_simps)
  ultimately show ?case using insert by simp
qed

lemma poly_upto_sum: "finite S \<Longrightarrow> (\<And>s. s \<in> S \<Longrightarrow> poly_upto n (f s)) \<Longrightarrow> poly_upto n (\<lambda>z. \<Sum>s\<in>S. f s z)"
  by (induction S rule: finite_induct) (auto intro: poly_upto_add poly_upto_mono[OF poly_upto_const, of n 0] simp: le0)

text \<open>A polynomial with more roots than its degree vanishes.\<close>

lemma poly_upto_roots:
  assumes "poly_upto n f" "finite S" "n < card S" "\<And>s. s \<in> S \<Longrightarrow> f s = 0"
  shows "f z = 0"
proof -
  obtain c where c: "\<And>z. f z = (\<Sum>i\<le>n. c i * z ^ i)" using assms(1) by (auto simp: poly_upto_def)
  have "c k = 0" if "k \<le> n" for k
  proof (rule ccontr)
    assume "c k \<noteq> 0"
    then have "finite {z. f z = 0} \<and> card {z. f z = 0} \<le> n" using polyfun_rootbound[OF _ that, of c] by (simp add: c)
    moreover have "S \<subseteq> {z. f z = 0}" using assms(4) by blast
    ultimately show False using assms(3) card_mono[of "{z. f z = 0}" S] by linarith
  qed
  then show ?thesis by (simp add: c)
qed

lemma lagrange_interpolation:
  fixes S :: "real set"
  assumes "finite S" "poly_upto n f" "n < card S"
  shows "(\<Sum>s\<in>S. f s * (\<Prod>t\<in>S - {s}. (z - t) * (1 / (s - t)))) = f z"
proof -
  let ?L = "\<lambda>s z. f s * (\<Prod>t\<in>S - {s}. (z - t) * (1 / (s - t)))"
  let ?g = "\<lambda>z. (\<Sum>s\<in>S. ?L s z) + (- 1) * f z"
  have deg: "poly_upto (card S - 1) (?L s)" if "s \<in> S" for s
    using poly_upto_scale[OF poly_upto_prod[of "S - {s}" "\<lambda>t. 1 / (s - t)"], of "f s"] assms(1) that by simp
  have poly: "poly_upto (card S - 1) ?g"
    by (intro poly_upto_add poly_upto_sum poly_upto_scale poly_upto_mono[OF assms(2)] deg) (use assms in auto)
  have root: "?g s = 0" if s: "s \<in> S" for s
  proof -
    have "?L t s = (if t = s then f s else 0)" if "t \<in> S" for t
    proof (cases "t = s")
      case True
      then show ?thesis by (simp add: prod.neutral)
    next
      case False
      then have "s \<in> S - {t}" using s by simp
      then have "(\<Prod>u\<in>S - {t}. (s - u) * (1 / (t - u))) = 0" using assms(1) by (intro prod_zero bexI[of _ s]) auto
      then show ?thesis using False by simp
    qed
    then have "(\<Sum>t\<in>S. ?L t s) = (\<Sum>t\<in>S. if t = s then f s else 0)" by (intro sum.cong) auto
    also have "\<dots> = f s" using s assms(1) by simp
    finally show ?thesis by simp
  qed
  have "?g z = 0" by (rule poly_upto_roots[OF poly assms(1) _ root]) (use assms(3) in simp_all)
  then show ?thesis by simp
qed

subsection \<open>Shares lie on the polynomial\<close>

fun poly_val :: "'a::comm_ring_1 list \<Rightarrow> 'a \<Rightarrow> 'a" where
  "poly_val [] x = 0"
| "poly_val (c # cs) x = c + x * poly_val cs x"

lemma eval_share_fold: "(fst (foldl (eval_step x) (y, p) cs)) mod FIELD = (y + p * poly_val cs x) mod FIELD"
proof (induction cs arbitrary: y p)
  case (Cons c cs)
  have "fst (foldl (eval_step x) (y, p) (c # cs)) mod FIELD = ((y + c * p) mod FIELD + (p * x) mod FIELD * poly_val cs x) mod FIELD"
    by (simp add: eval_step_def mod_field_eq Cons.IH)
  also have "\<dots> = (y + c * p + p * x * poly_val cs x) mod FIELD" by (metis mod_add_eq mod_add_left_eq mod_mult_left_eq mod_add_right_eq)
  finally show ?case by (simp add: algebra_simps)
qed simp

lemma eval_share_range: "0 \<le> fst (foldl (eval_step x) (y mod FIELD, p) cs) \<and> fst (foldl (eval_step x) (y mod FIELD, p) cs) < FIELD"
  by (induction cs arbitrary: y p) (use FIELD_pos(1) in \<open>auto simp: eval_step_def mod_field_eq\<close>)

lemma eval_share_eq: "eval_share cs x = poly_val cs x mod FIELD"
  using eval_share_fold[of x 0 1 cs] eval_share_range[of x 0 1 cs] by (simp add: eval_share_def)

lemma poly_val_upto: "cs \<noteq> [] \<Longrightarrow> poly_upto (length cs - 1) (poly_val cs)"
proof (induction cs)
  case (Cons c cs)
  show ?case
  proof (cases "cs = []")
    case True
    then show ?thesis using poly_upto_const[of c] by (simp add: poly_upto_def)
  next
    case False
    then obtain n where n: "length cs = Suc n" by (cases cs) auto
    have "poly_upto (Suc n) (\<lambda>x. c + x * poly_val cs x)"
      by (intro poly_upto_add poly_upto_shift poly_upto_mono[OF poly_upto_const]) (use Cons.IH[OF False] n in simp_all)
    then show ?thesis by (simp add: n poly_upto_def)
  qed
qed simp

lemma poly_val_of_int: "poly_val (map of_int cs) (of_int x) = (of_int (poly_val cs x) :: real)"
  by (induction cs) auto

text \<open>The interpolation identity without denominators.\<close>

lemma integer_interpolation:
  fixes S :: "int set"
  defines "D \<equiv> \<lambda>s. \<Prod>t\<in>S - {s}. (s - t)"
  assumes "finite S" "cs \<noteq> []" "length cs \<le> card S"
  shows "(\<Sum>s\<in>S. poly_val cs s * (\<Prod>t\<in>S - {s}. - t) * (\<Prod>u\<in>S - {s}. D u)) = (\<Prod>s\<in>S. D s) * poly_val cs 0"
proof -
  let ?r = "of_int :: int \<Rightarrow> real"
  let ?f = "poly_val (map ?r cs)"
  have nz: "?r (D s) \<noteq> 0" if "s \<in> S" for s using assms(2) by (auto simp: D_def)
  have inj: "inj_on ?r A" for A by (simp add: inj_on_def)
  have "(\<Sum>s\<in>?r ` S. ?f s * (\<Prod>t\<in>?r ` S - {s}. (0 - t) * (1 / (s - t)))) = ?f 0"
    by (rule lagrange_interpolation[where n = "length cs - 1"])
      (use assms poly_val_upto[of "map ?r cs"] in \<open>auto simp: card_image inj neq_Nil_conv\<close>)
  moreover have "(\<Prod>t\<in>?r ` S - {?r s}. (0 - t) * (1 / (?r s - t))) = ?r (\<Prod>t\<in>S - {s}. - t) / ?r (D s)" if "s \<in> S" for s
  proof -
    have "?r ` S - {?r s} = ?r ` (S - {s})" by auto
    then have "(\<Prod>t\<in>?r ` S - {?r s}. (0 - t) * (1 / (?r s - t))) = (\<Prod>t\<in>S - {s}. (0 - ?r t) * (1 / (?r s - ?r t)))"
      by (simp add: prod.reindex inj del: mult_minus_left)
    also have "\<dots> = ?r (\<Prod>t\<in>S - {s}. - t) / ?r (D s)"
      by (simp add: D_def flip: prod_dividef)
    finally show ?thesis .
  qed
  ultimately have "(\<Sum>s\<in>S. ?r (poly_val cs s) * (?r (\<Prod>t\<in>S - {s}. - t) / ?r (D s))) = ?r (poly_val cs 0)"
    using poly_val_of_int[of cs 0] by (simp add: sum.reindex inj poly_val_of_int)
  then have "?r (\<Prod>s\<in>S. D s) * ?r (poly_val cs 0) = (\<Sum>s\<in>S. ?r (\<Prod>s\<in>S. D s) * (?r (poly_val cs s) * (?r (\<Prod>t\<in>S - {s}. - t) / ?r (D s))))"
    by (simp only: sum_distrib_left[symmetric])
  also have "\<dots> = (\<Sum>s\<in>S. ?r (poly_val cs s * (\<Prod>t\<in>S - {s}. - t) * (\<Prod>u\<in>S - {s}. D u)))"
  proof (rule sum.cong[OF refl])
    fix s assume s: "s \<in> S"
    have "(\<Prod>s\<in>S. D s) = D s * (\<Prod>u\<in>S - {s}. D u)" using assms(2) s by (rule prod.remove)
    then show "?r (\<Prod>s\<in>S. D s) * (?r (poly_val cs s) * (?r (\<Prod>t\<in>S - {s}. - t) / ?r (D s)))
        = ?r (poly_val cs s * (\<Prod>t\<in>S - {s}. - t) * (\<Prod>u\<in>S - {s}. D u))"
      using nz[OF s] by simp
  qed
  finally have "?r ((\<Prod>s\<in>S. D s) * poly_val cs 0) = ?r (\<Sum>s\<in>S. poly_val cs s * (\<Prod>t\<in>S - {s}. - t) * (\<Prod>u\<in>S - {s}. D u))"
    by (simp only: of_int_mult of_int_sum)
  then show ?thesis by (simp only: of_int_eq_iff)
qed

subsection \<open>The reconstruction loop\<close>

lemma basis_fold:
  assumes "distinct (map fst ps)"
  shows "fst (foldl (basis_step cx) (n, d) ps) mod FIELD = n * (\<Prod>t\<in>fst ` set ps - {cx}. - t) mod FIELD
    \<and> snd (foldl (basis_step cx) (n, d) ps) mod FIELD = d * (\<Prod>t\<in>fst ` set ps - {cx}. (cx - t)) mod FIELD"
  using assms
proof (induction ps arbitrary: n d)
  case (Cons p ps)
  obtain x y where p: "p = (x, y)" by fastforce
  show ?case
  proof (cases "cx = x")
    case True
    then have "fst ` set (p # ps) - {cx} = fst ` set ps - {cx}" by (auto simp: p)
    then show ?thesis using Cons.IH[of n d] Cons.prems True by (simp add: basis_step_def p)
  next
    case False
    then have new: "fst ` set (p # ps) - {cx} = insert x (fst ` set ps - {cx})" "x \<notin> fst ` set ps - {cx}" using Cons.prems by (auto simp: p)
    have "foldl (basis_step cx) (n, d) (p # ps) = foldl (basis_step cx) (n * - x mod FIELD, d * (cx - x) mod FIELD) ps"
      using False by (simp add: basis_step_def p mod_field_eq)
    moreover have "(\<Prod>t\<in>fst ` set (p # ps) - {cx}. f t) = f x * (\<Prod>t\<in>fst ` set ps - {cx}. f t)" for f :: "int \<Rightarrow> int"
      using new by simp
    ultimately show ?thesis
      using Cons.IH[of "n * - x mod FIELD" "d * (cx - x) mod FIELD"] Cons.prems
      by (simp only: mod_mult_left_eq mult.assoc) simp
  qed
qed simp

lemma coprime_mod_cong: "a mod FIELD = b mod FIELD \<Longrightarrow> coprime b FIELD \<Longrightarrow> coprime a FIELD"
  by (metis coprime_commute coprime_mod_right_iff FIELD_pos(1) less_irrefl)

text \<open>One coefficient: numerator and inverse of the denominator, as congruences.\<close>

lemma basis_inverse:
  assumes "distinct (map fst ps)" "\<And>t. t \<in> fst ` set ps \<Longrightarrow> 1 \<le> t \<and> t \<le> 255" "x \<in> fst ` set ps"
  obtains n d w where "foldl (basis_step x) (1, 1) ps = (n, d)" "modInverse d = Inr w"
    "n mod FIELD = (\<Prod>t\<in>fst ` set ps - {x}. - t) mod FIELD" "w * (\<Prod>t\<in>fst ` set ps - {x}. (x - t)) mod FIELD = 1"
proof -
  let ?D = "\<Prod>t\<in>fst ` set ps - {x}. (x - t)"
  obtain n d where nd: "foldl (basis_step x) (1, 1) ps = (n, d)" by fastforce
  then have c: "n mod FIELD = (\<Prod>t\<in>fst ` set ps - {x}. - t) mod FIELD" "d mod FIELD = ?D mod FIELD"
    using basis_fold[OF assms(1), of x 1 1] by simp_all
  have "coprime (x - t) FIELD" if "t \<in> fst ` set ps - {x}" for t
    using that assms(2)[of t] assms(2)[OF assms(3)] by (intro coprime_small) auto
  then have "coprime ?D FIELD" by (rule prod_coprime_left)
  then have "coprime d FIELD" using c(2) by (rule coprime_mod_cong[rotated])
  then obtain w where w: "modInverse d = Inr w" "FIELD dvd w * d - 1" by (rule modInverse_coprime)
  have "w * ?D mod FIELD = w * d mod FIELD" using c(2) by (metis mod_mult_right_eq)
  also have "\<dots> = 1 mod FIELD" using w(2) by (simp add: mod_eq_dvd_iff)
  finally have "w * ?D mod FIELD = 1" using FIELD_pos(2) by simp
  then show thesis using that nd w(1) c(1) by blast
qed

definition coefficient_at :: "(int \<times> int) list \<Rightarrow> int \<Rightarrow> int" where
  "coefficient_at ps x = (case foldl (basis_step x) (1, 1) ps of (n, d) \<Rightarrow> n * projr (modInverse d))"

lemma interpolate_sum:
  assumes "distinct (map fst ps)" "\<And>t. t \<in> fst ` set ps \<Longrightarrow> 1 \<le> t \<and> t \<le> 255" "set rest \<subseteq> set ps"
  shows "\<exists>r. interpolate ps rest (s mod FIELD) = Inr r \<and> 0 \<le> r \<and> r < FIELD
    \<and> r mod FIELD = (s + (\<Sum>(x, y)\<leftarrow>rest. y * coefficient_at ps x)) mod FIELD"
  using assms(3)
proof (induction rest arbitrary: s)
  case Nil
  then show ?case using FIELD_pos(1) by simp
next
  case (Cons p rest)
  obtain x y where p: "p = (x, y)" by fastforce
  have "x \<in> fst ` set ps" using Cons.prems p by force
  then obtain n d w where b: "foldl (basis_step x) (1, 1) ps = (n, d)" "modInverse d = Inr w"
    using basis_inverse[OF assms(1,2)] by metis
  have c: "coefficient_at ps x = n * w" using b by (simp add: coefficient_at_def)
  obtain r where r: "interpolate ps rest ((s mod FIELD + y * n * w) mod FIELD) = Inr r" "0 \<le> r" "r < FIELD"
      "r mod FIELD = (s mod FIELD + y * n * w + (\<Sum>(x, y)\<leftarrow>rest. y * coefficient_at ps x)) mod FIELD"
    using Cons.IH[of "s mod FIELD + y * n * w"] Cons.prems by auto
  have "(s mod FIELD + y * n * w + (\<Sum>(x, y)\<leftarrow>rest. y * coefficient_at ps x)) mod FIELD
      = (s + (\<Sum>(x, y)\<leftarrow>p # rest. y * coefficient_at ps x)) mod FIELD"
    by (simp add: p c add.assoc mult.assoc mod_add_left_eq)
  then show ?case using r b by (simp add: p mod_field_eq)
qed

text \<open>Enough points of a polynomial determine its value at zero.\<close>

lemma interpolate_points:
  assumes xs: "distinct xs" "\<And>t. t \<in> set xs \<Longrightarrow> 1 \<le> t \<and> t \<le> 255" and cs: "cs \<noteq> []" "length cs \<le> length xs"
  shows "interpolate (map (\<lambda>x. (x, poly_val cs x mod FIELD)) xs) (map (\<lambda>x. (x, poly_val cs x mod FIELD)) xs) 0
    = Inr (poly_val cs 0 mod FIELD)"
proof -
  let ?ps = "map (\<lambda>x. (x, poly_val cs x mod FIELD)) xs" and ?S = "set xs"
  let ?D = "\<lambda>s. \<Prod>t\<in>?S - {s}. (s - t)" and ?N = "\<lambda>s. \<Prod>t\<in>?S - {s}. - t"
  let ?T = "\<Prod>s\<in>?S. ?D s"
  have S: "fst ` set ?ps = ?S" and dist: "distinct (map fst ?ps)" using xs(1) by (force simp: comp_def)+
  have bound: "1 \<le> t \<and> t \<le> 255" if "t \<in> fst ` set ?ps" for t using that xs(2) S by metis
  obtain r where r: "interpolate ?ps ?ps 0 = Inr r" "0 \<le> r" "r < FIELD"
    "r mod FIELD = (\<Sum>(x, y)\<leftarrow>?ps. y * coefficient_at ?ps x) mod FIELD"
    using interpolate_sum[OF dist bound subset_refl, of 0] by auto
  have "?T * r mod FIELD = (\<Sum>s\<in>?S. ?T * (poly_val cs s mod FIELD * coefficient_at ?ps s)) mod FIELD"
  proof -
    have "(\<Sum>(x, y)\<leftarrow>?ps. y * coefficient_at ?ps x) = (\<Sum>s\<in>?S. poly_val cs s mod FIELD * coefficient_at ?ps s)"
      using xs(1) by (simp add: comp_def sum_list_distinct_conv_sum_set)
    then have "r mod FIELD = (\<Sum>s\<in>?S. poly_val cs s mod FIELD * coefficient_at ?ps s) mod FIELD" using r(4) by simp
    from mod_mult_cong[OF refl this, of ?T] show ?thesis by (simp only: sum_distrib_left)
  qed
  also have "\<dots> = (\<Sum>s\<in>?S. poly_val cs s * ?N s * (\<Prod>u\<in>?S - {s}. ?D u)) mod FIELD"
  proof (subst (1 2) mod_sum_eq[symmetric], rule arg_cong[where f = "\<lambda>v. v mod FIELD"], rule sum.cong[OF refl])
    fix s assume s: "s \<in> ?S"
    then have mem: "s \<in> fst ` set ?ps" using S by simp
    obtain n d w where b: "foldl (basis_step s) (1, 1) ?ps = (n, d)" "modInverse d = Inr w"
      "n mod FIELD = ?N s mod FIELD" "w * ?D s mod FIELD = 1" by (rule basis_inverse[OF dist bound mem, unfolded S], assumption, rule that)
    let ?E = "\<Prod>u\<in>?S - {s}. ?D u" and ?P = "poly_val cs s"
    have T: "?T = ?D s * ?E" using s by (intro prod.remove) simp_all
    have "?T * (?P mod FIELD * coefficient_at ?ps s) = (w * ?D s) * ((?P mod FIELD) * n * ?E)"
      using b by (simp add: coefficient_at_def T algebra_simps)
    also have "\<dots> mod FIELD = 1 * ((?P * ?N s) * ?E) mod FIELD"
      using b(3,4) FIELD_pos(2) by (intro mod_mult_cong refl mod_mod_trivial) simp_all
    finally show "?T * (?P mod FIELD * coefficient_at ?ps s) mod FIELD = ?P * ?N s * ?E mod FIELD" by simp
  qed
  also have "\<dots> = ?T * poly_val cs 0 mod FIELD"
    using integer_interpolation[of ?S cs] xs(1) cs by (simp add: distinct_card)
  finally have "FIELD dvd ?T * (r - poly_val cs 0)" by (simp add: mod_eq_dvd_iff right_diff_distrib)
  moreover have "coprime ?T FIELD"
  proof (intro prod_coprime_left coprime_small)
    fix s t assume "s \<in> ?S" "t \<in> ?S - {s}"
    with xs(2)[of s] xs(2)[of t] show "s - t \<noteq> 0" "\<bar>s - t\<bar> < 255" by auto
  qed
  ultimately have "FIELD dvd r - poly_val cs 0" by (simp add: coprime_commute coprime_dvd_mult_right_iff)
  then have "r mod FIELD = poly_val cs 0 mod FIELD" by (simp add: mod_eq_dvd_iff)
  then show ?thesis using r by simp
qed

subsection \<open>Bytes\<close>

definition bytes_val :: "bytes \<Rightarrow> int" where
  "bytes_val bs = foldl (\<lambda>v b. v * 256 + uint b) 0 bs"

lemma shift_or: "push_bit 8 v OR uint (b :: 8 word) = v * 256 + uint b"
proof -
  have b: "0 \<le> uint b" "uint b < 256" using uint_lt2p[of b] by simp_all
  have "push_bit 8 v AND uint b = 0"
    by (rule bit_eqI) (use b in \<open>auto simp: bit_and_iff bit_push_bit_iff bit_uint_iff\<close>)
  then have "push_bit 8 v OR uint b = push_bit 8 v + uint b" by (simp add: disjunctive_add_eq_or)
  then show ?thesis by (simp add: push_bit_eq_mult)
qed

lemma bytesToField_val: "bytesToField bs = bytes_val bs mod FIELD"
proof -
  have "foldl (\<lambda>v b. push_bit 8 v OR uint b) 0 bs = bytes_val bs" by (simp add: bytes_val_def shift_or)
  moreover have "0 \<le> foldl (\<lambda>v b. v * 256 + uint b) k bs" if "0 \<le> k" for k using that by (induction bs arbitrary: k) auto
  ultimately show ?thesis using FIELD_pos(1) by (simp add: bytesToField_def bytes_val_def smod_mod_positive)
qed

lemma bytes_val_snoc [simp]: "bytes_val [] = 0" "bytes_val (bs @ [b]) = bytes_val bs * 256 + uint b"
  by (simp_all add: bytes_val_def)

lemma bytes_val_bounds: "0 \<le> bytes_val bs \<and> bytes_val bs < 256 ^ length bs"
proof (induction bs rule: rev_induct)
  case (snoc b bs)
  then show ?case using uint_lt2p[of b] by (simp add: mult.commute)
qed simp

lemma field_bytes_step: "drop_bit 8 (v :: int) = v div 256" "word_of_int (v AND 0xff) = (word_of_int v :: 8 word)"
proof -
  show "drop_bit 8 (v :: int) = v div 256" by (simp add: drop_bit_eq_div)
  have "v AND 0xff = take_bit 8 v" by (simp add: take_bit_eq_mask mask_eq_exp_minus_1)
  then show "word_of_int (v AND 0xff) = (word_of_int v :: 8 word)" by (simp add: word_of_int_eq_iff)
qed

lemma length_field_bytes [simp]: "length (field_bytes k v) = k"
  by (induction k arbitrary: v) auto

lemma bytes_val_field_bytes: "bytes_val (field_bytes k v) = v mod 256 ^ k"
proof (induction k arbitrary: v)
  case (Suc k)
  have "uint (word_of_int v :: 8 word) = v mod 256" by (simp add: uint_word_of_int)
  then have "bytes_val (field_bytes (Suc k) v) = (v div 256) mod 256 ^ k * 256 + v mod 256"
    by (simp add: field_bytes_step Suc)
  then show ?case by (simp add: zmod_zmult2_eq)
qed simp

lemma field_bytes_val: "field_bytes (k + length bs) (bytes_val bs) = replicate k 0 @ bs"
proof (induction bs rule: rev_induct)
  case Nil
  show ?case by (induction k) (simp_all add: replicate_append_same)
next
  case (snoc b bs)
  have "word_of_int (bytes_val bs * 256 + uint b) = (word_of_int (uint b) :: 8 word)"
    by (simp only: word_of_int_eq_iff) (simp add: take_bit_eq_mod)
  then have "word_of_int (bytes_val bs * 256 + uint b) = b" by simp
  then show ?case using snoc uint_lt2p[of b] by (simp add: field_bytes_step)
qed

subsection \<open>Base64url is inverted\<close>

lemma b64_alphabet_index: "map b64_index b64_alphabet = map Some [0..<64]"
  by code_simp

lemma b64_alphabet_plain: "list_all (\<lambda>c. c \<noteq> CHR 0x3D \<and> c \<noteq> CHR ''.'') b64_alphabet"
  by (simp add: b64_alphabet_def)

lemma b64_char_index:
  assumes "n < 64"
  shows "b64_index (b64_char n) = Some n" "b64_char n \<noteq> CHR 0x3D" "b64_char n \<noteq> CHR ''.''"
proof -
  have len: "length b64_alphabet = 64" by (simp add: b64_alphabet_def)
  have "map b64_index b64_alphabet ! n = Some n" using assms by (simp add: b64_alphabet_index)
  then show "b64_index (b64_char n) = Some n" using assms len by (simp add: b64_char_def)
  show "b64_char n \<noteq> CHR 0x3D" "b64_char n \<noteq> CHR ''.''"
    using b64_alphabet_plain assms len by (simp_all add: b64_char_def list_all_length)
qed

lemma byte_lt: "unat (b :: 8 word) < 256"
  using unsigned_less[of b] by simp

lemma byte_unat: "byte_at (unat b) = b" "n mod 256 = unat b \<Longrightarrow> byte_at n = b"
proof -
  have "unat b < 256" by (rule byte_lt)
  then show "byte_at (unat b) = b" "n mod 256 = unat b \<Longrightarrow> byte_at n = b" by (simp_all add: byte_at_def)
qed

lemma sextets_small: "list_all (\<lambda>n. n < 64) (sextets bs)"
proof (induction bs rule: sextets.induct)
  case (2 a)
  then show ?case using byte_lt[of a] by (simp add: Let_def)
next
  case (3 a b)
  then show ?case using byte_lt[of a] byte_lt[of b] by (simp add: Let_def)
next
  case (4 a b c r)
  then show ?case using byte_lt[of a] byte_lt[of b] byte_lt[of c] by (simp add: Let_def)
qed simp

lemma radix64:
  fixes n :: nat
  shows "(n div 4096 * 64 + n div 64 mod 64) * 64 + n mod 64 = n"
    "((n div 262144 * 64 + n div 4096 mod 64) * 64 + n div 64 mod 64) * 64 + n mod 64 = n"
proof -
  have d: "n div 4096 = n div 64 div 64" "n div 262144 = n div 64 div 64 div 64" by (simp_all flip: div_mult2_eq)
  show "(n div 4096 * 64 + n div 64 mod 64) * 64 + n mod 64 = n"
    "((n div 262144 * 64 + n div 4096 mod 64) * 64 + n div 64 mod 64) * 64 + n mod 64 = n"
    unfolding d by (simp_all only: div_mult_mod_eq)
qed

lemma radix256:
  fixes a b c :: nat
  assumes "b < 256" "c < 256"
  shows "(a * 256 + b) div 256 = a" "(a * 256 + b) mod 256 = b"
    "((a * 256 + b) * 256 + c) div 65536 = a" "((a * 256 + b) * 256 + c) div 256 mod 256 = b" "((a * 256 + b) * 256 + c) mod 256 = c"
proof -
  show "(a * 256 + b) div 256 = a" "(a * 256 + b) mod 256 = b" using assms by simp_all
  have "((a * 256 + b) * 256 + c) mod 256 = c mod 256" by (rule mod_mult_self3)
  then show "((a * 256 + b) * 256 + c) mod 256 = c" using assms(2) by simp
  have *: "((a * 256 + b) * 256 + c) div 256 = a * 256 + b" using assms by simp
  then show "((a * 256 + b) * 256 + c) div 256 mod 256 = b" using assms by simp
  have "((a * 256 + b) * 256 + c) div 65536 = ((a * 256 + b) * 256 + c) div 256 div 256" by (simp flip: div_mult2_eq)
  then show "((a * 256 + b) * 256 + c) div 65536 = a" using * assms by simp
qed

lemma bytes_of_sextets_inverse: "bytes_of_sextets (sextets bs) = bs"
proof (induction bs rule: sextets.induct)
  case (2 a)
  have "unat a * 16 div 64 * 64 + unat a * 16 mod 64 = unat a * 16" by (rule div_mult_mod_eq)
  then show ?case by (simp only: sextets.simps Let_def bytes_of_sextets.simps) (simp add: byte_unat)
next
  case (3 a b)
  have n: "(unat a * 256 + unat b) * 4 div 4 = unat a * 256 + unat b" by simp
  show ?case
    by (simp only: sextets.simps Let_def bytes_of_sextets.simps radix64 n radix256(1)[OF byte_lt byte_lt]
        byte_unat(1) byte_unat(2)[OF radix256(2)[OF byte_lt byte_lt]])
next
  case (4 a b c r)
  show ?case
    by (simp only: sextets.simps Let_def append.simps bytes_of_sextets.simps radix64 4 radix256(3)[OF byte_lt byte_lt]
        byte_unat(1) byte_unat(2)[OF radix256(4)[OF byte_lt byte_lt]] byte_unat(2)[OF radix256(5)[OF byte_lt byte_lt]])
qed simp

lemma base64u_decodes: "buffer_from_base64url (base64u bs) = bs"
proof -
  have "list_all (\<lambda>n. n < 64) ns \<Longrightarrow> List.map_filter b64_index (map b64_char ns) = ns" for ns
    by (induction ns) (auto simp: b64_char_index map_filter_simps)
  then show ?thesis by (simp add: buffer_from_base64url_def base64u_def sextets_small bytes_of_sextets_inverse)
qed

lemma base64u_plain: "CHR 0x3D \<notin> set (base64u bs)" "CHR ''.'' \<notin> set (base64u bs)"
  using sextets_small[of bs] b64_char_index(2,3) by (fastforce simp: base64u_def list_all_iff)+

lemma decodeBase64u_encoded:
  assumes "bs \<noteq> []"
  shows "decodeBase64u (base64u bs) = Inr bs"
proof -
  have "base64u bs \<noteq> []" using assms base64u_decodes[of bs] by (auto simp: buffer_from_base64url_def map_filter_simps)
  moreover have "dropWhile (\<lambda>c. c = CHR 0x3D) (rev (base64u bs)) = rev (base64u bs)"
  proof (cases "rev (base64u bs)")
    case (Cons c cs)
    then have "c \<in> set (base64u bs)" by (metis list.set_intros(1) set_rev)
    then show ?thesis using Cons base64u_plain(1)[of bs] by auto
  qed simp
  ultimately show ?thesis using assms by (simp add: decodeBase64u_def base64u_decodes withoutBase64Padding_def)
qed

subsection \<open>Round trip\<close>

lemma split_on_plain: "d \<notin> set s \<Longrightarrow> split_on d s = [s]" "d \<notin> set s \<Longrightarrow> split_on d (s @ d # r) = s # split_on d r"
  by (induction s) auto

text \<open>What the code relies on of \<open>Number\<close>: it reads the decimal text of an index.\<close>

definition reads_decimals :: "(string \<Rightarrow> js_number) \<Rightarrow> bool" where
  "reads_decimals number \<longleftrightarrow> (\<forall>n \<le> 255. number (dec_nat n) = Integral (int n))"

lemma dec_nat_plain: "CHR ''.'' \<notin> set (dec_nat n)"
proof
  assume "CHR ''.'' \<in> set (dec_nat n)"
  then have "is_digit CHR ''.''" by (rule dec_nat_digits)
  then show False by (simp add: char_class_defs)
qed

lemma field_scalar: "bytesToField (fieldToBytes (v mod FIELD)) = v mod FIELD"
proof -
  have "FIELD \<le> 256 ^ SHARE_BYTES" by (simp add: FIELD_def SHARE_BYTES_def)
  moreover have "0 \<le> v mod FIELD" "v mod FIELD < FIELD" using FIELD_pos(1) by simp_all
  ultimately have "(v mod FIELD) mod 256 ^ SHARE_BYTES = v mod FIELD" by (intro mod_pos_pos_trivial) linarith+
  then show ?thesis by (simp add: bytesToField_val fieldToBytes_def bytes_val_field_bytes)
qed

lemma parseShare_text:
  assumes "reads_decimals number" "1 \<le> x" "x \<le> 255"
  shows "parseShare number (share_text x (v mod FIELD)) = Inr (int x, v mod FIELD)"
proof -
  let ?b = "fieldToBytes (v mod FIELD)"
  have parts: "split_on CHR ''.'' (share_text x (v mod FIELD)) = [''ep-share-v1'', dec_nat x, base64u ?b]"
    using split_on_plain(2)[of "CHR ''.''" "''ep-share-v1''"] split_on_plain(2)[OF dec_nat_plain] split_on_plain(1)[OF base64u_plain(2)]
    by (simp add: share_text_def)
  have "length ?b = SHARE_BYTES" by (simp add: fieldToBytes_def)
  moreover from this have "?b \<noteq> []" by (auto simp: SHARE_BYTES_def)
  moreover have "number (dec_nat x) = Integral (int x)" using assms by (simp add: reads_decimals_def)
  ultimately show ?thesis
    using assms(2,3) by (simp add: parseShare_def parts decodeBase64u_encoded field_scalar safe_int_def max_safe_def)
qed

lemma parse_shares_points:
  assumes "reads_decimals number" "set xs \<subseteq> {1..255}"
  shows "parse_shares number (map (\<lambda>x. share_text x (f x mod FIELD)) xs) = Inr (map (\<lambda>x. (int x, f x mod FIELD)) xs)"
  using assms(2) by (induction xs) (simp_all add: parseShare_text[OF assms(1)])

lemma secret_bytes:
  assumes "length bs = HASH_BYTES"
  shows "drop (SHARE_BYTES - HASH_BYTES) (fieldToBytes (bytesToField bs)) = bs" "bytesToField bs mod FIELD = bytesToField bs"
proof -
  have "bytes_val bs < 256 ^ 32" using bytes_val_bounds[of bs] assms by (simp add: HASH_BYTES_def)
  moreover have "256 ^ 32 < FIELD" by (simp add: FIELD_def)
  ultimately have v: "bytesToField bs = bytes_val bs" using bytes_val_bounds[of bs] by (simp add: bytesToField_val)
  have "field_bytes SHARE_BYTES (bytes_val bs) = replicate 34 0 @ bs"
    using field_bytes_val[of 34 bs] assms by (simp add: SHARE_BYTES_def HASH_BYTES_def)
  then show "drop (SHARE_BYTES - HASH_BYTES) (fieldToBytes (bytesToField bs)) = bs"
    by (simp add: v fieldToBytes_def SHARE_BYTES_def HASH_BYTES_def)
  show "bytesToField bs mod FIELD = bytesToField bs" by (simp add: bytesToField_val)
qed

lemma share_text_inj: "share_text x y = share_text x' y' \<Longrightarrow> x = x'"
proof -
  assume "share_text x y = share_text x' y'"
  then have "split_on CHR ''.'' (dec_nat x @ CHR ''.'' # base64u (fieldToBytes y)) = split_on CHR ''.'' (dec_nat x' @ CHR ''.'' # base64u (fieldToBytes y'))"
    by (simp add: share_text_def)
  then have "dec_nat x = dec_nat x'" by (simp add: split_on_plain(2)[OF dec_nat_plain])
  then show "x = x'" by (simp add: dec_nat_inj)
qed

lemma image_list: "set ys \<subseteq> f ` A \<Longrightarrow> \<exists>xs. ys = map f xs \<and> set xs \<subseteq> A"
proof (induction ys)
  case (Cons y ys)
  then obtain x xs where "y = f x" "x \<in> A" "ys = map f xs" "set xs \<subseteq> A" by auto
  then show ?case by (intro exI[of _ "x # xs"]) simp
qed simp

lemma split_Some:
  assumes "splitCapabilitySecret sha secret t source = Some (Inr shares)"
  obtains nd m n cs where "digestSecret sha secret = Inr nd" "validateThreshold t = Inr (m, n)" "length cs = m - 1" "1 \<le> m" "m \<le> n" "n \<le> 255"
    "length (sd_bytes nd) = HASH_BYTES"
    "shares = map (\<lambda>x. share_text x (poly_val (bytesToField (sd_bytes nd) # cs) (int x) mod FIELD)) [1..<n + 1]"
proof -
  have len: "random_coefficients source k i = Some (Inr cs) \<Longrightarrow> length cs = k" for k i cs
    by (induction k arbitrary: i cs) (auto split: option.splits sum.splits)
  obtain nd m n cs where d: "digestSecret sha secret = Inr nd" "validateThreshold t = Inr (m, n)" "random_coefficients source (m - 1) 0 = Some (Inr cs)"
    "shares = map (\<lambda>x. share_text x (eval_share (bytesToField (sd_bytes nd) # cs) (int x))) [1..<n + 1]"
    using assms by (auto simp: splitCapabilitySecret_def split: sum.splits option.splits)
  have "1 \<le> m" "m \<le> n" "n \<le> 255" using d(2) by (auto simp: validateThreshold_def split: if_splits)
  moreover have "length (sd_bytes nd) = HASH_BYTES" using d(1) by (auto simp: digestSecret_def split: sum.splits if_splits)
  ultimately show thesis using that[OF d(1,2) len[OF d(3)]] d(4) by (simp add: eval_share_eq)
qed

text \<open>What reconstruction makes of shares of a split.\<close>

lemma split_reconstructs:
  assumes split: "splitCapabilitySecret sha secret t source = Some (Inr shares)"
    and nd: "digestSecret sha secret = Inr nd" and mn: "validateThreshold t = Inr (m, n)"
    and chosen: "distinct chosen" "set chosen \<subseteq> set shares" "m \<le> length chosen"
    and number: "reads_decimals number"
  shows "reconstructCapabilitySecret number chosen t = Inr (sd_bytes nd)"
proof -
  obtain cs where cs: "length cs = m - 1" "1 \<le> m" "m \<le> n" "n \<le> 255" "length (sd_bytes nd) = HASH_BYTES"
    "shares = map (\<lambda>x. share_text x (poly_val (bytesToField (sd_bytes nd) # cs) (int x) mod FIELD)) [1..<n + 1]"
    using split
  proof (rule split_Some, goal_cases)
    case (1 nd' m' n' cs')
    have e: "nd' = nd" "m' = m" "n' = n" using 1(2,3) nd mn by simp_all
    from 1(4-)[unfolded e] show thesis by (rule 1(1))
  qed
  let ?cs = "bytesToField (sd_bytes nd) # cs"
  let ?share = "\<lambda>x. share_text x (poly_val ?cs (int x) mod FIELD)"
  let ?points = "map (\<lambda>x. (x, poly_val ?cs x mod FIELD))"
  have "set chosen \<subseteq> ?share ` {1..n}" using chosen(2) cs(6) by auto
  then obtain xs where xs: "chosen = map ?share xs" "set xs \<subseteq> {1..n}" by (elim image_list[THEN exE] conjE)
  have dist: "distinct xs" using chosen(1) xs(1) by (simp add: distinct_map)
  have len: "length xs \<le> n" using card_mono[OF _ xs(2)] distinct_card[OF dist] by simp
  have range: "set xs \<subseteq> {1..255}" using xs(2) cs(4) by fastforce
  have parsed: "parse_shares number chosen = Inr (?points (map int xs))"
    using parse_shares_points[OF number range, of "\<lambda>x. poly_val ?cs (int x)"] xs(1) by (simp add: comp_def)
  have "interpolate (?points (map int xs)) (?points (map int xs)) 0 = Inr (poly_val ?cs 0 mod FIELD)"
    by (rule interpolate_points) (use dist xs cs chosen(3) in \<open>auto simp: distinct_map\<close>)
  moreover have "poly_val ?cs 0 mod FIELD = bytesToField (sd_bytes nd)" by (simp add: secret_bytes(2)[OF cs(5)])
  moreover have "distinct (map fst (?points (map int xs)))" using dist by (simp add: comp_def distinct_map)
  ultimately show ?thesis
    using mn parsed len chosen(3) xs(1) by (simp add: reconstructCapabilitySecret_def secret_bytes(1)[OF cs(5)])
qed

text \<open>
  Property C12. Any selection of at least \<open>m\<close> distinct shares of a split, in any order, reconstructs
  exactly the 32 bytes of the secret that was split.
\<close>

theorem shares_reconstruct_secret:
  assumes split: "splitCapabilitySecret sha secret t source = Some (Inr shares)"
    and nd: "digestSecret sha secret = Inr nd" and mn: "validateThreshold t = Inr (m, n)"
    and chosen: "distinct chosen" "set chosen \<subseteq> set shares" "m \<le> length chosen"
    and number: "reads_decimals number"
  shows "reconstructCapabilitySecret number chosen t = Inr (sd_bytes nd)"
  by (rule split_reconstructs[OF assms])

subsection \<open>The split returns\<close>

lemma candidate_range: "0 \<le> candidate_field bs" "candidate_field bs < FIELD"
  using FIELD_pos(1) by (simp_all add: candidate_field_def bytesToField_val)

lemma randomField_returns:
  assumes "\<forall>i. length (source i) = SHARE_BYTES" "candidate_field (source (i + k)) \<noteq> 0"
  shows "\<exists>c j. randomField source i = Some (Inr (c, j))"
  using assms(2)
proof (induction k arbitrary: i)
  case 0
  then show ?case using assms(1) candidate_range by (simp add: randomField.simps)
next
  case (Suc k)
  show ?case
  proof (cases "candidate_field (source i) = 0")
    case True
    then have "randomField source i = randomField source (i + 1)" using assms(1) by (simp add: randomField.simps[of source i])
    with Suc show ?thesis by simp
  next
    case False
    then show ?thesis using assms(1) candidate_range by (simp add: randomField.simps)
  qed
qed

lemma random_coefficients_return:
  assumes "\<forall>i. length (source i) = SHARE_BYTES" "\<forall>i. \<exists>k. candidate_field (source (i + k)) \<noteq> 0"
  shows "\<exists>cs. random_coefficients source n i = Some (Inr cs)"
proof (induction n arbitrary: i)
  case (Suc n)
  obtain c j where c: "randomField source i = Some (Inr (c, j))" using randomField_returns[OF assms(1)] assms(2) by metis
  obtain cs where "random_coefficients source n j = Some (Inr cs)" using Suc by blast
  with c show ?case by simp
qed simp

lemma split_returns:
  assumes "digestSecret sha secret = Inr nd" "validateThreshold t = Inr (m, n)"
    and "\<forall>i. length (source i) = SHARE_BYTES" "\<forall>i. \<exists>k. candidate_field (source (i + k)) \<noteq> 0"
  shows "\<exists>shares. splitCapabilitySecret sha secret t source = Some (Inr shares) \<and> length shares = n \<and> distinct shares"
proof -
  obtain cs where "random_coefficients source (m - 1) 0 = Some (Inr cs)" using random_coefficients_return[OF assms(3,4)] by blast
  then show ?thesis
    using assms(1,2) by (auto simp: splitCapabilitySecret_def distinct_map inj_on_def dest: share_text_inj)
qed

text \<open>
  Property C39. With a source of 66-byte strings that yields a candidate other than zero again and again, the
  split of a 32-byte secret under a valid threshold returns, with \<open>n\<close> distinct shares.
\<close>

theorem split_terminates:
  assumes "digestSecret sha secret = Inr nd" "validateThreshold t = Inr (m, n)"
    and "\<forall>i. length (source i) = SHARE_BYTES" "\<forall>i. \<exists>k. candidate_field (source (i + k)) \<noteq> 0"
  shows "\<exists>shares. splitCapabilitySecret sha secret t source = Some (Inr shares) \<and> length shares = n \<and> distinct shares"
  using assms by (rule split_returns)

text \<open>A two-of-three split, with a source that repeats one string.\<close>

definition sample_secret :: secret_input where
  "sample_secret = Secret_buffer (replicate 32 7)"

definition sample_threshold :: threshold where
  "sample_threshold = \<lparr>th_m = Integral 2, th_n = Integral 3\<rparr>"

definition sample_source :: random_source where
  "sample_source i = replicate 65 0 @ [5]"

definition sample_number :: "string \<Rightarrow> js_number" where
  "sample_number s = Integral (int (dec_value s))"

definition sample_hex :: "bytes \<Rightarrow> string" where
  "sample_hex bs = replicate 64 CHR ''0''"

lemma sample_split_facts:
  "digestSecret sample_hex sample_secret = Inr \<lparr>sd_bytes = replicate 32 7, sd_hash = ''sha256:'' @ replicate 64 CHR ''0''\<rparr>"
  "validateThreshold sample_threshold = Inr (2, 3)" "\<forall>i. length (sample_source i) = SHARE_BYTES"
  "\<forall>i. \<exists>k. candidate_field (sample_source (i + k)) \<noteq> 0" "reads_decimals sample_number"
proof -
  show "digestSecret sample_hex sample_secret = Inr \<lparr>sd_bytes = replicate 32 7, sd_hash = ''sha256:'' @ replicate 64 CHR ''0''\<rparr>"
    by (simp add: digestSecret_def sample_secret_def HASH_BYTES_def sample_hex_def)
  show "validateThreshold sample_threshold = Inr (2, 3)"
    by (simp add: validateThreshold_def sample_threshold_def safe_int_def max_safe_def)
  show "\<forall>i. length (sample_source i) = SHARE_BYTES" by (simp add: sample_source_def SHARE_BYTES_def)
  have "bytes_val (replicate n 0 @ [5]) = 5" for n by (induction n) (simp_all add: bytes_val_def)
  moreover have "(replicate 65 (0 :: 8 word))[0 := 0] = replicate 65 0" by (metis list_update_id nth_replicate zero_less_numeral)
  ultimately have "candidate_field (sample_source i) = 5" for i
    by (simp add: candidate_field_def sample_source_def bytesToField_val list_update_append nth_append FIELD_def)
  then show "\<forall>i. \<exists>k. candidate_field (sample_source (i + k)) \<noteq> 0" by simp
  show "reads_decimals sample_number" by (simp add: reads_decimals_def sample_number_def dec_value_nat)
qed

theorem split_terminates_witness:
  "\<exists>shares. splitCapabilitySecret sample_hex sample_secret sample_threshold sample_source = Some (Inr shares) \<and> length shares = 3 \<and> distinct shares"
  by (rule split_terminates[OF sample_split_facts(1-4)])

theorem shares_reconstruct_secret_witness:
  "\<exists>shares. splitCapabilitySecret sample_hex sample_secret sample_threshold sample_source = Some (Inr shares)
     \<and> reconstructCapabilitySecret sample_number [shares ! 2, shares ! 0] sample_threshold = Inr (replicate 32 7)"
proof -
  obtain shares where s: "splitCapabilitySecret sample_hex sample_secret sample_threshold sample_source = Some (Inr shares)"
    "length shares = 3" "distinct shares" using split_returns[OF sample_split_facts(1-4)] by blast
  then have "distinct [shares ! 2, shares ! 0]" "set [shares ! 2, shares ! 0] \<subseteq> set shares" by (simp_all add: nth_eq_iff_index_eq)
  from shares_reconstruct_secret[OF s(1) sample_split_facts(1,2) this _ sample_split_facts(5)] s(1) show ?thesis by simp
qed

end
