(* ===== verification/Capability_Envelope.thy ===== *)
theory Capability_Envelope
  imports Capability_Shares Js_Json
begin

section \<open>Capability envelopes\<close>

text \<open>
  Model of the capability document of \<open>packages/gate/src/capability-receipt.ts\<close>: the shape that the
  issuer signs, its validators, the checks of the delegation chain, the verification of an envelope,
  and the state that a store derives from it. Documents have the shapes of their interfaces; numbers
  are JavaScript numbers until they are validated. Texts are given by their UTF-8 bytes, so that
  \<open>Buffer.byteLength\<close> is the length of the list. \<open>Date.parse\<close>, the Ed25519 check and the SHA-256
  fingerprint of an envelope are parameters; a check that throws has the value \<open>None\<close>.
\<close>

definition CAPABILITY_RECEIPT_VERSION :: string where
  "CAPABILITY_RECEIPT_VERSION = ''EP-CAPABILITY-RECEIPT-v1''"

definition CAPABILITY_STATE_VERSION :: string where
  "CAPABILITY_STATE_VERSION = ''EP-CAPABILITY-STATE-v1''"

definition MAX_DELEGATES :: nat where
  "MAX_DELEGATES = 64"

definition MAX_SCOPE_ACTIONS :: nat where
  "MAX_SCOPE_ACTIONS = 256"

subsection \<open>Validators\<close>

definition ACTION_DIGEST_RE :: "string \<Rightarrow> bool" where
  "ACTION_DIGEST_RE s = sha256_re s"

text \<open>
  \<open>/^canactid:1:[a-z][a-z0-9.-]*\.[1-9][0-9]*:jcs-sha256:[A-Za-z0-9_-]{43}$/\<close>: the version follows the
  last dot of the type, which holds no colon.
\<close>

definition CAID_RE :: "string \<Rightarrow> bool" where
  "CAID_RE s \<longleftrightarrow> (case split_on CHR '':'' s of
       [a, b, t, alg, dig] \<Rightarrow> a = ''canactid'' \<and> b = ''1'' \<and> alg = ''jcs-sha256'' \<and> length dig = 43 \<and> list_all is_b64u dig
         \<and> (let segs = split_on CHR ''.'' t in 2 \<le> length segs \<and> caid_version (last segs)
              \<and> is_lower (hd t)
              \<and> list_all (\<lambda>c. is_lower c \<or> is_digit c \<or> c = CHR ''-'') (concat (butlast segs)))
     | _ \<Rightarrow> False)"

text \<open>\<open>/^[A-Za-z0-9][A-Za-z0-9:_.@/+\-]{0,511}$/\<close>\<close>

definition boundedIdentifier :: "string \<Rightarrow> bool" where
  "boundedIdentifier s \<longleftrightarrow> (case s of [] \<Rightarrow> False
     | c # cs \<Rightarrow> is_alnum c \<and> length cs \<le> 511 \<and> list_all (\<lambda>d. is_alnum d \<or> d \<in> set '':_.@/+-'') cs)"

text \<open>\<open>/^[A-Za-z_][A-Za-z0-9_.-]{0,127}$/\<close>\<close>

definition action_field_re :: "string \<Rightarrow> bool" where
  "action_field_re s \<longleftrightarrow> (case s of [] \<Rightarrow> False
     | c # cs \<Rightarrow> (is_upper c \<or> is_lower c \<or> c = CHR ''_'') \<and> length cs \<le> 127 \<and> list_all (\<lambda>d. is_alnum d \<or> d \<in> set ''_.-'') cs)"

definition nowMs :: "js_number \<Rightarrow> error + int" where
  "nowMs v = (if is_safe_integer v \<and> num_val v \<ge> 0 then Inr (num_val v) else Inl ''capability clock must return a non-negative safe integer'')"

definition validateCurrency :: "string \<Rightarrow> check" where
  "validateCurrency c = (c \<noteq> [] \<and> length c \<le> 32, ''capability currency must be a short non-empty string'')"

definition validateAmount :: "js_number \<Rightarrow> check" where
  "validateAmount a = (is_safe_integer a \<and> num_val a \<ge> 0, ''capability amount must be a non-negative safe integer'')"

definition validateSpendAmount :: "js_number \<Rightarrow> check" where
  "validateSpendAmount a = (is_safe_integer a \<and> num_val a > 0, ''capability amount must be a positive safe integer'')"

definition validateOperationId :: "string \<Rightarrow> check" where
  "validateOperationId s = (s \<noteq> [] \<and> length s \<le> 128, ''operation_id must be a short non-empty string'')"

definition validateOperationNamespace :: "string \<Rightarrow> check" where
  "validateOperationNamespace s = (s \<noteq> [] \<and> length s \<le> 512, ''operation_namespace must be a bounded non-empty string'')"

definition validateControlDomainId :: "string \<Rightarrow> check" where
  "validateControlDomainId s = (boundedIdentifier s, ''control_domain_id must be a bounded non-empty identifier'')"

definition validateActionDigest :: "string \<Rightarrow> check" where
  "validateActionDigest s = (ACTION_DIGEST_RE s, ''action_digest must be SHA-256'')"

definition validateEvidenceProfile :: "string \<Rightarrow> check" where
  "validateEvidenceProfile s = (s \<noteq> [] \<and> length s \<le> 512, ''evidence_profile must be a bounded non-empty string'')"

definition validateCapabilityId :: "string \<Rightarrow> check" where
  "validateCapabilityId s = (s \<noteq> [] \<and> length s \<le> 128, ''capability id must be a short non-empty string'')"

type_synonym date_parse_fun = "string \<Rightarrow> int option"

definition evidenceObservedAtMs :: "date_parse_fun \<Rightarrow> string \<Rightarrow> error + int" where
  "evidenceObservedAtMs dparse v = (case dparse v of None \<Rightarrow> Inl ''evidence observed_at must be an ISO-8601 timestamp'' | Some t \<Rightarrow> Inr t)"

definition validateExpiry :: "date_parse_fun \<Rightarrow> string \<Rightarrow> check" where
  "validateExpiry dparse v = (dparse v \<noteq> None, ''capability expiry must be an ISO-8601 timestamp'')"

definition validateProviderEntryTimeoutMs :: "js_number \<Rightarrow> error + int" where
  "validateProviderEntryTimeoutMs v = (if is_safe_integer v \<and> num_val v > 0 then Inr (num_val v)
     else Inl ''providerEntryTimeoutMs must be a positive safe integer'')"

definition entryDeadline :: "int \<Rightarrow> int \<Rightarrow> int \<Rightarrow> int" where
  "entryDeadline at_ms capabilityExpiry timeoutMs =
     min capabilityExpiry (if at_ms > max_safe - timeoutMs then max_safe else at_ms + timeoutMs)"

datatype revocation_mode = Direct | Cascade

definition normalizeRevocationMode :: "string \<Rightarrow> error + revocation_mode" where
  "normalizeRevocationMode v = (if v = ''direct'' then Inr Direct else if v = ''cascade'' then Inr Cascade
     else Inl ''capability revocation_mode must be direct or cascade'')"

subsection \<open>Scope\<close>

text \<open>The three closed shapes of a scope; anything else is \<open>Other_scope\<close>.\<close>

datatype capability_scope = Digest_scope "string list" string | Caid_scope "string list" string
  | Allowance_scope string string string | Other_scope

definition scope_members_ok :: "(string \<Rightarrow> bool) \<Rightarrow> string list \<Rightarrow> string \<Rightarrow> check list" where
  "scope_members_ok pattern members field =
     [(1 \<le> length members \<and> length members \<le> MAX_SCOPE_ACTIONS \<and> list_all pattern members,
         ''capability scope members must be a bounded non-empty array of canonical identifiers''),
      (distinct members, ''capability scope members must not contain duplicates''),
      (action_field_re field, ''capability scope.operation_id_field must name a closed action field'')]"

fun normalizeCapabilityScope :: "capability_scope \<Rightarrow> error + capability_scope" where
  "normalizeCapabilityScope Other_scope = Inl ''capability scope.profile is not supported''"
| "normalizeCapabilityScope (Allowance_scope profile_id profile_digest field) =
     (case run_checks [(boundedIdentifier profile_id, ''capability scope.profile_id must be a bounded identifier''),
        (ACTION_DIGEST_RE profile_digest, ''capability scope.profile_digest must be a sha256 digest''),
        (action_field_re field, ''capability scope.operation_id_field must name a closed action field'')] of
      Some e \<Rightarrow> Inl e | None \<Rightarrow> Inr (Allowance_scope profile_id profile_digest field))"
| "normalizeCapabilityScope (Digest_scope members field) =
     (case run_checks (scope_members_ok ACTION_DIGEST_RE members field) of
      Some e \<Rightarrow> Inl e | None \<Rightarrow> Inr (Digest_scope (sort members) field))"
| "normalizeCapabilityScope (Caid_scope members field) =
     (case run_checks (scope_members_ok CAID_RE members field) of
      Some e \<Rightarrow> Inl e | None \<Rightarrow> Inr (Caid_scope (sort members) field))"

subsection \<open>Delegation chains\<close>

record delegation_entry =
  delegation_id :: string
  parent_capability_id :: string
  delegate_id :: string
  d_amount :: js_number
  d_currency :: string
  issued_at :: string

definition entry_checks :: "string option \<Rightarrow> string list \<Rightarrow> string list \<Rightarrow> int option \<Rightarrow> delegation_entry \<Rightarrow> check list" where
  "entry_checks leaf seenIds seenParents previousAmount entry =
     [(is_safe_integer (d_amount entry) \<and> num_val (d_amount entry) \<ge> 0, ''delegation_chain contains an invalid signed entry''),
      (delegation_id entry \<notin> set seenIds, ''delegation_chain repeats a delegation_id (cyclic or forged chain)''),
      (parent_capability_id entry \<notin> set seenParents, ''delegation_chain repeats a parent_capability_id (cyclic delegation)''),
      (leaf \<noteq> Some (parent_capability_id entry), ''delegation_chain references the leaf capability as a parent (broken delegation link)''),
      (case previousAmount of None \<Rightarrow> True | Some a \<Rightarrow> num_val (d_amount entry) \<le> a,
         ''delegation_chain grants increasing authority (non-monotonic amount)'')]"

fun chain_loop :: "string option \<Rightarrow> string list \<Rightarrow> string list \<Rightarrow> int option \<Rightarrow> delegation_entry list \<Rightarrow> error + delegation_entry list" where
  "chain_loop leaf seenIds seenParents previousAmount [] = Inr []"
| "chain_loop leaf seenIds seenParents previousAmount (entry # rest) =
     (case run_checks (entry_checks leaf seenIds seenParents previousAmount entry) of
      Some e \<Rightarrow> Inl e
    | None \<Rightarrow> (case chain_loop leaf (delegation_id entry # seenIds) (parent_capability_id entry # seenParents) (Some (num_val (d_amount entry))) rest of
        Inl e \<Rightarrow> Inl e | Inr es \<Rightarrow> Inr (entry # es)))"

definition assertDelegationChain :: "delegation_entry list \<Rightarrow> string option \<Rightarrow> error + delegation_entry list" where
  "assertDelegationChain chain capabilityId = (if length chain > MAX_DELEGATES then Inl ''delegation_chain must be a bounded array''
     else chain_loop capabilityId [] [] None chain)"

subsection \<open>The envelope\<close>

record capability =
  c_version :: string
  c_id :: string
  c_secret_hash :: string
  c_amount :: js_number
  c_currency :: string
  c_consumed :: js_number
  c_threshold :: threshold
  c_revocation_mode :: string
  c_scope :: capability_scope
  c_delegation_chain :: "delegation_entry list"
  c_expiry :: string

definition assertCapabilityShape :: "date_parse_fun \<Rightarrow> capability \<Rightarrow> error + unit" where
  "assertCapabilityShape dparse c =
     (case run_checks [(c_version c = CAPABILITY_STATE_VERSION, ''invalid capability state version''), validateCapabilityId (c_id c),
        (sha256_re (c_secret_hash c), ''capability secret_hash is invalid''), validateAmount (c_amount c), validateCurrency (c_currency c),
        validateExpiry dparse (c_expiry c)] of Some e \<Rightarrow> Inl e
    | None \<Rightarrow> (case validateThreshold (c_threshold c) of Inl e \<Rightarrow> Inl e
    | Inr mn \<Rightarrow> (case normalizeRevocationMode (c_revocation_mode c) of Inl e \<Rightarrow> Inl e
    | Inr mode \<Rightarrow> (case normalizeCapabilityScope (c_scope c) of Inl e \<Rightarrow> Inl e
    | Inr scope \<Rightarrow> (case assertDelegationChain (c_delegation_chain c) (Some (c_id c)) of Inl e \<Rightarrow> Inl e
    | Inr chain \<Rightarrow> if c_consumed c \<noteq> Integral 0 then Inl ''capability consumed is issuer-initialized and must be zero'' else Inr ())))))"

record base_receipt =
  r_version :: string
  r_receipt_id :: string
  r_capability_only :: bool

definition validateBaseReceipt :: "base_receipt \<Rightarrow> string option" where
  "validateBaseReceipt r = run_checks
     [(r_version r = ''EP-RECEIPT-v1'', ''capability base receipt must be an EP-RECEIPT-v1 document''),
      (r_receipt_id r \<noteq> [], ''capability base receipt must carry receipt_id''),
      (r_capability_only r, ''capability base receipt must be signed as capability_only'')]"

record capability_signature =
  g_algorithm :: string
  g_public_key :: string
  g_value :: string

record capability_receipt =
  e_version :: string
  e_receipt :: base_receipt
  e_capability :: capability
  e_signature :: "capability_signature option"

definition capabilitySignature :: "capability_receipt \<Rightarrow> capability_signature option" where
  "capabilitySignature e = (case e_signature e of None \<Rightarrow> None
     | Some g \<Rightarrow> if g_algorithm g = ''Ed25519'' then Some g else None)"

definition verifyTrustedIssuer :: "string \<Rightarrow> string list \<Rightarrow> bool" where
  "verifyTrustedIssuer publicKey trusted \<longleftrightarrow> trusted \<noteq> [] \<and> publicKey \<in> set trusted"

text \<open>\<open>Inr\<close> stands for \<open>ok: true\<close>; \<open>verify\<close> is the Ed25519 check of the canonical unsigned body.\<close>

definition verifyCapabilityReceipt :: "date_parse_fun \<Rightarrow> (capability_receipt \<Rightarrow> bool option) \<Rightarrow> string list \<Rightarrow> capability_receipt \<Rightarrow> error + string" where
  "verifyCapabilityReceipt dparse verify trusted e =
     (if e_version e \<noteq> CAPABILITY_RECEIPT_VERSION then Inl ''malformed_capability_receipt''
      else (case validateBaseReceipt (e_receipt e) of Some m \<Rightarrow> Inl ''capability_malformed''
      | None \<Rightarrow> (case assertCapabilityShape dparse (e_capability e) of Inl m \<Rightarrow> Inl ''capability_malformed''
      | Inr u \<Rightarrow> (case capabilitySignature e of None \<Rightarrow> Inl ''capability_issuer_not_trusted''
      | Some g \<Rightarrow> if \<not> verifyTrustedIssuer (g_public_key g) trusted then Inl ''capability_issuer_not_trusted''
        else (case verify e of None \<Rightarrow> Inl ''capability_malformed''
          | Some ok \<Rightarrow> if ok then Inr (g_public_key g) else Inl ''capability_signature_invalid'')))))"

definition verifyCapabilityReceiptIntegrity :: "date_parse_fun \<Rightarrow> (capability_receipt \<Rightarrow> bool option) \<Rightarrow> capability_receipt \<Rightarrow> error + string" where
  "verifyCapabilityReceiptIntegrity dparse verify e = (case capabilitySignature e of None \<Rightarrow> Inl ''malformed_capability_receipt''
     | Some g \<Rightarrow> verifyCapabilityReceipt dparse verify [g_public_key g] e)"

subsection \<open>What an accepted envelope guarantees\<close>

lemma chain_loop_Inr:
  assumes "chain_loop leaf ids parents prev es = Inr es'"
  shows "es' = es \<and> distinct (map delegation_id es) \<and> distinct (map parent_capability_id es)
    \<and> set (map delegation_id es) \<inter> set ids = {} \<and> set (map parent_capability_id es) \<inter> set parents = {}
    \<and> (\<forall>p. leaf = Some p \<longrightarrow> p \<notin> set (map parent_capability_id es))
    \<and> sorted_wrt (\<lambda>a b. num_val (d_amount b) \<le> num_val (d_amount a)) es
    \<and> (\<forall>a. prev = Some a \<longrightarrow> (\<forall>e \<in> set es. num_val (d_amount e) \<le> a))"
  using assms
proof (induction leaf ids parents prev es arbitrary: es' rule: chain_loop.induct)
  case (2 leaf ids parents prev e es)
  obtain r where c: "run_checks (entry_checks leaf ids parents prev e) = None"
    and r: "chain_loop leaf (delegation_id e # ids) (parent_capability_id e # parents) (Some (num_val (d_amount e))) es = Inr r" "es' = e # r"
    using "2.prems" by (auto split: option.splits sum.splits)
  have e: "delegation_id e \<notin> set ids" "parent_capability_id e \<notin> set parents" "leaf \<noteq> Some (parent_capability_id e)"
    "\<forall>a. prev = Some a \<longrightarrow> num_val (d_amount e) \<le> a" using c by (auto simp: entry_checks_def)
  note IH = "2.IH"[OF c r(1)]
  have "\<forall>a. prev = Some a \<longrightarrow> (\<forall>x \<in> set (e # es). num_val (d_amount x) \<le> a)" using IH e(4) by fastforce
  then show ?case using IH e(1-3) r(2) by auto
qed simp

lemma verified_shape:
  assumes "verifyCapabilityReceiptIntegrity dparse verify e = Inr key"
  shows "assertCapabilityShape dparse (e_capability e) = Inr ()"
  using assms by (auto simp: verifyCapabilityReceiptIntegrity_def verifyCapabilityReceipt_def split: option.splits if_splits sum.splits)

lemma shape_budget:
  assumes "assertCapabilityShape dparse c = Inr u"
  shows "0 \<le> num_val (c_amount c)" "num_val (c_amount c) \<le> max_safe" "c_amount c = Integral (num_val (c_amount c))"
proof -
  have "is_safe_integer (c_amount c)" "num_val (c_amount c) \<ge> 0"
    using assms by (auto simp: assertCapabilityShape_def validateAmount_def split: option.splits)
  then show "0 \<le> num_val (c_amount c)" "num_val (c_amount c) \<le> max_safe" "c_amount c = Integral (num_val (c_amount c))"
    by (cases "c_amount c"; simp add: safe_int_def)+
qed

end
