(* ===== verification/Capability_Store.thy ===== *)
theory Capability_Store
  imports Capability_Envelope
begin

section \<open>The capability store\<close>

text \<open>
  Model of the in-memory store of \<open>packages/gate/src/capability-receipt.ts\<close>
  (\<open>createMemoryCapabilityStore\<close>) with all its operations. Each method runs without giving up control
  once its asynchronous verifier has answered, so a method is one step on the state of the store; the
  verifier's answer is an argument. \<open>randomUUID()\<close> is an argument of the reservation, and so is the value
  of the clock, which may be any JavaScript number. A method that throws keeps the changes that it made
  before: the outcome and the new state are separate components of its result.
\<close>

subsection \<open>State\<close>

record cap_state =
  s_capability_id :: string
  s_fingerprint :: string
  budget_amount :: int
  s_currency :: string
  expires_at :: int
  s_revocation_mode :: revocation_mode
  s_parent :: "string option"
  allowance_profile_id :: "string option"
  allowance_digest :: "string option"
  consumed_amount :: int
  reserved_amount :: int
  revoked_at :: "int option"

datatype operation_status = Reserved | Provider_entered | Committed | Released

record operation =
  o_namespace :: string
  o_id :: string
  o_capability_id :: string
  o_action_digest :: string
  o_action_fence_digest :: string
  o_amount :: int
  o_currency :: string
  o_status :: operation_status
  o_reservation_token :: string
  o_reserved_at :: int
  o_entry_deadline_at :: int
  o_provider_entry_at :: "int option"
  o_allowance_revision :: "js_number option"
  o_allowance_status_epoch :: "js_number option"
  o_allowance_status_head_digest :: "string option"
  o_control_domain_id :: "string option"
  o_reserved_control_epoch :: "int option"
  o_outcome :: "string option"
  o_release_reason :: "string option"
  o_released_at :: "int option"
  o_committed_at :: "int option"
  o_release_evidence_profile :: "string option"
  o_release_evidence_digest :: "string option"
  o_reconciliation_outcome :: "string option"
  o_reconciliation_evidence_digest :: "string option"
  o_reconciled_at :: "int option"

datatype allowance_state = Active | Suspended | Revoked

record allowance_assertion =
  a_profile_id :: string
  a_digest :: string
  a_revision :: int
  a_status_epoch :: int
  a_status_head_digest :: string

record allowance_status = allowance_assertion +
  a_status :: allowance_state

datatype domain_status = Domain_active | Domain_frozen

record control_domain =
  cd_id :: string
  cd_status :: domain_status
  cd_epoch :: int
  cd_frozen_at :: "int option"
  cd_frozen_by_digest :: "string option"
  cd_updated_at :: int

datatype event_type = Freeze | Restore

record transition_result =
  tr_idempotent :: bool
  tr_status :: string
  tr_control_domain_id :: string
  tr_epoch :: int

record domain_event =
  ev_operation_id :: string
  ev_control_domain_id :: string
  ev_type :: event_type
  ev_epoch_at_event :: int
  ev_action_digest :: string
  ev_authority_instance_digest :: string
  ev_committed_at :: int
  ev_result :: transition_result

record cap_store =
  states :: "(string, cap_state) js_map"
  operations :: "(string, operation) js_map"
  allowanceStatuses :: "(string, allowance_status) js_map"
  controlDomains :: "(string, control_domain) js_map"
  controlDomainEvents :: "(string, domain_event) js_map"
  actionHolders :: "(string, string) js_map"

definition empty_store :: cap_store where
  "empty_store = \<lparr>states = [], operations = [], allowanceStatuses = [], controlDomains = [], controlDomainEvents = [], actionHolders = []\<rparr>"

definition operationKey :: "string \<Rightarrow> string \<Rightarrow> string" where
  "operationKey ns opid = json_text (JArr [JStr ns, JStr opid])"

definition actionKey :: "string \<Rightarrow> string \<Rightarrow> string" where
  "actionKey ns fence = json_text (JArr [JStr ns, JStr fence])"

text \<open>A refusal: its reason and, for a fenced reservation, the identifier of the holding operation.\<close>

type_synonym refusal = "string \<times> string option"

definition refuse :: "string \<Rightarrow> cap_store \<Rightarrow> (refusal, 'a) outcome \<times> cap_store" where
  "refuse reason s = (Refuse (reason, None), s)"

subsection \<open>Registration, lineage and revocation\<close>

definition capabilityStateFromEnvelope :: "date_parse_fun \<Rightarrow> (capability_receipt \<Rightarrow> string) \<Rightarrow> capability_receipt \<Rightarrow> error + cap_state" where
  "capabilityStateFromEnvelope dparse fingerprint e = (let c = e_capability e in
     (case normalizeRevocationMode (c_revocation_mode c) of Inl m \<Rightarrow> Inl m
      | Inr mode \<Rightarrow> Inr \<lparr>s_capability_id = c_id c, s_fingerprint = fingerprint e, budget_amount = num_val (c_amount c),
          s_currency = c_currency c, expires_at = (case dparse (c_expiry c) of None \<Rightarrow> 0 | Some t \<Rightarrow> t), s_revocation_mode = mode,
          s_parent = (if c_delegation_chain c = [] then None else Some (parent_capability_id (last (c_delegation_chain c)))),
          allowance_profile_id = (case c_scope c of Allowance_scope p d f \<Rightarrow> Some p | _ \<Rightarrow> None),
          allowance_digest = (case c_scope c of Allowance_scope p d f \<Rightarrow> Some d | _ \<Rightarrow> None),
          consumed_amount = 0, reserved_amount = 0, revoked_at = None\<rparr>))"

text \<open>
  The expiry of a verified envelope always parses. The walk from a capability to its root. The states of this store have a valid mode and no
  \<open>revocation_state_ready\<close> member, so these two tests of the walk never refuse here.
\<close>

function lineage_loop :: "(string, cap_state) js_map \<Rightarrow> string \<Rightarrow> string option \<Rightarrow> string list \<Rightarrow> nat \<Rightarrow> string option" where
  "lineage_loop sts capabilityId currentId seen depth = (case currentId of None \<Rightarrow> None
     | Some cur \<Rightarrow>
       if cur \<in> set seen \<or> depth > MAX_DELEGATES then Some ''capability_ancestor_status_unavailable''
       else (case map_get sts cur of None \<Rightarrow> Some ''capability_ancestor_status_unavailable''
         | Some st \<Rightarrow>
           if revoked_at st \<noteq> None \<and> cur = capabilityId then Some ''capability_revoked''
           else if revoked_at st \<noteq> None \<and> s_revocation_mode st = Cascade then Some ''capability_ancestor_revoked''
           else lineage_loop sts capabilityId (s_parent st) (cur # seen) (depth + 1)))"
  by auto
termination by (relation "measure (\<lambda>(sts, c, cur, seen, depth). Suc MAX_DELEGATES - depth)") auto

declare lineage_loop.simps [simp del]

definition capabilityLineageRefusal :: "(string, cap_state) js_map \<Rightarrow> string \<Rightarrow> string option" where
  "capabilityLineageRefusal sts capabilityId = lineage_loop sts capabilityId (Some capabilityId) [] 0"

definition same_registration :: "cap_state \<Rightarrow> cap_state \<Rightarrow> bool" where
  "same_registration a b \<longleftrightarrow> s_fingerprint a = s_fingerprint b \<and> budget_amount a = budget_amount b \<and> s_currency a = s_currency b
     \<and> expires_at a = expires_at b \<and> s_revocation_mode a = s_revocation_mode b \<and> s_parent a = s_parent b
     \<and> allowance_profile_id a = allowance_profile_id b \<and> allowance_digest a = allowance_digest b"

definition registerCapability :: "date_parse_fun \<Rightarrow> (capability_receipt \<Rightarrow> bool option) \<Rightarrow> (capability_receipt \<Rightarrow> string)
    \<Rightarrow> capability_receipt \<Rightarrow> cap_store \<Rightarrow> (refusal, bool) outcome \<times> cap_store" where
  "registerCapability dparse verify fingerprint e s =
     (case verifyCapabilityReceiptIntegrity dparse verify e of Inl m \<Rightarrow> (Ok False, s)
      | Inr key \<Rightarrow> (case capabilityStateFromEnvelope dparse fingerprint e of Inl m \<Rightarrow> (Throw m, s)
      | Inr st \<Rightarrow> (case map_get (states s) (s_capability_id st) of
          Some existing \<Rightarrow> (Ok (same_registration existing st), s)
        | None \<Rightarrow> if (case s_parent st of None \<Rightarrow> False | Some p \<Rightarrow> capabilityLineageRefusal (states s) p \<noteq> None) then (Ok False, s)
            else (Ok True, s\<lparr>states := map_set (s_capability_id st) st (states s)\<rparr>))))"

record revoke_result =
  rv_idempotent :: bool
  rv_mode :: revocation_mode
  rv_revoked_at :: int

definition revokeCapability :: "js_number \<Rightarrow> string \<Rightarrow> string \<Rightarrow> cap_store \<Rightarrow> (refusal, revoke_result) outcome \<times> cap_store" where
  "revokeCapability now capabilityId fp s =
     (if \<not> fst (validateCapabilityId capabilityId) then refuse ''capability_revocation_target_invalid'' s
      else (case map_get (states s) capabilityId of None \<Rightarrow> refuse ''capability_not_registered'' s
      | Some st \<Rightarrow> if s_fingerprint st \<noteq> fp then refuse ''capability_envelope_mismatch'' s
        else (case revoked_at st of
            Some t \<Rightarrow> (Ok \<lparr>rv_idempotent = True, rv_mode = s_revocation_mode st, rv_revoked_at = t\<rparr>, s)
          | None \<Rightarrow> (case nowMs now of Inl m \<Rightarrow> (Throw m, s)
            | Inr t \<Rightarrow> (Ok \<lparr>rv_idempotent = False, rv_mode = s_revocation_mode st, rv_revoked_at = t\<rparr>,
                s\<lparr>states := map_set capabilityId (st\<lparr>revoked_at := Some t\<rparr>) (states s)\<rparr>)))))"

subsection \<open>Control domains\<close>

definition registerControlDomain :: "js_number \<Rightarrow> string \<Rightarrow> cap_store \<Rightarrow> (refusal, bool \<times> domain_status \<times> int) outcome \<times> cap_store" where
  "registerControlDomain now controlDomainId s =
     (case run_checks [validateControlDomainId controlDomainId] of Some m \<Rightarrow> (Throw m, s)
      | None \<Rightarrow> (case map_get (controlDomains s) controlDomainId of
          Some d \<Rightarrow> (Ok (True, cd_status d, cd_epoch d), s)
        | None \<Rightarrow> (case nowMs now of Inl m \<Rightarrow> (Throw m, s)
          | Inr t \<Rightarrow> (Ok (False, Domain_active, 1), s\<lparr>controlDomains := map_set controlDomainId
              \<lparr>cd_id = controlDomainId, cd_status = Domain_active, cd_epoch = 1, cd_frozen_at = None, cd_frozen_by_digest = None, cd_updated_at = t\<rparr>
              (controlDomains s)\<rparr>))))"

text \<open>What the verifier answered; \<open>None\<close> when it is absent, threw or did not return an object.\<close>

record verifier_answer =
  va_authenticated :: bool
  va_authorized :: bool
  va_authority_instance_digest :: string
  va_action_digest :: string

record transition_options =
  to_control_domain_id :: string
  to_operation_id :: string
  to_action_digest :: string
  to_now :: js_number

text \<open>\<open>verifyControlTransitionRequest\<close>: the authorised flag and the instance digest of an authenticated answer.\<close>

definition verifyControlTransitionRequest :: "verifier_answer option \<Rightarrow> string \<Rightarrow> (bool \<times> string) option" where
  "verifyControlTransitionRequest answer actionDigest = (case answer of None \<Rightarrow> None
     | Some a \<Rightarrow> if \<not> va_authenticated a then None
         else if \<not> ACTION_DIGEST_RE (va_authority_instance_digest a) \<or> va_action_digest a \<noteq> actionDigest then None
         else Some (va_authorized a, va_authority_instance_digest a))"

definition record_event :: "event_type \<Rightarrow> transition_options \<Rightarrow> string \<Rightarrow> int \<Rightarrow> transition_result \<Rightarrow> cap_store \<Rightarrow> cap_store" where
  "record_event et q instance_digest t result s = s\<lparr>controlDomainEvents := map_set (to_operation_id q)
     \<lparr>ev_operation_id = to_operation_id q, ev_control_domain_id = to_control_domain_id q, ev_type = et, ev_epoch_at_event = tr_epoch result,
      ev_action_digest = to_action_digest q, ev_authority_instance_digest = instance_digest, ev_committed_at = t, ev_result = result\<rparr>
     (controlDomainEvents s)\<rparr>"

text \<open>The part after the domain has been found and the clock read.\<close>

definition apply_domain_transition :: "event_type \<Rightarrow> transition_options \<Rightarrow> string \<Rightarrow> control_domain \<Rightarrow> int \<Rightarrow> cap_store
    \<Rightarrow> (refusal, transition_result) outcome \<times> cap_store" where
  "apply_domain_transition et q instance_digest d t s =
     (if et = Freeze \<and> cd_status d = Domain_frozen then
        (let result = \<lparr>tr_idempotent = False, tr_status = ''already_frozen'', tr_control_domain_id = cd_id d, tr_epoch = cd_epoch d\<rparr>
         in (Ok result, record_event et q instance_digest t result s))
      else if et = Restore \<and> cd_status d \<noteq> Domain_frozen then refuse ''control_transition_refused'' s
      else (let d' = d\<lparr>cd_status := (if et = Freeze then Domain_frozen else Domain_active), cd_epoch := cd_epoch d + 1,
              cd_frozen_at := (if et = Freeze then Some t else None),
              cd_frozen_by_digest := (if et = Freeze then Some instance_digest else None), cd_updated_at := t\<rparr>;
            result = \<lparr>tr_idempotent = False, tr_status = (if et = Freeze then ''frozen'' else ''active''), tr_control_domain_id = cd_id d, tr_epoch = cd_epoch d'\<rparr>
         in (Ok result, record_event et q instance_digest t result (s\<lparr>controlDomains := map_set (to_control_domain_id q) d' (controlDomains s)\<rparr>))))"

definition transitionMemoryControlDomain :: "event_type \<Rightarrow> verifier_answer option \<Rightarrow> transition_options \<Rightarrow> cap_store
    \<Rightarrow> (refusal, transition_result) outcome \<times> cap_store" where
  "transitionMemoryControlDomain et answer q s =
     (if run_checks [validateControlDomainId (to_control_domain_id q), validateOperationId (to_operation_id q), validateActionDigest (to_action_digest q)] \<noteq> None
      then refuse ''control_transition_refused'' s
      else (case verifyControlTransitionRequest answer (to_action_digest q) of None \<Rightarrow> refuse ''control_transition_refused'' s
      | Some (authorized, instance_digest) \<Rightarrow> (case map_get (controlDomainEvents s) (to_operation_id q) of
          Some ev \<Rightarrow> if ev_type ev = et \<and> ev_control_domain_id ev = to_control_domain_id q \<and> ev_action_digest ev = to_action_digest q
              \<and> ev_authority_instance_digest ev = instance_digest
            then (Ok ((ev_result ev)\<lparr>tr_idempotent := True\<rparr>), s) else refuse ''control_transition_refused'' s
        | None \<Rightarrow> if \<not> authorized then refuse ''control_transition_refused'' s
          else (case map_get (controlDomains s) (to_control_domain_id q) of None \<Rightarrow> refuse ''control_transition_refused'' s
          | Some d \<Rightarrow> (case nowMs (to_now q) of Inl m \<Rightarrow> (Throw m, s) | Inr t \<Rightarrow> apply_domain_transition et q instance_digest d t s)))))"

subsection \<open>Allowance status\<close>

record raw_assertion =
  ra_profile_id :: string
  ra_digest :: string
  ra_revision :: js_number
  ra_status_epoch :: js_number
  ra_status_head_digest :: string

definition normalizeAllowanceStatusAssertion :: "raw_assertion \<Rightarrow> error + allowance_assertion" where
  "normalizeAllowanceStatusAssertion v =
     (case run_checks [validateOperationNamespace (ra_profile_id v),
        (ACTION_DIGEST_RE (ra_digest v) \<and> ACTION_DIGEST_RE (ra_status_head_digest v), ''allowance status digests must be SHA-256''),
        (is_safe_integer (ra_revision v) \<and> num_val (ra_revision v) \<ge> 1 \<and> is_safe_integer (ra_status_epoch v) \<and> num_val (ra_status_epoch v) \<ge> 1,
           ''allowance status revision and epoch must be positive safe integers'')] of
      Some e \<Rightarrow> Inl e
    | None \<Rightarrow> Inr \<lparr>a_profile_id = ra_profile_id v, a_digest = ra_digest v, a_revision = num_val (ra_revision v),
        a_status_epoch = num_val (ra_status_epoch v), a_status_head_digest = ra_status_head_digest v\<rparr>)"

record advance_options =
  ad_assertion :: raw_assertion
  ad_expected_epoch :: "js_number option"
  ad_expected_head :: "string option"
  ad_status :: string

record status_advance =
  av_assertion :: allowance_assertion
  av_expected_epoch :: "int option"
  av_expected_head :: "string option"
  av_status :: allowance_state

definition allowance_state_of :: "string \<Rightarrow> allowance_state option" where
  "allowance_state_of v = (if v = ''active'' then Some Active else if v = ''suspended'' then Some Suspended
     else if v = ''revoked'' then Some Revoked else None)"

definition normalizeAllowanceStatusAdvance :: "advance_options \<Rightarrow> error + status_advance" where
  "normalizeAllowanceStatusAdvance v = (case normalizeAllowanceStatusAssertion (ad_assertion v) of Inl e \<Rightarrow> Inl e
     | Inr assertion \<Rightarrow>
       if (ad_expected_epoch v = None) \<noteq> (ad_expected_head v = None)
          \<or> (case ad_expected_epoch v of None \<Rightarrow> False
             | Some n \<Rightarrow> \<not> is_safe_integer n \<or> num_val n < 1 \<or> (case ad_expected_head v of None \<Rightarrow> True | Some h \<Rightarrow> \<not> ACTION_DIGEST_RE h))
       then Inl ''allowance status expected head is invalid''
       else (case allowance_state_of (ad_status v) of None \<Rightarrow> Inl ''allowance status is invalid''
         | Some status \<Rightarrow> Inr \<lparr>av_assertion = assertion, av_expected_epoch = map_option num_val (ad_expected_epoch v),
             av_expected_head = ad_expected_head v, av_status = status\<rparr>))"

definition status_name :: "allowance_state \<Rightarrow> string" where
  "status_name v = (case v of Active \<Rightarrow> ''active'' | Suspended \<Rightarrow> ''suspended'' | Revoked \<Rightarrow> ''revoked'')"

definition allowanceStatusRefusal :: "allowance_status \<Rightarrow> allowance_assertion \<Rightarrow> string option" where
  "allowanceStatusRefusal current asserted =
     (if a_status current \<noteq> Active then Some (''allowance_'' @ status_name (a_status current))
      else if a_digest current \<noteq> a_digest asserted \<or> a_revision current > a_revision asserted then Some ''allowance_superseded''
      else if a_profile_id current \<noteq> a_profile_id asserted \<or> a_revision current \<noteq> a_revision asserted
        \<or> a_status_epoch current \<noteq> a_status_epoch asserted \<or> a_status_head_digest current \<noteq> a_status_head_digest asserted
      then Some ''allowance_not_current'' else None)"

definition with_status :: "status_advance \<Rightarrow> allowance_status" where
  "with_status n = allowance_assertion.extend (av_assertion n) (allowance_status.fields (av_status n))"

definition exactAllowanceStatus :: "allowance_status \<Rightarrow> status_advance \<Rightarrow> bool" where
  "exactAllowanceStatus current n \<longleftrightarrow> current = with_status n"

definition allowanceStatusAdvanceConflict :: "allowance_status \<Rightarrow> status_advance \<Rightarrow> bool" where
  "allowanceStatusAdvanceConflict current n \<longleftrightarrow> Some (a_status_epoch current) \<noteq> av_expected_epoch n
     \<or> Some (a_status_head_digest current) \<noteq> av_expected_head n
     \<or> a_status_epoch (av_assertion n) \<le> a_status_epoch current
     \<or> a_status_head_digest (av_assertion n) = a_status_head_digest current
     \<or> a_revision (av_assertion n) < a_revision current
     \<or> a_revision (av_assertion n) > a_revision current + 1
     \<or> (a_revision (av_assertion n) = a_revision current \<and> a_digest (av_assertion n) \<noteq> a_digest current)
     \<or> (a_revision (av_assertion n) > a_revision current \<and> a_digest (av_assertion n) = a_digest current)"

definition advanceAllowanceStatus :: "advance_options \<Rightarrow> cap_store \<Rightarrow> (refusal, bool) outcome \<times> cap_store" where
  "advanceAllowanceStatus q s =
     (case normalizeAllowanceStatusAdvance q of Inl m \<Rightarrow> (Throw m, s)
      | Inr n \<Rightarrow> (let current = map_get (allowanceStatuses s) (a_profile_id (av_assertion n)) in
        if (case current of None \<Rightarrow> False | Some c \<Rightarrow> exactAllowanceStatus c n) then (Ok True, s)
        else if (case current of None \<Rightarrow> av_expected_epoch n \<noteq> None \<or> av_expected_head n \<noteq> None | Some c \<Rightarrow> allowanceStatusAdvanceConflict c n)
        then refuse ''allowance_status_head_conflict'' s
        else (Ok False, s\<lparr>allowanceStatuses := map_set (a_profile_id (av_assertion n)) (with_status n) (allowanceStatuses s)\<rparr>)))"

subsection \<open>Reservation\<close>

record reserve_options =
  q_capability_id :: string
  q_fingerprint :: string
  q_namespace :: "string option"
  q_operation_id :: string
  q_action_digest :: string
  q_action_fence_digest :: "string option"
  q_amount :: js_number
  q_currency :: string
  q_control_domain_id :: "string option"
  q_allowance_status :: "raw_assertion option"
  q_now :: js_number

definition reserve_namespace :: "reserve_options \<Rightarrow> string" where
  "reserve_namespace q = (case q_namespace q of None \<Rightarrow> q_capability_id q | Some n \<Rightarrow> n)"

definition reserve_fence :: "reserve_options \<Rightarrow> string" where
  "reserve_fence q = (case q_action_fence_digest q of None \<Rightarrow> q_action_digest q | Some d \<Rightarrow> d)"

definition existingOperationReason :: "operation_status \<Rightarrow> string" where
  "existingOperationReason st = (if st = Reserved \<or> st = Provider_entered then ''operation_in_flight''
     else if st = Committed then ''operation_already_committed'' else ''operation_already_finalized'')"

definition ACTION_HOLDING_STATUSES :: "operation_status list" where
  "ACTION_HOLDING_STATUSES = [Reserved, Provider_entered, Committed]"

definition actionHeldReason :: "operation_status \<Rightarrow> string" where
  "actionHeldReason st = (if st = Committed then ''action_already_committed'' else ''action_in_flight'')"

text \<open>The control domain named by a request: a refusal, or the domain it is bound to.\<close>

definition reserve_domain :: "reserve_options \<Rightarrow> cap_store \<Rightarrow> string + control_domain option" where
  "reserve_domain q s = (case q_control_domain_id q of None \<Rightarrow> Inr None
     | Some d \<Rightarrow> (case map_get (controlDomains s) d of None \<Rightarrow> Inl ''capability_control_domain_not_found''
         | Some dm \<Rightarrow> if cd_status dm \<noteq> Domain_active then Inl ''capability_control_domain_frozen'' else Inr (Some dm)))"

definition reserve_allowance :: "reserve_options \<Rightarrow> cap_state \<Rightarrow> cap_store \<Rightarrow> string option" where
  "reserve_allowance q st s =
     (if allowance_profile_id st = Some (reserve_namespace q) then
        (case q_allowance_status q of None \<Rightarrow> Some ''allowance_status_assertion_required''
         | Some raw \<Rightarrow> (case normalizeAllowanceStatusAssertion raw of Inl m \<Rightarrow> Some ''allowance_status_assertion_required''
         | Inr asserted \<Rightarrow>
             if Some (a_profile_id asserted) \<noteq> allowance_profile_id st \<or> Some (a_digest asserted) \<noteq> allowance_digest st
             then Some ''allowance_status_binding_mismatch''
             else (case map_get (allowanceStatuses s) (a_profile_id asserted) of None \<Rightarrow> Some ''allowance_status_not_initialized''
               | Some current \<Rightarrow> allowanceStatusRefusal current asserted)))
      else if q_allowance_status q \<noteq> None then Some ''allowance_status_not_applicable'' else None)"

definition new_operation :: "reserve_options \<Rightarrow> string \<Rightarrow> int \<Rightarrow> int \<Rightarrow> control_domain option \<Rightarrow> operation" where
  "new_operation q token t deadline dm = \<lparr>o_namespace = reserve_namespace q, o_id = q_operation_id q, o_capability_id = q_capability_id q,
     o_action_digest = q_action_digest q, o_action_fence_digest = reserve_fence q, o_amount = num_val (q_amount q), o_currency = q_currency q,
     o_status = Reserved, o_reservation_token = token, o_reserved_at = t, o_entry_deadline_at = deadline, o_provider_entry_at = None,
     o_allowance_revision = map_option ra_revision (q_allowance_status q), o_allowance_status_epoch = map_option ra_status_epoch (q_allowance_status q),
     o_allowance_status_head_digest = map_option ra_status_head_digest (q_allowance_status q),
     o_control_domain_id = map_option cd_id dm, o_reserved_control_epoch = map_option cd_epoch dm,
     o_outcome = None, o_release_reason = None, o_released_at = None, o_committed_at = None, o_release_evidence_profile = None,
     o_release_evidence_digest = None, o_reconciliation_outcome = None, o_reconciliation_evidence_digest = None, o_reconciled_at = None\<rparr>"

definition action_holder :: "cap_store \<Rightarrow> string \<Rightarrow> string \<Rightarrow> operation option" where
  "action_holder s ns fence = (case map_get (actionHolders s) (actionKey ns fence) of None \<Rightarrow> None | Some k \<Rightarrow> map_get (operations s) k)"

record reserve_ok =
  ok_operation_id :: string
  ok_action_digest :: string
  ok_action_fence_digest :: string
  ok_reservation_token :: string
  ok_entry_deadline_at :: int
  ok_control_domain_id :: "string option"
  ok_reserved_control_epoch :: "int option"
  ok_remaining :: int

text \<open>The clock, the expiry, the currency and the budget, and the writes of an accepted reservation.\<close>

definition reserve_budget :: "int \<Rightarrow> string \<Rightarrow> reserve_options \<Rightarrow> control_domain option \<Rightarrow> cap_state \<Rightarrow> string \<Rightarrow> cap_store
    \<Rightarrow> (refusal, reserve_ok) outcome \<times> cap_store" where
  "reserve_budget entryTimeoutMs uuid q dm st key s =
     (case nowMs (q_now q) of Inl m \<Rightarrow> (Throw m, s)
      | Inr t \<Rightarrow> if t \<ge> expires_at st then refuse ''capability_expired'' s
        else if q_currency q \<noteq> s_currency st then refuse ''currency_mismatch'' s
        else if consumed_amount st + reserved_amount st + num_val (q_amount q) > budget_amount st then refuse ''budget_exceeded'' s
        else (let deadline = entryDeadline t (expires_at st) entryTimeoutMs; reserved' = reserved_amount st + num_val (q_amount q) in
          (Ok \<lparr>ok_operation_id = q_operation_id q, ok_action_digest = q_action_digest q, ok_action_fence_digest = reserve_fence q, ok_reservation_token = uuid, ok_entry_deadline_at = deadline,
               ok_control_domain_id = map_option cd_id dm, ok_reserved_control_epoch = map_option cd_epoch dm,
               ok_remaining = budget_amount st - consumed_amount st - reserved'\<rparr>,
           s\<lparr>operations := map_set key (new_operation q uuid t deadline dm) (operations s),
             states := map_set (q_capability_id q) (st\<lparr>reserved_amount := reserved'\<rparr>) (states s),
             actionHolders := map_set (actionKey (reserve_namespace q) (reserve_fence q)) key (actionHolders s)\<rparr>)))"

definition reserveSpend :: "int \<Rightarrow> string \<Rightarrow> reserve_options \<Rightarrow> cap_store \<Rightarrow> (refusal, reserve_ok) outcome \<times> cap_store" where
  "reserveSpend entryTimeoutMs uuid q s =
     (case run_checks ([validateOperationId (q_operation_id q), validateOperationNamespace (reserve_namespace q), validateActionDigest (q_action_digest q),
        validateActionDigest (reserve_fence q), validateSpendAmount (q_amount q), validateCurrency (q_currency q)]
        @ (case q_control_domain_id q of None \<Rightarrow> [] | Some d \<Rightarrow> [validateControlDomainId d])) of Some m \<Rightarrow> (Throw m, s)
    | None \<Rightarrow> (case reserve_domain q s of Inl r \<Rightarrow> refuse r s
    | Inr dm \<Rightarrow> (case map_get (states s) (q_capability_id q) of None \<Rightarrow> refuse ''capability_not_registered'' s
    | Some st \<Rightarrow> if s_fingerprint st \<noteq> q_fingerprint q then refuse ''capability_envelope_mismatch'' s
    else (case capabilityLineageRefusal (states s) (q_capability_id q) of Some r \<Rightarrow> refuse r s
    | None \<Rightarrow> (case reserve_allowance q st s of Some r \<Rightarrow> refuse r s
    | None \<Rightarrow> (let key = operationKey (reserve_namespace q) (q_operation_id q) in
      case map_get (operations s) key of
        Some existing \<Rightarrow> (Refuse (existingOperationReason (o_status existing), Some (o_id existing)), s)
      | None \<Rightarrow> (case action_holder s (reserve_namespace q) (reserve_fence q) of
          Some holder \<Rightarrow>
            if o_status holder \<in> set ACTION_HOLDING_STATUSES then (Refuse (actionHeldReason (o_status holder), Some (o_id holder)), s)
            else reserve_budget entryTimeoutMs uuid q dm st key s
        | None \<Rightarrow> reserve_budget entryTimeoutMs uuid q dm st key s)))))))"

subsection \<open>Entry, recovery and settlement\<close>

definition put_operation :: "string \<Rightarrow> operation \<Rightarrow> cap_store \<Rightarrow> cap_store" where
  "put_operation key op s = s\<lparr>operations := map_set key op (operations s)\<rparr>"

definition put_state :: "string \<Rightarrow> cap_state \<Rightarrow> cap_store \<Rightarrow> cap_store" where
  "put_state cid st s = s\<lparr>states := map_set cid st (states s)\<rparr>"

definition release_budget :: "operation \<Rightarrow> cap_state \<Rightarrow> cap_state" where
  "release_budget op st = st\<lparr>reserved_amount := reserved_amount st - o_amount op\<rparr>"

definition consume_budget :: "operation \<Rightarrow> cap_state \<Rightarrow> cap_state" where
  "consume_budget op st = st\<lparr>reserved_amount := reserved_amount st - o_amount op, consumed_amount := consumed_amount st + o_amount op\<rparr>"

definition remaining :: "cap_state \<Rightarrow> int" where
  "remaining st = budget_amount st - consumed_amount st - reserved_amount st"

definition release_not_entered :: "string \<Rightarrow> int option \<Rightarrow> operation \<Rightarrow> operation" where
  "release_not_entered reason t op = op\<lparr>o_status := Released, o_outcome := Some ''not_entered'', o_release_reason := Some reason, o_released_at := t\<rparr>"

definition reservedAllowanceStatusAssertion :: "cap_state \<Rightarrow> operation \<Rightarrow> allowance_assertion option" where
  "reservedAllowanceStatusAssertion st op = (case allowance_profile_id st of None \<Rightarrow> None
     | Some p \<Rightarrow> if o_namespace op \<noteq> p then None
       else (case (allowance_digest st, o_allowance_revision op, o_allowance_status_epoch op, o_allowance_status_head_digest op) of
           (Some d, Some r, Some e, Some h) \<Rightarrow>
             (case normalizeAllowanceStatusAssertion \<lparr>ra_profile_id = p, ra_digest = d, ra_revision = r, ra_status_epoch = e, ra_status_head_digest = h\<rparr> of
                Inl m \<Rightarrow> None | Inr a \<Rightarrow> Some a)
         | _ \<Rightarrow> None))"

definition entry_allowance :: "string \<Rightarrow> cap_state \<Rightarrow> operation \<Rightarrow> cap_store \<Rightarrow> string option" where
  "entry_allowance ns st op s =
     (if allowance_profile_id st \<noteq> Some ns then None
      else (case reservedAllowanceStatusAssertion st op of None \<Rightarrow> Some ''allowance_status_assertion_required''
        | Some asserted \<Rightarrow> (case map_get (allowanceStatuses s) ns of None \<Rightarrow> Some ''allowance_status_not_initialized''
          | Some current \<Rightarrow> allowanceStatusRefusal current asserted)))"

record entry_options =
  n_capability_id :: string
  n_namespace :: "string option"
  n_operation_id :: string
  n_reservation_token :: "string option"
  n_control_domain_id :: "string option"
  n_now :: js_number

definition entry_namespace :: "entry_options \<Rightarrow> string" where
  "entry_namespace q = (case n_namespace q of None \<Rightarrow> n_capability_id q | Some n \<Rightarrow> n)"

text \<open>
  The binding of an operation to its control domain: a refusal, a domain that was frozen or restored since
  the reservation, or a valid binding.
\<close>

datatype domain_binding = Bound | Refused string | Stale control_domain

definition entry_domain :: "entry_options \<Rightarrow> operation \<Rightarrow> cap_store \<Rightarrow> domain_binding" where
  "entry_domain q op s = (case o_control_domain_id op of
       None \<Rightarrow> if n_control_domain_id q \<noteq> None then Refused ''capability_control_domain_binding_mismatch'' else Bound
     | Some d \<Rightarrow> (case n_control_domain_id q of None \<Rightarrow> Refused ''capability_control_domain_required''
         | Some d' \<Rightarrow> if d' \<noteq> d then Refused ''capability_control_domain_binding_mismatch''
             else (case map_get (controlDomains s) d of None \<Rightarrow> Refused ''capability_control_domain_unavailable''
               | Some dm \<Rightarrow> if cd_status dm \<noteq> Domain_active \<or> Some (cd_epoch dm) \<noteq> o_reserved_control_epoch op then Stale dm else Bound)))"

record entry_ok =
  en_provider_entry_at :: int
  en_consumed :: int
  en_remaining :: int

text \<open>
  A stale binding releases the operation before it reads the clock: when the clock is invalid the
  method throws with the operation released and the budget still reserved.
\<close>

definition beginProviderEntry :: "entry_options \<Rightarrow> cap_store \<Rightarrow> (refusal, entry_ok) outcome \<times> cap_store" where
  "beginProviderEntry q s =
     (case run_checks [validateOperationId (n_operation_id q), validateOperationNamespace (entry_namespace q)] of Some m \<Rightarrow> (Throw m, s)
    | None \<Rightarrow> (case n_reservation_token q of None \<Rightarrow> refuse ''capability_reservation_token_invalid'' s
    | Some token \<Rightarrow> if length token < 16 then refuse ''capability_reservation_token_invalid'' s
    else (let key = operationKey (entry_namespace q) (n_operation_id q); cid = n_capability_id q in
      case (map_get (operations s) key, map_get (states s) cid) of
        (Some op, Some st) \<Rightarrow>
          if o_capability_id op \<noteq> cid then refuse ''capability_operation_owner_mismatch'' s
          else if o_status op \<noteq> Reserved then
            refuse (if o_status op = Provider_entered then ''capability_provider_entry_already_recorded'' else ''capability_operation_already_finalized'') s
          else if o_reservation_token op \<noteq> token then refuse ''capability_reservation_owner_mismatch'' s
          else (case entry_domain q op s of Refused r \<Rightarrow> refuse r s
            | Stale dm \<Rightarrow> (let frozen = (cd_status dm = Domain_frozen);
                reason = (if frozen then ''control_domain_frozen'' else ''control_domain_epoch_mismatch'') in
                (case nowMs (n_now q) of
                   Inl m \<Rightarrow> (Throw m, put_operation key (release_not_entered reason (o_released_at op) op) s)
                 | Inr t \<Rightarrow> refuse (''capability_'' @ reason)
                     (put_state cid (release_budget op st) (put_operation key (release_not_entered reason (Some t) op) s))))
            | Bound \<Rightarrow> (case entry_allowance (entry_namespace q) st op s of Some r \<Rightarrow> refuse r s
              | None \<Rightarrow> (case nowMs (n_now q) of Inl m \<Rightarrow> (Throw m, s)
                | Inr t \<Rightarrow> if t \<ge> o_entry_deadline_at op then refuse ''capability_reservation_expired'' s
                    else (let st' = consume_budget op st in
                      (Ok \<lparr>en_provider_entry_at = t, en_consumed = consumed_amount st', en_remaining = remaining st'\<rparr>,
                       put_state cid st' (put_operation key (op\<lparr>o_status := Provider_entered, o_provider_entry_at := Some t\<rparr>) s))))))
      | _ \<Rightarrow> refuse ''capability_operation_not_found'' s)))"

record recover_options =
  v_capability_id :: string
  v_namespace :: "string option"
  v_operation_id :: string
  v_action_digest :: string
  v_reservation_token :: "string option"
  v_disposition :: "string option"
  v_now :: js_number

definition recover_namespace :: "recover_options \<Rightarrow> string" where
  "recover_namespace q = (case v_namespace q of None \<Rightarrow> v_capability_id q | Some n \<Rightarrow> n)"

record recover_ok =
  rc_idempotent :: bool
  rc_outcome :: string
  rc_amount :: int
  rc_remaining :: "int option"

text \<open>The part with an explicit disposition, after the operation and its state have been found.\<close>

definition dispose_pre_entry :: "recover_options \<Rightarrow> string \<Rightarrow> string \<Rightarrow> operation \<Rightarrow> cap_state \<Rightarrow> cap_store
    \<Rightarrow> (refusal, recover_ok) outcome \<times> cap_store" where
  "dispose_pre_entry q disposition key op st s =
     (if disposition \<noteq> ''release'' \<and> disposition \<noteq> ''burn'' then refuse ''capability_provider_entry_disposition_invalid'' s
      else (case v_reservation_token q of None \<Rightarrow> refuse ''capability_reservation_token_invalid'' s
      | Some token \<Rightarrow> if length token < 16 then refuse ''capability_reservation_token_invalid'' s
        else if o_reservation_token op \<noteq> token then refuse ''capability_reservation_owner_mismatch'' s
        else if disposition = ''release'' \<and> o_status op = Released \<and> o_outcome op = Some ''not_entered''
            \<and> o_release_reason op = Some ''provider_entry_guard_release''
          then (Ok \<lparr>rc_idempotent = True, rc_outcome = ''not_entered'', rc_amount = o_amount op, rc_remaining = None\<rparr>, s)
        else if disposition = ''burn'' \<and> o_status op = Committed \<and> o_outcome op = Some ''refused''
          then (Ok \<lparr>rc_idempotent = True, rc_outcome = ''refused'', rc_amount = o_amount op, rc_remaining = None\<rparr>, s)
        else if o_status op \<noteq> Reserved then refuse ''capability_provider_entry_recorded'' s
        else (case nowMs (v_now q) of Inl m \<Rightarrow> (Throw m, s)
          | Inr t \<Rightarrow> if disposition = ''burn''
              then (Ok \<lparr>rc_idempotent = False, rc_outcome = ''refused'', rc_amount = o_amount op, rc_remaining = Some (remaining (consume_budget op st))\<rparr>,
                put_state (v_capability_id q) (consume_budget op st)
                  (put_operation key (op\<lparr>o_status := Committed, o_outcome := Some ''refused'', o_committed_at := Some t\<rparr>) s))
              else (Ok \<lparr>rc_idempotent = False, rc_outcome = ''not_entered'', rc_amount = o_amount op, rc_remaining = Some (remaining (release_budget op st))\<rparr>,
                put_state (v_capability_id q) (release_budget op st)
                  (put_operation key (release_not_entered ''provider_entry_guard_release'' (Some t) op) s)))))"

definition recoverPreEntrySpend :: "recover_options \<Rightarrow> cap_store \<Rightarrow> (refusal, recover_ok) outcome \<times> cap_store" where
  "recoverPreEntrySpend q s =
     (case run_checks [validateOperationId (v_operation_id q), validateOperationNamespace (recover_namespace q), validateActionDigest (v_action_digest q)] of
      Some m \<Rightarrow> (Throw m, s)
    | None \<Rightarrow> (let key = operationKey (recover_namespace q) (v_operation_id q); cid = v_capability_id q in
      case (map_get (operations s) key, map_get (states s) cid) of
        (Some op, Some st) \<Rightarrow>
          if o_capability_id op \<noteq> cid then refuse ''capability_operation_owner_mismatch'' s
          else if o_action_digest op \<noteq> v_action_digest q then refuse ''capability_reconciliation_action_mismatch'' s
          else (case v_disposition q of Some disposition \<Rightarrow> dispose_pre_entry q disposition key op st s
            | None \<Rightarrow>
              if o_status op = Released \<and> o_outcome op = Some ''not_entered'' \<and> o_release_reason op = Some ''pre_entry_deadline_elapsed''
              then (Ok \<lparr>rc_idempotent = True, rc_outcome = ''not_entered'', rc_amount = o_amount op, rc_remaining = Some (remaining st)\<rparr>, s)
              else if o_status op \<noteq> Reserved then refuse ''capability_provider_entry_recorded'' s
              else (case nowMs (v_now q) of Inl m \<Rightarrow> (Throw m, s)
                | Inr t \<Rightarrow> if \<not> safe_int (o_entry_deadline_at op) then refuse ''capability_recovery_deadline_unavailable'' s
                    else if t < o_entry_deadline_at op then refuse ''capability_recovery_deadline_active'' s
                    else (Ok \<lparr>rc_idempotent = False, rc_outcome = ''not_entered'', rc_amount = o_amount op, rc_remaining = Some (remaining (release_budget op st))\<rparr>,
                      put_state cid (release_budget op st) (put_operation key (release_not_entered ''pre_entry_deadline_elapsed'' (Some t) op) s))))
      | _ \<Rightarrow> refuse ''capability_operation_not_found'' s))"

record commit_options =
  m_capability_id :: string
  m_namespace :: "string option"
  m_operation_id :: string
  m_reservation_token :: "string option"
  m_outcome :: string
  m_now :: js_number

definition commit_namespace :: "commit_options \<Rightarrow> string" where
  "commit_namespace q = (case m_namespace q of None \<Rightarrow> m_capability_id q | Some n \<Rightarrow> n)"

record commit_ok =
  co_outcome :: string
  co_consumed :: int
  co_remaining :: int

definition commitSpend :: "commit_options \<Rightarrow> cap_store \<Rightarrow> (refusal, commit_ok) outcome \<times> cap_store" where
  "commitSpend q s =
     (case run_checks [validateOperationId (m_operation_id q), validateOperationNamespace (commit_namespace q)] of Some m \<Rightarrow> (Throw m, s)
    | None \<Rightarrow> (let key = operationKey (commit_namespace q) (m_operation_id q); cid = m_capability_id q; delegated = (m_outcome q = ''delegated'') in
      case (map_get (operations s) key, map_get (states s) cid) of
        (Some op, Some st) \<Rightarrow>
          if o_capability_id op \<noteq> cid then refuse ''capability_operation_owner_mismatch'' s
          else if m_outcome q \<notin> set [''executed'', ''indeterminate'', ''delegated''] then refuse ''capability_outcome_invalid'' s
          else if o_status op \<noteq> (if delegated then Reserved else Provider_entered) then
            refuse (if o_status op = Reserved then ''capability_provider_entry_not_recorded'' else ''capability_operation_already_finalized'') s
          else if Some (o_reservation_token op) \<noteq> m_reservation_token q then refuse ''capability_reservation_owner_mismatch'' s
          else (case nowMs (m_now q) of Inl m \<Rightarrow> (Throw m, s)
            | Inr t \<Rightarrow> if delegated \<and> t \<ge> o_entry_deadline_at op then refuse ''capability_reservation_expired'' s
                else (let st' = (if delegated then consume_budget op st else st) in
                  (Ok \<lparr>co_outcome = m_outcome q, co_consumed = consumed_amount st', co_remaining = remaining st'\<rparr>,
                   put_state cid st' (put_operation key (op\<lparr>o_status := Committed, o_outcome := Some (m_outcome q), o_committed_at := Some t\<rparr>) s))))
      | _ \<Rightarrow> refuse ''capability_operation_not_found'' s))"

record reconcile_options =
  x_capability_id :: string
  x_namespace :: "string option"
  x_operation_id :: string
  x_action_digest :: string
  x_evidence_digest :: string
  x_evidence_profile :: string
  x_evidence_final :: bool
  x_evidence_observed_at :: string
  x_outcome :: string
  x_now :: js_number

definition reconcile_namespace :: "reconcile_options \<Rightarrow> string" where
  "reconcile_namespace q = (case x_namespace q of None \<Rightarrow> x_capability_id q | Some n \<Rightarrow> n)"

definition mark_indeterminate :: "int \<Rightarrow> operation \<Rightarrow> operation" where
  "mark_indeterminate t op = op\<lparr>o_status := Committed, o_outcome := Some ''indeterminate'', o_committed_at := Some t\<rparr>"

definition mark_reconciled :: "reconcile_options \<Rightarrow> int \<Rightarrow> operation \<Rightarrow> operation" where
  "mark_reconciled q t op = op\<lparr>o_reconciliation_outcome := Some (x_outcome q), o_reconciliation_evidence_digest := Some (x_evidence_digest q),
     o_reconciled_at := Some t\<rparr>"

text \<open>A reconciliation that was recorded before: repeated with the same evidence it succeeds again.\<close>

definition reconciled_before :: "reconcile_options \<Rightarrow> operation \<Rightarrow> cap_store \<Rightarrow> (refusal, bool) outcome \<times> cap_store" where
  "reconciled_before q op s = (if o_reconciliation_outcome op = Some (x_outcome q) \<and> o_reconciliation_evidence_digest op = Some (x_evidence_digest q)
     then (Ok True, s) else refuse ''capability_reconciliation_conflict'' s)"

definition reconcile_not_entered :: "date_parse_fun \<Rightarrow> reconcile_options \<Rightarrow> string \<Rightarrow> operation \<Rightarrow> int \<Rightarrow> cap_store \<Rightarrow> (refusal, bool) outcome \<times> cap_store" where
  "reconcile_not_entered dparse q key op t s =
     (case (run_checks [validateEvidenceProfile (x_evidence_profile q), (x_evidence_final q, ''negative evidence must be final'')],
        evidenceObservedAtMs dparse (x_evidence_observed_at q)) of
      (None, Inr observedAt) \<Rightarrow>
        if observedAt > t then refuse ''capability_reconciliation_evidence_invalid'' s
        else (case map_get (states s) (o_capability_id op) of None \<Rightarrow> refuse ''capability_not_registered'' s
        | Some st \<Rightarrow>
          if o_status op = Released then
            (if o_outcome op = Some ''not_entered'' \<and> o_release_evidence_digest op = Some (x_evidence_digest q)
                \<and> o_release_evidence_profile op = Some (x_evidence_profile q)
             then (Ok True, s) else refuse ''capability_reconciliation_conflict'' s)
          else if \<not> safe_int (o_entry_deadline_at op) then refuse ''capability_recovery_deadline_unavailable'' s
          else if t < o_entry_deadline_at op then refuse ''capability_recovery_deadline_active'' s
          else if observedAt < o_entry_deadline_at op then refuse ''capability_reconciliation_evidence_stale'' s
          else if o_status op = Reserved then
            (Ok False, put_state (o_capability_id op) (release_budget op st) (put_operation key
              ((release_not_entered ''authenticated_final_provider_non_entry'' (Some t) op)
                \<lparr>o_release_evidence_profile := Some (x_evidence_profile q), o_release_evidence_digest := Some (x_evidence_digest q)\<rparr>) s))
          else if o_reconciliation_outcome op \<noteq> None then reconciled_before q op s
          else if o_status op = Provider_entered then (Ok False, put_operation key (mark_reconciled q t (mark_indeterminate t op)) s)
          else if o_outcome op \<noteq> Some ''indeterminate'' then refuse ''capability_operation_not_indeterminate'' s
          else (Ok False, put_operation key (mark_reconciled q t op) s))
    | _ \<Rightarrow> refuse ''capability_reconciliation_evidence_invalid'' s)"

definition reconcile_executed :: "reconcile_options \<Rightarrow> string \<Rightarrow> operation \<Rightarrow> int \<Rightarrow> cap_store \<Rightarrow> (refusal, bool) outcome \<times> cap_store" where
  "reconcile_executed q key op t s =
     (if o_reconciliation_outcome op \<noteq> None then reconciled_before q op s
      else if o_status op = Reserved then
        (case map_get (states s) (o_capability_id op) of None \<Rightarrow> refuse ''capability_not_registered'' s
         | Some st \<Rightarrow> (Ok False, put_state (o_capability_id op) (consume_budget op st) (put_operation key (mark_reconciled q t (mark_indeterminate t op)) s)))
      else if o_status op = Provider_entered then (Ok False, put_operation key (mark_reconciled q t (mark_indeterminate t op)) s)
      else if o_status op \<noteq> Committed \<or> o_outcome op \<noteq> Some ''indeterminate'' then refuse ''capability_operation_not_indeterminate'' s
      else (Ok False, put_operation key (mark_reconciled q t op) s))"

definition reconcileSpend :: "date_parse_fun \<Rightarrow> reconcile_options \<Rightarrow> cap_store \<Rightarrow> (refusal, bool) outcome \<times> cap_store" where
  "reconcileSpend dparse q s =
     (case run_checks [validateOperationId (x_operation_id q), validateOperationNamespace (reconcile_namespace q)] of Some m \<Rightarrow> (Throw m, s)
    | None \<Rightarrow> (let key = operationKey (reconcile_namespace q) (x_operation_id q) in
      case map_get (operations s) key of None \<Rightarrow> refuse ''capability_operation_not_found'' s
      | Some op \<Rightarrow>
        if o_capability_id op \<noteq> x_capability_id q then refuse ''capability_operation_owner_mismatch'' s
        else if o_action_digest op \<noteq> x_action_digest q then refuse ''capability_reconciliation_action_mismatch'' s
        else if x_outcome q \<notin> set [''executed'', ''not_entered''] \<or> \<not> ACTION_DIGEST_RE (x_evidence_digest q)
          then refuse ''capability_reconciliation_evidence_invalid'' s
        else (case nowMs (x_now q) of Inl m \<Rightarrow> (Throw m, s)
          | Inr t \<Rightarrow> if x_outcome q = ''not_entered'' then reconcile_not_entered dparse q key op t s else reconcile_executed q key op t s)))"

subsection \<open>Readers\<close>

definition getState :: "string \<Rightarrow> cap_store \<Rightarrow> cap_state option" where
  "getState cid s = map_get (states s) cid"

definition getAllowanceStatus :: "string \<Rightarrow> cap_store \<Rightarrow> allowance_status option" where
  "getAllowanceStatus pid s = map_get (allowanceStatuses s) pid"

definition getControlDomain :: "string \<Rightarrow> cap_store \<Rightarrow> control_domain option" where
  "getControlDomain d s = map_get (controlDomains s) d"

definition getControlDomainEvent :: "string \<Rightarrow> cap_store \<Rightarrow> domain_event option" where
  "getControlDomainEvent opid s = map_get (controlDomainEvents s) opid"

text \<open>Without a capability the operation is found by its identifier alone, if only one carries it.\<close>

definition getOperation :: "string \<Rightarrow> string option \<Rightarrow> string option \<Rightarrow> cap_store \<Rightarrow> operation option" where
  "getOperation opid cid ns s = (case cid of
       Some c \<Rightarrow> map_get (operations s) (operationKey (case ns of None \<Rightarrow> c | Some n \<Rightarrow> n) opid)
     | None \<Rightarrow> (case filter (\<lambda>op. o_id op = opid) (map_values (operations s)) of [op] \<Rightarrow> Some op | _ \<Rightarrow> None))"

end
