(* ===== verification/Provider_Entry.thy ===== *)
theory Provider_Entry
  imports Strict_Json Capability_Envelope
begin

section \<open>The provider-entry guard\<close>

text \<open>
  Model of the closed contract of \<open>packages/gate/src/provider-entry.ts\<close> under which a relying party's guard is
  evaluated right before the external provider is entered, of the composition of guards and of the guard on
  the status of an organization. What a guard or a status resolver answers is an argument.
\<close>

text \<open>UTF-8, the bytes that \<open>Buffer.from\<close> makes of a string; a lone surrogate becomes U+FFFD.\<close>

definition byte_char :: "nat \<Rightarrow> char" where
  "byte_char n = char_of n"

fun utf8 :: "js_string \<Rightarrow> string" where
  "utf8 [] = []"
| "utf8 (u # us) = (let n = unat u in
     if n < 0x80 then byte_char n # utf8 us
     else if n < 0x800 then byte_char (0xC0 + n div 64) # byte_char (0x80 + n mod 64) # utf8 us
     else (case us of v # vs \<Rightarrow>
         if is_high u \<and> is_low v then
           (let p = 0x10000 + (n - 0xD800) * 1024 + (unat v - 0xDC00) in
            byte_char (0xF0 + p div 262144) # byte_char (0x80 + p div 4096 mod 64) # byte_char (0x80 + p div 64 mod 64)
              # byte_char (0x80 + p mod 64) # utf8 vs)
         else if is_high u \<or> is_low u then byte_char 0xEF # byte_char 0xBF # byte_char 0xBD # utf8 us
         else byte_char (0xE0 + n div 4096) # byte_char (0x80 + n div 64 mod 64) # byte_char (0x80 + n mod 64) # utf8 us
       | [] \<Rightarrow> if is_high u \<or> is_low u then [byte_char 0xEF, byte_char 0xBF, byte_char 0xBD]
         else [byte_char (0xE0 + n div 4096), byte_char (0x80 + n div 64 mod 64), byte_char (0x80 + n mod 64)]))"

declare utf8.simps(2) [simp del]

text \<open>
  What a call of the guard comes to. Of the returned object: \<open>ok\<close> and \<open>reason\<close> if they have the expected
  type, \<open>status\<close> if it is a number, and \<open>reservation\<close> if it is given, a value that is not a string being
  any text that is not one of the three.
\<close>

record guard_object =
  go_ok :: "bool option"
  go_reason :: "string option"
  go_status :: "js_number option"
  go_evidence :: "js_value option"
  go_reservation :: "string option"

datatype guard_answer = Guard_threw | Guard_no_object | Guard_object guard_object

datatype entry_guard = No_guard | Not_a_function | Guard "string option"

record entry_verdict =
  ev_ok :: bool
  ev_reason :: "string option"
  ev_status :: "int option"
  ev_evidence :: "js_value option"
  ev_reservation :: "string option"

text \<open>A domain that the guard requires is a non-empty text.\<close>

definition requiredProviderEntryControlDomain :: "entry_guard \<Rightarrow> string option" where
  "requiredProviderEntryControlDomain g = (case g of Guard (Some d) \<Rightarrow> if d \<noteq> [] then Some d else None | _ \<Rightarrow> None)"

text \<open>
  What \<open>JSON.parse\<close> makes of the canonical text of a value: the same members in the order of their names, in
  fresh objects. An object is identified by its depth, so that it differs from all that contain it.
\<close>

fun snapshot :: "nat \<Rightarrow> js_value \<Rightarrow> js_value" where
  "snapshot d (VArr i xs) = VArr d (map (snapshot (d + 1)) xs)"
| "snapshot d (VObj i ms) = VObj d (sort_key fst (map (\<lambda>(k, v). (k, snapshot (d + 1) v)) ms))"
| "snapshot d v = v"

text \<open>\<open>Inl ()\<close> is a throw; absent evidence is \<open>None\<close>.\<close>

definition canonicalEvidence :: "js_value option \<Rightarrow> unit + js_value option" where
  "canonicalEvidence e = (case e of None \<Rightarrow> Inr None | Some VNull \<Rightarrow> Inr None
     | Some (VObj i ms) \<Rightarrow> (case canonicalizeFiniteJson (VObj i ms)
           \<lparr>g_maxDepth = Some (Integral 32), g_maxNodes = Some (Integral 10000), g_maxStringBytes = Some (Integral (256 * 1024))\<rparr> of
         Inl x \<Rightarrow> Inl () | Inr t \<Rightarrow> Inr (Some (snapshot 0 (VObj i ms))))
     | _ \<Rightarrow> Inl ())"

definition boundedReason :: "string option \<Rightarrow> string \<Rightarrow> string" where
  "boundedReason v fallback = (case v of None \<Rightarrow> fallback | Some r \<Rightarrow> if 0 < length r \<and> length r \<le> 128 then r else fallback)"

definition no_verdict :: "string \<Rightarrow> string option \<Rightarrow> entry_verdict" where
  "no_verdict why reservation = \<lparr>ev_ok = False, ev_reason = Some why, ev_status = Some 503, ev_evidence = None, ev_reservation = reservation\<rparr>"

definition dispositions :: "string list" where
  "dispositions = [''release'', ''burn'', ''hold'']"

definition refusal_status :: "js_number option \<Rightarrow> int" where
  "refusal_status n = (case n of Some (Integral i) \<Rightarrow> if 400 \<le> i \<and> i \<le> 599 then i else 409 | _ \<Rightarrow> 409)"

definition evaluateProviderEntryGuard :: "entry_guard \<Rightarrow> guard_answer \<Rightarrow> entry_verdict" where
  "evaluateProviderEntryGuard g answer = (case g of
     No_guard \<Rightarrow> \<lparr>ev_ok = True, ev_reason = None, ev_status = None, ev_evidence = None, ev_reservation = None\<rparr>
   | Not_a_function \<Rightarrow> no_verdict ''provider_entry_guard_invalid'' None
   | Guard d \<Rightarrow> (case answer of
       Guard_threw \<Rightarrow> no_verdict ''provider_entry_guard_unavailable'' (Some ''hold'')
     | Guard_no_object \<Rightarrow> no_verdict ''provider_entry_guard_malformed'' None
     | Guard_object r \<Rightarrow> (case go_ok r of None \<Rightarrow> no_verdict ''provider_entry_guard_malformed'' None
       | Some ok \<Rightarrow> (case canonicalEvidence (go_evidence r) of
           Inl x \<Rightarrow> no_verdict ''provider_entry_guard_evidence_invalid'' (Some ''hold'')
         | Inr evidence \<Rightarrow>
             if ok then \<lparr>ev_ok = True, ev_reason = None, ev_status = None, ev_evidence = evidence, ev_reservation = None\<rparr>
             else (let valid = (case go_reservation r of None \<Rightarrow> True | Some v \<Rightarrow> v \<in> set dispositions) in
               \<lparr>ev_ok = False,
                ev_reason = Some (if valid then boundedReason (go_reason r) ''provider_entry_refused''
                  else ''provider_entry_guard_disposition_invalid''),
                ev_status = Some (refusal_status (go_status r)), ev_evidence = evidence,
                ev_reservation = (if valid \<and> go_reservation r \<noteq> None then go_reservation r else Some ''hold'')\<rparr>)))))"

text \<open>
  The context carries the clock as a date, so the clock must be finite and within the range of dates;
  \<open>Inl\<close> is the error that is thrown otherwise. A number with a fraction is below \<open>2^52\<close> and thus within it.
\<close>

definition providerEntryContext :: "js_number \<Rightarrow> error + unit" where
  "providerEntryContext now = (case now of NonFinite \<Rightarrow> Inl ''provider-entry clock must be finite''
     | Integral i \<Rightarrow> if abs i \<le> 8640000000000000 then Inr () else Inl ''Invalid time value''
     | Fractional t \<Rightarrow> Inr ())"

subsection \<open>Composition\<close>

text \<open>The guards that are given, in order, each with what it answers when it is called.\<close>

definition is_guard :: "entry_guard \<Rightarrow> bool" where
  "is_guard g = (case g of Guard d \<Rightarrow> True | _ \<Rightarrow> False)"

definition composeProviderEntryGuards :: "entry_guard list \<Rightarrow> error + entry_guard" where
  "composeProviderEntryGuards guards =
     (if Not_a_function \<in> set guards then Inl ''provider-entry guards must be functions when configured''
      else (case remdups (List.map_filter requiredProviderEntryControlDomain (filter is_guard guards)) of
          [] \<Rightarrow> Inr (Guard None) | [d] \<Rightarrow> Inr (Guard (Some d))
        | _ \<Rightarrow> Inl ''provider-entry guards must share a single serialized control domain''))"

definition guards_evidence :: "js_value list \<Rightarrow> js_value" where
  "guards_evidence es = VObj 0 [(jstr ''guards'', VArr 1 (map (snapshot 2) es))]"

definition add_evidence :: "js_value list \<Rightarrow> entry_verdict \<Rightarrow> js_value list" where
  "add_evidence es r = es @ (case ev_evidence r of None \<Rightarrow> [] | Some e \<Rightarrow> [e])"

fun composed_loop :: "js_value list \<Rightarrow> (entry_guard \<times> guard_answer) list \<Rightarrow> guard_object" where
  "composed_loop es [] = \<lparr>go_ok = Some True, go_reason = None, go_status = None, go_evidence = Some (guards_evidence es), go_reservation = None\<rparr>"
| "composed_loop es ((g, answer) # rest) = (let r = evaluateProviderEntryGuard g answer; es' = add_evidence es r in
     if \<not> ev_ok r then \<lparr>go_ok = Some False, go_reason = ev_reason r, go_status = map_option Integral (ev_status r),
       go_evidence = (if es' = [] then None else Some (guards_evidence es')), go_reservation = ev_reservation r\<rparr>
     else composed_loop es' rest)"

definition composed_answer :: "(entry_guard \<times> guard_answer) list \<Rightarrow> guard_answer" where
  "composed_answer gs = Guard_object (composed_loop [] (filter (\<lambda>(g, a). is_guard g) gs))"

definition all_evidence :: "(entry_guard \<times> guard_answer) list \<Rightarrow> js_value list" where
  "all_evidence gs = List.map_filter (\<lambda>(g, a). ev_evidence (evaluateProviderEntryGuard g a)) (filter (\<lambda>(g, a). is_guard g) gs)"

lemma composed_loop_ok: "go_ok (composed_loop es gs) = Some (list_all (\<lambda>(g, a). ev_ok (evaluateProviderEntryGuard g a)) gs)"
  by (induction es gs rule: composed_loop.induct) (auto simp: Let_def)

lemma composed_loop_evidence:
  "list_all (\<lambda>(g, a). ev_ok (evaluateProviderEntryGuard g a)) gs \<Longrightarrow> go_evidence (composed_loop es gs)
   = Some (guards_evidence (es @ List.map_filter (\<lambda>(g, a). ev_evidence (evaluateProviderEntryGuard g a)) gs))"
  by (induction es gs rule: composed_loop.induct) (auto simp: Let_def add_evidence_def map_filter_simps split: option.split)

lemma evaluate_object:
  "ev_ok (evaluateProviderEntryGuard (Guard d) (Guard_object r)) \<longleftrightarrow> go_ok r = Some True \<and> canonicalEvidence (go_evidence r) \<noteq> Inl ()"
  by (auto simp: evaluateProviderEntryGuard_def no_verdict_def Let_def split: option.split sum.split)

lemma composed_admits:
  "ev_ok (evaluateProviderEntryGuard (Guard d) (composed_answer gs)) \<Longrightarrow>
   list_all (\<lambda>(g, a). ev_ok (evaluateProviderEntryGuard g a)) (filter (\<lambda>(g, a). is_guard g) gs)"
  by (simp add: composed_answer_def evaluate_object composed_loop_ok)

lemma composed_guard: "composeProviderEntryGuards guards = Inr g \<Longrightarrow> \<exists>d. g = Guard d"
  by (auto simp: composeProviderEntryGuards_def split: if_splits list.splits)

lemma composed_requires:
  assumes "composeProviderEntryGuards guards = Inr r" "g \<in> set guards" "requiredProviderEntryControlDomain g = Some d"
  shows "requiredProviderEntryControlDomain r = Some d"
proof -
  let ?ds = "remdups (List.map_filter requiredProviderEntryControlDomain (filter is_guard guards))"
  have "d \<noteq> []" "is_guard g" using assms(3) by (auto simp: requiredProviderEntryControlDomain_def is_guard_def split: entry_guard.splits option.splits if_splits)
  then have "d \<in> set ?ds" using assms(2,3) by (force simp: List.map_filter_def)
  then have "r = Guard (Some d)"
    using assms(1) unfolding composeProviderEntryGuards_def by (auto simp del: set_remdups split: if_splits list.splits)
  then show ?thesis using \<open>d \<noteq> []\<close> by (simp add: requiredProviderEntryControlDomain_def)
qed

text \<open>
  Property C34. A composition of guards admits the entry exactly when each of its guards does and the evidence of
  all of them together is within the bounds of the contract.
\<close>

theorem composed_guards_decide:
  "ev_ok (evaluateProviderEntryGuard (Guard d) (composed_answer gs)) \<longleftrightarrow>
     list_all (\<lambda>(g, a). ev_ok (evaluateProviderEntryGuard g a)) (filter (\<lambda>(g, a). is_guard g) gs)
     \<and> canonicalEvidence (Some (guards_evidence (all_evidence gs))) \<noteq> Inl ()"
  using composed_loop_evidence[of "filter (\<lambda>(g, a). is_guard g) gs" "[]"]
  by (auto simp: composed_answer_def evaluate_object composed_loop_ok all_evidence_def)

subsection \<open>The status of an organization\<close>

text \<open>\<open>os_authenticated\<close> says whether the member is \<open>true\<close>; the clock is whole milliseconds, or not finite (\<open>None\<close>).\<close>

record organization_status =
  os_authenticated :: bool
  os_organization_id :: js_string
  os_status :: js_value
  os_epoch :: js_number
  os_observed_at :: string
  os_source_digest :: "js_value option"

datatype status_answer = Resolver_threw | Resolver_none | Resolver_status organization_status

definition createOrganizationStatusProviderEntryGuard :: "js_string \<Rightarrow> js_number \<Rightarrow> string \<Rightarrow> error + entry_guard" where
  "createOrganizationStatusProviderEntryGuard organizationId maxAgeMs controlDomainId =
     (case run_checks [(0 < length organizationId \<and> length organizationId \<le> 512, ''organizationId must be a bounded non-empty string''),
        (is_safe_integer maxAgeMs \<and> 0 \<le> num_val maxAgeMs \<and> num_val maxAgeMs \<le> 60000, ''maxAgeMs must be a safe integer from 0 through 60000''),
        (0 < length controlDomainId \<and> length controlDomainId \<le> 512, ''controlDomainId must be a bounded non-empty string'')] of
      Some m \<Rightarrow> Inl m | None \<Rightarrow> Inr (Guard (Some controlDomainId)))"

definition PROVIDER_ENTRY_GUARD_VERSION :: string where
  "PROVIDER_ENTRY_GUARD_VERSION = ''EP-GATE-PROVIDER-ENTRY-GUARD-v1''"

definition status_refusal :: "string \<Rightarrow> int \<Rightarrow> guard_object" where
  "status_refusal why st = \<lparr>go_ok = Some False, go_reason = Some why, go_status = Some (Integral st), go_evidence = None, go_reservation = None\<rparr>"

definition inactive_reason :: "js_value \<Rightarrow> string" where
  "inactive_reason v = (if v = VStr (jstr ''suspended'') then ''organization_suspended''
     else if v = VStr (jstr ''revoked'') then ''organization_revoked'' else ''organization_archived'')"

definition organization_answer :: "date_parse_fun \<Rightarrow> js_string \<Rightarrow> int \<Rightarrow> int option \<Rightarrow> status_answer \<Rightarrow> guard_object" where
  "organization_answer dparse organizationId maxAgeMs now answer = (case answer of
     Resolver_threw \<Rightarrow> status_refusal ''organization_status_unavailable'' 503
   | Resolver_none \<Rightarrow> status_refusal ''organization_status_unauthenticated'' 503
   | Resolver_status s \<Rightarrow>
     if \<not> os_authenticated s then status_refusal ''organization_status_unauthenticated'' 503
     else if os_organization_id s \<noteq> organizationId then status_refusal ''organization_status_mismatch'' 409
     else if \<not> is_safe_integer (os_epoch s) \<or> num_val (os_epoch s) < 0 then status_refusal ''organization_status_epoch_invalid'' 503
     else (case (dparse (os_observed_at s), now) of
         (Some observed, Some t) \<Rightarrow>
           if observed > t + 1000 \<or> t - observed > maxAgeMs then status_refusal ''organization_status_stale'' 503
           else if os_status s \<noteq> VStr (jstr ''active'') then
             \<lparr>go_ok = Some False, go_reason = Some (inactive_reason (os_status s)), go_status = Some (Integral 423),
              go_evidence = Some (VObj 0 [(jstr ''organization_id'', VStr organizationId), (jstr ''status'', os_status s), (jstr ''epoch'', VNum (os_epoch s))]),
              go_reservation = Some ''burn''\<rparr>
           else \<lparr>go_ok = Some True, go_reason = None, go_status = None,
              go_evidence = Some (VObj 0 [(jstr ''version'', VStr (jstr PROVIDER_ENTRY_GUARD_VERSION)), (jstr ''kind'', VStr (jstr ''organization_status'')),
                (jstr ''organization_id'', VStr organizationId), (jstr ''status'', VStr (jstr ''active'')), (jstr ''epoch'', VNum (os_epoch s)),
                (jstr ''observed_at'', VStr (jstr (os_observed_at s))),
                (jstr ''source_digest'', case os_source_digest s of None \<Rightarrow> VNull | Some v \<Rightarrow> v)]),
              go_reservation = None\<rparr>
       | _ \<Rightarrow> status_refusal ''organization_status_stale'' 503))"

end
