(* ===== verification/Capability_Execution.thy ===== *)
theory Capability_Execution
  imports Capability_Store Provider_Entry
begin

section \<open>Execution under a capability\<close>

text \<open>
  Model of \<open>verifyCapabilityScope\<close>, \<open>capabilityBudgetGuarantee\<close>, \<open>verifyPerActionHumanAuthorization\<close>,
  \<open>executeWithCapability\<close> and \<open>executeWithThreshold\<close> of \<open>packages/gate/src/capability-receipt.ts\<close>. What a
  callback of the relying party answers is an argument. The executor gives up control at every call
  of the store and of a callback; it is split into phases there, each of which is one step, so that
  executions can be interleaved. Actions are JSON values.
\<close>

subsection \<open>Scope\<close>

definition capabilityActionDigest :: "hash16 \<Rightarrow> js_value \<Rightarrow> error + string" where
  "capabilityActionDigest sha action = (case canonicalize action of Inl e \<Rightarrow> Inl e | Inr t \<Rightarrow> Inr (''sha256:'' @ sha t))"

text \<open>The canonical text of the three members in the order of their names; a CAID has no character to escape.\<close>

definition CAPABILITY_ACTION_FENCE_PROFILE :: string where
  "CAPABILITY_ACTION_FENCE_PROFILE = ''EP-CAPABILITY-ACTION-FENCE-v1''"

definition capabilityCaidActionFenceDigest :: "hash16 \<Rightarrow> string \<Rightarrow> error + string" where
  "capabilityCaidActionFenceDigest sha caid = capabilityActionDigest sha (VObj 0
     [(jstr ''profile'', VStr (jstr CAPABILITY_ACTION_FENCE_PROFILE)), (jstr ''kind'', VStr (jstr ''caid'')),
      (jstr ''caid'', VStr (jstr caid))])"

definition own_member :: "js_value \<Rightarrow> js_string \<Rightarrow> js_value option" where
  "own_member v k = (case v of VObj i ms \<Rightarrow> map_of ms k | _ \<Rightarrow> None)"

fun value_at :: "js_value \<Rightarrow> string list \<Rightarrow> js_value option" where
  "value_at v [] = Some v"
| "value_at v (segment # rest) = (case own_member v (jstr segment) of None \<Rightarrow> None | Some w \<Rightarrow> value_at w rest)"

definition valueAtPath :: "js_value \<Rightarrow> string \<Rightarrow> js_value option" where
  "valueAtPath action path = value_at action (split_on CHR ''.'' path)"

text \<open>
  The answers of the two resolvers. A CAID resolver returns a text, an object with \<open>ok\<close> and (if it is a
  text) \<open>caid\<close>, or something else; a profile verifier returns \<open>true\<close>, or an object with \<open>ok\<close>, a reason and
  the own member \<open>action_fence_digest\<close>, which may be no text, or something else.
\<close>

datatype caid_answer = Caid_threw | Caid_text string | Caid_object bool "string option" | Caid_other

datatype profile_answer = Profile_threw | Profile_true | Profile_object bool "string option" "string option option" | Profile_other

record scope_result =
  sc_action_digest :: string
  sc_action_fence_digest :: string
  sc_caid :: "string option"
  sc_operation_namespace :: "string option"
  sc_operation_id_field :: string

definition scope_invalid :: string where
  "scope_invalid = ''capability_scope_invalid''"

definition allowance_fence :: "profile_answer option \<Rightarrow> string + string" where
  "allowance_fence answer = (case answer of None \<Rightarrow> Inl ''capability_action_profile_verifier_required''
   | Some Profile_threw \<Rightarrow> Inl scope_invalid
   | Some Profile_true \<Rightarrow> Inl ''capability_action_fence_digest_required''
   | Some Profile_other \<Rightarrow> Inl ''capability_action_profile_rejected''
   | Some (Profile_object ok why fence) \<Rightarrow>
       if \<not> ok then Inl (case why of None \<Rightarrow> ''capability_action_profile_rejected''
         | Some r \<Rightarrow> if r = [] then ''capability_action_profile_rejected'' else r)
       else (case fence of None \<Rightarrow> Inl ''capability_action_fence_digest_required''
         | Some None \<Rightarrow> Inl ''capability_action_fence_digest_invalid''
         | Some (Some d) \<Rightarrow> if ACTION_DIGEST_RE d then Inr d else Inl ''capability_action_fence_digest_invalid''))"

definition resolved_caid :: "caid_answer \<Rightarrow> string option" where
  "resolved_caid answer = (case answer of Caid_text c \<Rightarrow> Some c | Caid_object ok c \<Rightarrow> if ok then c else None | _ \<Rightarrow> None)"

definition caid_fence :: "hash16 \<Rightarrow> string list \<Rightarrow> caid_answer option \<Rightarrow> string + string \<times> string" where
  "caid_fence sha caids answer = (case answer of None \<Rightarrow> Inl ''capability_caid_resolver_required''
   | Some Caid_threw \<Rightarrow> Inl scope_invalid
   | Some a \<Rightarrow> (case resolved_caid a of None \<Rightarrow> Inl ''capability_caid_resolution_failed''
     | Some caid \<Rightarrow> if \<not> CAID_RE caid then Inl ''capability_caid_resolution_failed''
       else if caid \<notin> set caids then Inl ''capability_action_out_of_scope''
       else (case capabilityCaidActionFenceDigest sha caid of Inl e \<Rightarrow> Inl scope_invalid | Inr d \<Rightarrow> Inr (caid, d))))"

text \<open>The fence, the CAID, the namespace and the field of the operation identifier under a normalized scope.\<close>

definition scope_fence :: "hash16 \<Rightarrow> caid_answer option \<Rightarrow> profile_answer option \<Rightarrow> capability_scope \<Rightarrow> string
    \<Rightarrow> string + string \<times> string option \<times> string option \<times> string" where
  "scope_fence sha caidAnswer profileAnswer scope actionDigest = (case scope of
     Allowance_scope profile_id profile_digest field \<Rightarrow>
       (case allowance_fence profileAnswer of Inl r \<Rightarrow> Inl r | Inr d \<Rightarrow> Inr (d, None, Some profile_id, field))
   | Caid_scope caids field \<Rightarrow> (case caid_fence sha caids caidAnswer of Inl r \<Rightarrow> Inl r | Inr (caid, d) \<Rightarrow> Inr (d, Some caid, None, field))
   | Digest_scope digests field \<Rightarrow> if actionDigest \<notin> set digests then Inl ''capability_action_out_of_scope''
       else Inr (actionDigest, None, None, field)
   | Other_scope \<Rightarrow> Inl scope_invalid)"

definition verifyCapabilityScope :: "hash16 \<Rightarrow> caid_answer option \<Rightarrow> profile_answer option \<Rightarrow> capability_scope \<Rightarrow> js_value \<Rightarrow> string
    \<Rightarrow> string + scope_result" where
  "verifyCapabilityScope sha caidAnswer profileAnswer rawScope action operationId =
     (case normalizeCapabilityScope rawScope of Inl e \<Rightarrow> Inl scope_invalid
   | Inr scope \<Rightarrow> (case capabilityActionDigest sha action of Inl e \<Rightarrow> Inl scope_invalid
   | Inr actionDigest \<Rightarrow> (case scope_fence sha caidAnswer profileAnswer scope actionDigest of Inl r \<Rightarrow> Inl r
   | Inr (fence, caid, ns, field) \<Rightarrow>
       (case valueAtPath action field of Some (VStr s) \<Rightarrow>
          if utf8 s \<noteq> operationId then Inl ''capability_operation_binding_failed''
          else Inr \<lparr>sc_action_digest = actionDigest, sc_action_fence_digest = fence, sc_caid = caid,
            sc_operation_namespace = ns, sc_operation_id_field = field\<rparr>
        | _ \<Rightarrow> Inl ''capability_operation_binding_failed''))))"

subsection \<open>The budget guarantee\<close>

text \<open>
  The binding of an executor; a member that is no text, and a closed-object violation, make it
  malformed (\<open>xd_closed\<close>); \<open>null\<close> and absent members are \<open>None\<close>.
\<close>

record execution_domain =
  xd_closed :: bool
  xd_executor_id :: string
  xd_expected_digest :: "string option"
  xd_single_executor :: "string option"
  xd_require_aggregate :: bool

datatype guarantee_mode = Local_store_only | Aggregate_atomic_domain | Single_executor

record budget_guarantee =
  bg_mode :: guarantee_mode
  bg_executor_id :: "string option"
  bg_state_domain_digest :: "string option"

definition normalizeOptionalStateDomainDigest :: "string option \<Rightarrow> error + string option" where
  "normalizeOptionalStateDomainDigest v = (case v of None \<Rightarrow> Inr None
     | Some d \<Rightarrow> if ACTION_DIGEST_RE d then Inr (Some d) else Inl ''action_digest must be SHA-256'')"

text \<open>The memory store is \<open>atomicStateDomainCapable\<close>; its \<open>stateDomainDigest\<close> is an argument.\<close>

definition capabilityBudgetGuarantee :: "string \<Rightarrow> execution_domain option \<Rightarrow> string + budget_guarantee" where
  "capabilityBudgetGuarantee stateDomainDigest binding = (case binding of
     None \<Rightarrow> Inr \<lparr>bg_mode = Local_store_only, bg_executor_id = None, bg_state_domain_digest = None\<rparr>
   | Some x \<Rightarrow>
     if \<not> xd_closed x \<or> \<not> boundedIdentifier (xd_executor_id x)
        \<or> (case xd_single_executor x of None \<Rightarrow> False | Some i \<Rightarrow> \<not> boundedIdentifier i)
     then Inl ''capability_execution_domain_invalid''
     else (case normalizeOptionalStateDomainDigest (xd_expected_digest x) of Inl e \<Rightarrow> Inl ''capability_execution_domain_invalid''
     | Inr expected \<Rightarrow>
       (let matches = (xd_single_executor x = Some (xd_executor_id x)) in
        if expected = Some stateDomainDigest
        then Inr \<lparr>bg_mode = Aggregate_atomic_domain, bg_executor_id = Some (xd_executor_id x), bg_state_domain_digest = expected\<rparr>
        else if matches \<and> \<not> xd_require_aggregate x
        then Inr \<lparr>bg_mode = Single_executor, bg_executor_id = Some (xd_executor_id x), bg_state_domain_digest = None\<rparr>
        else if xd_single_executor x \<noteq> None \<and> \<not> matches then Inl ''capability_executor_mismatch''
        else if expected = None then Inl (if xd_require_aggregate x then ''capability_state_domain_required'' else ''capability_execution_domain_required'')
        else Inl ''capability_state_domain_mismatch'')))"

subsection \<open>Human authorization\<close>

datatype 'a presence = Absent | Null | Given 'a

text \<open>A verified result is a closed object of five texts; \<open>None\<close> stands for any other value.\<close>

record human_result =
  hu_native_verification :: string
  hu_acceptance :: string
  hu_evidence_type :: string
  hu_action_digest :: string
  hu_evidence_digest :: string

datatype human_answer = Human_threw | Human_answer "human_result option"

record human_request =
  hq_required :: bool
  hq_artifact :: "unit presence"
  hq_pins :: "bool presence"
  hq_verifier :: "human_answer option presence"

definition human_result_ok :: "human_result \<Rightarrow> bool" where
  "human_result_ok r \<longleftrightarrow> hu_native_verification r = ''VERIFIED'' \<and> hu_acceptance r = ''ACCEPTED''
     \<and> hu_evidence_type r = ''human_authorization'' \<and> ACTION_DIGEST_RE (hu_action_digest r) \<and> ACTION_DIGEST_RE (hu_evidence_digest r)"

text \<open>
  \<open>hq_pins\<close> says whether the pins are a non-empty object; \<open>hq_verifier\<close> is \<open>Given (Some answer)\<close> for a function
  and \<open>Given None\<close> for another value.
\<close>

definition verifyPerActionHumanAuthorization :: "human_request \<Rightarrow> string \<Rightarrow> string + human_result option" where
  "verifyPerActionHumanAuthorization q actionDigest =
     (if \<not> (hq_required q \<or> hq_artifact q \<noteq> Absent \<or> hq_pins q \<noteq> Absent \<or> hq_verifier q \<noteq> Absent) then Inr None
      else if hq_artifact q = Absent \<or> hq_artifact q = Null then Inl ''capability_human_authorization_required''
      else if hq_pins q \<noteq> Given True then Inl ''capability_human_authorization_pins_required''
      else (case hq_verifier q of Given (Some answer) \<Rightarrow> (case answer of
          Human_threw \<Rightarrow> Inl ''capability_human_authorization_unavailable''
        | Human_answer None \<Rightarrow> Inl ''capability_human_authorization_invalid''
        | Human_answer (Some r) \<Rightarrow>
            if \<not> human_result_ok r then Inl ''capability_human_authorization_invalid''
            else if hu_action_digest r \<noteq> actionDigest then Inl ''capability_human_authorization_action_mismatch''
            else Inr (Some r))
        | _ \<Rightarrow> Inl ''capability_human_authorization_verifier_required''))"

subsection \<open>Preparation of an execution\<close>

definition equalHash :: "string \<Rightarrow> string \<Rightarrow> bool" where
  "equalHash expected actual \<longleftrightarrow> ACTION_DIGEST_RE expected \<and> ACTION_DIGEST_RE actual \<and> expected = actual"

definition verifySecret :: "(bytes \<Rightarrow> string) \<Rightarrow> capability \<Rightarrow> secret_input \<Rightarrow> error + bool" where
  "verifySecret sha256Hex c secret = (case digestSecret sha256Hex secret of Inl e \<Rightarrow> Inl e
     | Inr d \<Rightarrow> Inr (equalHash (c_secret_hash c) (sd_hash d)))"

definition verified_amount :: "js_value \<Rightarrow> js_value option" where
  "verified_amount v = (case own_member v (jstr ''amount'') of
     Some (VNum n) \<Rightarrow> if is_safe_integer n then Some (VNum n) else own_member v (jstr ''amount_usd'')
   | _ \<Rightarrow> own_member v (jstr ''amount_usd''))"

definition capabilityAmount :: "js_value \<Rightarrow> capability \<Rightarrow> js_value \<Rightarrow> error + int \<times> string" where
  "capabilityAmount action c verifiedAction = (case own_member action (jstr ''amount'') of
     Some (VNum n) \<Rightarrow>
       if \<not> is_safe_integer n \<or> num_val n < 0 then Inl ''capability action.amount must be a non-negative safe integer''
       else (case own_member action (jstr ''currency'') of
         Some (VStr u) \<Rightarrow>
           (case run_checks [validateCurrency (utf8 u),
              (utf8 u = c_currency c, ''capability action currency does not match the budget''),
              (verified_amount verifiedAction = Some (VNum n) \<and> own_member verifiedAction (jstr ''currency'') = Some (VStr u),
                ''capability budget projection does not match the verified action''),
              (num_val n > 0, ''capability action amount must be greater than zero'')] of
            Some e \<Rightarrow> Inl e | None \<Rightarrow> Inr (num_val n, utf8 u))
       | _ \<Rightarrow> Inl ''capability currency must be a short non-empty string'')
   | _ \<Rightarrow> Inl ''capability action.amount must be a non-negative safe integer'')"

text \<open>
  How the base receipt is checked: by the gate (\<open>allow\<close>), by a verifier (\<open>true\<close> or \<open>ok: true\<close>), or not at
  all; \<open>None\<close> is a rejected promise.
\<close>

datatype base_check = Gate_check "bool option" | Base_verifier "bool option" | No_base_verifier

record exec_request =
  er_receipt :: capability_receipt
  er_secret :: secret_input
  er_action :: js_value
  er_observed_action :: "js_value option"
  er_trusted_keys :: "string list"
  er_threshold_verified :: bool
  er_caid :: "caid_answer option"
  er_profile :: "profile_answer option"
  er_execution_domain :: "execution_domain option"
  er_human :: human_request
  er_base :: base_check
  er_guard :: entry_guard
  er_allowance :: "raw_assertion option"
  er_control_domain :: "string option"
  er_operation_id :: "string option"

text \<open>
  How an execution ends: the promise is rejected, the execution is refused (with the operation that holds the
  action, if that is why), or the effect has run and is committed (with the remaining budget).
\<close>

datatype exec_result = Rejects string | Denied string "string option" | Executed int

text \<open>What an execution has settled before it reserves.\<close>

record exec_plan =
  pl_capability_id :: string
  pl_fingerprint :: string
  pl_namespace :: string
  pl_operation_id :: string
  pl_action_digest :: string
  pl_fence :: string
  pl_amount :: int
  pl_currency :: string
  pl_domain :: "string option"
  pl_allowance :: "raw_assertion option"
  pl_guard :: entry_guard

text \<open>The external checks of an execution: dates, signatures, digests and the fingerprint of an envelope.\<close>

record exec_env =
  x_dparse :: date_parse_fun
  x_verify :: "capability_receipt \<Rightarrow> bool option"
  x_sha256Hex :: "bytes \<Rightarrow> string"
  x_hash :: hash16
  x_fingerprint :: "capability_receipt \<Rightarrow> string"
  x_state_domain :: string
  x_entry_timeout :: int

definition effective_domain :: "exec_request \<Rightarrow> string + string option" where
  "effective_domain q = (case requiredProviderEntryControlDomain (er_guard q) of None \<Rightarrow> Inr (er_control_domain q)
     | Some d \<Rightarrow> (case er_control_domain q of None \<Rightarrow> Inr (Some d)
         | Some d' \<Rightarrow> if d' \<noteq> d then Inl ''capability_provider_entry_control_domain_mismatch'' else Inr (Some d)))"

definition base_verdict :: "base_check \<Rightarrow> exec_result option" where
  "base_verdict b = (case b of No_base_verifier \<Rightarrow> Some (Denied ''base_receipt_verifier_required'' None)
     | Gate_check None \<Rightarrow> Some (Rejects ''gate check failed'') | Base_verifier None \<Rightarrow> Some (Rejects ''base receipt verifier failed'')
     | Gate_check (Some ok) \<Rightarrow> if ok then None else Some (Denied ''base_receipt_rejected'' None)
     | Base_verifier (Some ok) \<Rightarrow> if ok then None else Some (Denied ''base_receipt_rejected'' None))"

text \<open>
  The checks on the envelope, the secret and the configuration. The store is the memory store, which is secure and
  has every capability that the executor asks for, and the external action is a function.
\<close>

definition admit_envelope :: "exec_env \<Rightarrow> exec_request \<Rightarrow> exec_result + string option" where
  "admit_envelope x q = (let c = e_capability (er_receipt q) in
     case verifyCapabilityReceipt (x_dparse x) (x_verify x) (er_trusted_keys q) (er_receipt q) of Inl r \<Rightarrow> Inl (Denied r None)
   | Inr key \<Rightarrow>
     if (th_m (c_threshold c) \<noteq> Integral 1 \<or> th_n (c_threshold c) \<noteq> Integral 1) \<and> \<not> er_threshold_verified q
     then Inl (Denied ''threshold_shares_required'' None)
     else (case verifySecret (x_sha256Hex x) c (er_secret q) of Inl m \<Rightarrow> Inl (Rejects m)
   | Inr same \<Rightarrow> if \<not> same then Inl (Denied ''invalid_secret'' None)
     else if er_guard q = Not_a_function then Inl (Rejects ''providerEntryGuard must be a function when configured'')
     else (case effective_domain q of Inl r \<Rightarrow> Inl (Denied r None) | Inr d \<Rightarrow> Inr d)))"

definition prepare :: "exec_env \<Rightarrow> exec_request \<Rightarrow> exec_result + exec_plan" where
  "prepare x q = (let c = e_capability (er_receipt q);
       immutableAction = (case er_observed_action q of None \<Rightarrow> er_action q | Some a \<Rightarrow> a) in
     case admit_envelope x q of Inl r \<Rightarrow> Inl r
   | Inr domain \<Rightarrow> (case er_operation_id q of None \<Rightarrow> Inl (Denied ''capability_operation_id_required'' None)
   | Some opid \<Rightarrow> if \<not> fst (validateOperationId opid) then Inl (Denied ''capability_operation_id_required'' None)
     else (case verifyCapabilityScope (x_hash x) (er_caid q) (er_profile q) (c_scope c) immutableAction opid of
       Inl r \<Rightarrow> Inl (Denied r None)
   | Inr scope \<Rightarrow> (case capabilityBudgetGuarantee (x_state_domain x) (er_execution_domain q) of Inl r \<Rightarrow> Inl (Denied r None)
   | Inr guarantee \<Rightarrow> (case verifyPerActionHumanAuthorization (er_human q) (sc_action_digest scope) of Inl r \<Rightarrow> Inl (Denied r None)
   | Inr human \<Rightarrow> (case base_verdict (er_base q) of Some r \<Rightarrow> Inl r
   | None \<Rightarrow> (case capabilityAmount (er_action q) c immutableAction of Inl m \<Rightarrow> Inl (Denied m None)
   | Inr (amount, currency) \<Rightarrow> Inr
       \<lparr>pl_capability_id = c_id c, pl_fingerprint = x_fingerprint x (er_receipt q),
        pl_namespace = (case sc_operation_namespace scope of None \<Rightarrow> c_id c | Some n \<Rightarrow> n), pl_operation_id = opid,
        pl_action_digest = sc_action_digest scope, pl_fence = sc_action_fence_digest scope, pl_amount = amount, pl_currency = currency,
        pl_domain = domain, pl_allowance = er_allowance q, pl_guard = er_guard q\<rparr>)))))))"

subsection \<open>The phases\<close>

datatype phase = At_reserve | At_guard string | At_enter string | At_effect string | At_commit string | At_commit_indeterminate string
  | At_end exec_result

text \<open>
  What one phase reads from outside: the clock (a second time when it recovers the reservation after the guard), a fresh
  token, the guard's answer and whether the effect returned.
\<close>

record answers =
  an_now :: js_number
  an_recovery_now :: js_number
  an_uuid :: string
  an_guard :: guard_answer
  an_effect_returned :: bool

definition reserve_request :: "exec_plan \<Rightarrow> js_number \<Rightarrow> reserve_options" where
  "reserve_request p now = \<lparr>q_capability_id = pl_capability_id p, q_fingerprint = pl_fingerprint p, q_namespace = Some (pl_namespace p),
     q_operation_id = pl_operation_id p, q_action_digest = pl_action_digest p, q_action_fence_digest = Some (pl_fence p),
     q_amount = Integral (pl_amount p), q_currency = pl_currency p, q_control_domain_id = pl_domain p,
     q_allowance_status = pl_allowance p, q_now = now\<rparr>"

definition entry_request :: "exec_plan \<Rightarrow> string \<Rightarrow> js_number \<Rightarrow> entry_options" where
  "entry_request p token now = \<lparr>n_capability_id = pl_capability_id p, n_namespace = Some (pl_namespace p), n_operation_id = pl_operation_id p,
     n_reservation_token = Some token, n_control_domain_id = pl_domain p, n_now = now\<rparr>"

definition recovery_request :: "exec_plan \<Rightarrow> string \<Rightarrow> string \<Rightarrow> js_number \<Rightarrow> recover_options" where
  "recovery_request p token disposition now = \<lparr>v_capability_id = pl_capability_id p, v_namespace = Some (pl_namespace p),
     v_operation_id = pl_operation_id p, v_action_digest = pl_action_digest p, v_reservation_token = Some token,
     v_disposition = Some disposition, v_now = now\<rparr>"

definition commit_request :: "exec_plan \<Rightarrow> string \<Rightarrow> string \<Rightarrow> js_number \<Rightarrow> commit_options" where
  "commit_request p token outcome now = \<lparr>m_capability_id = pl_capability_id p, m_namespace = Some (pl_namespace p),
     m_operation_id = pl_operation_id p, m_reservation_token = Some token, m_outcome = outcome, m_now = now\<rparr>"

definition reserve_phase :: "exec_env \<Rightarrow> exec_plan \<Rightarrow> answers \<Rightarrow> cap_store \<Rightarrow> phase \<times> cap_store" where
  "reserve_phase x p a s = (case reserveSpend (x_entry_timeout x) (an_uuid a) (reserve_request p (an_now a)) s of
     (Ok r, s') \<Rightarrow> (if pl_guard p = No_guard then At_enter (ok_reservation_token r) else At_guard (ok_reservation_token r), s')
   | (Refuse (why, holding), s') \<Rightarrow> (At_end (Denied why holding), s')
   | (Throw m, s') \<Rightarrow> (At_end (Rejects m), s'))"

text \<open>
  A refused entry keeps the reservation unless the guard says \<open>release\<close> or \<open>burn\<close>; a verdict without a disposition
  holds.
\<close>

definition guard_phase :: "exec_plan \<Rightarrow> string \<Rightarrow> answers \<Rightarrow> cap_store \<Rightarrow> phase \<times> cap_store" where
  "guard_phase p token a s = (case providerEntryContext (an_now a) of Inl m \<Rightarrow> (At_end (Rejects m), s)
   | Inr u \<Rightarrow> (let verdict = evaluateProviderEntryGuard (pl_guard p) (an_guard a);
       disposition = (case ev_reservation verdict of None \<Rightarrow> ''hold'' | Some d \<Rightarrow> d);
       denied = At_end (Denied (case ev_reason verdict of None \<Rightarrow> ''provider_entry_guard_refused'' | Some r \<Rightarrow> r) None) in
     if ev_ok verdict then (At_enter token, s)
     else if ev_reason verdict = Some ''provider_entry_guard_disposition_invalid'' \<or> disposition \<notin> set dispositions
     then (At_end (Denied ''capability_provider_entry_disposition_invalid'' None), s)
     else if disposition = ''hold'' then (denied, s)
     else (case recoverPreEntrySpend (recovery_request p token disposition (an_recovery_now a)) s of
         (Ok r, s') \<Rightarrow> (denied, s')
       | (_, s') \<Rightarrow> (At_end (Denied ''capability_provider_entry_reservation_transition_indeterminate'' None), s'))))"

definition enter_phase :: "exec_plan \<Rightarrow> string \<Rightarrow> answers \<Rightarrow> cap_store \<Rightarrow> phase \<times> cap_store" where
  "enter_phase p token a s = (case beginProviderEntry (entry_request p token (an_now a)) s of
     (Ok r, s') \<Rightarrow> (At_effect token, s')
   | (Refuse (why, holding), s') \<Rightarrow> (At_end (Denied why None), s')
   | (Throw m, s') \<Rightarrow> (At_end (Denied ''capability_provider_entry_indeterminate'' None), s'))"

text \<open>A commit that throws is caught together with the errors of the effect, and committed as indeterminate.\<close>

definition commit_phase :: "exec_plan \<Rightarrow> string \<Rightarrow> answers \<Rightarrow> cap_store \<Rightarrow> phase \<times> cap_store" where
  "commit_phase p token a s = (case commitSpend (commit_request p token ''executed'' (an_now a)) s of
     (Ok r, s') \<Rightarrow> (At_end (Executed (co_remaining r)), s')
   | (Refuse why, s') \<Rightarrow> (At_end (Denied ''capability_commit_indeterminate'' None), s')
   | (Throw m, s') \<Rightarrow> (At_commit_indeterminate token, s'))"

definition indeterminate_phase :: "exec_plan \<Rightarrow> string \<Rightarrow> answers \<Rightarrow> cap_store \<Rightarrow> phase \<times> cap_store" where
  "indeterminate_phase p token a s = (case commitSpend (commit_request p token ''indeterminate'' (an_now a)) s of
     (Ok r, s') \<Rightarrow> (At_end (Denied ''effect_indeterminate'' None), s')
   | (_, s') \<Rightarrow> (At_end (Denied ''capability_commit_indeterminate'' None), s'))"

definition exec_phase :: "exec_env \<Rightarrow> exec_plan \<Rightarrow> answers \<Rightarrow> phase \<Rightarrow> cap_store \<Rightarrow> phase \<times> cap_store" where
  "exec_phase x p a ph s = (case ph of
     At_reserve \<Rightarrow> reserve_phase x p a s
   | At_guard token \<Rightarrow> guard_phase p token a s
   | At_enter token \<Rightarrow> enter_phase p token a s
   | At_effect token \<Rightarrow> (if an_effect_returned a then At_commit token else At_commit_indeterminate token, s)
   | At_commit token \<Rightarrow> commit_phase p token a s
   | At_commit_indeterminate token \<Rightarrow> indeterminate_phase p token a s
   | At_end r \<Rightarrow> (At_end r, s))"

text \<open>The external action is entered in the phase \<open>At_effect\<close> and in no other.\<close>

definition runs_effect :: "phase \<Rightarrow> bool" where
  "runs_effect ph = (case ph of At_effect token \<Rightarrow> True | _ \<Rightarrow> False)"

fun phase_rank :: "phase \<Rightarrow> nat" where
  "phase_rank At_reserve = 6"
| "phase_rank (At_guard token) = 5"
| "phase_rank (At_enter token) = 4"
| "phase_rank (At_effect token) = 3"
| "phase_rank (At_commit token) = 2"
| "phase_rank (At_commit_indeterminate token) = 1"
| "phase_rank (At_end r) = 0"

definition ended :: "phase \<Rightarrow> exec_result option" where
  "ended ph = (case ph of At_end r \<Rightarrow> Some r | _ \<Rightarrow> None)"

lemma phase_rank_less: "ended ph = None \<Longrightarrow> exec_phase x p a ph s = (ph', s') \<Longrightarrow> phase_rank ph' < phase_rank ph"
  by (cases ph) (auto simp: ended_def exec_phase_def reserve_phase_def guard_phase_def enter_phase_def commit_phase_def
    indeterminate_phase_def Let_def split: prod.splits outcome.splits sum.splits if_splits)

text \<open>One execution alone: its phases in order, with the answers that each one reads, and the effects that ran.\<close>

function run_phases :: "exec_env \<Rightarrow> exec_plan \<Rightarrow> (nat \<Rightarrow> answers) \<Rightarrow> nat \<Rightarrow> phase \<Rightarrow> cap_store \<Rightarrow> exec_result \<times> nat \<times> cap_store" where
  "run_phases x p ans i ph s = (case ended ph of Some r \<Rightarrow> (r, 0, s)
   | None \<Rightarrow> (case exec_phase x p (ans i) ph s of (ph', s') \<Rightarrow> (case run_phases x p ans (i + 1) ph' s' of
       (r, effects, s'') \<Rightarrow> (r, (if runs_effect ph then 1 else 0) + effects, s''))))"
  by pat_completeness auto
termination
  by (relation "measure (\<lambda>(x, p, ans, i, ph, s). phase_rank ph)") (auto split: prod.split dest: phase_rank_less)

declare run_phases.simps [simp del]

definition executeWithCapability :: "exec_env \<Rightarrow> exec_request \<Rightarrow> (nat \<Rightarrow> answers) \<Rightarrow> cap_store \<Rightarrow> exec_result \<times> nat \<times> cap_store" where
  "executeWithCapability x q ans s = (case prepare x q of Inl r \<Rightarrow> (r, 0, s) | Inr p \<Rightarrow> run_phases x p ans 0 At_reserve s)"

text \<open>The shares are given, and whatever the reconstruction throws is \<open>invalid_shares\<close> or \<open>insufficient_shares\<close>.\<close>

definition executeWithThreshold :: "exec_env \<Rightarrow> (string \<Rightarrow> js_number) \<Rightarrow> string list \<Rightarrow> exec_request \<Rightarrow> (nat \<Rightarrow> answers) \<Rightarrow> cap_store
    \<Rightarrow> exec_result \<times> nat \<times> cap_store" where
  "executeWithThreshold x toNumber shares q ans s =
     (case verifyCapabilityReceipt (x_dparse x) (x_verify x) (er_trusted_keys q) (er_receipt q) of Inl r \<Rightarrow> (Denied r None, 0, s)
   | Inr key \<Rightarrow> (case reconstructCapabilitySecret toNumber shares (c_threshold (e_capability (er_receipt q))) of
       Inl m \<Rightarrow> (Denied (if m = ''insufficient capability shares'' then ''insufficient_shares'' else ''invalid_shares'') None, 0, s)
     | Inr secret \<Rightarrow> executeWithCapability x (q\<lparr>er_secret := Secret_buffer secret, er_threshold_verified := True\<rparr>) ans s))"

end
