(* ===== verification/Capability_Delegation.thy ===== *)
theory Capability_Delegation
  imports Capability_Execution Js_Time
begin

section \<open>Minting, delegation and reconciliation of capabilities\<close>

text \<open>
  Model of \<open>mintCapabilityReceipt\<close>, \<open>delegateCapabilityReceipt\<close> and \<open>reconcileCapabilityOperation\<close> of
  \<open>packages/gate/src/capability-receipt.ts\<close>. The key of the issuer is given by its public key and its
  signing function; SHA-256, random bytes and \<open>Date.parse\<close> are parameters. Minting a threshold
  capability samples field elements, which may run for ever; then there is no result (\<open>None\<close>).
\<close>

text \<open>The UTF-16 code units of a text that is given by its UTF-8 bytes.\<close>

definition cont :: "char \<Rightarrow> nat" where
  "cont c = of_char c mod 64"

fun utf16 :: "string \<Rightarrow> js_string" where
  "utf16 [] = []"
| "utf16 (a # s) = (let n = of_char a :: nat in
     if n < 0x80 then word_of_nat n # utf16 s
     else (case s of [] \<Rightarrow> [0xFFFD] | b # s1 \<Rightarrow>
       if n < 0xE0 then word_of_nat ((n mod 32) * 64 + cont b) # utf16 s1
       else (case s1 of [] \<Rightarrow> [0xFFFD] | c # s2 \<Rightarrow>
         if n < 0xF0 then word_of_nat ((n mod 16) * 4096 + cont b * 64 + cont c) # utf16 s2
         else (case s2 of [] \<Rightarrow> [0xFFFD] | d # s3 \<Rightarrow>
           (let p = (n mod 8) * 262144 + cont b * 4096 + cont c * 64 + cont d - 0x10000 in
            word_of_nat (0xD800 + p div 1024) # word_of_nat (0xDC00 + p mod 1024) # utf16 s3)))))"

declare utf16.simps(2) [simp del]

subsection \<open>Minting\<close>

text \<open>A key that Node refuses makes the export of its public part throw.\<close>

datatype issuer_key = No_key | Bad_key string | Issuer_key string "base_receipt \<Rightarrow> capability \<Rightarrow> string"

fun has_key :: "issuer_key \<Rightarrow> bool" where
  "has_key No_key = False"
| "has_key _ = True"

text \<open>A number that is no time value makes \<open>toISOString\<close> throw; a value that is neither does not parse.\<close>

datatype expiry_input = Expiry_number "int option" | Expiry_text string | Expiry_other

definition normalized_expiry :: "date_parse_fun \<Rightarrow> expiry_input \<Rightarrow> error + string" where
  "normalized_expiry dparse expiry =
     (case (case expiry of Expiry_number None \<Rightarrow> Inl ''Invalid time value'' | Expiry_number (Some t) \<Rightarrow> Inr (Some (to_iso_string t))
        | Expiry_text s \<Rightarrow> Inr (Some s) | Expiry_other \<Rightarrow> Inr None) of
      Inl e \<Rightarrow> Inl e
    | Inr None \<Rightarrow> Inl ''capability expiry must be an ISO-8601 timestamp''
    | Inr (Some v) \<Rightarrow> (case dparse v of None \<Rightarrow> Inl ''capability expiry must be an ISO-8601 timestamp''
        | Some t \<Rightarrow> Inr (to_iso_string t)))"

record mint_options =
  mo_key :: issuer_key
  mo_budget :: "(js_number \<times> string) option"
  mo_expiry :: expiry_input
  mo_threshold :: threshold
  mo_revocation_mode :: string
  mo_scope :: capability_scope
  mo_delegation_chain :: "delegation_entry list"
  mo_capability_id :: string
  mo_secret :: secret_input

record minted =
  mi_receipt :: capability_receipt
  mi_secret :: "bytes option"
  mi_shares :: "string list option"

definition direct_threshold :: "threshold \<Rightarrow> bool" where
  "direct_threshold t \<longleftrightarrow> th_m t = Integral 1 \<and> th_n t = Integral 1"

text \<open>The capability that is signed, with the checks in the order of the object literal.\<close>

definition new_capability :: "date_parse_fun \<Rightarrow> secret_digest \<Rightarrow> js_number \<times> string \<Rightarrow> mint_options \<Rightarrow> error + capability" where
  "new_capability dparse normalized budget opts =
     (case run_checks [validateCapabilityId (mo_capability_id opts), validateAmount (fst budget), validateCurrency (snd budget)] of
       Some e \<Rightarrow> Inl e
     | None \<Rightarrow> (case normalizeRevocationMode (mo_revocation_mode opts) of Inl e \<Rightarrow> Inl e
     | Inr mode \<Rightarrow> (case normalizeCapabilityScope (mo_scope opts) of Inl e \<Rightarrow> Inl e
     | Inr scope \<Rightarrow> (case assertDelegationChain (mo_delegation_chain opts) None of Inl e \<Rightarrow> Inl e
     | Inr chain \<Rightarrow> (case normalized_expiry dparse (mo_expiry opts) of Inl e \<Rightarrow> Inl e
     | Inr expiry \<Rightarrow>
         Inr \<lparr>c_version = CAPABILITY_STATE_VERSION, c_id = mo_capability_id opts, c_secret_hash = sd_hash normalized,
           c_amount = fst budget, c_currency = snd budget, c_consumed = Integral 0, c_threshold = mo_threshold opts,
           c_revocation_mode = mo_revocation_mode opts, c_scope = scope, c_delegation_chain = chain, c_expiry = expiry\<rparr>)))))"

definition mintCapabilityReceipt :: "(bytes \<Rightarrow> string) \<Rightarrow> date_parse_fun \<Rightarrow> random_source \<Rightarrow> base_receipt \<Rightarrow> mint_options
    \<Rightarrow> (error + minted) option" where
  "mintCapabilityReceipt sha256Hex dparse source baseReceipt opts =
     (case validateBaseReceipt baseReceipt of Some e \<Rightarrow> Some (Inl e)
   | None \<Rightarrow> if \<not> has_key (mo_key opts) then Some (Inl ''mintCapabilityReceipt requires issuerPrivateKey'')
     else (case mo_budget opts of None \<Rightarrow> Some (Inl ''capability budget is required'')
   | Some budget \<Rightarrow> (case validateThreshold (mo_threshold opts) of Inl e \<Rightarrow> Some (Inl e)
   | Inr mn \<Rightarrow> (case digestSecret sha256Hex (mo_secret opts) of Inl e \<Rightarrow> Some (Inl e)
   | Inr normalized \<Rightarrow> (case mo_key opts of No_key \<Rightarrow> Some (Inl '''') | Bad_key e \<Rightarrow> Some (Inl e)
   | Issuer_key publicKey sign \<Rightarrow> (case new_capability dparse normalized budget opts of Inl e \<Rightarrow> Some (Inl e)
   | Inr c \<Rightarrow> (case assertCapabilityShape dparse c of Inl e \<Rightarrow> Some (Inl e)
   | Inr u \<Rightarrow>
     (let envelope = \<lparr>e_version = CAPABILITY_RECEIPT_VERSION, e_receipt = baseReceipt, e_capability = c,
        e_signature = Some \<lparr>g_algorithm = ''Ed25519'', g_public_key = publicKey, g_value = sign baseReceipt c\<rparr>\<rparr> in
      if direct_threshold (mo_threshold opts)
      then Some (Inr \<lparr>mi_receipt = envelope, mi_secret = Some (sd_bytes normalized), mi_shares = None\<rparr>)
      else (case splitCapabilitySecret sha256Hex (Secret_buffer (sd_bytes normalized)) (mo_threshold opts) source of None \<Rightarrow> None
        | Some (Inl e) \<Rightarrow> Some (Inl e)
        | Some (Inr shares) \<Rightarrow> Some (Inr \<lparr>mi_receipt = envelope, mi_secret = None, mi_shares = Some shares\<rparr>))))))))))"

subsection \<open>Delegation\<close>

text \<open>The child may narrow the scope and nothing else.\<close>

fun scope_broadened :: "capability_scope \<Rightarrow> capability_scope \<Rightarrow> bool" where
  "scope_broadened (Allowance_scope p d f) (Allowance_scope p' d' f') \<longleftrightarrow> f' \<noteq> f \<or> p' \<noteq> p \<or> d' \<noteq> d"
| "scope_broadened (Caid_scope ms f) (Caid_scope ms' f') \<longleftrightarrow> f' \<noteq> f \<or> \<not> list_all (\<lambda>m. m \<in> set ms) ms'"
| "scope_broadened (Digest_scope ms f) (Digest_scope ms' f') \<longleftrightarrow> f' \<noteq> f \<or> \<not> list_all (\<lambda>m. m \<in> set ms) ms'"
| "scope_broadened _ _ \<longleftrightarrow> True"

record delegation_request =
  dg_parent :: capability_receipt
  dg_parent_secret :: secret_input
  dg_trusted_keys :: "string list"
  dg_key :: issuer_key
  dg_budget :: "(js_number \<times> string) option"
  dg_expiry :: expiry_input
  dg_threshold :: threshold
  dg_revocation_mode :: string
  dg_scope :: "capability_scope option"
  dg_delegate_id :: string
  dg_capability_id :: string
  dg_secret :: secret_input
  dg_operation_id :: "string option"

record delegation_plan =
  dp_parent_id :: string
  dp_parent_fingerprint :: string
  dp_operation_id :: string
  dp_action_digest :: string
  dp_amount :: int
  dp_currency :: string
  dp_child :: minted

datatype delegation_result = Delegation_rejects string | Delegation_denied string | Delegated int

definition delegation_digest :: "hash16 \<Rightarrow> string \<Rightarrow> string \<Rightarrow> string \<Rightarrow> string \<Rightarrow> error + string" where
  "delegation_digest sha operationId parentId childId childFingerprint = capabilityActionDigest sha (VObj 0
     [(jstr ''action_type'', VStr (jstr ''capability.delegate'')), (jstr ''operation_id'', VStr (utf16 operationId)),
      (jstr ''parent_capability_id'', VStr (utf16 parentId)), (jstr ''child_capability_id'', VStr (utf16 childId)),
      (jstr ''child_capability_fingerprint'', VStr (utf16 childFingerprint))])"

text \<open>The checks on the budget, the expiry, the scope and the operation of a child.\<close>

definition child_terms :: "date_parse_fun \<Rightarrow> capability \<Rightarrow> delegation_request
    \<Rightarrow> string + (js_number \<times> string) \<times> string \<times> capability_scope \<times> string" where
  "child_terms dparse parent q =
     (if \<not> fst (validateCapabilityId (dg_capability_id q)) then Inl (snd (validateCapabilityId (dg_capability_id q)))
   else (case dg_budget q of None \<Rightarrow> Inl ''capability budget is required''
   | Some (amount, currency) \<Rightarrow> (case run_checks [validateAmount amount, validateCurrency currency,
       (num_val amount > 0, ''delegated capability budget must be greater than zero''),
       (currency = c_currency parent, ''delegated capability currency does not match the parent budget'')] of Some e \<Rightarrow> Inl e
   | None \<Rightarrow> (case normalized_expiry dparse (dg_expiry q) of Inl e \<Rightarrow> Inl e
   | Inr childExpiry \<Rightarrow> (case normalized_expiry dparse (Expiry_text (c_expiry parent)) of Inl e \<Rightarrow> Inl e
   | Inr parentExpiry \<Rightarrow> if (case (dparse childExpiry, dparse parentExpiry) of (Some a, Some b) \<Rightarrow> a > b | _ \<Rightarrow> False)
     then Inl ''delegated_capability_expiry_exceeds_parent''
     else (case normalizeCapabilityScope (c_scope parent) of Inl e \<Rightarrow> Inl e
   | Inr parentScope \<Rightarrow> (case normalizeCapabilityScope (case dg_scope q of None \<Rightarrow> parentScope | Some s \<Rightarrow> s) of Inl e \<Rightarrow> Inl e
   | Inr childScope \<Rightarrow> if scope_broadened parentScope childScope then Inl ''delegated_capability_scope_broadened''
     else (let opid = (case dg_operation_id q of Some (c # cs) \<Rightarrow> c # cs | _ \<Rightarrow> ''delegation:'' @ dg_capability_id q) in
       if \<not> fst (validateOperationId opid) then Inl (snd (validateOperationId opid))
       else Inr ((amount, currency), childExpiry, childScope, opid)))))))))"

definition child_mint :: "capability \<Rightarrow> delegation_request \<Rightarrow> js_number \<times> string \<Rightarrow> string \<Rightarrow> capability_scope \<Rightarrow> string \<Rightarrow> int \<Rightarrow> mint_options" where
  "child_mint parent q budget childExpiry childScope opid now =
     \<lparr>mo_key = dg_key q, mo_budget = Some budget, mo_expiry = Expiry_text childExpiry, mo_threshold = dg_threshold q,
      mo_revocation_mode = dg_revocation_mode q, mo_scope = childScope,
      mo_delegation_chain = c_delegation_chain parent @ [\<lparr>delegation_id = opid, parent_capability_id = c_id parent,
        delegate_id = dg_delegate_id q, d_amount = fst budget, d_currency = snd budget, issued_at = to_iso_string now\<rparr>],
      mo_capability_id = dg_capability_id q, mo_secret = dg_secret q\<rparr>"

definition plan_delegation :: "exec_env \<Rightarrow> random_source \<Rightarrow> delegation_request \<Rightarrow> js_number \<Rightarrow> (string + delegation_plan) option" where
  "plan_delegation x source q now = (let parent = e_capability (dg_parent q) in
     case child_terms (x_dparse x) parent q of Inl e \<Rightarrow> Some (Inl e)
   | Inr (budget, childExpiry, childScope, opid) \<Rightarrow> (case nowMs now of Inl e \<Rightarrow> Some (Inl e)
   | Inr t \<Rightarrow> if t > 8640000000000000 then Some (Inl ''Invalid time value'')
     else (case mintCapabilityReceipt (x_sha256Hex x) (x_dparse x) source (e_receipt (dg_parent q))
         (child_mint parent q budget childExpiry childScope opid t) of None \<Rightarrow> None
   | Some (Inl e) \<Rightarrow> Some (Inl e)
   | Some (Inr child) \<Rightarrow> Some (case delegation_digest (x_hash x) opid (c_id parent) (dg_capability_id q) (x_fingerprint x (mi_receipt child)) of
       Inl e \<Rightarrow> Inl e
     | Inr d \<Rightarrow> Inr \<lparr>dp_parent_id = c_id parent, dp_parent_fingerprint = x_fingerprint x (dg_parent q), dp_operation_id = opid,
         dp_action_digest = d, dp_amount = num_val (fst budget), dp_currency = snd budget, dp_child = child\<rparr>))))"

definition prepare_delegation :: "exec_env \<Rightarrow> random_source \<Rightarrow> delegation_request \<Rightarrow> js_number \<Rightarrow> (delegation_result + delegation_plan) option" where
  "prepare_delegation x source q now =
     (case verifyCapabilityReceipt (x_dparse x) (x_verify x) (dg_trusted_keys q) (dg_parent q) of Inl r \<Rightarrow> Some (Inl (Delegation_denied r))
   | Inr key \<Rightarrow> (case verifySecret (x_sha256Hex x) (e_capability (dg_parent q)) (dg_parent_secret q) of Inl m \<Rightarrow> Some (Inl (Delegation_rejects m))
   | Inr same \<Rightarrow> if \<not> same then Some (Inl (Delegation_denied ''invalid_parent_secret''))
     else if dg_delegate_id q = [] then Some (Inl (Delegation_denied ''delegate_id_required''))
     else (case plan_delegation x source q now of None \<Rightarrow> None
       | Some (Inl e) \<Rightarrow> Some (Inl (Delegation_denied e)) | Some (Inr p) \<Rightarrow> Some (Inr p))))"

text \<open>The three calls of the store, each with its reading of the clock; a throw is caught and reported.\<close>

datatype delegation_phase = D_reserve | D_commit string | D_register int | D_end delegation_result

definition parent_reserve :: "delegation_plan \<Rightarrow> js_number \<Rightarrow> reserve_options" where
  "parent_reserve p now = \<lparr>q_capability_id = dp_parent_id p, q_fingerprint = dp_parent_fingerprint p, q_namespace = None,
     q_operation_id = dp_operation_id p, q_action_digest = dp_action_digest p, q_action_fence_digest = None,
     q_amount = Integral (dp_amount p), q_currency = dp_currency p, q_control_domain_id = None, q_allowance_status = None, q_now = now\<rparr>"

definition parent_commit :: "delegation_plan \<Rightarrow> string \<Rightarrow> js_number \<Rightarrow> commit_options" where
  "parent_commit p token now = \<lparr>m_capability_id = dp_parent_id p, m_namespace = None, m_operation_id = dp_operation_id p,
     m_reservation_token = Some token, m_outcome = ''delegated'', m_now = now\<rparr>"

definition delegation_step :: "exec_env \<Rightarrow> delegation_plan \<Rightarrow> js_number \<Rightarrow> string \<Rightarrow> delegation_phase \<Rightarrow> cap_store \<Rightarrow> delegation_phase \<times> cap_store" where
  "delegation_step x p now uuid ph s = (case ph of
     D_reserve \<Rightarrow> (case reserveSpend (x_entry_timeout x) uuid (parent_reserve p now) s of
         (Ok r, s') \<Rightarrow> (D_commit (ok_reservation_token r), s')
       | (Refuse (why, holding), s') \<Rightarrow> (D_end (Delegation_denied why), s')
       | (Throw m, s') \<Rightarrow> (D_end (Delegation_denied m), s'))
   | D_commit token \<Rightarrow> (case commitSpend (parent_commit p token now) s of
         (Ok r, s') \<Rightarrow> (D_register (co_remaining r), s')
       | (Refuse why, s') \<Rightarrow> (D_end (Delegation_denied ''parent_delegation_commit_indeterminate''), s')
       | (Throw m, s') \<Rightarrow> (D_end (Delegation_denied m), s'))
   | D_register left \<Rightarrow> (case registerCapability (x_dparse x) (x_verify x) (x_fingerprint x) (mi_receipt (dp_child p)) s of
         (Ok b, s') \<Rightarrow> (D_end (if b then Delegated left else Delegation_denied ''child_registration_failed''), s')
       | (Refuse why, s') \<Rightarrow> (D_end (Delegation_denied ''child_registration_failed''), s')
       | (Throw m, s') \<Rightarrow> (D_end (Delegation_denied m), s'))
   | D_end r \<Rightarrow> (D_end r, s))"

text \<open>One delegation alone.\<close>

definition delegateCapabilityReceipt :: "exec_env \<Rightarrow> random_source \<Rightarrow> delegation_request \<Rightarrow> (nat \<Rightarrow> js_number) \<Rightarrow> string \<Rightarrow> cap_store
    \<Rightarrow> (delegation_result \<times> cap_store) option" where
  "delegateCapabilityReceipt x source q now uuid s = (case prepare_delegation x source q (now 0) of None \<Rightarrow> None
   | Some (Inl r) \<Rightarrow> Some (r, s)
   | Some (Inr p) \<Rightarrow> (let (ph1, s1) = delegation_step x p (now 1) uuid D_reserve s; (ph2, s2) = delegation_step x p (now 2) uuid ph1 s1;
       (ph3, s3) = delegation_step x p (now 3) uuid ph2 s2 in case ph3 of D_end r \<Rightarrow> Some (r, s3) | _ \<Rightarrow> None))"

subsection \<open>Reconciliation\<close>

text \<open>What the evidence verifier answers: it throws, or returns no object, or an object; members that are no text are \<open>None\<close>.\<close>

record evidence_verdict =
  vd_valid :: bool
  vd_outcome :: "string option"
  vd_action_digest :: "string option"
  vd_evidence_digest :: "string option"
  vd_authenticated :: bool
  vd_final :: bool
  vd_capability_id :: "string option"
  vd_operation_namespace :: "string option"
  vd_operation_id :: "string option"
  vd_observed_at :: "string option"
  vd_evidence_profile :: "string option"

datatype evidence_answer = Evidence_threw | Evidence_no_object | Evidence evidence_verdict

record reconcile_call =
  rq_capability_id :: string
  rq_operation_namespace :: "string option"
  rq_operation_id :: string
  rq_action :: js_value
  rq_verifier :: bool

datatype reconcile_result = Reconcile_denied string | Reconcile_rejects string | Reconciled string bool

definition evidence_rejected :: reconcile_result where
  "evidence_rejected = Reconcile_denied ''capability_reconciliation_evidence_rejected''"

definition evidence_bound :: "date_parse_fun \<Rightarrow> string \<Rightarrow> string \<Rightarrow> string \<Rightarrow> string \<Rightarrow> evidence_verdict \<Rightarrow> bool" where
  "evidence_bound dparse cid ns opid actionDigest v \<longleftrightarrow> vd_valid v \<and> vd_outcome v \<in> set [Some ''executed'', Some ''not_entered'']
     \<and> vd_action_digest v = Some actionDigest \<and> (case vd_evidence_digest v of None \<Rightarrow> False | Some d \<Rightarrow> ACTION_DIGEST_RE d)
     \<and> (vd_outcome v = Some ''not_entered'' \<longrightarrow> vd_authenticated v \<and> vd_final v \<and> vd_capability_id v = Some cid
        \<and> vd_operation_namespace v = Some ns \<and> vd_operation_id v = Some opid
        \<and> (case vd_evidence_profile v of None \<Rightarrow> False | Some p \<Rightarrow> fst (validateEvidenceProfile p))
        \<and> (case vd_observed_at v of None \<Rightarrow> False | Some t \<Rightarrow> dparse t \<noteq> None))"

definition option_text :: "string option \<Rightarrow> string" where
  "option_text t = (case t of None \<Rightarrow> [] | Some s \<Rightarrow> s)"

definition reconcile_request :: "string \<Rightarrow> string \<Rightarrow> string \<Rightarrow> string \<Rightarrow> evidence_verdict \<Rightarrow> js_number \<Rightarrow> reconcile_options" where
  "reconcile_request cid ns opid actionDigest v now = (let negative = (vd_outcome v = Some ''not_entered'') in
     \<lparr>x_capability_id = cid, x_namespace = Some ns, x_operation_id = opid, x_action_digest = actionDigest,
      x_evidence_digest = option_text (vd_evidence_digest v),
      x_evidence_profile = (if negative then option_text (vd_evidence_profile v) else ''''), x_evidence_final = negative,
      x_evidence_observed_at = (if negative then option_text (vd_observed_at v) else ''''),
      x_outcome = option_text (vd_outcome v), x_now = now\<rparr>)"

definition reconcileCapabilityOperation :: "exec_env \<Rightarrow> reconcile_call \<Rightarrow> evidence_answer \<Rightarrow> js_number \<Rightarrow> cap_store
    \<Rightarrow> reconcile_result \<times> cap_store" where
  "reconcileCapabilityOperation x q answer now s =
     (let cid = rq_capability_id q; ns = (case rq_operation_namespace q of None \<Rightarrow> cid | Some n \<Rightarrow> n); opid = rq_operation_id q in
      if run_checks [validateCapabilityId cid, validateOperationId opid, validateOperationNamespace ns] \<noteq> None
      then (Reconcile_denied ''capability_reconciliation_operation_invalid'', s)
      else if \<not> rq_verifier q then (Reconcile_denied ''capability_reconciliation_verifier_required'', s)
      else (case capabilityActionDigest (x_hash x) (rq_action q) of Inl e \<Rightarrow> (evidence_rejected, s)
      | Inr actionDigest \<Rightarrow> (case answer of Evidence v \<Rightarrow>
          if \<not> evidence_bound (x_dparse x) cid ns opid actionDigest v then (evidence_rejected, s)
          else (case reconcileSpend (x_dparse x) (reconcile_request cid ns opid actionDigest v now) s of
              (Ok idempotent, s') \<Rightarrow> (Reconciled (option_text (vd_outcome v)) idempotent, s')
            | (Refuse (why, holding), s') \<Rightarrow> (Reconcile_denied why, s')
            | (Throw m, s') \<Rightarrow> (Reconcile_rejects m, s'))
        | _ \<Rightarrow> (evidence_rejected, s))))"

end
