(* ===== verification/Capability_Safety.thy ===== *)
theory Capability_Safety
  imports Capability_Store
begin

section \<open>Safety of the capability store\<close>

text \<open>
  Every method of the store changes it in one of a few ways; from these effects follow the accounting
  of every capability, the exclusion of a second operation on the same action, and that an operation
  reserved under a control domain cannot enter its provider once the domain has been frozen.
\<close>

subsection \<open>Effects of the methods\<close>

text \<open>What no method changes in a stored operation.\<close>

definition same_terms :: "operation \<Rightarrow> operation \<Rightarrow> bool" where
  "same_terms a b \<longleftrightarrow> o_namespace a = o_namespace b \<and> o_id a = o_id b \<and> o_capability_id a = o_capability_id b
     \<and> o_action_digest a = o_action_digest b \<and> o_action_fence_digest a = o_action_fence_digest b \<and> o_amount a = o_amount b
     \<and> o_reservation_token a = o_reservation_token b \<and> o_control_domain_id a = o_control_domain_id b
     \<and> o_reserved_control_epoch a = o_reserved_control_epoch b"

text \<open>Domains are never removed, and every change of one raises its epoch.\<close>

definition domains_advance :: "(string, control_domain) js_map \<Rightarrow> (string, control_domain) js_map \<Rightarrow> bool" where
  "domains_advance ds ds' \<longleftrightarrow> (\<forall>d dm. map_get ds d = Some dm \<longrightarrow>
     (\<exists>dm'. map_get ds' d = Some dm' \<and> (dm' = dm \<or> cd_epoch dm < cd_epoch dm' \<and> cd_id dm' = cd_id dm)))"

definition ids_match :: "(string, control_domain) js_map \<Rightarrow> bool" where
  "ids_match ds \<longleftrightarrow> (\<forall>d dm. map_get ds d = Some dm \<longrightarrow> cd_id dm = d)"

inductive cap_effect :: "cap_store \<Rightarrow> cap_store \<Rightarrow> bool" where
  E_domains: "operations s' = operations s \<Longrightarrow> states s' = states s \<Longrightarrow> actionHolders s' = actionHolders s \<Longrightarrow>
    domains_advance (controlDomains s) (controlDomains s') \<Longrightarrow> (ids_match (controlDomains s) \<longrightarrow> ids_match (controlDomains s')) \<Longrightarrow>
    cap_effect s s'"
| E_register: "map_get (states s) cid = None \<Longrightarrow> consumed_amount st = 0 \<Longrightarrow> reserved_amount st = 0 \<Longrightarrow>
    0 \<le> budget_amount st \<Longrightarrow> budget_amount st \<le> max_safe \<Longrightarrow> cap_effect s (put_state cid st s)"
| E_revoke: "map_get (states s) cid = Some st \<Longrightarrow> cap_effect s (put_state cid (st\<lparr>revoked_at := t\<rparr>) s)"
| E_reserve: "map_get (operations s) key = None \<Longrightarrow> map_get (states s) (o_capability_id op) = Some st \<Longrightarrow> o_status op = Reserved \<and> o_released_at op = None \<Longrightarrow>
    0 < o_amount op \<Longrightarrow> consumed_amount st + reserved_amount st + o_amount op \<le> budget_amount st \<Longrightarrow>
    (\<And>holder. action_holder s (o_namespace op) (o_action_fence_digest op) = Some holder \<Longrightarrow> o_status holder = Released) \<Longrightarrow>
    (\<And>d. o_control_domain_id op = Some d \<Longrightarrow> \<exists>k dm. map_get (controlDomains s) k = Some dm \<and> cd_id dm = d
        \<and> cd_status dm = Domain_active \<and> o_reserved_control_epoch op = Some (cd_epoch dm)) \<Longrightarrow>
    cap_effect s (s\<lparr>operations := map_set key op (operations s),
      states := map_set (o_capability_id op) (st\<lparr>reserved_amount := reserved_amount st + o_amount op\<rparr>) (states s),
      actionHolders := map_set (actionKey (o_namespace op) (o_action_fence_digest op)) key (actionHolders s)\<rparr>)"
| E_move: "map_get (operations s) key = Some op \<Longrightarrow> map_get (states s) (o_capability_id op) = Some st \<Longrightarrow> o_status op = Reserved \<Longrightarrow>
    same_terms op op' \<Longrightarrow>
    (o_status op' = Released \<and> o_released_at op' \<noteq> None \<and> st' = release_budget op st) \<or> (o_status op' \<in> {Provider_entered, Committed} \<and> st' = consume_budget op st) \<Longrightarrow>
    cap_effect s (put_state (o_capability_id op) st' (put_operation key op' s))"
| E_note: "map_get (operations s) key = Some op \<Longrightarrow> same_terms op op' \<Longrightarrow>
    (o_status op = Reserved \<and> o_status op' = Released \<and> o_released_at op' = o_released_at op) \<or> (o_status op \<in> {Provider_entered, Committed} \<and> o_status op' = Committed) \<Longrightarrow>
    cap_effect s (put_operation key op' s)"

lemma domains_advance_refl [simp]: "domains_advance ds ds"
  by (simp add: domains_advance_def)

lemma effect_refl [simp, intro]: "cap_effect s s"
  by (rule E_domains) simp_all

lemma refuse_snd [simp]: "snd (refuse r s) = s" "fst (refuse r s) = Refuse (r, None)"
  by (simp_all add: refuse_def)

lemma cap_same_terms_refl [simp]: "same_terms a a"
  by (simp add: same_terms_def)

lemma put_state_same: "map_get (states s) cid = Some st \<Longrightarrow> put_state cid st (put_operation key op s) = put_operation key op s"
  by (simp add: put_state_def put_operation_def update_triv)

lemma advance_effect: "cap_effect s (snd (advanceAllowanceStatus q s))"
  by (auto simp: advanceAllowanceStatus_def Let_def split: sum.splits intro: E_domains)

lemma revoke_effect: "cap_effect s (snd (revokeCapability now cid fp s))"
  by (auto simp: revokeCapability_def split: option.splits sum.splits intro: E_revoke[unfolded put_state_def])

lemma registerDomain_effect: "cap_effect s (snd (registerControlDomain now d s))"
  by (auto simp: registerControlDomain_def domains_advance_def ids_match_def split: option.splits sum.splits intro!: E_domains)

lemma register_effect: "cap_effect s (snd (registerCapability dparse verify fp e s))"
proof (cases "verifyCapabilityReceiptIntegrity dparse verify e")
  case (Inr key)
  note bud = shape_budget[OF verified_shape[OF Inr]]
  show ?thesis
    using Inr bud
    by (auto simp: registerCapability_def capabilityStateFromEnvelope_def Let_def split: sum.splits option.splits
        intro!: E_register[unfolded put_state_def])
qed (simp add: registerCapability_def)

lemma record_event_frame [simp]:
  "operations (record_event et q i t r s) = operations s" "states (record_event et q i t r s) = states s"
  "actionHolders (record_event et q i t r s) = actionHolders s" "controlDomains (record_event et q i t r s) = controlDomains s"
  by (simp_all add: record_event_def)

lemma domains_advance_set:
  assumes "map_get ds d = Some dm" "cd_epoch dm < cd_epoch dm'" "cd_id dm' = cd_id dm"
  shows "domains_advance ds (map_set d dm' ds)" "ids_match ds \<Longrightarrow> ids_match (map_set d dm' ds)"
  using assms by (auto simp: domains_advance_def ids_match_def)

text \<open>A transition that has not been recorded before: what it does to the domain.\<close>

lemma transition_cases:
  assumes "transitionMemoryControlDomain et answer q s = (r, s')"
  obtains (unchanged) "s' = s" "\<And>x. r = Ok x \<Longrightarrow> tr_idempotent x"
  | (frozen) dm t i x where "et = Freeze" "map_get (controlDomains s) (to_control_domain_id q) = Some dm" "cd_status dm = Domain_frozen"
      "r = Ok x" "s' = record_event et q i t x s"
  | (changed) dm dm' t i x where "map_get (controlDomains s) (to_control_domain_id q) = Some dm" "cd_epoch dm' = cd_epoch dm + 1" "cd_id dm' = cd_id dm"
      "cd_status dm' = (if et = Freeze then Domain_frozen else Domain_active)" "r = Ok x"
      "s' = record_event et q i t x (s\<lparr>controlDomains := map_set (to_control_domain_id q) dm' (controlDomains s)\<rparr>)"
proof -
  have "(s' = s \<and> (\<forall>x. r = Ok x \<longrightarrow> tr_idempotent x))
    \<or> (\<exists>d i t. map_get (controlDomains s) (to_control_domain_id q) = Some d \<and> (r, s') = apply_domain_transition et q i d t s)"
    using assms by (auto simp: transitionMemoryControlDomain_def refuse_def simp del: run_checks_None
      split: if_splits option.splits sum.splits prod.splits) metis+
  then consider (stay) "s' = s" "\<And>x. r = Ok x \<Longrightarrow> tr_idempotent x"
    | (touched) d i t where "map_get (controlDomains s) (to_control_domain_id q) = Some d" "(r, s') = apply_domain_transition et q i d t s" by blast
  then show thesis
  proof cases
    case stay
    then show ?thesis using unchanged by blast
  next
    case (touched d i t)
    show ?thesis
    proof (cases "et = Freeze \<and> cd_status d = Domain_frozen")
      case True
      then show ?thesis using touched by (intro frozen[of d]) (auto simp: apply_domain_transition_def Let_def)
    next
      case False
      let ?d = "d\<lparr>cd_status := (if et = Freeze then Domain_frozen else Domain_active), cd_epoch := cd_epoch d + 1,
        cd_frozen_at := (if et = Freeze then Some t else None), cd_frozen_by_digest := (if et = Freeze then Some i else None), cd_updated_at := t\<rparr>"
      show ?thesis
      proof (cases "et = Restore \<and> cd_status d \<noteq> Domain_frozen")
        case True
        then show ?thesis using touched unchanged by (simp add: apply_domain_transition_def refuse_def)
      next
        case other: False
        then show ?thesis using touched False by (intro changed[of d ?d "\<lparr>tr_idempotent = False,
            tr_status = (if et = Freeze then ''frozen'' else ''active''), tr_control_domain_id = cd_id d, tr_epoch = cd_epoch d + 1\<rparr>" i t]) (auto simp: apply_domain_transition_def Let_def)
      qed
    qed
  qed
qed

lemma transition_effect: "cap_effect s (snd (transitionMemoryControlDomain et answer q s))"
proof (cases "transitionMemoryControlDomain et answer q s")
  case (Pair r s')
  then have "cap_effect s s'"
    by (cases rule: transition_cases) (auto intro!: E_domains domains_advance_set)
  then show ?thesis using Pair by simp
qed

lemma reserve_domain_Inr:
  assumes "reserve_domain q s = Inr dm" "map_option cd_id dm = Some d"
  shows "\<exists>k x. dm = Some x \<and> map_get (controlDomains s) k = Some x \<and> cd_id x = d \<and> cd_status x = Domain_active"
  using assms by (auto simp: reserve_domain_def split: option.splits if_splits)

lemma reserve_budget_effect:
  assumes "map_get (states s) (q_capability_id q) = Some st" "map_get (operations s) key = None" "0 < num_val (q_amount q)"
    "reserve_domain q s = Inr dm"
    "\<And>holder. action_holder s (reserve_namespace q) (reserve_fence q) = Some holder \<Longrightarrow> o_status holder = Released"
  shows "cap_effect s (snd (reserve_budget timeout uuid q dm st key s))"
proof (cases "nowMs (q_now q)")
  case (Inr t)
  let ?op = "new_operation q uuid t (entryDeadline t (expires_at st) timeout) dm"
  show ?thesis
  proof (cases "t \<ge> expires_at st \<or> q_currency q \<noteq> s_currency st \<or> consumed_amount st + reserved_amount st + num_val (q_amount q) > budget_amount st")
    case True
    then show ?thesis using Inr by (auto simp: reserve_budget_def)
  next
    case False
    have "cap_effect s (s\<lparr>operations := map_set key ?op (operations s),
        states := map_set (o_capability_id ?op) (st\<lparr>reserved_amount := reserved_amount st + o_amount ?op\<rparr>) (states s),
        actionHolders := map_set (actionKey (o_namespace ?op) (o_action_fence_digest ?op)) key (actionHolders s)\<rparr>)"
    proof (rule E_reserve)
      show "o_status holder = Released" if "action_holder s (o_namespace ?op) (o_action_fence_digest ?op) = Some holder" for holder
        using assms(5) that by (simp add: new_operation_def)
      show "\<exists>k x. map_get (controlDomains s) k = Some x \<and> cd_id x = d \<and> cd_status x = Domain_active \<and> o_reserved_control_epoch ?op = Some (cd_epoch x)"
        if "o_control_domain_id ?op = Some d" for d
        using reserve_domain_Inr[OF assms(4)] that by (fastforce simp: new_operation_def)
    qed (use assms False in \<open>simp_all add: new_operation_def\<close>)
    then show ?thesis using False Inr by (simp add: reserve_budget_def new_operation_def Let_def)
  qed
qed (simp add: reserve_budget_def)

lemma not_holding: "o_status h \<notin> set ACTION_HOLDING_STATUSES \<longleftrightarrow> o_status h = Released"
  by (cases "o_status h") (simp_all add: ACTION_HOLDING_STATUSES_def)

lemma cap_reserve_effect: "cap_effect s (snd (reserveSpend timeout uuid q s))"
proof -
  have "cap_effect s (snd (reserveSpend timeout uuid q s))" if pos: "0 < num_val (q_amount q)"
    unfolding reserveSpend_def Let_def
    by (split option.split, intro conjI impI allI, simp_all only: snd_conv effect_refl)
      (auto simp: not_holding pos simp del: run_checks_None split: option.split sum.split intro!: reserve_budget_effect)
  moreover have "snd (reserveSpend timeout uuid q s) = s" if "\<not> 0 < num_val (q_amount q)"
    using that by (auto simp: reserveSpend_def validateSpendAmount_def split: option.split)
  ultimately show ?thesis by (cases "0 < num_val (q_amount q)") simp_all
qed

lemma terms_release [simp]: "same_terms op (release_not_entered reason t op)"
  "o_status (release_not_entered reason t op) = Released" "o_released_at (release_not_entered reason t op) = t"
  by (simp_all add: same_terms_def release_not_entered_def)

lemma terms_marks [simp]: "same_terms op (mark_indeterminate t op)" "same_terms op (mark_reconciled q t op)"
  "same_terms op (mark_reconciled q t (mark_indeterminate t op))"
  "o_status (mark_reconciled q t op) = o_status op" "o_status (mark_indeterminate t op) = Committed"
  by (simp_all add: same_terms_def mark_indeterminate_def mark_reconciled_def)

lemma terms_updates [simp]:
  "same_terms op (op\<lparr>o_status := a, o_provider_entry_at := b\<rparr>)" "same_terms op (op\<lparr>o_status := a, o_outcome := c, o_committed_at := d\<rparr>)"
  "same_terms op ((release_not_entered r t op)\<lparr>o_release_evidence_profile := e, o_release_evidence_digest := f\<rparr>)"
  by (simp_all add: same_terms_def release_not_entered_def)

lemma move_release:
  "map_get (operations s) key = Some op \<Longrightarrow> o_capability_id op = cid \<Longrightarrow> map_get (states s) cid = Some st \<Longrightarrow> o_status op = Reserved \<Longrightarrow>
   same_terms op op' \<Longrightarrow> o_status op' = Released \<Longrightarrow> o_released_at op' \<noteq> None \<Longrightarrow> cap_effect s (put_state cid (release_budget op st) (put_operation key op' s))"
  using E_move by blast

lemma move_consume:
  "map_get (operations s) key = Some op \<Longrightarrow> o_capability_id op = cid \<Longrightarrow> map_get (states s) cid = Some st \<Longrightarrow> o_status op = Reserved \<Longrightarrow>
   same_terms op op' \<Longrightarrow> o_status op' \<in> {Provider_entered, Committed} \<Longrightarrow> cap_effect s (put_state cid (consume_budget op st) (put_operation key op' s))"
  using E_move by blast

lemmas move_intros = move_release move_consume E_note

lemma cap_begin_effect: "cap_effect s (snd (beginProviderEntry q s))"
  unfolding beginProviderEntry_def Let_def
  by (auto simp del: run_checks_None split: option.split sum.split domain_binding.split intro!: move_intros)

lemma dispose_effect:
  assumes "map_get (operations s) key = Some op" "map_get (states s) (v_capability_id q) = Some st" "o_capability_id op = v_capability_id q"
  shows "cap_effect s (snd (dispose_pre_entry q disposition key op st s))"
  unfolding dispose_pre_entry_def
  by (auto simp: assms split: option.split sum.split intro!: move_intros)

lemma recover_effect: "cap_effect s (snd (recoverPreEntrySpend q s))"
  unfolding recoverPreEntrySpend_def Let_def
  by (auto simp del: run_checks_None split: option.split sum.split intro!: move_intros dispose_effect)

lemma commit_effect: "cap_effect s (snd (commitSpend q s))"
  unfolding commitSpend_def Let_def
  by (auto simp: put_state_same simp del: run_checks_None split: option.split sum.split intro!: move_intros)

lemma reconciled_before_snd [simp]: "snd (reconciled_before q op s) = s"
  by (simp add: reconciled_before_def)

lemma effect_branches:
  "(c \<Longrightarrow> cap_effect s (snd a)) \<Longrightarrow> (\<not> c \<Longrightarrow> cap_effect s (snd b)) \<Longrightarrow> cap_effect s (snd (if c then a else b))"
  "cap_effect s (snd d) \<Longrightarrow> (\<And>y. x = Some y \<Longrightarrow> cap_effect s (snd (f y))) \<Longrightarrow> cap_effect s (snd (case x of None \<Rightarrow> d | Some y \<Rightarrow> f y))"
  "cap_effect s (snd d) \<Longrightarrow> (\<And>y. x = Some y \<Longrightarrow> cap_effect s (snd (f y))) \<Longrightarrow> cap_effect s (snd (case x of Some y \<Rightarrow> f y | None \<Rightarrow> d))"
  "(\<And>l. cap_effect s (snd (g l))) \<Longrightarrow> (\<And>r. u = Inr r \<Longrightarrow> cap_effect s (snd (h r))) \<Longrightarrow> cap_effect s (snd (case u of Inl l \<Rightarrow> g l | Inr r \<Rightarrow> h r))"
  by (auto split: option.split sum.split)

lemma reconcile_executed_effect:
  assumes "map_get (operations s) key = Some op"
  shows "cap_effect s (snd (reconcile_executed q key op t s))"
  unfolding reconcile_executed_def
  by (intro effect_branches; (simp; fail)?) (use assms in \<open>auto intro!: move_intros\<close>)

lemma reconcile_not_entered_effect:
  assumes "map_get (operations s) key = Some op"
  shows "cap_effect s (snd (reconcile_not_entered dparse q key op t s))"
proof -
  have s: "o_status op \<noteq> Released \<Longrightarrow> o_status op \<noteq> Reserved \<Longrightarrow> o_status op \<noteq> Provider_entered \<Longrightarrow> o_status op = Committed"
    by (cases "o_status op") auto
  show ?thesis
    unfolding reconcile_not_entered_def prod.case
    by (intro effect_branches; (simp; fail)?) (use assms s in \<open>auto intro!: move_intros\<close>)
qed

lemma cap_reconcile_effect: "cap_effect s (snd (reconcileSpend dparse q s))"
  unfolding reconcileSpend_def Let_def
  by (intro effect_branches; (simp add: reconcile_executed_effect reconcile_not_entered_effect; fail)?)

subsection \<open>Runs\<close>

inductive cap_step :: "date_parse_fun \<Rightarrow> (capability_receipt \<Rightarrow> bool option) \<Rightarrow> (capability_receipt \<Rightarrow> string) \<Rightarrow> int \<Rightarrow> cap_store \<Rightarrow> cap_store \<Rightarrow> bool"
  for dparse verify fp timeout where
  "cap_step dparse verify fp timeout s (snd (registerCapability dparse verify fp e s))"
| "cap_step dparse verify fp timeout s (snd (revokeCapability now cid f s))"
| "cap_step dparse verify fp timeout s (snd (registerControlDomain now d s))"
| "cap_step dparse verify fp timeout s (snd (transitionMemoryControlDomain et answer q s))"
| "cap_step dparse verify fp timeout s (snd (advanceAllowanceStatus advance s))"
| "cap_step dparse verify fp timeout s (snd (reserveSpend timeout uuid request s))"
| "cap_step dparse verify fp timeout s (snd (beginProviderEntry entry s))"
| "cap_step dparse verify fp timeout s (snd (recoverPreEntrySpend recovery s))"
| "cap_step dparse verify fp timeout s (snd (commitSpend settlement s))"
| "cap_step dparse verify fp timeout s (snd (reconcileSpend dparse evidence s))"

abbreviation cap_run where
  "cap_run dparse verify fp timeout \<equiv> (cap_step dparse verify fp timeout)\<^sup>*\<^sup>*"

lemma step_effect: "cap_step dparse verify fp timeout s s' \<Longrightarrow> cap_effect s s'"
  by (induction rule: cap_step.induct)
    (auto intro: register_effect revoke_effect registerDomain_effect transition_effect advance_effect cap_reserve_effect cap_begin_effect
      recover_effect commit_effect cap_reconcile_effect)

subsection \<open>Accounting\<close>

definition spent_on :: "string \<Rightarrow> operation \<Rightarrow> bool" where
  "spent_on cid op \<longleftrightarrow> o_capability_id op = cid \<and> o_status op \<in> {Provider_entered, Committed}"

definition held_on :: "string \<Rightarrow> operation \<Rightarrow> bool" where
  "held_on cid op \<longleftrightarrow> o_capability_id op = cid \<and> o_status op = Reserved"

text \<open>An operation that was released without a time: the clock threw after it had been marked as released.\<close>

definition stranded_on :: "string \<Rightarrow> operation \<Rightarrow> bool" where
  "stranded_on cid op \<longleftrightarrow> o_capability_id op = cid \<and> o_status op = Released \<and> o_released_at op = None"

definition amounts :: "(operation \<Rightarrow> bool) \<Rightarrow> cap_store \<Rightarrow> int" where
  "amounts p s = sum_where p o_amount (map_values (operations s))"

definition accounted :: "cap_store \<Rightarrow> string \<Rightarrow> cap_state \<Rightarrow> bool" where
  "accounted s cid st \<longleftrightarrow> consumed_amount st = amounts (spent_on cid) s
     \<and> reserved_amount st = amounts (held_on cid) s + amounts (stranded_on cid) s
     \<and> consumed_amount st + reserved_amount st \<le> budget_amount st \<and> 0 \<le> budget_amount st \<and> budget_amount st \<le> max_safe"

definition accounts_inv :: "cap_store \<Rightarrow> bool" where
  "accounts_inv s \<longleftrightarrow> map_ok (operations s)
     \<and> (\<forall>key op. map_get (operations s) key = Some op \<longrightarrow> 0 < o_amount op \<and> map_get (states s) (o_capability_id op) \<noteq> None
         \<and> (o_status op = Reserved \<longrightarrow> o_released_at op = None))
     \<and> (\<forall>cid st. map_get (states s) cid = Some st \<longrightarrow> accounted s cid st)"

lemma stored_amount: "accounts_inv s \<Longrightarrow> op \<in> set (map_values (operations s)) \<Longrightarrow> 0 < o_amount op"
  unfolding accounts_inv_def map_values_def by (auto dest: map_of_is_SomeI)

lemma amounts_nonneg: "accounts_inv s \<Longrightarrow> 0 \<le> amounts p s"
  unfolding amounts_def by (rule sum_where_nonneg) (auto dest: stored_amount)

lemma amounts_put [simp]:
  "amounts p (put_state cid st s) = amounts p s"
  "map_get (operations s) key = Some op \<Longrightarrow> amounts p (put_operation key op' s) = amounts p s - (if p op then o_amount op else 0) + (if p op' then o_amount op' else 0)"
  by (simp_all add: amounts_def put_state_def put_operation_def sum_where_map_set)

lemma put_simps [simp]:
  "states (put_operation key op s) = states s" "operations (put_state cid st s) = operations s"
  "states (put_state cid st s) = map_set cid st (states s)" "operations (put_operation key op s) = map_set key op (operations s)"
  "actionHolders (put_operation key op s) = actionHolders s" "actionHolders (put_state cid st s) = actionHolders s"
  "controlDomains (put_operation key op s) = controlDomains s" "controlDomains (put_state cid st s) = controlDomains s"
  by (simp_all add: put_operation_def put_state_def)

lemma accounted_simps [simp]:
  "accounted (put_state cid st s) c x = accounted s c x" "accounted s c (x\<lparr>revoked_at := t\<rparr>) = accounted s c x"
  by (simp_all add: accounted_def)

lemma accounts_same:
  assumes "accounts_inv s" "operations s' = operations s" "states s' = states s"
  shows "accounts_inv s'"
proof -
  have "accounted s' = accounted s" using assms(2) by (simp add: accounted_def amounts_def fun_eq_iff)
  then show ?thesis using assms by (simp add: accounts_inv_def)
qed

lemma effect_accounts: "cap_effect s s' \<Longrightarrow> accounts_inv s \<Longrightarrow> accounts_inv s'"
proof (induction rule: cap_effect.induct)
  case (E_domains s' s)
  then show ?case by (metis accounts_same)
next
  case (E_register s cid st)
  have "amounts p s = 0" if "\<And>op. p op \<Longrightarrow> o_capability_id op = cid" for p
  proof -
    have "\<not> p op" if op: "op \<in> set (map_values (operations s))" for op
    proof -
      obtain key where "map_get (operations s) key = Some op" using op E_register(6) by (auto simp: accounts_inv_def map_values_mem)
      then have "map_get (states s) (o_capability_id op) \<noteq> None" using E_register(6) unfolding accounts_inv_def by blast
      then show ?thesis using E_register(1) \<open>\<And>op. p op \<Longrightarrow> o_capability_id op = cid\<close> by force
    qed
    then have "amounts p s = sum_where (\<lambda>_. False) o_amount (map_values (operations s))" unfolding amounts_def by (intro sum_where_cong) auto
    then show ?thesis by (simp add: sum_where_def)
  qed
  from this[of "spent_on cid"] this[of "held_on cid"] this[of "stranded_on cid"]
  have "amounts (spent_on cid) s = 0" "amounts (held_on cid) s = 0" "amounts (stranded_on cid) s = 0"
    by (simp_all add: spent_on_def held_on_def stranded_on_def)
  then have "accounted s cid st" using E_register by (simp add: accounted_def)
  then show ?case using E_register by (auto simp: accounts_inv_def)
next
  case (E_revoke s cid st t)
  then show ?case by (auto simp: accounts_inv_def)
next
  case (E_reserve s key op st)
  let ?s = "s\<lparr>operations := map_set key op (operations s),
      states := map_set (o_capability_id op) (st\<lparr>reserved_amount := reserved_amount st + o_amount op\<rparr>) (states s),
      actionHolders := map_set (actionKey (o_namespace op) (o_action_fence_digest op)) key (actionHolders s)\<rparr>"
  have "amounts p ?s = amounts p s + (if p op then o_amount op else 0)" for p
    by (simp add: amounts_def map_values_set_new[OF E_reserve(1)])
  then have a: "amounts (spent_on cid) ?s = amounts (spent_on cid) s"
    "amounts (held_on cid) ?s = amounts (held_on cid) s + (if o_capability_id op = cid then o_amount op else 0)"
    "amounts (stranded_on cid) ?s = amounts (stranded_on cid) s" for cid
    using E_reserve(3) by (simp_all add: spent_on_def held_on_def stranded_on_def)
  have acc: "accounted s cid x" if "map_get (states s) cid = Some x" for cid x using that E_reserve(8) unfolding accounts_inv_def by blast
  have "accounted ?s (o_capability_id op) (st\<lparr>reserved_amount := reserved_amount st + o_amount op\<rparr>)"
    using acc[OF E_reserve(2), unfolded accounted_def] E_reserve(5) unfolding accounted_def a by simp
  moreover have "accounted ?s cid x" if "map_get (states s) cid = Some x" "cid \<noteq> o_capability_id op" for cid x
    using acc[OF that(1), unfolded accounted_def] that(2) unfolding accounted_def a by simp
  ultimately show ?case using E_reserve by (auto simp: accounts_inv_def)
next
  case (E_move s key op st op' st')
  let ?s = "put_operation key op' s"
  have t: "o_capability_id op' = o_capability_id op" "o_amount op' = o_amount op" using E_move(4) by (simp_all add: same_terms_def)
  have pos: "0 < o_amount op" "o_released_at op = None" using E_move(1,3,6) unfolding accounts_inv_def by blast+
  have acc: "accounted s cid x" if "map_get (states s) cid = Some x" for cid x using that E_move(6) unfolding accounts_inv_def by blast
  have "accounted ?s (o_capability_id op) st'"
    using E_move(5) acc[OF E_move(2)] E_move(1,3) t pos
    by (auto simp: accounted_def spent_on_def held_on_def stranded_on_def release_budget_def consume_budget_def)
  moreover have "accounted ?s cid x" if "map_get (states s) cid = Some x" "cid \<noteq> o_capability_id op" for cid x
    using acc[OF that(1)] that(2) E_move(1) t by (simp add: accounted_def spent_on_def held_on_def stranded_on_def)
  moreover have "o_status op' \<noteq> Reserved" using E_move(5) by auto
  ultimately show ?case using E_move(1,6) t by (auto simp: accounts_inv_def)
next
  case (E_note s key op op')
  have t: "o_capability_id op' = o_capability_id op" "o_amount op' = o_amount op" using E_note(2) by (simp_all add: same_terms_def)
  have "accounted (put_operation key op' s) cid st" if "map_get (states s) cid = Some st" for cid st
  proof -
    have "accounted s cid st" "0 < o_amount op" "o_status op = Reserved \<longrightarrow> o_released_at op = None"
      using that E_note(1,4) by (auto simp: accounts_inv_def)
    then show ?thesis using E_note(1,3) t by (auto simp: accounted_def spent_on_def held_on_def stranded_on_def)
  qed
  moreover have "o_status op' \<noteq> Reserved" using E_note(3) by auto
  ultimately show ?case using E_note(1,4) t by (auto simp: accounts_inv_def)
qed

interpretation accounting: store_invariant "cap_step dparse verify fp timeout" accounts_inv for dparse verify fp timeout
  by unfold_locales (rule effect_accounts[OF step_effect])

lemma run_accounts: "cap_run dparse verify fp timeout empty_store s \<Longrightarrow> accounts_inv s"
  by (erule accounting.run_keeps) (simp add: accounts_inv_def empty_store_def)

text \<open>
  Property C4. In every store reached by a run from the empty store, the consumed amount of a capability is exactly
  the sum over its operations past provider entry, its reserved amount is exactly the sum over its open reservations and
  over the operations that were released without a time (a stale entry whose clock threw, whose amount
  stays reserved), and consumed and reserved amounts together never exceed its budget.
\<close>

theorem capability_budget_conserved:
  assumes "cap_run dparse verify fp timeout empty_store s" "map_get (states s) cid = Some st"
  shows "consumed_amount st = amounts (spent_on cid) s
    \<and> reserved_amount st = amounts (held_on cid) s + amounts (stranded_on cid) s
    \<and> consumed_amount st + reserved_amount st \<le> budget_amount st \<and> budget_amount st \<le> max_safe"
proof -
  have "accounted s cid st" using run_accounts[OF assms(1)] assms(2) unfolding accounts_inv_def by blast
  then show ?thesis unfolding accounted_def by blast
qed

subsection \<open>The action fence\<close>

definition fence_inv :: "cap_store \<Rightarrow> bool" where
  "fence_inv s \<longleftrightarrow> (\<forall>key op. map_get (operations s) key = Some op \<longrightarrow> o_status op \<noteq> Released \<longrightarrow>
     map_get (actionHolders s) (actionKey (o_namespace op) (o_action_fence_digest op)) = Some key)"

lemma fence_update:
  assumes "fence_inv s" "map_get (operations s) key = Some op" "same_terms op op'" "o_status op' \<noteq> Released \<longrightarrow> o_status op \<noteq> Released"
  shows "fence_inv (put_operation key op' s)"
  using assms unfolding fence_inv_def same_terms_def by (simp; metis)

lemma fence_put_state [simp]: "fence_inv (put_state cid st s) = fence_inv s"
  by (simp add: fence_inv_def)

lemma effect_fence: "cap_effect s s' \<Longrightarrow> fence_inv s \<Longrightarrow> fence_inv s'"
proof (induction rule: cap_effect.induct)
  case (E_reserve s key op st)
  have "k = key" if k: "map_get (operations s) k = Some x" "o_status x \<noteq> Released"
      "actionKey (o_namespace x) (o_action_fence_digest x) = actionKey (o_namespace op) (o_action_fence_digest op)" for k x
  proof -
    have "map_get (actionHolders s) (actionKey (o_namespace op) (o_action_fence_digest op)) = Some k"
      using k E_reserve(8) unfolding fence_inv_def by metis
    then have "action_holder s (o_namespace op) (o_action_fence_digest op) = Some x" using k(1) by (simp add: action_holder_def)
    then show ?thesis using E_reserve(6) k(2) by blast
  qed
  then show ?case using E_reserve(8) by (auto simp: fence_inv_def)
next
  case (E_move s key op st op' st')
  then show ?case by (auto intro: fence_update)
next
  case (E_note s key op op')
  then show ?case by (auto intro!: fence_update)
qed (auto simp: fence_inv_def)

interpretation fencing: store_invariant "cap_step dparse verify fp timeout" fence_inv for dparse verify fp timeout
  by unfold_locales (rule effect_fence[OF step_effect])

text \<open>
  Property C7. In every store reached by a run, two operations of one namespace that hold the same action fence
  digest (reserved, entered or committed) are the same operation, whatever identifiers, capabilities
  and amounts they were requested with.
\<close>

theorem action_fence_exclusive:
  assumes "cap_run dparse verify fp timeout empty_store s"
    and "map_get (operations s) k = Some a" "map_get (operations s) k' = Some b"
    and "o_namespace a = o_namespace b" "o_action_fence_digest a = o_action_fence_digest b"
    and "o_status a \<in> set ACTION_HOLDING_STATUSES" "o_status b \<in> set ACTION_HOLDING_STATUSES"
  shows "k = k'"
proof -
  have "fence_inv empty_store" by (simp add: fence_inv_def empty_store_def)
  with assms(1) have "fence_inv s" by (rule fencing.run_keeps)
  moreover have "o_status a \<noteq> Released" "o_status b \<noteq> Released" using assms(6,7) not_holding by metis+
  ultimately show ?thesis using assms(2-5) unfolding fence_inv_def by (metis option.inject)
qed

subsection \<open>Lineage\<close>

text \<open>A capability and the chain of its parents.\<close>

inductive ancestor :: "(string, cap_state) js_map \<Rightarrow> string \<Rightarrow> string \<Rightarrow> bool" for sts where
  ancestor_refl: "ancestor sts c c"
| ancestor_up: "map_get sts c = Some st \<Longrightarrow> s_parent st = Some p \<Longrightarrow> ancestor sts p a \<Longrightarrow> ancestor sts c a"

lemma lineage_loop_None:
  assumes "lineage_loop sts leaf (Some c) seen depth = None" "ancestor sts c a"
  shows "\<exists>st. map_get sts a = Some st \<and> (revoked_at st \<noteq> None \<longrightarrow> a \<noteq> leaf \<and> s_revocation_mode st = Direct)"
  using assms
proof (induction sts leaf "Some c" seen depth arbitrary: c rule: lineage_loop.induct)
  case (1 sts leaf seen depth c)
  obtain st where st: "map_get sts c = Some st" "\<not> (c \<in> set seen \<or> depth > MAX_DELEGATES)"
    "\<not> (revoked_at st \<noteq> None \<and> c = leaf)" "\<not> (revoked_at st \<noteq> None \<and> s_revocation_mode st = Cascade)"
    "lineage_loop sts leaf (s_parent st) (c # seen) (depth + 1) = None"
    using "1.prems"(1) by (auto simp: lineage_loop.simps[of sts leaf "Some c"] split: if_splits option.splits)
  from "1.prems"(2) show ?case
  proof (cases rule: ancestor.cases)
    case ancestor_refl
    have "s_revocation_mode st = Direct" if "revoked_at st \<noteq> None" using st(4) that by (cases "s_revocation_mode st") auto
    then show ?thesis using st(1,3) ancestor_refl by auto
  next
    case (ancestor_up st' p)
    then have "lineage_loop sts leaf (Some p) (c # seen) (depth + 1) = None" "s_parent st = Some p" using st(1,5) by auto
    with "1.hyps"[OF refl st(2,1,3,4), of p] ancestor_up show ?thesis by simp
  qed
qed

text \<open>
  Property C28. A reservation that the store grants was asked of a registered capability that is not revoked,
  whose ancestors are all registered, and none of whose ancestors is revoked in cascading mode.
\<close>

theorem reserve_needs_live_lineage:
  assumes "reserveSpend timeout uuid q s = (Ok res, s')" "ancestor (states s) (q_capability_id q) a"
  shows "\<exists>st. map_get (states s) a = Some st \<and> (revoked_at st \<noteq> None \<longrightarrow> a \<noteq> q_capability_id q \<and> s_revocation_mode st = Direct)"
proof -
  have "capabilityLineageRefusal (states s) (q_capability_id q) = None"
    using assms(1) by (auto simp: reserveSpend_def refuse_def simp del: run_checks_None split: option.splits sum.splits if_splits)
  then show ?thesis using lineage_loop_None[OF _ assms(2)] by (simp add: capabilityLineageRefusal_def)
qed

subsection \<open>Freezing a control domain\<close>

text \<open>An operation knows an epoch of its domain at which the domain was active.\<close>

definition bound_ok :: "cap_store \<Rightarrow> operation \<Rightarrow> bool" where
  "bound_ok s op \<longleftrightarrow> (\<forall>d. o_control_domain_id op = Some d \<longrightarrow> (\<exists>dm e. map_get (controlDomains s) d = Some dm
     \<and> o_reserved_control_epoch op = Some e \<and> (e < cd_epoch dm \<or> e = cd_epoch dm \<and> cd_status dm = Domain_active)))"

definition domains_inv :: "cap_store \<Rightarrow> bool" where
  "domains_inv s \<longleftrightarrow> ids_match (controlDomains s) \<and> (\<forall>key op. map_get (operations s) key = Some op \<longrightarrow> bound_ok s op)"

lemma bound_ok_put [simp]: "bound_ok (put_state cid st s) op = bound_ok s op" "bound_ok (put_operation key x s) op = bound_ok s op"
  by (simp_all add: bound_ok_def)

lemma bound_ok_terms: "same_terms op op' \<Longrightarrow> bound_ok s op \<Longrightarrow> bound_ok s op'"
  by (simp add: bound_ok_def same_terms_def)

lemma bound_ok_advance:
  assumes "bound_ok s op" "domains_advance (controlDomains s) (controlDomains s')"
  shows "bound_ok s' op"
  unfolding bound_ok_def
proof (intro allI impI)
  fix d assume d: "o_control_domain_id op = Some d"
  then obtain dm e where dm: "map_get (controlDomains s) d = Some dm" "o_reserved_control_epoch op = Some e"
    "e < cd_epoch dm \<or> e = cd_epoch dm \<and> cd_status dm = Domain_active" using assms(1) unfolding bound_ok_def by blast
  obtain dm' where "map_get (controlDomains s') d = Some dm'" "dm' = dm \<or> cd_epoch dm < cd_epoch dm'"
    using assms(2) dm(1) unfolding domains_advance_def by blast
  then show "\<exists>dm e. map_get (controlDomains s') d = Some dm \<and> o_reserved_control_epoch op = Some e
      \<and> (e < cd_epoch dm \<or> e = cd_epoch dm \<and> cd_status dm = Domain_active)" using dm by auto
qed

lemma effect_domains: "cap_effect s s' \<Longrightarrow> domains_inv s \<Longrightarrow> domains_inv s'"
proof (induction rule: cap_effect.induct)
  case (E_domains s' s)
  then show ?case using bound_ok_advance[OF _ E_domains(4)] by (simp add: domains_inv_def)
next
  case (E_reserve s key op st)
  have "bound_ok s op" using E_reserve(7,8) by (fastforce simp: bound_ok_def domains_inv_def ids_match_def)
  then show ?case using E_reserve(8) by (auto simp: domains_inv_def bound_ok_def)
next
  case (E_move s key op st op' st')
  then show ?case using bound_ok_terms by (auto simp: domains_inv_def)
next
  case (E_note s key op op')
  then show ?case using bound_ok_terms by (auto simp: domains_inv_def)
qed (auto simp: domains_inv_def)

interpretation binding: store_invariant "cap_step dparse verify fp timeout" domains_inv for dparse verify fp timeout
  by unfold_locales (rule effect_domains[OF step_effect])

text \<open>What later effects keep of an operation whose domain has moved on.\<close>

definition overtaken :: "string \<Rightarrow> string \<Rightarrow> cap_store \<Rightarrow> bool" where
  "overtaken key d s \<longleftrightarrow> (\<exists>op dm e. map_get (operations s) key = Some op \<and> o_control_domain_id op = Some d
     \<and> o_reserved_control_epoch op = Some e \<and> map_get (controlDomains s) d = Some dm \<and> e < cd_epoch dm)"

lemma effect_overtaken: "cap_effect s s' \<Longrightarrow> overtaken key d s \<Longrightarrow> overtaken key d s'"
proof (induction rule: cap_effect.induct)
  case (E_domains s' s)
  then obtain op dm e where o: "map_get (operations s) key = Some op" "o_control_domain_id op = Some d"
    "o_reserved_control_epoch op = Some e" "map_get (controlDomains s) d = Some dm" "e < cd_epoch dm" by (auto simp: overtaken_def)
  obtain dm' where "map_get (controlDomains s') d = Some dm'" "dm' = dm \<or> cd_epoch dm < cd_epoch dm'"
    using E_domains(4) o(4) unfolding domains_advance_def by blast
  then show ?case using o E_domains(1) by (auto simp: overtaken_def)
next
  case (E_reserve s key' op st)
  then show ?case by (auto simp: overtaken_def)
next
  case (E_move s key' op st op' st')
  then show ?case by (auto simp: overtaken_def same_terms_def)
next
  case (E_note s key' op op')
  then show ?case by (auto simp: overtaken_def same_terms_def)
qed (auto simp: overtaken_def)

interpretation overtaking: store_invariant "cap_step dparse verify fp timeout" "overtaken key d" for dparse verify fp timeout key d
  by unfold_locales (rule effect_overtaken[OF step_effect])

lemma overtaken_no_entry:
  assumes "overtaken (operationKey (entry_namespace n) (n_operation_id n)) d s"
  shows "\<not> is_ok (fst (beginProviderEntry n s))"
proof -
  obtain op dm e where o: "map_get (operations s) (operationKey (entry_namespace n) (n_operation_id n)) = Some op"
    "o_control_domain_id op = Some d" "o_reserved_control_epoch op = Some e" "map_get (controlDomains s) d = Some dm" "e < cd_epoch dm"
    using assms by (auto simp: overtaken_def)
  have "entry_domain n op s \<noteq> Bound" using o by (auto simp: entry_domain_def split: option.splits)
  then show ?thesis
    using o by (auto simp: beginProviderEntry_def Let_def simp del: run_checks_None split: option.splits sum.splits domain_binding.splits if_splits)
qed

text \<open>
  Property C16. Once a control domain is freshly frozen, an operation that was reserved under it before never
  enters its provider: in every later store, also after the domain is restored, the entry is refused or
  throws.
\<close>

theorem freeze_blocks_entry:
  assumes "cap_run dparse verify fp timeout empty_store s"
    and "map_get (operations s) (operationKey (entry_namespace n) (n_operation_id n)) = Some op"
    and "o_control_domain_id op = Some (to_control_domain_id q)"
    and "transitionMemoryControlDomain Freeze answer q s = (Ok res, s1)" "\<not> tr_idempotent res"
    and "cap_run dparse verify fp timeout s1 s2"
  shows "\<not> is_ok (fst (beginProviderEntry n s2))"
proof -
  let ?key = "operationKey (entry_namespace n) (n_operation_id n)" and ?d = "to_control_domain_id q"
  have "domains_inv empty_store" by (simp add: domains_inv_def ids_match_def empty_store_def)
  with assms(1) have inv: "domains_inv s" by (rule binding.run_keeps)
  then have "bound_ok s op" using assms(2) unfolding domains_inv_def by blast
  then obtain dm e where b: "map_get (controlDomains s) ?d = Some dm" "o_reserved_control_epoch op = Some e"
    "e < cd_epoch dm \<or> e = cd_epoch dm \<and> cd_status dm = Domain_active" using assms(3) unfolding bound_ok_def by blast
  have "overtaken ?key ?d s1"
    using assms(4)
  proof (cases rule: transition_cases)
    case unchanged
    then show ?thesis using assms(5) by simp
  next
    case (frozen dm' x i t)
    then show ?thesis using assms(2,3) b by (auto simp: overtaken_def)
  next
    case (changed dm' dm'' x i t)
    then show ?thesis using assms(2,3) b by (auto simp: overtaken_def)
  qed
  with assms(6) have "overtaken ?key ?d s2" by (rule overtaking.run_keeps)
  then show ?thesis by (rule overtaken_no_entry)
qed

subsection \<open>A run\<close>

text \<open>One capability and one control domain; a reservation under the domain, which is then frozen.\<close>

definition sample_digest :: string where
  "sample_digest = ''sha256:'' @ replicate 64 CHR ''a''"

definition sample_receipt :: capability_receipt where
  "sample_receipt = \<lparr>e_version = CAPABILITY_RECEIPT_VERSION,
     e_receipt = \<lparr>r_version = ''EP-RECEIPT-v1'', r_receipt_id = ''r1'', r_capability_only = True\<rparr>,
     e_capability = \<lparr>c_version = CAPABILITY_STATE_VERSION, c_id = ''c1'', c_secret_hash = sample_digest, c_amount = Integral 100,
       c_currency = ''USD'', c_consumed = Integral 0, c_threshold = \<lparr>th_m = Integral 1, th_n = Integral 1\<rparr>, c_revocation_mode = ''direct'',
       c_scope = Digest_scope [sample_digest] ''op'', c_delegation_chain = [], c_expiry = ''later''\<rparr>,
     e_signature = Some \<lparr>g_algorithm = ''Ed25519'', g_public_key = ''key'', g_value = ''sig''\<rparr>\<rparr>"

definition sample_dparse :: date_parse_fun where
  "sample_dparse s = Some 1000"

definition sample_verify :: "capability_receipt \<Rightarrow> bool option" where
  "sample_verify e = Some True"

definition sample_fp :: "capability_receipt \<Rightarrow> string" where
  "sample_fp e = sample_digest"

definition sample_state :: cap_state where
  "sample_state = \<lparr>s_capability_id = ''c1'', s_fingerprint = sample_digest, budget_amount = 100, s_currency = ''USD'', expires_at = 1000,
     s_revocation_mode = Direct, s_parent = None, allowance_profile_id = None, allowance_digest = None, consumed_amount = 0,
     reserved_amount = 0, revoked_at = None\<rparr>"

definition sample_domain :: control_domain where
  "sample_domain = \<lparr>cd_id = ''dom'', cd_status = Domain_active, cd_epoch = 1, cd_frozen_at = None, cd_frozen_by_digest = None, cd_updated_at = 1\<rparr>"

definition sample_request :: reserve_options where
  "sample_request = \<lparr>q_capability_id = ''c1'', q_fingerprint = sample_digest, q_namespace = None, q_operation_id = ''op1'',
     q_action_digest = sample_digest, q_action_fence_digest = None, q_amount = Integral 40, q_currency = ''USD'',
     q_control_domain_id = Some ''dom'', q_allowance_status = None, q_now = Integral 2\<rparr>"

definition sample_op :: operation where
  "sample_op = new_operation sample_request ''0123456789abcdef'' 2 1000 (Some sample_domain)"

definition sample_key :: string where
  "sample_key = operationKey ''c1'' ''op1''"

definition sample_registered :: cap_store where
  "sample_registered = empty_store\<lparr>states := [(''c1'', sample_state)]\<rparr>"

definition sample_ready :: cap_store where
  "sample_ready = sample_registered\<lparr>controlDomains := [(''dom'', sample_domain)]\<rparr>"

definition sample_reserved :: cap_store where
  "sample_reserved = sample_ready\<lparr>operations := [(sample_key, sample_op)], states := [(''c1'', sample_state\<lparr>reserved_amount := 40\<rparr>)],
     actionHolders := [(actionKey ''c1'' sample_digest, sample_key)]\<rparr>"

definition sample_transition :: transition_options where
  "sample_transition = \<lparr>to_control_domain_id = ''dom'', to_operation_id = ''freeze1'', to_action_digest = sample_digest, to_now = Integral 3\<rparr>"

definition sample_answer :: "verifier_answer option" where
  "sample_answer = Some \<lparr>va_authenticated = True, va_authorized = True, va_authority_instance_digest = sample_digest, va_action_digest = sample_digest\<rparr>"

definition sample_entry :: entry_options where
  "sample_entry = \<lparr>n_capability_id = ''c1'', n_namespace = None, n_operation_id = ''op1'', n_reservation_token = Some ''0123456789abcdef'',
     n_control_domain_id = Some ''dom'', n_now = Integral 4\<rparr>"

lemma sample_patterns: "sha256_re sample_digest" "action_field_re ''op''" "boundedIdentifier ''dom''"
  by code_simp+

lemma sample_shape: "assertCapabilityShape sample_dparse (e_capability sample_receipt) = Inr ()"
  by (simp add: run_checks.simps assertCapabilityShape_def sample_receipt_def validateCapabilityId_def validateAmount_def validateCurrency_def
      validateExpiry_def sample_dparse_def sample_patterns validateThreshold_def safe_int_def max_safe_def normalizeRevocationMode_def
      scope_members_ok_def MAX_SCOPE_ACTIONS_def ACTION_DIGEST_RE_def assertDelegationChain_def MAX_DELEGATES_def)

lemma sample_register: "snd (registerCapability sample_dparse sample_verify sample_fp sample_receipt empty_store) = sample_registered"
proof -
  have "verifyCapabilityReceiptIntegrity sample_dparse sample_verify sample_receipt = Inr ''key''"
    using sample_shape by (simp add: verifyCapabilityReceiptIntegrity_def verifyCapabilityReceipt_def capabilitySignature_def
      verifyTrustedIssuer_def validateBaseReceipt_def run_checks.simps sample_verify_def sample_receipt_def)
  moreover have "capabilityStateFromEnvelope sample_dparse sample_fp sample_receipt = Inr sample_state"
    by (simp add: capabilityStateFromEnvelope_def Let_def sample_receipt_def normalizeRevocationMode_def sample_dparse_def sample_fp_def sample_state_def)
  ultimately show ?thesis
    by (simp add: registerCapability_def empty_store_def sample_registered_def) (simp add: sample_state_def)
qed

lemma sample_domain_step: "snd (registerControlDomain (Integral 1) ''dom'' sample_registered) = sample_ready"
  by (simp add: run_checks.simps registerControlDomain_def validateControlDomainId_def sample_patterns nowMs_def safe_int_def max_safe_def
      sample_registered_def sample_ready_def empty_store_def sample_domain_def)

lemma sample_lineage: "capabilityLineageRefusal [(''c1'', sample_state)] ''c1'' = None"
  by (simp add: capabilityLineageRefusal_def lineage_loop.simps sample_state_def MAX_DELEGATES_def)

definition sample_reservation :: reserve_ok where
  "sample_reservation = \<lparr>ok_operation_id = ''op1'', ok_action_digest = sample_digest, ok_action_fence_digest = sample_digest, ok_reservation_token = ''0123456789abcdef'', ok_entry_deadline_at = 1000,
     ok_control_domain_id = Some ''dom'', ok_reserved_control_epoch = Some 1, ok_remaining = 60\<rparr>"

lemma sample_request_fields: "reserve_namespace sample_request = ''c1''" "reserve_fence sample_request = sample_digest"
  "q_capability_id sample_request = ''c1''" "q_operation_id sample_request = ''op1''" "q_now sample_request = Integral 2"
  "q_currency sample_request = s_currency sample_state" "q_amount sample_request = Integral 40" "q_action_digest sample_request = sample_digest"
  by (simp_all add: reserve_namespace_def reserve_fence_def sample_request_def sample_state_def)

lemma sample_ready_fields: "states sample_ready = [(''c1'', sample_state)]" "operations sample_ready = []" "actionHolders sample_ready = []"
  by (simp_all add: sample_ready_def sample_registered_def empty_store_def)

lemma sample_budget: "reserve_budget 30000 ''0123456789abcdef'' sample_request (Some sample_domain) sample_state sample_key sample_ready
    = (Ok sample_reservation, sample_reserved)"
proof -
  have n: "nowMs (Integral 2) = Inr 2" by (simp add: nowMs_def safe_int_def max_safe_def)
  have st: "expires_at sample_state = 1000" "consumed_amount sample_state = 0" "reserved_amount sample_state = 0" "budget_amount sample_state = 100"
    "cd_id sample_domain = ''dom''" "cd_epoch sample_domain = 1"
    by (simp_all add: sample_state_def sample_domain_def)
  have d: "entryDeadline 2 1000 30000 = 1000" by (simp add: entryDeadline_def max_safe_def)
  show ?thesis
    by (simp add: reserve_budget_def n st d Let_def sample_request_fields sample_ready_fields sample_reservation_def sample_reserved_def sample_op_def)
qed

lemma cap_sample_reserve: "reserveSpend 30000 ''0123456789abcdef'' sample_request sample_ready = (Ok sample_reservation, sample_reserved)"
proof -
  have checks: "run_checks ([validateOperationId (q_operation_id sample_request), validateOperationNamespace (reserve_namespace sample_request),
      validateActionDigest (q_action_digest sample_request), validateActionDigest (reserve_fence sample_request),
      validateSpendAmount (q_amount sample_request), validateCurrency (q_currency sample_request)]
      @ (case q_control_domain_id sample_request of None \<Rightarrow> [] | Some d \<Rightarrow> [validateControlDomainId d])) = None"
    by (simp add: sample_request_fields validateOperationId_def validateOperationNamespace_def validateActionDigest_def ACTION_DIGEST_RE_def
        sample_patterns validateSpendAmount_def validateCurrency_def validateControlDomainId_def safe_int_def max_safe_def)
      (simp add: sample_request_def sample_patterns sample_state_def)
  have dm: "reserve_domain sample_request sample_ready = Inr (Some sample_domain)"
    by (simp add: reserve_domain_def sample_request_def sample_ready_def sample_domain_def)
  have fp: "s_fingerprint sample_state = q_fingerprint sample_request" by (simp add: sample_state_def sample_request_def)
  have al: "reserve_allowance sample_request sample_state sample_ready = None"
    by (simp add: reserve_allowance_def sample_state_def) (simp add: sample_request_def)
  have hold: "action_holder sample_ready ''c1'' sample_digest = None" by (simp add: action_holder_def sample_ready_fields)
  show ?thesis
    unfolding reserveSpend_def checks option.case dm sum.case
    by (simp add: sample_request_fields sample_ready_fields fp sample_lineage al hold Let_def sample_budget flip: sample_key_def)
qed

lemma cap_sample_runs:
  "cap_run sample_dparse sample_verify sample_fp 30000 empty_store sample_ready"
  "cap_run sample_dparse sample_verify sample_fp 30000 empty_store sample_reserved"
proof -
  let ?step = "cap_step sample_dparse sample_verify sample_fp 30000"
  have steps: "?step empty_store sample_registered" "?step sample_registered sample_ready" "?step sample_ready sample_reserved"
    using cap_step.intros(1)[of sample_dparse sample_verify sample_fp 30000 empty_store sample_receipt]
      cap_step.intros(3)[of sample_dparse sample_verify sample_fp 30000 sample_registered "Integral 1" "''dom''"]
      cap_step.intros(6)[of sample_dparse sample_verify sample_fp 30000 sample_ready "''0123456789abcdef''" sample_request]
    by (simp_all add: sample_register sample_domain_step cap_sample_reserve)
  then show "cap_run sample_dparse sample_verify sample_fp 30000 empty_store sample_ready" by (meson rtranclp.rtrancl_into_rtrancl rtranclp.rtrancl_refl)
  then show "cap_run sample_dparse sample_verify sample_fp 30000 empty_store sample_reserved" using steps(3) by (rule rtranclp.rtrancl_into_rtrancl)
qed

lemma sample_reserved_fields: "map_get (states sample_reserved) ''c1'' = Some (sample_state\<lparr>reserved_amount := 40\<rparr>)"
  "map_get (operations sample_reserved) sample_key = Some sample_op" "o_status sample_op = Reserved" "o_control_domain_id sample_op = Some ''dom''"
  by (simp_all add: sample_reserved_def sample_op_def new_operation_def sample_domain_def)

theorem capability_budget_conserved_witness:
  "amounts (spent_on ''c1'') sample_reserved = 0 \<and> amounts (held_on ''c1'') sample_reserved + amounts (stranded_on ''c1'') sample_reserved = 40"
  using capability_budget_conserved[OF cap_sample_runs(2) sample_reserved_fields(1)] by (simp add: sample_state_def)

theorem action_fence_exclusive_witness:
  "{k. map_get (operations sample_reserved) k = Some sample_op} = {sample_key}"
  using action_fence_exclusive[OF cap_sample_runs(2) _ sample_reserved_fields(2), of _ sample_op] sample_reserved_fields(2,3)
  by (auto simp: ACTION_HOLDING_STATUSES_def)

theorem reserve_needs_live_lineage_witness:
  "\<exists>st. map_get (states sample_ready) ''c1'' = Some st \<and> revoked_at st = None"
  using reserve_needs_live_lineage[OF cap_sample_reserve, of "''c1''"] by (auto simp: sample_request_fields ancestor_refl)

lemma sample_freeze: "\<exists>res s1. transitionMemoryControlDomain Freeze sample_answer sample_transition sample_reserved = (Ok res, s1) \<and> \<not> tr_idempotent res"
proof -
  have v: "verifyControlTransitionRequest sample_answer sample_digest = Some (True, sample_digest)"
    by (simp add: verifyControlTransitionRequest_def sample_answer_def ACTION_DIGEST_RE_def sample_patterns)
  have t: "to_control_domain_id sample_transition = ''dom''" "to_operation_id sample_transition = ''freeze1''"
    "to_action_digest sample_transition = sample_digest" "to_now sample_transition = Integral 3" by (simp_all add: sample_transition_def)
  have e: "controlDomainEvents sample_reserved = []" "map_get (controlDomains sample_reserved) ''dom'' = Some sample_domain"
    by (simp_all add: sample_reserved_def sample_ready_def sample_registered_def empty_store_def)
  show ?thesis
    by (simp add: transitionMemoryControlDomain_def t v e validateControlDomainId_def validateOperationId_def validateActionDigest_def
        ACTION_DIGEST_RE_def sample_patterns nowMs_def safe_int_def max_safe_def apply_domain_transition_def sample_domain_def Let_def)
qed

theorem freeze_blocks_entry_witness:
  "\<exists>res s1. transitionMemoryControlDomain Freeze sample_answer sample_transition sample_reserved = (Ok res, s1)
     \<and> \<not> is_ok (fst (beginProviderEntry sample_entry s1))"
proof -
  obtain res s1 where f: "transitionMemoryControlDomain Freeze sample_answer sample_transition sample_reserved = (Ok res, s1)" "\<not> tr_idempotent res"
    using sample_freeze by blast
  have "operationKey (entry_namespace sample_entry) (n_operation_id sample_entry) = sample_key"
    by (simp add: entry_namespace_def sample_entry_def sample_key_def)
  then have "map_get (operations sample_reserved) (operationKey (entry_namespace sample_entry) (n_operation_id sample_entry)) = Some sample_op"
    using sample_reserved_fields(2) by simp
  from freeze_blocks_entry[OF cap_sample_runs(2) this _ f rtranclp.rtrancl_refl] f(1) show ?thesis
    by (auto simp: sample_reserved_fields(4) sample_transition_def)
qed

text \<open>
  A stale entry whose clock is invalid throws with the operation released and its amount still reserved: this is
  how an operation of \<open>stranded_on\<close> comes about.
\<close>

lemma stale_entry_strands_budget:
  assumes "map_get (operations s) (operationKey (entry_namespace n) (n_operation_id n)) = Some op"
    and "map_get (states s) (n_capability_id n) = Some st" "o_capability_id op = n_capability_id n" "o_status op = Reserved"
    and "n_reservation_token n = Some (o_reservation_token op)" "16 \<le> length (o_reservation_token op)"
    and "entry_domain n op s = Stale dm" "nowMs (n_now n) = Inl m"
    and "run_checks [validateOperationId (n_operation_id n), validateOperationNamespace (entry_namespace n)] = None"
  shows "\<exists>s' op'. beginProviderEntry n s = (Throw m, s') \<and> map_get (operations s') (operationKey (entry_namespace n) (n_operation_id n)) = Some op'
    \<and> o_status op' = Released \<and> o_released_at op' = o_released_at op \<and> states s' = states s"
  using assms by (simp add: beginProviderEntry_def Let_def del: run_checks_None)

end
