(* ===== verification/Capability_Effects.thy ===== *)
theory Capability_Effects
  imports Capability_Execution Capability_Safety
begin

section \<open>Effects under capabilities\<close>

text \<open>
  Any number of executions share one store. Their phases are interleaved with each other and with every other
  use of the store; an execution may stop at any point and never continue. The log has the plan of every
  external effect that was started, in order.
\<close>

record exec_system =
  sy_store :: cap_store
  sy_threads :: "(exec_plan \<times> phase) list"
  sy_log :: "exec_plan list"

definition sys_start :: exec_system where
  "sys_start = \<lparr>sy_store = empty_store, sy_threads = [], sy_log = []\<rparr>"

inductive sys_step :: "exec_env \<Rightarrow> exec_system \<Rightarrow> exec_system \<Rightarrow> bool" for x where
  arrives: "prepare x q = Inr p \<Longrightarrow> sys_step x c (c\<lparr>sy_threads := sy_threads c @ [(p, At_reserve)]\<rparr>)"
| proceeds: "i < length (sy_threads c) \<Longrightarrow> sy_threads c ! i = (p, ph) \<Longrightarrow> exec_phase x p a ph (sy_store c) = (ph', s') \<Longrightarrow>
    sys_step x c \<lparr>sy_store = s', sy_threads = (sy_threads c)[i := (p, ph')], sy_log = sy_log c @ (if runs_effect ph then [p] else [])\<rparr>"
| outside: "cap_step (x_dparse x) (x_verify x) (x_fingerprint x) (x_entry_timeout x) (sy_store c) s' \<Longrightarrow> sys_step x c (c\<lparr>sy_store := s'\<rparr>)"

subsection \<open>What a phase does to the store\<close>

definition plan_key :: "exec_plan \<Rightarrow> string" where
  "plan_key p = operationKey (pl_namespace p) (pl_operation_id p)"

definition plan_op :: "exec_plan \<Rightarrow> operation \<Rightarrow> bool" where
  "plan_op p op \<longleftrightarrow> o_namespace op = pl_namespace p \<and> o_action_fence_digest op = pl_fence p \<and> o_amount op = pl_amount p
     \<and> o_capability_id op = pl_capability_id p"

definition spent :: "operation \<Rightarrow> bool" where
  "spent op \<longleftrightarrow> o_status op \<in> {Provider_entered, Committed}"

lemma terms_plan: "same_terms op op' \<Longrightarrow> plan_op p op' = plan_op p op"
  by (auto simp: same_terms_def plan_op_def)

lemma phase_store:
  assumes "exec_phase x p a ph s = (ph', s')"
  shows "s' = s \<or> cap_step (x_dparse x) (x_verify x) (x_fingerprint x) (x_entry_timeout x) s s'"
proof -
  note step = cap_step.intros[of "x_dparse x" "x_verify x" "x_fingerprint x" "x_entry_timeout x" s]
  have "s' = snd (reserveSpend (x_entry_timeout x) (an_uuid a) (reserve_request p (an_now a)) s)" if "ph = At_reserve"
    using assms that by (auto simp: exec_phase_def reserve_phase_def split: prod.splits outcome.splits)
  moreover have "s' = s \<or> (\<exists>q. s' = snd (recoverPreEntrySpend q s))" if "ph = At_guard t" for t
    using assms that by (auto simp: exec_phase_def guard_phase_def Let_def split: prod.splits outcome.splits sum.splits if_splits) (metis snd_conv)+
  moreover have "s' = snd (beginProviderEntry (entry_request p t (an_now a)) s)" if "ph = At_enter t" for t
    using assms that by (auto simp: exec_phase_def enter_phase_def split: prod.splits outcome.splits)
  moreover have "\<exists>q. s' = snd (commitSpend q s)" if "ph = At_commit t \<or> ph = At_commit_indeterminate t" for t
    using assms that by (auto simp: exec_phase_def commit_phase_def indeterminate_phase_def split: prod.splits outcome.splits) (metis snd_conv)+
  moreover have "s' = s" if "ph = At_effect t \<or> ph = At_end r" for t r
    using assms that by (auto simp: exec_phase_def)
  ultimately show ?thesis by (cases ph) (use step in metis)+
qed

lemma effect_keeps:
  "cap_effect s s' \<Longrightarrow> map_get (operations s) k = Some op \<Longrightarrow>
   \<exists>op'. map_get (operations s') k = Some op' \<and> same_terms op op' \<and> (spent op \<longrightarrow> spent op')"
  by (induction rule: cap_effect.induct) (auto simp: spent_def)

lemma reserve_granted:
  assumes "reserveSpend timeout uuid q s = (Ok r, s')"
  shows "map_get (operations s) (operationKey (reserve_namespace q) (q_operation_id q)) = None"
    and "\<exists>op. map_get (operations s') (operationKey (reserve_namespace q) (q_operation_id q)) = Some op \<and> o_namespace op = reserve_namespace q
      \<and> o_action_fence_digest op = reserve_fence q \<and> o_amount op = num_val (q_amount q) \<and> o_capability_id op = q_capability_id q"
  using assms
  by (auto simp: reserveSpend_def reserve_budget_def refuse_def new_operation_def Let_def simp del: run_checks_None
      split: option.splits sum.splits if_splits)

lemma entry_granted:
  assumes "beginProviderEntry q s = (Ok r, s')"
  shows "\<exists>op. map_get (operations s') (operationKey (entry_namespace q) (n_operation_id q)) = Some op \<and> spent op"
  using assms
  by (auto simp: beginProviderEntry_def refuse_def Let_def spent_def simp del: run_checks_None
      split: option.splits sum.splits if_splits domain_binding.splits)

subsection \<open>The invariant of the system\<close>

text \<open>An engaged execution has reserved and has not ended; a pending one has not run its effect either.\<close>

definition engaged :: "phase \<Rightarrow> bool" where
  "engaged ph \<longleftrightarrow> (case ph of At_reserve \<Rightarrow> False | At_end r \<Rightarrow> False | _ \<Rightarrow> True)"

definition pending :: "phase \<Rightarrow> bool" where
  "pending ph \<longleftrightarrow> (case ph of At_guard t \<Rightarrow> True | At_enter t \<Rightarrow> True | At_effect t \<Rightarrow> True | _ \<Rightarrow> False)"

definition thread_ok :: "cap_store \<Rightarrow> exec_plan list \<Rightarrow> exec_plan \<times> phase \<Rightarrow> bool" where
  "thread_ok s effects t \<longleftrightarrow> (engaged (snd t) \<longrightarrow> (\<exists>op. map_get (operations s) (plan_key (fst t)) = Some op \<and> plan_op (fst t) op
     \<and> (runs_effect (snd t) \<longrightarrow> spent op))) \<and> (pending (snd t) \<longrightarrow> plan_key (fst t) \<notin> plan_key ` set effects)"

definition logged_ok :: "cap_store \<Rightarrow> exec_plan \<Rightarrow> bool" where
  "logged_ok s p \<longleftrightarrow> (\<exists>op. map_get (operations s) (plan_key p) = Some op \<and> plan_op p op \<and> spent op)"

definition disjoint_threads :: "(exec_plan \<times> phase) list \<Rightarrow> bool" where
  "disjoint_threads ts \<longleftrightarrow> distinct (map (\<lambda>t. plan_key (fst t)) (filter (\<lambda>t. engaged (snd t)) ts))"

definition sys_inv :: "exec_system \<Rightarrow> bool" where
  "sys_inv c \<longleftrightarrow> accounts_inv (sy_store c) \<and> fence_inv (sy_store c)
     \<and> list_all (thread_ok (sy_store c) (sy_log c)) (sy_threads c) \<and> disjoint_threads (sy_threads c)
     \<and> list_all (logged_ok (sy_store c)) (sy_log c) \<and> distinct (map plan_key (sy_log c))"

text \<open>Whatever changes the store keeps the threads and the log in order.\<close>

lemma store_keeps:
  assumes "cap_effect s s'"
  shows "thread_ok s effects t \<Longrightarrow> thread_ok s' effects t" and "logged_ok s p \<Longrightarrow> logged_ok s' p"
proof -
  have keep: "\<exists>op'. map_get (operations s') k = Some op' \<and> plan_op p op' \<and> (b \<longrightarrow> spent op')"
    if "map_get (operations s) k = Some op" "plan_op p op" "b \<longrightarrow> spent op" for k p op b
    using effect_keeps[OF assms that(1)] that(2,3) terms_plan by blast
  show "thread_ok s effects t \<Longrightarrow> thread_ok s' effects t" unfolding thread_ok_def using keep by blast
  show "logged_ok s p \<Longrightarrow> logged_ok s' p" unfolding logged_ok_def using keep[where b = True] by blast
qed

lemma sys_inv_store:
  assumes "cap_step (x_dparse x) (x_verify x) (x_fingerprint x) (x_entry_timeout x) (sy_store c) s'" "sys_inv c"
  shows "sys_inv (c\<lparr>sy_store := s'\<rparr>)"
proof -
  have eff: "cap_effect (sy_store c) s'" by (rule step_effect[OF assms(1)])
  show ?thesis
    using assms(2) effect_accounts[OF eff] effect_fence[OF eff] store_keeps[OF eff] unfolding sys_inv_def
    by (auto simp: list_all_iff)
qed

lemma phase_next:
  assumes "exec_phase x p a ph s = (ph', s')"
  shows "engaged ph' \<Longrightarrow> ph \<noteq> At_reserve \<Longrightarrow> engaged ph" and "pending ph' \<Longrightarrow> ph \<noteq> At_reserve \<Longrightarrow> pending ph \<and> \<not> runs_effect ph"
    and "runs_effect ph' \<Longrightarrow> \<exists>t. ph = At_enter t"
  using assms
  by (cases ph; auto simp: exec_phase_def engaged_def pending_def runs_effect_def reserve_phase_def guard_phase_def enter_phase_def commit_phase_def
    indeterminate_phase_def Let_def split: prod.splits outcome.splits sum.splits if_splits)+

lemma reserved_now:
  assumes "exec_phase x p a At_reserve s = (ph', s')" "engaged ph'"
  shows "map_get (operations s) (plan_key p) = None" "\<exists>op. map_get (operations s') (plan_key p) = Some op \<and> plan_op p op" "\<not> runs_effect ph'"
proof -
  obtain r where r: "reserveSpend (x_entry_timeout x) (an_uuid a) (reserve_request p (an_now a)) s = (Ok r, s')"
    using assms by (auto simp: exec_phase_def reserve_phase_def engaged_def split: prod.splits outcome.splits)
  show "map_get (operations s) (plan_key p) = None" "\<exists>op. map_get (operations s') (plan_key p) = Some op \<and> plan_op p op"
    using reserve_granted[OF r] by (auto simp: plan_key_def plan_op_def reserve_request_def reserve_namespace_def reserve_fence_def)
  show "\<not> runs_effect ph'" using assms by (auto simp: exec_phase_def reserve_phase_def runs_effect_def split: prod.splits outcome.splits if_splits)
qed

lemma entered_now:
  assumes "exec_phase x p a (At_enter t) s = (ph', s')" "engaged ph'"
  shows "\<exists>op. map_get (operations s') (plan_key p) = Some op \<and> spent op"
proof -
  obtain r where "beginProviderEntry (entry_request p t (an_now a)) s = (Ok r, s')"
    using assms by (auto simp: exec_phase_def enter_phase_def engaged_def split: prod.splits outcome.splits)
  from entry_granted[OF this] show ?thesis by (simp add: plan_key_def entry_request_def entry_namespace_def)
qed

text \<open>Replacing one thread by its next phase.\<close>

lemma disjoint_update:
  assumes "disjoint_threads ts" "i < length ts" "ts ! i = (p, ph)"
    and "engaged ph' \<Longrightarrow> engaged ph \<or> (\<forall>t \<in> set ts. engaged (snd t) \<longrightarrow> plan_key (fst t) \<noteq> plan_key p)"
  shows "disjoint_threads (ts[i := (p, ph')])"
proof -
  obtain us vs where ts: "ts = us @ (p, ph) # vs" and i: "length us = i"
    using assms(2,3) by (metis id_take_nth_drop length_take min_absorb2 less_imp_le)
  have upd: "ts[i := (p, ph')] = us @ (p, ph') # vs" unfolding ts using i by (simp add: list_update_append)
  have "disjoint_threads (us @ (p, ph') # vs)"
    using assms(1,4) unfolding disjoint_threads_def ts by (cases "engaged ph"; cases "engaged ph'") force+
  then show ?thesis unfolding upd .
qed

lemma disjoint_other:
  assumes "disjoint_threads ts" "i < length ts" "ts ! i = (p, ph)" "j < length ts" "j \<noteq> i" "engaged ph" "engaged (snd (ts ! j))"
  shows "plan_key (fst (ts ! j)) \<noteq> plan_key p"
proof -
  obtain us vs where ts: "ts = us @ (p, ph) # vs" and i: "length us = i"
    using assms(2,3) by (metis id_take_nth_drop length_take min_absorb2 less_imp_le)
  obtain t where t: "t = ts ! j" by blast
  have "t \<in> set us \<union> set vs"
    using assms(4,5) i unfolding t ts by (cases "j < i") (auto simp: nth_append nth_Cons split: nat.split)
  moreover have "engaged (snd t)" using assms(7) t by simp
  ultimately have "plan_key (fst t) \<in> (\<lambda>t. plan_key (fst t)) ` {t \<in> set us \<union> set vs. engaged (snd t)}" by blast
  moreover have "plan_key p \<notin> (\<lambda>t. plan_key (fst t)) ` {t \<in> set us \<union> set vs. engaged (snd t)}"
    using assms(1,6) unfolding disjoint_threads_def ts by auto
  ultimately show ?thesis unfolding t by metis
qed

lemma sys_inv_arrives: "sys_inv c \<Longrightarrow> sys_inv (c\<lparr>sy_threads := sy_threads c @ [(p, At_reserve)]\<rparr>)"
  by (simp add: sys_inv_def thread_ok_def disjoint_threads_def engaged_def pending_def)

text \<open>One phase of one execution: the thread itself, the other threads and the log.\<close>

lemma proceeds_thread:
  assumes ok: "thread_ok s effects (p, ph)" and before: "\<And>q. q \<in> set effects \<Longrightarrow> logged_ok s q"
    and "exec_phase x p a ph s = (ph', s')"
  shows "thread_ok s' (effects @ (if runs_effect ph then [p] else [])) (p, ph')"
    and "runs_effect ph \<Longrightarrow> logged_ok s' p \<and> plan_key p \<notin> plan_key ` set effects"
proof -
  have eff: "cap_effect s s'" using phase_store[OF assms(3)] step_effect by blast
  note keep = store_keeps[OF eff]
  show "runs_effect ph \<Longrightarrow> logged_ok s' p \<and> plan_key p \<notin> plan_key ` set effects"
    using ok keep(2) by (cases ph) (auto simp: thread_ok_def logged_ok_def runs_effect_def engaged_def pending_def)
  show "thread_ok s' (effects @ (if runs_effect ph then [p] else [])) (p, ph')"
  proof (cases "ph = At_reserve")
    case True
    note res = reserved_now[OF assms(3)[unfolded True]]
    have "plan_key p \<notin> plan_key ` set effects" if "engaged ph'"
      using res(1)[OF that] before by (force simp: logged_ok_def)
    moreover have "pending ph' \<Longrightarrow> engaged ph'" by (cases ph') (auto simp: pending_def engaged_def)
    moreover have "\<not> runs_effect ph" using True by (simp add: runs_effect_def)
    ultimately show ?thesis using res(2,3) by (auto simp: thread_ok_def)
  next
    case False
    note nxt = phase_next[OF assms(3)]
    have "\<exists>op. map_get (operations s') (plan_key p) = Some op \<and> plan_op p op \<and> (runs_effect ph' \<longrightarrow> spent op)" if e: "engaged ph'"
    proof -
      obtain op where op: "map_get (operations s) (plan_key p) = Some op" "plan_op p op"
        using ok nxt(1)[OF e False] by (auto simp: thread_ok_def)
      then obtain op' where op': "map_get (operations s') (plan_key p) = Some op'" "plan_op p op'"
        using effect_keeps[OF eff] terms_plan by blast
      moreover have "spent op'" if "runs_effect ph'"
        using nxt(3)[OF that] entered_now[of x p a _ s ph' s'] assms(3) e op'(1) by fastforce
      ultimately show ?thesis by blast
    qed
    moreover have "plan_key p \<notin> plan_key ` set effects \<and> \<not> runs_effect ph" if "pending ph'"
      using nxt(2)[OF that False] ok by (auto simp: thread_ok_def)
    ultimately show ?thesis by (auto simp: thread_ok_def)
  qed
qed

lemma sys_inv_proceeds:
  assumes "sys_inv c" "i < length (sy_threads c)" "sy_threads c ! i = (p, ph)" "exec_phase x p a ph (sy_store c) = (ph', s')"
  shows "sys_inv \<lparr>sy_store = s', sy_threads = (sy_threads c)[i := (p, ph')], sy_log = sy_log c @ (if runs_effect ph then [p] else [])\<rparr>"
proof -
  let ?log = "sy_log c @ (if runs_effect ph then [p] else [])"
  have mem: "(p, ph) \<in> set (sy_threads c)" using assms(2,3) by (metis nth_mem)
  have now: "thread_ok (sy_store c) (sy_log c) (p, ph)" using assms(1) mem by (auto simp: sys_inv_def list_all_iff)
  have before: "\<And>q. q \<in> set (sy_log c) \<Longrightarrow> logged_ok (sy_store c) q" using assms(1) by (auto simp: sys_inv_def list_all_iff)
  note own = proceeds_thread[OF now before assms(4)]
  have eff: "cap_effect (sy_store c) s'" using phase_store[OF assms(4)] step_effect by blast
  have dis: "disjoint_threads (sy_threads c)" using assms(1) by (simp add: sys_inv_def)
  have others: "thread_ok s' ?log (sy_threads c ! j)" if j: "j < length (sy_threads c)" "j \<noteq> i" for j
  proof -
    obtain t where t: "t = sy_threads c ! j" by blast
    have "t \<in> set (sy_threads c)" using t j by simp
    then have "thread_ok s' (sy_log c) t" using assms(1) store_keeps(1)[OF eff] by (auto simp: sys_inv_def list_all_iff)
    moreover have "plan_key (fst t) \<noteq> plan_key p" if "runs_effect ph" "pending (snd t)"
      unfolding t by (rule disjoint_other[OF dis assms(2,3) j])
        (use that t in \<open>auto simp: runs_effect_def pending_def engaged_def split: phase.splits\<close>)
    ultimately show ?thesis unfolding t[symmetric] by (auto simp: thread_ok_def)
  qed
  have threads: "list_all (thread_ok s' ?log) ((sy_threads c)[i := (p, ph')])"
    unfolding list_all_length
  proof (intro allI impI)
    fix j assume "j < length ((sy_threads c)[i := (p, ph')])"
    then show "thread_ok s' ?log ((sy_threads c)[i := (p, ph')] ! j)"
      using own(1) others[of j] assms(2) by (cases "j = i") (simp_all only: nth_list_update_eq nth_list_update_neq length_list_update not_False_eq_True)
  qed
  have "disjoint_threads ((sy_threads c)[i := (p, ph')])"
  proof (rule disjoint_update[OF dis assms(2,3)])
    assume e: "engaged ph'"
    show "engaged ph \<or> (\<forall>t \<in> set (sy_threads c). engaged (snd t) \<longrightarrow> plan_key (fst t) \<noteq> plan_key p)"
    proof (cases "ph = At_reserve")
      case True
      have "map_get (operations (sy_store c)) (plan_key p) = None" using reserved_now(1)[OF assms(4)[unfolded True] e] .
      then show ?thesis using assms(1) by (force simp: sys_inv_def list_all_iff thread_ok_def)
    qed (use phase_next(1)[OF assms(4) e] in blast)
  qed
  with threads own(2) assms(1) effect_accounts[OF eff] effect_fence[OF eff] store_keeps(2)[OF eff] show ?thesis
    by (auto simp: sys_inv_def list_all_iff)
qed

interpretation executions: store_invariant "sys_step x" sys_inv for x
proof
  fix c c' assume "sys_step x c c'" "sys_inv c"
  then show "sys_inv c'"
  proof (cases rule: sys_step.cases)
    case (proceeds i p ph a ph' s')
    then show ?thesis using sys_inv_proceeds[OF \<open>sys_inv c\<close> proceeds(2-4)] by simp
  qed (auto intro: sys_inv_arrives sys_inv_store)
qed

subsection \<open>Effects once and within the budget\<close>

lemma keyed_sum_le:
  assumes "map_ok m" "distinct (map key xs)"
    and found: "\<And>x. x \<in> set xs \<Longrightarrow> \<exists>v. map_get m (key x) = Some v \<and> P v \<and> f v = g x"
    and nonneg: "\<And>v. v \<in> set (map_values m) \<Longrightarrow> P v \<Longrightarrow> 0 \<le> f v"
  shows "sum_list (map g xs) \<le> sum_where P f (map_values m)"
proof -
  define entry where "entry x = (key x, the (map_get m (key x)))" for x
  have inj: "inj_on entry (set xs)" using assms(2) by (auto simp: distinct_map inj_on_def entry_def)
  have entry: "entry x \<in> set m" "P (snd (entry x))" "f (snd (entry x)) = g x" if "x \<in> set xs" for x
    using found[OF that] by (auto simp: entry_def dest: map_of_SomeD)
  have "sum_list (map g xs) = sum g (set xs)" using assms(2) by (simp add: distinct_map sum_list_distinct_conv_sum_set)
  also have "\<dots> = sum (\<lambda>e. f (snd e)) (entry ` set xs)" using entry(3) by (simp add: sum.reindex[OF inj])
  also have "\<dots> \<le> sum (\<lambda>e. f (snd e)) (set (filter (\<lambda>e. P (snd e)) m))"
    by (rule sum_mono2) (use entry nonneg in \<open>auto simp: map_values_def\<close>)
  also have "\<dots> = sum_where P f (map_values m)"
    using assms(1) by (simp add: sum_where_def map_values_def filter_map o_def sum_list_distinct_conv_sum_set distinct_map del: set_filter)
  finally show ?thesis .
qed

lemma logged_within:
  assumes "sys_inv c"
  shows "sum_list (map pl_amount (filter (\<lambda>p. pl_capability_id p = cid) (sy_log c))) \<le> amounts (spent_on cid) (sy_store c)"
  unfolding amounts_def
proof (rule keyed_sum_le[where key = plan_key])
  show "map_ok (operations (sy_store c))" using assms by (simp add: sys_inv_def accounts_inv_def)
  show "distinct (map plan_key (filter (\<lambda>p. pl_capability_id p = cid) (sy_log c)))"
    using assms by (simp add: sys_inv_def distinct_map_filter)
  show "\<exists>op. map_get (operations (sy_store c)) (plan_key p) = Some op \<and> spent_on cid op \<and> o_amount op = pl_amount p"
    if "p \<in> set (filter (\<lambda>p. pl_capability_id p = cid) (sy_log c))" for p
    using assms that by (fastforce simp: sys_inv_def list_all_iff logged_ok_def plan_op_def spent_on_def spent_def)
  show "0 \<le> o_amount op" if "op \<in> set (map_values (operations (sy_store c)))" for op
    using stored_amount[OF _ that] assms by (simp add: sys_inv_def less_imp_le)
qed

lemma logged_fences:
  assumes "sys_inv c"
  shows "distinct (map (\<lambda>p. (pl_namespace p, pl_fence p)) (sy_log c))"
proof -
  have "inj_on (\<lambda>p. (pl_namespace p, pl_fence p)) (set (sy_log c))"
  proof (rule inj_onI)
    fix p q assume m: "p \<in> set (sy_log c)" "q \<in> set (sy_log c)" and e: "(pl_namespace p, pl_fence p) = (pl_namespace q, pl_fence q)"
    have "map_get (actionHolders (sy_store c)) (actionKey (pl_namespace r) (pl_fence r)) = Some (plan_key r)" if r: "r \<in> set (sy_log c)" for r
    proof -
      obtain op where op: "map_get (operations (sy_store c)) (plan_key r) = Some op" "plan_op r op" "spent op"
        using assms r unfolding sys_inv_def list_all_iff logged_ok_def by blast
      then have "o_status op \<noteq> Released" by (auto simp: spent_def)
      moreover have "fence_inv (sy_store c)" using assms by (simp add: sys_inv_def)
      ultimately show ?thesis using op unfolding fence_inv_def plan_op_def by metis
    qed
    from this[OF m(1)] this[OF m(2)] e have "plan_key p = plan_key q" by simp
    moreover have "inj_on plan_key (set (sy_log c))" using assms by (simp add: sys_inv_def distinct_map)
    ultimately show "p = q" using m by (simp add: inj_on_eq_iff)
  qed
  then show ?thesis using assms by (simp add: sys_inv_def distinct_map)
qed

lemma sys_run_inv: "(sys_step x)\<^sup>*\<^sup>* sys_start c \<Longrightarrow> sys_inv c"
  by (erule executions.run_keeps)
    (simp add: sys_inv_def sys_start_def accounts_inv_def fence_inv_def empty_store_def disjoint_threads_def)

text \<open>
  Property C1. However many executions are interleaved on one store, with each other and with every other use
  of it, and wherever they stop: no two external effects are started for one action fence of a
  namespace, and the amounts of all effects started under a capability never exceed its budget.
\<close>

theorem effects_once_within_budget:
  assumes "(sys_step x)\<^sup>*\<^sup>* sys_start c" "map_get (states (sy_store c)) cid = Some st"
  shows "distinct (map (\<lambda>p. (pl_namespace p, pl_fence p)) (sy_log c))
    \<and> sum_list (map pl_amount (filter (\<lambda>p. pl_capability_id p = cid) (sy_log c))) \<le> budget_amount st"
proof -
  note inv = sys_run_inv[OF assms(1)]
  have "accounted (sy_store c) cid st" using inv assms(2) unfolding sys_inv_def accounts_inv_def by blast
  moreover have "0 \<le> amounts p (sy_store c)" for p using inv by (simp add: amounts_nonneg sys_inv_def)
  from this[of "held_on cid"] this[of "stranded_on cid"] have "0 \<le> amounts (held_on cid) (sy_store c) + amounts (stranded_on cid) (sy_store c)" by simp
  ultimately show ?thesis using logged_fences[OF inv] logged_within[OF inv, of cid] unfolding accounted_def by linarith
qed

subsection \<open>One execution\<close>

text \<open>The answers of an execution whose effect has been started.\<close>

definition started_answer :: "exec_result \<Rightarrow> bool" where
  "started_answer r \<longleftrightarrow> (\<exists>left. r = Executed left) \<or> r = Denied ''effect_indeterminate'' None \<or> r = Denied ''capability_commit_indeterminate'' None"

lemma run_ended [simp]: "run_phases x p ans i (At_end a) s = (a, 0, s)"
  by (simp add: run_phases.simps ended_def)

lemma run_phases_step:
  assumes "run_phases x p ans i ph s = (r, n, s')" "ended ph = None"
  obtains ph1 s1 m where "exec_phase x p (ans i) ph s = (ph1, s1)" "run_phases x p ans (i + 1) ph1 s1 = (r, m, s')"
      "n = (if runs_effect ph then 1 else 0) + m"
  using assms that by (auto simp: run_phases.simps[of x p ans i ph] split: prod.splits)

text \<open>Where a phase leads.\<close>

lemma indeterminate_next: "indeterminate_phase p t a s = (ph1, s1) \<Longrightarrow> \<exists>r. ph1 = At_end r \<and> started_answer r"
  by (auto simp: indeterminate_phase_def started_answer_def split: prod.splits outcome.splits)

lemma commit_next: "commit_phase p t a s = (ph1, s1) \<Longrightarrow> ph1 = At_commit_indeterminate t \<or> (\<exists>r. ph1 = At_end r \<and> started_answer r)"
  by (auto simp: commit_phase_def started_answer_def split: prod.splits outcome.splits)

definition refused :: "phase \<Rightarrow> bool" where
  "refused ph \<longleftrightarrow> (\<exists>r. ph = At_end r \<and> (\<forall>left. r \<noteq> Executed left))"

lemma enter_next: "enter_phase p t a s = (ph1, s1) \<Longrightarrow> ph1 = At_effect t \<or> refused ph1"
  by (auto simp: enter_phase_def refused_def split: prod.splits outcome.splits)

lemma guard_next: "guard_phase p t a s = (ph1, s1) \<Longrightarrow> ph1 = At_enter t \<or> refused ph1"
  by (auto simp: guard_phase_def refused_def Let_def split: prod.splits outcome.splits sum.splits if_splits)

lemma reserve_next: "reserve_phase x p a s = (ph1, s1) \<Longrightarrow> (\<exists>t. ph1 = At_enter t \<or> ph1 = At_guard t) \<or> refused ph1"
  by (auto simp: reserve_phase_def refused_def split: prod.splits outcome.splits if_splits)

lemma after_indeterminate:
  assumes "run_phases x p ans i (At_commit_indeterminate t) s = (r, n, s')"
  shows "n = 0 \<and> started_answer r"
  by (rule run_phases_step[OF assms]) (auto simp: ended_def exec_phase_def runs_effect_def dest: indeterminate_next)

lemma after_commit:
  assumes "run_phases x p ans i (At_commit t) s = (r, n, s')"
  shows "n = 0 \<and> started_answer r"
  by (rule run_phases_step[OF assms]) (auto simp: ended_def exec_phase_def runs_effect_def dest!: commit_next after_indeterminate)

lemma from_effect:
  assumes "run_phases x p ans i (At_effect t) s = (r, n, s')"
  shows "n = 1 \<and> started_answer r"
  by (rule run_phases_step[OF assms]) (auto simp: ended_def exec_phase_def runs_effect_def dest: after_commit after_indeterminate split: if_splits)

text \<open>The phases before the effect either end without an effect or lead to it.\<close>

definition fails_closed :: "exec_result \<Rightarrow> nat \<Rightarrow> bool" where
  "fails_closed r n \<longleftrightarrow> (n = 0 \<and> (\<forall>left. r \<noteq> Executed left)) \<or> (n = 1 \<and> started_answer r)"

lemma refused_closed: "run_phases x p ans i ph s = (r, n, s') \<Longrightarrow> refused ph \<Longrightarrow> fails_closed r n"
  by (auto simp: refused_def fails_closed_def)

lemma from_enter:
  assumes "run_phases x p ans i (At_enter t) s = (r, n, s')"
  shows "fails_closed r n"
  by (rule run_phases_step[OF assms])
    (use from_effect refused_closed in \<open>fastforce simp: ended_def exec_phase_def runs_effect_def fails_closed_def dest: enter_next\<close>)+

lemma from_guard:
  assumes "run_phases x p ans i (At_guard t) s = (r, n, s')"
  shows "fails_closed r n"
  by (rule run_phases_step[OF assms])
    (use from_enter refused_closed in \<open>fastforce simp: ended_def exec_phase_def runs_effect_def dest: guard_next\<close>)+

lemma from_reserve:
  assumes "run_phases x p ans i At_reserve s = (r, n, s')"
  shows "fails_closed r n"
  by (rule run_phases_step[OF assms])
    (use from_enter from_guard refused_closed in \<open>fastforce simp: ended_def exec_phase_def runs_effect_def dest: reserve_next\<close>)+

lemma admit_refuses: "admit_envelope x q = Inl r \<Longrightarrow> \<forall>left. r \<noteq> Executed left"
  by (auto simp: admit_envelope_def Let_def split: sum.splits if_splits)

lemma verdict_refuses: "base_verdict b = Some r \<Longrightarrow> \<forall>left. r \<noteq> Executed left"
  by (auto simp: base_verdict_def split: option.splits if_splits base_check.splits)

lemma prepare_refuses: "prepare x q = Inl r \<Longrightarrow> \<forall>left. r \<noteq> Executed left"
  unfolding prepare_def Let_def
  by (split sum.splits option.splits if_split_asm prod.splits | simp add: admit_refuses verdict_refuses; fail
    | erule conjE exE disjE | clarsimp simp: admit_refuses verdict_refuses)+

text \<open>An effect that was started leaves its operation spent.\<close>

lemma run_keeps_logged: "run_phases x p ans i ph s = (r, n, s') \<Longrightarrow> logged_ok s p \<Longrightarrow> logged_ok s' p"
proof (induction x p ans i ph s arbitrary: r n rule: run_phases.induct)
  case (1 x p ans i ph s)
  show ?case
  proof (cases "ended ph")
    case None
    obtain ph1 s1 m where st: "exec_phase x p (ans i) ph s = (ph1, s1)" "run_phases x p ans (i + 1) ph1 s1 = (r, m, s')"
      using run_phases_step[OF "1.prems"(1) None] by metis
    have "cap_effect s s1" using phase_store[OF st(1)] step_effect by blast
    then show ?thesis using "1.IH"[OF None st(1)[symmetric] st(2)] store_keeps(2) "1.prems"(2) by blast
  qed (use "1.prems" in \<open>auto simp: ended_def split: phase.splits\<close>)
qed

lemma run_logged: "run_phases x p ans i ph s = (r, n, s') \<Longrightarrow> thread_ok s [] (p, ph) \<Longrightarrow> 0 < n \<Longrightarrow> logged_ok s' p"
proof (induction x p ans i ph s arbitrary: r n rule: run_phases.induct)
  case (1 x p ans i ph s)
  show ?case
  proof (cases "ended ph")
    case None
    obtain ph1 s1 m where st: "exec_phase x p (ans i) ph s = (ph1, s1)" "run_phases x p ans (i + 1) ph1 s1 = (r, m, s')"
      "n = (if runs_effect ph then 1 else 0) + m"
      using run_phases_step[OF "1.prems"(1) None] by metis
    note own = proceeds_thread[OF "1.prems"(2) _ st(1), simplified]
    show ?thesis
    proof (cases "runs_effect ph")
      case True
      then show ?thesis using own(2) run_keeps_logged[OF st(2)] by blast
    next
      case False
      then show ?thesis using "1.IH"[OF None st(1)[symmetric] st(2)] own(1) st(3) "1.prems"(3) by simp
    qed
  qed (use "1.prems" in \<open>auto simp: ended_def split: phase.splits\<close>)
qed

text \<open>
  Property C11. An execution starts at most one external effect. One that answers \<open>Executed\<close> has started it; one
  that has started it answers so or says that the outcome is indeterminate, and leaves the operation
  entered or committed, so that its amount stays spent; every other answer means that no effect ran.
\<close>

theorem execution_fails_closed:
  assumes "executeWithCapability x q ans s = (r, n, s')"
  shows "(n = 0 \<and> (\<forall>left. r \<noteq> Executed left)) \<or> (n = 1 \<and> started_answer r \<and> (\<exists>p op. prepare x q = Inr p
    \<and> map_get (operations s') (operationKey (pl_namespace p) (pl_operation_id p)) = Some op \<and> o_amount op = pl_amount p
    \<and> o_status op \<in> {Provider_entered, Committed}))"
proof (cases "prepare x q")
  case (Inl e)
  then show ?thesis using assms prepare_refuses[OF Inl] by (simp add: executeWithCapability_def)
next
  case (Inr p)
  then have run: "run_phases x p ans 0 At_reserve s = (r, n, s')" using assms by (simp add: executeWithCapability_def)
  have "thread_ok s [] (p, At_reserve)" by (simp add: thread_ok_def engaged_def pending_def)
  then have "0 < n \<Longrightarrow> logged_ok s' p" using run_logged[OF run] by blast
  then have "0 < n \<Longrightarrow> \<exists>op. map_get (operations s') (operationKey (pl_namespace p) (pl_operation_id p)) = Some op
    \<and> o_amount op = pl_amount p \<and> o_status op \<in> {Provider_entered, Committed}"
    unfolding logged_ok_def plan_key_def plan_op_def spent_def by blast
  then show ?thesis using from_reserve[OF run] Inr unfolding fails_closed_def by auto
qed

subsection \<open>Guards\<close>

lemma guard_enters: "guard_phase p t a s = (ph1, s1) \<Longrightarrow> \<not> refused ph1 \<Longrightarrow> ev_ok (evaluateProviderEntryGuard (pl_guard p) (an_guard a))"
  by (auto simp: guard_phase_def refused_def Let_def split: prod.splits outcome.splits sum.splits if_splits)

lemma refused_no_effect: "run_phases x p ans i ph s = (r, n, s') \<Longrightarrow> refused ph \<Longrightarrow> n = 0"
  by (auto simp: refused_def)

lemma effect_guarded:
  assumes "run_phases x p ans 0 At_reserve s = (r, n, s')" "0 < n" "pl_guard p \<noteq> No_guard"
  shows "ev_ok (evaluateProviderEntryGuard (pl_guard p) (an_guard (ans 1)))"
proof (rule run_phases_step[OF assms(1)])
  fix ph1 s1 m
  assume a: "exec_phase x p (ans 0) At_reserve s = (ph1, s1)" "run_phases x p ans (0 + 1) ph1 s1 = (r, m, s')"
    "n = (if runs_effect At_reserve then 1 else 0) + m"
  then have m: "0 < m" using assms(2) by (simp add: runs_effect_def)
  have "refused ph1 \<or> (\<exists>t. ph1 = At_guard t)"
    using a(1) assms(3) by (auto simp: exec_phase_def reserve_phase_def refused_def split: prod.splits outcome.splits)
  then obtain t where run: "run_phases x p ans 1 (At_guard t) s1 = (r, m, s')" using refused_no_effect[OF a(2)] a(2) m by auto
  show ?thesis
  proof (rule run_phases_step[OF run])
    fix ph2 s2 k
    assume b: "exec_phase x p (ans 1) (At_guard t) s1 = (ph2, s2)" "run_phases x p ans (1 + 1) ph2 s2 = (r, k, s')"
      "m = (if runs_effect (At_guard t) then 1 else 0) + k"
    then have "\<not> refused ph2" using refused_no_effect[OF b(2)] m by (auto simp: runs_effect_def)
    with b(1) show ?thesis by (auto simp: exec_phase_def dest: guard_enters)
  qed (simp add: ended_def)
qed (simp add: ended_def)

lemma bind_Inr:
  "(case u of Inl e \<Rightarrow> Inl (f e) | Inr y \<Rightarrow> g y) = Inr z \<longleftrightarrow> (\<exists>y. u = Inr y \<and> g y = Inr z)"
  "(case v of None \<Rightarrow> Inl a | Some w \<Rightarrow> h w) = Inr z \<longleftrightarrow> (\<exists>w. v = Some w \<and> h w = Inr z)"
  "(case v of None \<Rightarrow> k | Some w \<Rightarrow> Inl (l w)) = Inr z \<longleftrightarrow> v = None \<and> k = Inr z"
  "(if c then Inl a else k) = Inr z \<longleftrightarrow> \<not> c \<and> k = Inr z"
  by (auto split: sum.split option.split)

lemma prepared_guard:
  assumes "prepare x q = Inr p"
  shows "pl_guard p = er_guard q" "effective_domain q = Inr (pl_domain p)"
  using assms by (clarsimp simp: prepare_def admit_envelope_def Let_def bind_Inr; simp)+

lemma effective_required: "effective_domain q = Inr cd \<Longrightarrow> requiredProviderEntryControlDomain (er_guard q) = Some d \<Longrightarrow> cd = Some d"
  by (auto simp: effective_domain_def split: option.splits if_splits)

text \<open>A granted entry names the control domain that the operation was reserved under.\<close>

definition bound_to :: "exec_plan \<Rightarrow> cap_store \<Rightarrow> bool" where
  "bound_to p s \<longleftrightarrow> (\<exists>op. map_get (operations s) (plan_key p) = Some op \<and> o_control_domain_id op = pl_domain p)"

lemma bound_keeps: "cap_effect s s' \<Longrightarrow> bound_to p s \<Longrightarrow> bound_to p s'"
  unfolding bound_to_def using effect_keeps[of s s' "plan_key p"] by (fastforce simp: same_terms_def)

lemma entry_domain_binds: "entry_domain q op s = Bound \<Longrightarrow> o_control_domain_id op = n_control_domain_id q"
  by (auto simp: entry_domain_def split: option.splits if_splits)

lemma entered_bound:
  assumes "exec_phase x p a (At_enter t) s = (ph', s')" "\<not> refused ph'"
  shows "bound_to p s'"
proof -
  obtain r where "beginProviderEntry (entry_request p t (an_now a)) s = (Ok r, s')"
    using assms by (auto simp: exec_phase_def enter_phase_def refused_def split: prod.splits outcome.splits)
  then have "\<exists>op. map_get (operations s') (plan_key p) = Some op \<and> o_control_domain_id op = n_control_domain_id (entry_request p t (an_now a))"
    by (auto simp: beginProviderEntry_def refuse_def Let_def plan_key_def entry_namespace_def dest!: entry_domain_binds simp del: run_checks_None
        split: option.splits sum.splits if_splits domain_binding.splits) (auto simp: entry_request_def)
  then show ?thesis by (simp add: bound_to_def entry_request_def)
qed

lemma run_keeps_bound: "run_phases x p ans i ph s = (r, n, s') \<Longrightarrow> bound_to p s \<Longrightarrow> bound_to p s'"
proof (induction x p ans i ph s arbitrary: r n rule: run_phases.induct)
  case (1 x p ans i ph s)
  show ?case
  proof (cases "ended ph")
    case None
    obtain ph1 s1 m where st: "exec_phase x p (ans i) ph s = (ph1, s1)" "run_phases x p ans (i + 1) ph1 s1 = (r, m, s')"
      using run_phases_step[OF "1.prems"(1) None] by metis
    have "cap_effect s s1" using phase_store[OF st(1)] step_effect by blast
    then show ?thesis using "1.IH"[OF None st(1)[symmetric] st(2)] bound_keeps "1.prems"(2) by blast
  qed (use "1.prems" in \<open>auto simp: ended_def split: phase.splits\<close>)
qed

lemma effect_bound: "run_phases x p ans i ph s = (r, n, s') \<Longrightarrow> 0 < n \<Longrightarrow> \<not> runs_effect ph \<Longrightarrow> bound_to p s'"
proof (induction x p ans i ph s arbitrary: r n rule: run_phases.induct)
  case (1 x p ans i ph s)
  show ?case
  proof (cases "ended ph")
    case None
    obtain ph1 s1 m where st: "exec_phase x p (ans i) ph s = (ph1, s1)" "run_phases x p ans (i + 1) ph1 s1 = (r, m, s')"
      "n = (if runs_effect ph then 1 else 0) + m"
      using run_phases_step[OF "1.prems"(1) None] by metis
    show ?thesis
    proof (cases "runs_effect ph1")
      case True
      moreover obtain t where "ph = At_enter t" using phase_next(3)[OF st(1) True] by blast
      moreover have "\<not> refused ph1" using True by (auto simp: refused_def runs_effect_def)
      ultimately have "bound_to p s1" using entered_bound[of x p "ans i" t s ph1 s1] st(1) by simp
      then show ?thesis using run_keeps_bound[OF st(2)] by blast
    next
      case False
      then show ?thesis using "1.IH"[OF None st(1)[symmetric] st(2)] st(3) "1.prems"(2,3) by simp
    qed
  qed (use "1.prems" in \<open>auto simp: ended_def split: phase.splits\<close>)
qed

text \<open>
  Property C17. An execution under a composition of guards starts its effect only when every one of them has
  admitted the entry, and the operation is then bound to the control domain of each of them that requires one.
\<close>

theorem effect_needs_every_guard:
  assumes "executeWithCapability x q ans s = (r, n, s')" "0 < n"
    and "composeProviderEntryGuards (map fst gs) = Inr (er_guard q)" "an_guard (ans 1) = composed_answer gs"
  shows "list_all (\<lambda>(g, a). ev_ok (evaluateProviderEntryGuard g a)) (filter (\<lambda>(g, a). is_guard g) gs)
    \<and> (\<exists>p op. prepare x q = Inr p \<and> map_get (operations s') (operationKey (pl_namespace p) (pl_operation_id p)) = Some op
      \<and> (\<forall>(g, a) \<in> set gs. \<forall>d. requiredProviderEntryControlDomain g = Some d \<longrightarrow> o_control_domain_id op = Some d))"
proof -
  obtain p where p: "prepare x q = Inr p" and run: "run_phases x p ans 0 At_reserve s = (r, n, s')"
    using assms(1,2) by (auto simp: executeWithCapability_def split: sum.splits)
  note g = prepared_guard[OF p]
  obtain d where d: "er_guard q = Guard d" using composed_guard[OF assms(3)] by blast
  have "ev_ok (evaluateProviderEntryGuard (Guard d) (composed_answer gs))" using effect_guarded[OF run assms(2)] g d assms(4) by simp
  moreover have "bound_to p s'" using effect_bound[OF run assms(2)] by (simp add: runs_effect_def)
  moreover have "pl_domain p = Some e" if "(h, a) \<in> set gs" "requiredProviderEntryControlDomain h = Some e" for h a e
    using effective_required[OF g(2) composed_requires[OF assms(3) _ that(2)]] that(1) by force
  ultimately show ?thesis
    using composed_admits[of d gs] p unfolding bound_to_def plan_key_def by fastforce
qed

subsection \<open>A run\<close>

text \<open>The sample capability and domain; one action of 40, which is paid for, started and committed.\<close>

definition sample_action :: js_value where
  "sample_action = VObj 0 [(jstr ''amount'', VNum (Integral 40)), (jstr ''currency'', VStr (jstr ''USD'')), (jstr ''op'', VStr (jstr ''op1''))]"

definition sample_env :: exec_env where
  "sample_env = \<lparr>x_dparse = sample_dparse, x_verify = sample_verify, x_sha256Hex = (\<lambda>b. replicate 64 CHR ''a''),
     x_hash = (\<lambda>t. replicate 64 CHR ''a''), x_fingerprint = sample_fp, x_state_domain = sample_digest, x_entry_timeout = 30000\<rparr>"

definition sample_execution :: exec_request where
  "sample_execution = \<lparr>er_receipt = sample_receipt, er_secret = Secret_buffer (replicate 32 0), er_action = sample_action,
     er_observed_action = None, er_trusted_keys = [''key''], er_threshold_verified = False, er_caid = None, er_profile = None,
     er_execution_domain = None, er_human = \<lparr>hq_required = False, hq_artifact = Absent, hq_pins = Absent, hq_verifier = Absent\<rparr>,
     er_base = Gate_check (Some True), er_guard = Guard (Some ''dom''), er_allowance = None, er_control_domain = Some ''dom'',
     er_operation_id = Some ''op1''\<rparr>"

definition sample_plan :: exec_plan where
  "sample_plan = \<lparr>pl_capability_id = ''c1'', pl_fingerprint = sample_digest, pl_namespace = ''c1'', pl_operation_id = ''op1'',
     pl_action_digest = sample_digest, pl_fence = sample_digest, pl_amount = 40, pl_currency = ''USD'', pl_domain = Some ''dom'',
     pl_allowance = None, pl_guard = Guard (Some ''dom'')\<rparr>"

definition sample_guards :: "(entry_guard \<times> guard_answer) list" where
  "sample_guards = [(Guard (Some ''dom''), Guard_object \<lparr>go_ok = Some True, go_reason = None, go_status = None, go_evidence = None, go_reservation = None\<rparr>)]"

definition sample_answers :: "nat \<Rightarrow> answers" where
  "sample_answers i = \<lparr>an_now = Integral (2 + int i), an_recovery_now = Integral (2 + int i), an_uuid = ''0123456789abcdef'', an_guard = composed_answer sample_guards, an_effect_returned = True\<rparr>"

lemma sample_parts:
  "fst (validateOperationId ''op1'')"
  "valueAtPath sample_action ''op'' = Some (VStr (jstr ''op1''))"
  "utf8 (jstr ''op1'') = ''op1''"
  by code_simp+

lemma sample_canonical: "canonicalize sample_action = Inr (canonicalizeValidated sample_action)"
proof -
  have len: "length (jstr k) = length k" for k by (simp add: jstr_def)
  have "validUnicodeString u" "utf8_length u = length u" if "list_all (\<lambda>c. c < 0x80) u" for u :: js_string
    using that by (induction u) (auto simp: is_high_def is_low_def word_less_nat_alt word_le_nat_alt)
  moreover have "list_all (\<lambda>k. list_all (\<lambda>c. c < 0x80) (jstr k)) [''amount'', ''currency'', ''op'', ''USD'', ''op1'']" by code_simp
  ultimately have "assertCanonicalJson sample_action = None"
    by (simp add: assertCanonicalJson_def sample_action_def MAX_JSON_NODES_def MAX_JSON_DEPTH_def MAX_JSON_STRING_BYTES_def
      safe_int_def max_safe_def len del: jstr_simps)
  then show ?thesis by (simp add: canonicalize_def)
qed

lemma sample_amount: "capabilityAmount sample_action (e_capability sample_receipt) sample_action = Inr (40, ''USD'')"
  by code_simp

lemma sample_admit: "admit_envelope sample_env sample_execution = Inr (Some ''dom'')"
proof -
  have v: "verifyCapabilityReceipt sample_dparse sample_verify [''key''] sample_receipt = Inr ''key''"
    using sample_shape by (simp add: verifyCapabilityReceipt_def capabilitySignature_def
      verifyTrustedIssuer_def validateBaseReceipt_def run_checks.simps sample_verify_def sample_receipt_def)
  have "th_m (c_threshold (e_capability sample_receipt)) = Integral 1" "th_n (c_threshold (e_capability sample_receipt)) = Integral 1"
    "c_secret_hash (e_capability sample_receipt) = sample_digest" by (simp_all add: sample_receipt_def)
  then show ?thesis
    using v sample_patterns(1)
    by (simp add: admit_envelope_def sample_execution_def sample_env_def verifySecret_def digestSecret_def HASH_BYTES_def equalHash_def
      effective_domain_def requiredProviderEntryControlDomain_def ACTION_DIGEST_RE_def sample_digest_def)
qed

lemma sample_scope: "verifyCapabilityScope (x_hash sample_env) None None (Digest_scope [sample_digest] ''op'') sample_action ''op1''
    = Inr \<lparr>sc_action_digest = sample_digest, sc_action_fence_digest = sample_digest, sc_caid = None, sc_operation_namespace = None,
        sc_operation_id_field = ''op''\<rparr>"
proof -
  have "''sha256:'' @ x_hash sample_env t = sample_digest" for t by (simp add: sample_env_def sample_digest_def)
  moreover have "normalizeCapabilityScope (Digest_scope [sample_digest] ''op'') = Inr (Digest_scope [sample_digest] ''op'')"
    by (simp add: run_checks.simps scope_members_ok_def MAX_SCOPE_ACTIONS_def ACTION_DIGEST_RE_def sample_patterns)
  ultimately show ?thesis
    by (simp add: verifyCapabilityScope_def capabilityActionDigest_def sample_canonical scope_fence_def sample_parts del: jstr_simps)
qed

lemma sample_prepare: "prepare sample_env sample_execution = Inr sample_plan"
proof -
  have e: "er_action sample_execution = sample_action" "er_observed_action sample_execution = None" "er_operation_id sample_execution = Some ''op1''"
    "er_caid sample_execution = None" "er_profile sample_execution = None" "er_execution_domain sample_execution = None"
    "er_receipt sample_execution = sample_receipt" "c_scope (e_capability sample_receipt) = Digest_scope [sample_digest] ''op''"
    "c_id (e_capability sample_receipt) = ''c1''" "x_fingerprint sample_env sample_receipt = sample_digest"
    "er_allowance sample_execution = None" "er_guard sample_execution = Guard (Some ''dom'')"
    by (simp_all add: sample_execution_def sample_receipt_def sample_env_def sample_fp_def)
  have h: "verifyPerActionHumanAuthorization (er_human sample_execution) d = Inr None" "base_verdict (er_base sample_execution) = None" for d
    by (simp_all add: verifyPerActionHumanAuthorization_def sample_execution_def base_verdict_def)
  show ?thesis
    by (simp add: prepare_def sample_admit e sample_parts sample_scope h sample_amount capabilityBudgetGuarantee_def sample_plan_def Let_def)
qed

text \<open>A reservation that leaves the namespace and the fence out means the capability and the action digest.\<close>

lemma reserve_defaults:
  "reserveSpend timeout uuid (q\<lparr>q_namespace := Some (reserve_namespace q), q_action_fence_digest := Some (reserve_fence q)\<rparr>) s
   = reserveSpend timeout uuid q s"
proof -
  let ?q = "q\<lparr>q_namespace := Some (reserve_namespace q), q_action_fence_digest := Some (reserve_fence q)\<rparr>"
  have n: "reserve_namespace ?q = reserve_namespace q" "reserve_fence ?q = reserve_fence q" by (simp_all add: reserve_namespace_def reserve_fence_def)
  have f: "q_capability_id ?q = q_capability_id q" "q_fingerprint ?q = q_fingerprint q" "q_operation_id ?q = q_operation_id q"
    "q_action_digest ?q = q_action_digest q" "q_amount ?q = q_amount q" "q_currency ?q = q_currency q"
    "q_control_domain_id ?q = q_control_domain_id q" "q_now ?q = q_now q" by simp_all
  have d: "reserve_domain ?q = reserve_domain q" "reserve_allowance ?q = reserve_allowance q" "new_operation ?q = new_operation q"
    by (auto simp: fun_eq_iff reserve_domain_def reserve_allowance_def new_operation_def n)
  have b: "reserve_budget timeout uuid ?q = reserve_budget timeout uuid q" unfolding reserve_budget_def[abs_def] d n f by (rule refl)
  show ?thesis unfolding reserveSpend_def n d b f by (rule refl)
qed

lemma sample_exec_reserve:
  "reserveSpend 30000 ''0123456789abcdef'' (reserve_request sample_plan (Integral 2)) sample_ready = (Ok sample_reservation, sample_reserved)"
proof -
  have "reserve_request sample_plan (Integral 2)
      = sample_request\<lparr>q_namespace := Some (reserve_namespace sample_request), q_action_fence_digest := Some (reserve_fence sample_request)\<rparr>"
    by (simp add: sample_request_def reserve_request_def sample_plan_def reserve_namespace_def reserve_fence_def)
  then show ?thesis by (simp add: reserve_defaults cap_sample_reserve)
qed

lemma sample_clock [simp]: "nowMs (Integral 4) = Inr 4" "nowMs (Integral 6) = Inr 6"
  by (simp_all add: nowMs_def safe_int_def max_safe_def)

lemma sample_reserved_parts:
  "operations sample_reserved = [(sample_key, sample_op)]" "states sample_reserved = [(''c1'', sample_state\<lparr>reserved_amount := 40\<rparr>)]"
  "map_get (controlDomains sample_reserved) ''dom'' = Some sample_domain"
  by (simp_all add: sample_reserved_def sample_ready_def)

lemma sample_op_fields: "o_capability_id sample_op = ''c1''" "o_reservation_token sample_op = ''0123456789abcdef''" "o_amount sample_op = 40"
  "o_entry_deadline_at sample_op = 1000" "o_reserved_control_epoch sample_op = Some 1" "o_control_domain_id sample_op = Some ''dom''"
  "o_status sample_op = Reserved"
  by (simp_all add: sample_op_def new_operation_def sample_request_def sample_domain_def)

definition sample_entered :: cap_store where
  "sample_entered = put_state ''c1'' (sample_state\<lparr>consumed_amount := 40\<rparr>)
     (put_operation sample_key (sample_op\<lparr>o_status := Provider_entered, o_provider_entry_at := Some 4\<rparr>) sample_reserved)"

lemma sample_enter: "\<exists>r. beginProviderEntry (entry_request sample_plan ''0123456789abcdef'' (Integral 4)) sample_reserved = (Ok r, sample_entered)"
proof -
  have q: "entry_namespace (entry_request sample_plan t n) = ''c1''" "n_operation_id (entry_request sample_plan t n) = ''op1''"
    "n_capability_id (entry_request sample_plan t n) = ''c1''" "n_reservation_token (entry_request sample_plan t n) = Some t"
    "n_control_domain_id (entry_request sample_plan t n) = Some ''dom''" "n_now (entry_request sample_plan t n) = n" for t n
    by (simp_all add: entry_namespace_def entry_request_def sample_plan_def)
  have "run_checks [validateOperationId ''op1'', validateOperationNamespace ''c1''] = None"
    by (simp add: run_checks.simps validateOperationId_def validateOperationNamespace_def)
  moreover have "entry_domain (entry_request sample_plan t n) sample_op sample_reserved = Bound" for t n
    by (simp add: entry_domain_def q sample_op_fields sample_reserved_parts) (simp add: sample_domain_def)
  moreover have "entry_allowance ns (sample_state\<lparr>reserved_amount := 40\<rparr>) op s = None" for ns op s
    by (simp add: entry_allowance_def sample_state_def)
  moreover have "consume_budget sample_op (sample_state\<lparr>reserved_amount := 40\<rparr>) = sample_state\<lparr>consumed_amount := 40\<rparr>"
    by (simp add: consume_budget_def sample_op_fields sample_state_def)
  ultimately show ?thesis
    by (simp add: beginProviderEntry_def q sample_reserved_parts sample_op_fields sample_entered_def Let_def flip: sample_key_def del: run_checks_None)
qed

lemma sample_guard:
  "ev_ok (evaluateProviderEntryGuard (pl_guard sample_plan) (composed_answer sample_guards))" "providerEntryContext (Integral 3) = Inr ()"
proof -
  have k: "\<not> hasUnpairedUtf16Surrogate (jstr ''guards'')" "utf8_length (jstr ''guards'') = 6" by code_simp+
  have e: "canonicalEvidence (Some (guards_evidence [])) \<noteq> Inl ()"
    by (simp add: canonicalEvidence_def guards_evidence_def canonicalizeFiniteJson_def canonicalizeJsonDomain_def limit_or_def Let_def
      canonicalizeValue.simps countString_def k safe_int_def max_safe_def del: jstr_simps)
  show "ev_ok (evaluateProviderEntryGuard (pl_guard sample_plan) (composed_answer sample_guards))"
    using e by (simp add: sample_plan_def composed_answer_def evaluate_object sample_guards_def is_guard_def Let_def)
      (simp add: evaluateProviderEntryGuard_def canonicalEvidence_def add_evidence_def)
  show "providerEntryContext (Integral 3) = Inr ()" by (simp add: providerEntryContext_def)
qed

lemma sample_phases:
  "exec_phase sample_env sample_plan (sample_answers 0) At_reserve sample_ready = (At_guard ''0123456789abcdef'', sample_reserved)"
  "exec_phase sample_env sample_plan (sample_answers 1) (At_guard t) s = (At_enter t, s)"
  "exec_phase sample_env sample_plan (sample_answers 2) (At_enter ''0123456789abcdef'') sample_reserved = (At_effect ''0123456789abcdef'', sample_entered)"
  "exec_phase sample_env sample_plan (sample_answers i) (At_effect t) s = (At_commit t, s)"
  using sample_exec_reserve sample_enter sample_guard
  by (auto simp: exec_phase_def reserve_phase_def guard_phase_def enter_phase_def sample_answers_def sample_env_def sample_reservation_def)
    (simp_all add: sample_plan_def)

lemma exec_sample_commit: "\<exists>s'. exec_phase sample_env sample_plan (sample_answers 4) (At_commit ''0123456789abcdef'') sample_entered = (At_end (Executed 60), s')"
proof -
  have q: "commit_namespace (commit_request sample_plan t v n) = ''c1''" "m_operation_id (commit_request sample_plan t v n) = ''op1''"
    "m_capability_id (commit_request sample_plan t v n) = ''c1''" "m_reservation_token (commit_request sample_plan t v n) = Some t"
    "m_outcome (commit_request sample_plan t v n) = v" "m_now (commit_request sample_plan t v n) = n" for t v n
    by (simp_all add: commit_namespace_def commit_request_def sample_plan_def)
  have "run_checks [validateOperationId ''op1'', validateOperationNamespace ''c1''] = None"
    by (simp add: run_checks.simps validateOperationId_def validateOperationNamespace_def)
  moreover have "operations sample_entered = [(sample_key, sample_op\<lparr>o_status := Provider_entered, o_provider_entry_at := Some 4\<rparr>)]"
    "states sample_entered = [(''c1'', sample_state\<lparr>consumed_amount := 40\<rparr>)]"
    by (simp_all add: sample_entered_def sample_reserved_parts)
  moreover have "remaining (sample_state\<lparr>consumed_amount := 40\<rparr>) = 60" by (simp add: remaining_def sample_state_def)
  ultimately show ?thesis
    by (simp add: exec_phase_def commit_phase_def commitSpend_def q sample_op_fields sample_answers_def Let_def flip: sample_key_def del: run_checks_None)
qed

lemma sample_executes: "\<exists>s'. executeWithCapability sample_env sample_execution sample_answers sample_ready = (Executed 60, 1, s')"
proof -
  obtain s' where "exec_phase sample_env sample_plan (sample_answers 4) (At_commit ''0123456789abcdef'') sample_entered = (At_end (Executed 60), s')"
    using exec_sample_commit by blast
  then show ?thesis
    using sample_phases by (simp add: executeWithCapability_def sample_prepare run_phases.simps ended_def runs_effect_def numeral_eq_Suc)
qed

theorem execution_fails_closed_witness:
  "\<exists>s' (p :: exec_plan) op. executeWithCapability sample_env sample_execution sample_answers sample_ready = (Executed 60, 1, s')
     \<and> map_get (operations s') (operationKey (pl_namespace p) (pl_operation_id p)) = Some op
     \<and> o_status op \<in> {Provider_entered, Committed}"
proof -
  obtain s' where run: "executeWithCapability sample_env sample_execution sample_answers sample_ready = (Executed 60, 1, s')"
    using sample_executes by blast
  obtain p :: exec_plan and op where "map_get (operations s') (operationKey (pl_namespace p) (pl_operation_id p)) = Some op" "o_status op \<in> {Provider_entered, Committed}"
    using execution_fails_closed[OF run] by auto
  then show ?thesis using run by blast
qed

theorem effect_needs_every_guard_witness:
  "\<exists>s' op. executeWithCapability sample_env sample_execution sample_answers sample_ready = (Executed 60, 1, s')
     \<and> map_get (operations s') (operationKey ''c1'' ''op1'') = Some op \<and> o_control_domain_id op = Some ''dom''"
proof -
  obtain s' where run: "executeWithCapability sample_env sample_execution sample_answers sample_ready = (Executed 60, 1, s')"
    using sample_executes by blast
  have "composeProviderEntryGuards (map fst sample_guards) = Inr (er_guard sample_execution)" by code_simp
  moreover have "an_guard (sample_answers 1) = composed_answer sample_guards" by (simp add: sample_answers_def)
  ultimately have "\<exists>p op. prepare sample_env sample_execution = Inr p
      \<and> map_get (operations s') (operationKey (pl_namespace p) (pl_operation_id p)) = Some op
      \<and> (\<forall>(g, a) \<in> set sample_guards. \<forall>d. requiredProviderEntryControlDomain g = Some d \<longrightarrow> o_control_domain_id op = Some d)"
    using effect_needs_every_guard[OF run, of sample_guards] by simp
  then have "\<exists>op. map_get (operations s') (operationKey ''c1'' ''op1'') = Some op \<and> o_control_domain_id op = Some ''dom''"
    by (auto simp: sample_prepare sample_plan_def sample_guards_def requiredProviderEntryControlDomain_def)
  then show ?thesis using run by blast
qed

text \<open>The same action on the shared store, up to the start of its effect.\<close>

definition sample_system :: exec_system where
  "sample_system = \<lparr>sy_store = sample_entered, sy_threads = [(sample_plan, At_commit ''0123456789abcdef'')], sy_log = [sample_plan]\<rparr>"

lemma sample_sys_run: "(sys_step sample_env)\<^sup>*\<^sup>* sys_start sample_system"
proof -
  let ?c = "\<lambda>s ph. \<lparr>sy_store = s, sy_threads = [(sample_plan, ph)], sy_log = []\<rparr>"
  have one: "sys_step sample_env (c\<lparr>sy_store := s\<rparr>) (c\<lparr>sy_store := s'\<rparr>)" if "cap_step sample_dparse sample_verify sample_fp 30000 s s'" for c s s'
    using sys_step.outside[of sample_env "c\<lparr>sy_store := s\<rparr>" s'] that by (simp add: sample_env_def)
  have out: "(sys_step sample_env)\<^sup>*\<^sup>* (c\<lparr>sy_store := empty_store\<rparr>) (c\<lparr>sy_store := s\<rparr>)"
    if "cap_run sample_dparse sample_verify sample_fp 30000 empty_store s" for c s
    using that by (induction rule: rtranclp_induct) (auto intro: one rtranclp.rtrancl_into_rtrancl)
  have arrives: "sys_step sample_env (sys_start\<lparr>sy_store := sample_ready\<rparr>) (?c sample_ready At_reserve)"
    using sys_step.arrives[OF sample_prepare, of "sys_start\<lparr>sy_store := sample_ready\<rparr>"] by (simp add: sys_start_def)
  have phase: "sys_step sample_env (?c s ph) \<lparr>sy_store = s', sy_threads = [(sample_plan, ph')], sy_log = if runs_effect ph then [sample_plan] else []\<rparr>"
    if "exec_phase sample_env sample_plan a ph s = (ph', s')" for a ph s ph' s'
    using sys_step.proceeds[of 0 "?c s ph" sample_plan ph sample_env a ph' s'] that by simp
  have "(sys_step sample_env)\<^sup>*\<^sup>* (sys_start\<lparr>sy_store := sample_ready\<rparr>) sample_system"
    using arrives phase[OF sample_phases(1)] phase[OF sample_phases(2)] phase[OF sample_phases(3)] phase[OF sample_phases(4)]
    unfolding sample_system_def runs_effect_def phase.case if_True if_False by (meson converse_rtranclp_into_rtranclp rtranclp.rtrancl_refl)
  with out[OF cap_sample_runs(1), of sys_start] show ?thesis by (simp add: sys_start_def)
qed

theorem effects_once_within_budget_witness:
  "\<exists>c. (sys_step sample_env)\<^sup>*\<^sup>* sys_start c \<and> sy_log c = [sample_plan]
     \<and> sum_list (map pl_amount (filter (\<lambda>p. pl_capability_id p = ''c1'') (sy_log c))) \<le> 100"
proof -
  have "map_get (states (sy_store sample_system)) ''c1'' = Some (sample_state\<lparr>consumed_amount := 40\<rparr>)"
    by (simp add: sample_system_def sample_entered_def sample_reserved_parts)
  from effects_once_within_budget[OF sample_sys_run this] have
    "sum_list (map pl_amount (filter (\<lambda>p. pl_capability_id p = ''c1'') (sy_log sample_system))) \<le> 100" by (simp add: sample_state_def)
  moreover have "sy_log sample_system = [sample_plan]" by (simp add: sample_system_def)
  ultimately show ?thesis using sample_sys_run by blast
qed

end
