(* ===== verification/Capability_Tree.thy ===== *)
theory Capability_Tree
  imports Capability_Delegation Capability_Effects
begin

section \<open>Authority along delegations\<close>

text \<open>
  Executions and delegations share one store. A delegation pays for its child out of the parent's budget
  before the child is registered, so the effects of a capability and of everything that is delegated from it,
  directly or further down, stay within its budget. Capabilities with a parent are registered by
  delegations only.
\<close>

record tree_system =
  tr_sys :: exec_system
  tr_delegations :: "(delegation_plan \<times> delegation_phase) list"
  tr_children :: "delegation_plan list"

abbreviation tr_store :: "tree_system \<Rightarrow> cap_store" where
  "tr_store c \<equiv> sy_store (tr_sys c)"

definition tree_start :: tree_system where
  "tree_start = \<lparr>tr_sys = sys_start, tr_delegations = [], tr_children = []\<rparr>"

definition child_id :: "delegation_plan \<Rightarrow> string" where
  "child_id d = c_id (e_capability (mi_receipt (dp_child d)))"

definition no_new_child :: "cap_store \<Rightarrow> cap_store \<Rightarrow> bool" where
  "no_new_child s s' \<longleftrightarrow> (\<forall>cid st. map_get (states s) cid = None \<longrightarrow> map_get (states s') cid = Some st \<longrightarrow> s_parent st = None)"

definition new_child :: "delegation_plan \<Rightarrow> cap_store \<Rightarrow> cap_store \<Rightarrow> bool" where
  "new_child d s s' \<longleftrightarrow> map_get (states s) (child_id d) = None \<and> map_get (states s') (child_id d) \<noteq> None"

inductive tree_step :: "exec_env \<Rightarrow> tree_system \<Rightarrow> tree_system \<Rightarrow> bool" for x where
  executes: "sys_step x (tr_sys c) e \<Longrightarrow> no_new_child (tr_store c) (sy_store e) \<Longrightarrow> tree_step x c (c\<lparr>tr_sys := e\<rparr>)"
| delegates: "prepare_delegation x source q now = Some (Inr d) \<Longrightarrow>
    tree_step x c (c\<lparr>tr_delegations := tr_delegations c @ [(d, D_reserve)]\<rparr>)"
| delegation: "i < length (tr_delegations c) \<Longrightarrow> tr_delegations c ! i = (d, ph) \<Longrightarrow>
    delegation_step x d now uuid ph (tr_store c) = (ph', s') \<Longrightarrow>
    tree_step x c (c\<lparr>tr_sys := (tr_sys c)\<lparr>sy_store := s'\<rparr>, tr_delegations := (tr_delegations c)[i := (d, ph')],
      tr_children := tr_children c @ (if new_child d (tr_store c) s' then [d] else [])\<rparr>)"

subsection \<open>What a delegation owns\<close>

definition dkey :: "delegation_plan \<Rightarrow> string" where
  "dkey d = operationKey (dp_parent_id d) (dp_operation_id d)"

definition pays_for :: "delegation_plan \<Rightarrow> operation \<Rightarrow> bool" where
  "pays_for d op \<longleftrightarrow> o_capability_id op = dp_parent_id d \<and> o_amount op = dp_amount d"

definition well_planned :: "delegation_plan \<Rightarrow> bool" where
  "well_planned d \<longleftrightarrow> (let c = e_capability (mi_receipt (dp_child d)) in num_val (c_amount c) = dp_amount d
     \<and> c_delegation_chain c \<noteq> [] \<and> parent_capability_id (last (c_delegation_chain c)) = dp_parent_id d)"

definition d_engaged :: "delegation_phase \<Rightarrow> bool" where
  "d_engaged ph \<longleftrightarrow> (case ph of D_commit t \<Rightarrow> True | D_register r \<Rightarrow> True | _ \<Rightarrow> False)"

definition d_paid :: "delegation_phase \<Rightarrow> bool" where
  "d_paid ph \<longleftrightarrow> (case ph of D_register r \<Rightarrow> True | _ \<Rightarrow> False)"

definition delegation_ok :: "cap_store \<Rightarrow> delegation_plan \<times> delegation_phase \<Rightarrow> bool" where
  "delegation_ok s t \<longleftrightarrow> well_planned (fst t) \<and> (d_engaged (snd t) \<longrightarrow>
     (\<exists>op. map_get (operations s) (dkey (fst t)) = Some op \<and> pays_for (fst t) op \<and> (d_paid (snd t) \<longrightarrow> spent op)))"

definition child_ok :: "cap_store \<Rightarrow> delegation_plan \<Rightarrow> bool" where
  "child_ok s d \<longleftrightarrow> (\<exists>op. map_get (operations s) (dkey d) = Some op \<and> pays_for d op \<and> spent op)
     \<and> (\<exists>st. map_get (states s) (child_id d) = Some st \<and> s_parent st = Some (dp_parent_id d) \<and> budget_amount st = dp_amount d)
     \<and> map_get (states s) (dp_parent_id d) \<noteq> None"

lemma effect_states:
  "cap_effect s s' \<Longrightarrow> map_get (states s) cid = Some st \<Longrightarrow>
   \<exists>st'. map_get (states s') cid = Some st' \<and> s_parent st' = s_parent st \<and> budget_amount st' = budget_amount st"
  by (induction rule: cap_effect.induct) (auto simp: release_budget_def consume_budget_def)

lemma effect_operations:
  assumes "cap_effect s s'" "map_get (operations s) k = Some op" "pays_for d op" "b \<longrightarrow> spent op"
  shows "\<exists>op'. map_get (operations s') k = Some op' \<and> pays_for d op' \<and> (b \<longrightarrow> spent op')"
  using effect_keeps[OF assms(1,2)] assms(3,4) by (fastforce simp: same_terms_def pays_for_def)

lemma delegation_keeps:
  assumes "cap_effect s s'"
  shows "delegation_ok s t \<Longrightarrow> delegation_ok s' t" and "child_ok s d \<Longrightarrow> child_ok s' d"
proof -
  show "delegation_ok s' t" if "delegation_ok s t"
    using that effect_operations[OF assms, where b = "d_paid (snd t)"] unfolding delegation_ok_def by blast
  show "child_ok s' d" if ok: "child_ok s d"
  proof -
    have "\<exists>op. map_get (operations s') (dkey d) = Some op \<and> pays_for d op \<and> spent op"
      using ok effect_operations[OF assms, where b = True] unfolding child_ok_def by blast
    moreover have "\<exists>st. map_get (states s') (child_id d) = Some st \<and> s_parent st = Some (dp_parent_id d) \<and> budget_amount st = dp_amount d"
      using ok effect_states[OF assms] unfolding child_ok_def by metis
    moreover have "map_get (states s') (dp_parent_id d) \<noteq> None"
      using ok effect_states[OF assms] unfolding child_ok_def by (metis option.exhaust option.distinct(1))
    ultimately show ?thesis unfolding child_ok_def by blast
  qed
qed

subsection \<open>The steps of a delegation\<close>

lemma minted_terms:
  assumes "mintCapabilityReceipt sha dparse source b opts = Some (Inr m)"
  shows "c_id (e_capability (mi_receipt m)) = mo_capability_id opts"
    and "\<exists>budget. mo_budget opts = Some budget \<and> c_amount (e_capability (mi_receipt m)) = fst budget"
    and "c_delegation_chain (e_capability (mi_receipt m)) = mo_delegation_chain opts"
proof -
  obtain nd budget where b: "mo_budget opts = Some budget" "new_capability dparse nd budget opts = Inr (e_capability (mi_receipt m))"
    using assms by (auto simp: mintCapabilityReceipt_def Let_def split: option.splits sum.splits issuer_key.splits if_splits)
  have chain: "assertDelegationChain ch l = Inr ch' \<Longrightarrow> ch' = ch" for ch l ch'
    by (auto simp: assertDelegationChain_def dest: chain_loop_Inr split: if_splits)
  obtain mode sc ch ex where e: "assertDelegationChain (mo_delegation_chain opts) None = Inr ch"
    "e_capability (mi_receipt m) = \<lparr>c_version = CAPABILITY_STATE_VERSION, c_id = mo_capability_id opts, c_secret_hash = sd_hash nd,
       c_amount = fst budget, c_currency = snd budget, c_consumed = Integral 0, c_threshold = mo_threshold opts,
       c_revocation_mode = mo_revocation_mode opts, c_scope = sc, c_delegation_chain = ch, c_expiry = ex\<rparr>"
    using b(2) unfolding new_capability_def by (auto simp: bind_Inr simp del: run_checks_None intro: that[OF _ sym])
  show "c_id (e_capability (mi_receipt m)) = mo_capability_id opts"
    "\<exists>budget. mo_budget opts = Some budget \<and> c_amount (e_capability (mi_receipt m)) = fst budget"
    "c_delegation_chain (e_capability (mi_receipt m)) = mo_delegation_chain opts"
    using b(1) chain[OF e(1)] unfolding e(2) by simp_all
qed

lemma prepared_plan:
  assumes "prepare_delegation x source q now = Some (Inr d)"
  shows "well_planned d"
proof -
  obtain budget ex sc opid t child dig where
    m: "mintCapabilityReceipt (x_sha256Hex x) (x_dparse x) source (e_receipt (dg_parent q))
         (child_mint (e_capability (dg_parent q)) q budget ex sc opid t) = Some (Inr child)"
    and d: "d = \<lparr>dp_parent_id = c_id (e_capability (dg_parent q)), dp_parent_fingerprint = x_fingerprint x (dg_parent q), dp_operation_id = opid,
         dp_action_digest = dig, dp_amount = num_val (fst budget), dp_currency = snd budget, dp_child = child\<rparr>"
    using assms by (auto simp: prepare_delegation_def plan_delegation_def Let_def split: option.splits sum.splits if_splits prod.splits)
  show ?thesis
    using minted_terms(2,3)[OF m] by (auto simp: d well_planned_def child_mint_def Let_def)
qed

lemma delegation_store:
  assumes "delegation_step x d now uuid ph s = (ph', s')"
  shows "s' = s \<or> cap_step (x_dparse x) (x_verify x) (x_fingerprint x) (x_entry_timeout x) s s'"
proof -
  note step = cap_step.intros[of "x_dparse x" "x_verify x" "x_fingerprint x" "x_entry_timeout x" s]
  show ?thesis
    using assms step by (cases ph) (auto simp: delegation_step_def split: prod.splits outcome.splits; metis snd_conv)+
qed

lemma delegation_next:
  assumes "delegation_step x d now uuid ph s = (ph', s')" "d_engaged ph'"
  shows "ph = D_reserve \<and> \<not> d_paid ph' \<and> map_get (operations s) (dkey d) = None
      \<and> (\<exists>op. map_get (operations s') (dkey d) = Some op \<and> pays_for d op)
    \<or> (\<exists>t. ph = D_commit t) \<and> d_paid ph' \<and> (\<exists>op. map_get (operations s') (dkey d) = Some op \<and> spent op)"
proof (cases ph)
  case D_reserve
  then obtain r where r: "reserveSpend (x_entry_timeout x) uuid (parent_reserve d now) s = (Ok r, s')" "\<not> d_paid ph'"
    using assms by (auto simp: delegation_step_def d_engaged_def d_paid_def split: prod.splits outcome.splits)
  show ?thesis
    using reserve_granted[OF r(1)] r(2) D_reserve by (auto simp: dkey_def pays_for_def parent_reserve_def reserve_namespace_def)
next
  case (D_commit t)
  then obtain r where r: "commitSpend (parent_commit d t now) s = (Ok r, s')" "d_paid ph'"
    using assms by (auto simp: delegation_step_def d_engaged_def d_paid_def split: prod.splits outcome.splits)
  then have "\<exists>op. map_get (operations s') (operationKey (commit_namespace (parent_commit d t now)) (m_operation_id (parent_commit d t now))) = Some op \<and> spent op"
    by (auto simp: commitSpend_def refuse_def Let_def spent_def simp del: run_checks_None split: option.splits sum.splits if_splits)
  then show ?thesis using D_commit r(2) by (auto simp: dkey_def parent_commit_def commit_namespace_def)
qed (use assms in \<open>auto simp: delegation_step_def d_engaged_def split: prod.splits outcome.splits if_splits\<close>)

lemma delegation_ends: "delegation_step x d now uuid ph s = (ph', s') \<Longrightarrow> ph = D_register r \<Longrightarrow> \<not> d_engaged ph'"
  by (auto simp: delegation_step_def d_engaged_def split: prod.splits outcome.splits if_splits)

text \<open>Only a registration adds a capability, and the parent of a child is registered by then.\<close>

lemma reserve_states: "map_get (states s) cid = None \<Longrightarrow> map_get (states (snd (reserveSpend timeout uuid q s))) cid = None"
proof -
  assume none: "map_get (states s) cid = None"
  have "map_get (states (snd (reserve_budget timeout uuid q dm st key s))) cid = None" if "map_get (states s) (q_capability_id q) = Some st" for dm st key
    using none that by (auto simp: reserve_budget_def refuse_def Let_def split: sum.split)
  with none show ?thesis
    unfolding reserveSpend_def Let_def by (auto simp: refuse_def simp del: run_checks_None split: option.split sum.split)
qed

lemma commit_states: "map_get (states s) cid = None \<Longrightarrow> map_get (states (snd (commitSpend q s))) cid = None"
  unfolding commitSpend_def Let_def by (auto simp: refuse_def simp del: run_checks_None split: option.split sum.split)

lemma lineage_registered: "capabilityLineageRefusal sts p = None \<Longrightarrow> map_get sts p \<noteq> None"
  by (auto simp: capabilityLineageRefusal_def lineage_loop.simps split: if_splits option.splits)

lemma register_child:
  assumes "registerCapability dparse verify fp e s = (r, s')"
  shows "s' = s \<or> (map_get (states s) (c_id (e_capability e)) = None
    \<and> (\<exists>st. s' = put_state (c_id (e_capability e)) st s \<and> budget_amount st = num_val (c_amount (e_capability e))
      \<and> s_parent st = (if c_delegation_chain (e_capability e) = [] then None else Some (parent_capability_id (last (c_delegation_chain (e_capability e)))))
      \<and> (\<forall>p. s_parent st = Some p \<longrightarrow> map_get (states s) p \<noteq> None)))"
proof (cases "verifyCapabilityReceiptIntegrity dparse verify e")
  case (Inr key)
  show ?thesis
  proof (cases "capabilityStateFromEnvelope dparse fp e")
    case state: (Inr st)
    have st: "s_capability_id st = c_id (e_capability e)" "budget_amount st = num_val (c_amount (e_capability e))"
      "s_parent st = (if c_delegation_chain (e_capability e) = [] then None else Some (parent_capability_id (last (c_delegation_chain (e_capability e)))))"
      using state by (auto simp: capabilityStateFromEnvelope_def Let_def split: sum.splits)
    show ?thesis
    proof (cases "s' = s")
      case False
      then have "map_get (states s) (s_capability_id st) = None" "s' = put_state (s_capability_id st) st s"
        "\<forall>p. s_parent st = Some p \<longrightarrow> capabilityLineageRefusal (states s) p = None"
        using assms Inr state by (auto simp: registerCapability_def put_state_def split: option.splits if_splits)
      then show ?thesis using st lineage_registered by metis
    qed simp
  qed (use assms Inr in \<open>simp add: registerCapability_def\<close>)
qed (use assms in \<open>simp add: registerCapability_def\<close>)

subsection \<open>The invariant\<close>

definition exec_keys :: "exec_system \<Rightarrow> string set" where
  "exec_keys e = (\<lambda>t. plan_key (fst t)) ` {t \<in> set (sy_threads e). engaged (snd t)} \<union> plan_key ` set (sy_log e)"

definition engaged_delegations :: "(delegation_plan \<times> delegation_phase) list \<Rightarrow> delegation_plan list" where
  "engaged_delegations ts = map fst (filter (\<lambda>t. d_engaged (snd t)) ts)"

definition owned_keys :: "tree_system \<Rightarrow> string list" where
  "owned_keys c = map dkey (engaged_delegations (tr_delegations c) @ tr_children c)"

definition rooted :: "tree_system \<Rightarrow> bool" where
  "rooted c \<longleftrightarrow> (\<forall>cid st p. map_get (states (tr_store c)) cid = Some st \<longrightarrow> s_parent st = Some p \<longrightarrow> cid \<in> child_id ` set (tr_children c))"

text \<open>Children in the order of their registration: no one's parent is registered later.\<close>

fun ordered :: "delegation_plan list \<Rightarrow> bool" where
  "ordered [] = True"
| "ordered (d # ds) \<longleftrightarrow> (\<forall>e \<in> set (d # ds). child_id e \<noteq> dp_parent_id d) \<and> child_id d \<notin> child_id ` set ds \<and> ordered ds"

definition tree_inv :: "tree_system \<Rightarrow> bool" where
  "tree_inv c \<longleftrightarrow> sys_inv (tr_sys c) \<and> list_all (delegation_ok (tr_store c)) (tr_delegations c) \<and> list_all (child_ok (tr_store c)) (tr_children c)
     \<and> distinct (owned_keys c) \<and> exec_keys (tr_sys c) \<inter> set (owned_keys c) = {} \<and> rooted c \<and> ordered (tr_children c)"

lemma exec_keys_stored: "sys_inv e \<Longrightarrow> k \<in> exec_keys e \<Longrightarrow> map_get (operations (sy_store e)) k \<noteq> None"
  by (auto simp: sys_inv_def exec_keys_def list_all_iff thread_ok_def logged_ok_def)

lemma owned_keys_stored: "tree_inv c \<Longrightarrow> k \<in> set (owned_keys c) \<Longrightarrow> map_get (operations (tr_store c)) k \<noteq> None"
  by (auto simp: tree_inv_def owned_keys_def engaged_delegations_def list_all_iff delegation_ok_def child_ok_def)

lemma sys_step_effect: "sys_step x e e' \<Longrightarrow> cap_effect (sy_store e) (sy_store e')"
proof (induction rule: sys_step.induct)
  case (proceeds i c p ph a ph' s')
  then show ?case using phase_store step_effect by fastforce
qed (auto dest: step_effect)

lemma sys_step_keys:
  assumes "sys_step x e e'" "k \<in> exec_keys e'"
  shows "k \<in> exec_keys e \<or> map_get (operations (sy_store e)) k = None"
  using assms(1)
proof (cases rule: sys_step.cases)
  case (proceeds i p ph a ph' s')
  have mem: "(p, ph) \<in> set (sy_threads e)" using proceeds(2,3) by (metis nth_mem)
  have own: "engaged ph' \<Longrightarrow> plan_key p \<in> exec_keys e \<or> map_get (operations (sy_store e)) (plan_key p) = None"
  proof (cases "ph = At_reserve")
    case True
    then show "engaged ph' \<Longrightarrow> ?thesis" using reserved_now(1)[OF proceeds(4)[unfolded True]] by simp
  next
    case False
    then show "engaged ph' \<Longrightarrow> ?thesis" using phase_next(1)[OF proceeds(4)] mem by (force simp: exec_keys_def)
  qed
  have "runs_effect ph \<Longrightarrow> engaged ph" by (cases ph) (auto simp: runs_effect_def engaged_def)
  then have ran: "runs_effect ph \<Longrightarrow> plan_key p \<in> exec_keys e" using mem by (force simp: exec_keys_def)
  have updated: "t = (p, ph') \<or> t \<in> set (sy_threads e)" if "t \<in> set ((sy_threads e)[i := (p, ph')])" for t
    using that set_update_subset_insert by fastforce
  consider (thread) t where "t \<in> set ((sy_threads e)[i := (p, ph')])" "engaged (snd t)" "k = plan_key (fst t)"
    | (log) "k \<in> plan_key ` set (sy_log e) \<or> runs_effect ph \<and> k = plan_key p"
    using assms(2) unfolding proceeds(1) by (auto simp: exec_keys_def split: if_splits)
  then show ?thesis
  proof cases
    case (thread t)
    then consider "t = (p, ph')" | "t \<in> set (sy_threads e)" using updated by blast
    then show ?thesis using thread(2,3) own by cases (auto simp: exec_keys_def)
  next
    case log
    then show ?thesis using ran by (auto simp: exec_keys_def)
  qed
qed (use assms(2) in \<open>auto simp: exec_keys_def engaged_def\<close>)

lemma tree_inv_executes:
  assumes "tree_inv c" "sys_step x (tr_sys c) e" "no_new_child (tr_store c) (sy_store e)"
  shows "tree_inv (c\<lparr>tr_sys := e\<rparr>)"
proof -
  have eff: "cap_effect (tr_store c) (sy_store e)" by (rule sys_step_effect[OF assms(2)])
  have "sys_inv e" using assms(1,2) executions.step_keeps unfolding tree_inv_def by blast
  moreover have "exec_keys e \<inter> set (owned_keys c) = {}"
    using sys_step_keys[OF assms(2)] owned_keys_stored[OF assms(1)] assms(1) unfolding tree_inv_def by blast
  moreover have "rooted (c\<lparr>tr_sys := e\<rparr>)"
    unfolding rooted_def
  proof (intro allI impI)
    fix cid st p assume a: "map_get (states (tr_store (c\<lparr>tr_sys := e\<rparr>))) cid = Some st" "s_parent st = Some p"
    then obtain st0 where st0: "map_get (states (tr_store c)) cid = Some st0" using assms(3) unfolding no_new_child_def by fastforce
    then have "s_parent st0 = Some p" using effect_states[OF eff st0] a by auto
    then show "cid \<in> child_id ` set (tr_children (c\<lparr>tr_sys := e\<rparr>))" using assms(1) st0 by (auto simp: tree_inv_def rooted_def)
  qed
  ultimately show ?thesis using assms(1) delegation_keeps[OF eff] by (auto simp: tree_inv_def list_all_iff owned_keys_def)
qed

text \<open>A registration that adds the child of a delegation.\<close>

lemma new_child_registers:
  assumes "delegation_step x d now uuid ph s = (ph', s')" "map_get (states s) cid = None" "map_get (states s') cid = Some st" "well_planned d"
  shows "(\<exists>r. ph = D_register r) \<and> cid = child_id d \<and> budget_amount st = dp_amount d \<and> s_parent st = Some (dp_parent_id d)
    \<and> map_get (states s) (dp_parent_id d) \<noteq> None"
proof (cases ph)
  case (D_register r)
  let ?e = "mi_receipt (dp_child d)"
  obtain r' where "registerCapability (x_dparse x) (x_verify x) (x_fingerprint x) ?e s = (r', s')"
    using assms(1) D_register by (auto simp: delegation_step_def split: prod.splits outcome.splits)
  from register_child[OF this] assms(2,3) obtain st' where
    st': "map_get (states s) (c_id (e_capability ?e)) = None" "s' = put_state (c_id (e_capability ?e)) st' s"
      "budget_amount st' = num_val (c_amount (e_capability ?e))"
      "s_parent st' = (if c_delegation_chain (e_capability ?e) = [] then None else Some (parent_capability_id (last (c_delegation_chain (e_capability ?e)))))"
      "\<forall>p. s_parent st' = Some p \<longrightarrow> map_get (states s) p \<noteq> None" by auto
  have "cid = child_id d" "st = st'" using assms(2,3) st'(2) by (auto simp: child_id_def split: if_splits)
  then show ?thesis using st' assms(4) D_register by (auto simp: well_planned_def Let_def)
next
  case D_reserve
  then have "s' = snd (reserveSpend (x_entry_timeout x) uuid (parent_reserve d now) s)"
    using assms(1) by (auto simp: delegation_step_def split: prod.splits outcome.splits)
  then show ?thesis using reserve_states[OF assms(2)] assms(3) by simp
next
  case (D_commit t)
  then have "s' = snd (commitSpend (parent_commit d t now) s)"
    using assms(1) by (auto simp: delegation_step_def split: prod.splits outcome.splits)
  then show ?thesis using commit_states[OF assms(2)] assms(3) by simp
qed (use assms in \<open>simp add: delegation_step_def\<close>)

lemma ordered_snoc:
  "ordered (ds @ [d]) \<longleftrightarrow> ordered ds \<and> (\<forall>e \<in> set ds. child_id d \<noteq> dp_parent_id e \<and> child_id d \<noteq> child_id e) \<and> child_id d \<noteq> dp_parent_id d"
  by (induction ds) auto

lemma engaged_update:
  assumes "i < length ts" "ts ! i = (d, ph)"
  obtains us vs where "ts = us @ (d, ph) # vs" "ts[i := (d, ph')] = us @ (d, ph') # vs"
    "engaged_delegations ts = engaged_delegations us @ (if d_engaged ph then [d] else []) @ engaged_delegations vs"
    "engaged_delegations (ts[i := (d, ph')]) = engaged_delegations us @ (if d_engaged ph' then [d] else []) @ engaged_delegations vs"
proof -
  obtain us vs where ts: "ts = us @ (d, ph) # vs" and i: "length us = i"
    using assms by (metis id_take_nth_drop length_take min_absorb2 less_imp_le)
  have "ts[i := (d, ph')] = us @ (d, ph') # vs" unfolding ts using i by (simp add: list_update_append)
  with ts show thesis using that[of us vs] by (simp add: engaged_delegations_def)
qed

lemma tree_inv_delegation:
  assumes inv: "tree_inv c" and i: "i < length (tr_delegations c)" "tr_delegations c ! i = (d, ph)"
    and step: "delegation_step x d now uuid ph (tr_store c) = (ph', s')"
  shows "tree_inv (c\<lparr>tr_sys := (tr_sys c)\<lparr>sy_store := s'\<rparr>, tr_delegations := (tr_delegations c)[i := (d, ph')],
      tr_children := tr_children c @ (if new_child d (tr_store c) s' then [d] else [])\<rparr>)" (is "tree_inv ?c'")
proof -
  let ?s = "tr_store c" and ?ch = "tr_children c @ (if new_child d (tr_store c) s' then [d] else [])"
  have mem: "(d, ph) \<in> set (tr_delegations c)" using i by (metis nth_mem)
  have ok: "delegation_ok ?s (d, ph)" using inv mem by (auto simp: tree_inv_def list_all_iff)
  then have plan: "well_planned d" by (simp add: delegation_ok_def)
  have store: "s' = ?s \<or> cap_step (x_dparse x) (x_verify x) (x_fingerprint x) (x_entry_timeout x) ?s s'" by (rule delegation_store[OF step])
  then have eff: "cap_effect ?s s'" using step_effect by blast
  have sys: "sys_inv ((tr_sys c)\<lparr>sy_store := s'\<rparr>)"
    using store inv sys_inv_store[of x "tr_sys c" s'] by (auto simp: tree_inv_def)
  note nxt = delegation_next[OF step]
  have upd: "delegation_ok s' (d, ph')"
    using plan delegation_keeps(1)[OF eff ok] nxt by (auto simp: delegation_ok_def d_engaged_def)
  have dels: "list_all (delegation_ok s') ((tr_delegations c)[i := (d, ph')])"
    using inv upd delegation_keeps(1)[OF eff] set_update_subset_insert[of "tr_delegations c" i "(d, ph')"]
    unfolding tree_inv_def list_all_iff by blast
  have new: "(\<exists>r. ph = D_register r) \<and> map_get (states ?s) (dp_parent_id d) \<noteq> None \<and> child_ok s' d" if n: "new_child d ?s s'"
  proof -
    obtain st where st: "map_get (states s') (child_id d) = Some st" using n by (auto simp: new_child_def)
    note reg = new_child_registers[OF step _ st plan]
    have none: "map_get (states ?s) (child_id d) = None" using n by (simp add: new_child_def)
    obtain r where r: "ph = D_register r" using reg[OF none] by blast
    then have "delegation_ok s' (d, ph)" "d_engaged ph" "d_paid ph" using delegation_keeps(1)[OF eff ok] by (simp_all add: d_engaged_def d_paid_def)
    moreover have "map_get (states s') (dp_parent_id d) \<noteq> None" using reg[OF none] effect_states[OF eff] by (metis option.exhaust option.distinct(1))
    ultimately show ?thesis using reg[OF none] st by (auto simp: delegation_ok_def child_ok_def)
  qed
  have children: "list_all (child_ok s') ?ch"
    using inv new delegation_keeps(2)[OF eff] by (auto simp: tree_inv_def list_all_iff)
  obtain us vs where parts: "engaged_delegations (tr_delegations c) = us @ (if d_engaged ph then [d] else []) @ vs"
    "engaged_delegations ((tr_delegations c)[i := (d, ph')]) = us @ (if d_engaged ph' then [d] else []) @ vs"
    by (rule engaged_update[OF i, of ph']) blast
  have fresh: "dkey d \<notin> set (owned_keys c) \<and> dkey d \<notin> exec_keys (tr_sys c)" if "map_get (operations ?s) (dkey d) = None"
    using that owned_keys_stored[OF inv] exec_keys_stored inv unfolding tree_inv_def by blast
  have registers: "d_engaged ph \<and> \<not> d_engaged ph'" if "new_child d ?s s'"
    using new[OF that] delegation_ends[OF step] by (auto simp: d_engaged_def)
  have reserve: "d_engaged ph \<or> map_get (operations ?s) (dkey d) = None" if "d_engaged ph'"
    using nxt[OF that] by (auto simp: d_engaged_def)
  have own: "set (owned_keys ?c') \<subseteq> set (owned_keys c) \<union> (if map_get (operations ?s) (dkey d) = None then {dkey d} else {})"
    using registers reserve by (auto simp: owned_keys_def parts split: if_splits)
  have "distinct (owned_keys c)" using inv by (simp add: tree_inv_def)
  then have dist: "distinct (owned_keys ?c')"
    using registers reserve fresh by (auto simp: owned_keys_def parts split: if_splits)
  have "exec_keys (tr_sys c) \<inter> set (owned_keys ?c') = {}"
    using own fresh inv unfolding tree_inv_def by (auto split: if_splits)
  moreover have "exec_keys ((tr_sys c)\<lparr>sy_store := s'\<rparr>) = exec_keys (tr_sys c)" by (simp add: exec_keys_def)
  moreover have "rooted ?c'"
    unfolding rooted_def
  proof (intro allI impI)
    fix cid st p assume a: "map_get (states (tr_store ?c')) cid = Some st" "s_parent st = Some p"
    show "cid \<in> child_id ` set (tr_children ?c')"
    proof (cases "map_get (states ?s) cid")
      case None
      then show ?thesis using new_child_registers[OF step None _ plan] a by (auto simp: new_child_def)
    next
      case (Some st0)
      then have "s_parent st0 = Some p" using effect_states[OF eff Some] a by auto
      then have "cid \<in> child_id ` set (tr_children c)" using Some inv by (auto simp: tree_inv_def rooted_def)
      then show ?thesis by auto
    qed
  qed
  moreover have "ordered ?ch"
  proof (cases "new_child d ?s s'")
    case True
    then have none: "map_get (states ?s) (child_id d) = None" by (simp add: new_child_def)
    have "child_id d \<noteq> dp_parent_id e \<and> child_id d \<noteq> child_id e" if "e \<in> set (tr_children c)" for e
      using that inv none by (auto simp: tree_inv_def list_all_iff child_ok_def)
    moreover have "child_id d \<noteq> dp_parent_id d" using new[OF True] none by auto
    ultimately show ?thesis using True inv by (auto simp: ordered_snoc tree_inv_def)
  qed (use inv in \<open>simp add: tree_inv_def\<close>)
  ultimately show ?thesis using sys dels children dist by (simp add: tree_inv_def)
qed

lemma tree_inv_delegates: "tree_inv c \<Longrightarrow> well_planned d \<Longrightarrow> tree_inv (c\<lparr>tr_delegations := tr_delegations c @ [(d, D_reserve)]\<rparr>)"
  by (simp add: tree_inv_def delegation_ok_def d_engaged_def owned_keys_def engaged_delegations_def rooted_def)

interpretation tree: store_invariant "tree_step x" tree_inv for x
proof
  fix c c' assume "tree_step x c c'" "tree_inv c"
  then show "tree_inv c'"
  proof (cases rule: tree_step.cases)
    case (delegation i d ph now uuid ph' s')
    then show ?thesis using tree_inv_delegation[OF \<open>tree_inv c\<close> delegation(2-4)] by simp
  qed (auto intro: tree_inv_executes tree_inv_delegates prepared_plan)
qed

subsection \<open>Sums over the tree\<close>

definition kid_rel :: "delegation_plan list \<Rightarrow> (string \<times> string) set" where
  "kid_rel ds = (\<lambda>d. (child_id d, dp_parent_id d)) ` set ds"

lemma kid_rel_snoc:
  assumes "ordered (ds @ [d])"
  shows "(k, a) \<in> (kid_rel (ds @ [d]))\<^sup>* \<longleftrightarrow> (if k = child_id d then a = child_id d \<or> (dp_parent_id d, a) \<in> (kid_rel ds)\<^sup>* else (k, a) \<in> (kid_rel ds)\<^sup>*)"
proof -
  let ?R = "kid_rel ds"
  have ins: "kid_rel (ds @ [d]) = insert (child_id d, dp_parent_id d) ?R" by (auto simp: kid_rel_def)
  have into: "(k, child_id d) \<in> ?R\<^sup>* \<longleftrightarrow> k = child_id d" for k
    using assms by (auto simp: ordered_snoc kid_rel_def elim: rtranclE)
  have out: "(child_id d, a) \<in> ?R\<^sup>* \<longleftrightarrow> a = child_id d" for a
    using assms by (auto simp: ordered_snoc kid_rel_def elim: converse_rtranclE)
  show ?thesis unfolding ins rtrancl_insert using into out by auto
qed

lemma sum_where_split:
  "(\<And>x. x \<in> set xs \<Longrightarrow> r x = (p x \<or> q x) \<and> \<not> (p x \<and> q x)) \<Longrightarrow> sum_where r f xs = sum_where p f xs + sum_where q f xs"
  by (induction xs) auto

lemma sum_where_none: "(\<And>x. x \<in> set xs \<Longrightarrow> \<not> p x) \<Longrightarrow> sum_where p f xs = 0"
  by (simp add: sum_where_def)

lemma tree_sum:
  fixes f :: "'p \<Rightarrow> int" and g :: "'p \<Rightarrow> string" and budget :: "string \<Rightarrow> int"
  assumes "ordered ds" and "\<And>c. sum_where (\<lambda>p. g p = c) f ps + sum_where (\<lambda>d. dp_parent_id d = c) dp_amount ds \<le> budget c"
    and "\<And>d. d \<in> set ds \<Longrightarrow> budget (child_id d) = dp_amount d" and pos: "\<And>p. p \<in> set ps \<Longrightarrow> 0 \<le> f p"
  shows "sum_where (\<lambda>p. (g p, a) \<in> (kid_rel ds)\<^sup>*) f ps \<le> budget a"
  using assms(1-3)
proof (induction ds arbitrary: g rule: rev_induct)
  case Nil
  then show ?case by (auto simp: kid_rel_def)
next
  case (snoc d ds)
  have below: "sum_where (\<lambda>e. dp_parent_id e = child_id d) dp_amount (ds @ [d]) = 0"
    by (rule sum_where_none) (use snoc.prems(1) in \<open>auto simp: ordered_snoc\<close>)
  have own: "sum_where (\<lambda>p. g p = child_id d) f ps \<le> dp_amount d"
    using snoc.prems(2)[of "child_id d"] snoc.prems(3)[of d] below by simp
  note rel = kid_rel_snoc[OF snoc.prems(1)]
  show ?case
  proof (cases "a = child_id d")
    case True
    have "(child_id d, child_id d) \<in> (kid_rel ds)\<^sup>*" "\<And>k. (k, child_id d) \<in> (kid_rel ds)\<^sup>* \<Longrightarrow> k = child_id d"
      using snoc.prems(1) by (auto simp: ordered_snoc kid_rel_def elim: rtranclE)
    then have "sum_where (\<lambda>p. (g p, a) \<in> (kid_rel (ds @ [d]))\<^sup>*) f ps = sum_where (\<lambda>p. g p = child_id d) f ps"
      by (intro sum_where_cong) (auto simp: rel True)
    then show ?thesis using own snoc.prems(3)[of d] True by simp
  next
    case False
    let ?g = "\<lambda>p. if g p = child_id d then dp_parent_id d else g p"
    have parent: "dp_parent_id d \<noteq> child_id d" using snoc.prems(1) by (auto simp: ordered_snoc)
    have "sum_where (\<lambda>p. ?g p = c) f ps + sum_where (\<lambda>e. dp_parent_id e = c) dp_amount ds \<le> budget c" for c
    proof -
      have full: "sum_where (\<lambda>e. dp_parent_id e = c) dp_amount (ds @ [d])
          = sum_where (\<lambda>e. dp_parent_id e = c) dp_amount ds + (if dp_parent_id d = c then dp_amount d else 0)"
        by (simp add: sum_where_def)
      show ?thesis
      proof (cases "c = dp_parent_id d")
        case True
        have "sum_where (\<lambda>p. ?g p = c) f ps = sum_where (\<lambda>p. g p = c) f ps + sum_where (\<lambda>p. g p = child_id d) f ps"
          by (rule sum_where_split) (use True parent in auto)
        then show ?thesis using snoc.prems(2)[of c] own full True by simp
      next
        case other: False
        have "sum_where (\<lambda>p. ?g p = c) f ps \<le> sum_where (\<lambda>p. g p = c) f ps"
          by (rule sum_where_mono) (use other pos in \<open>auto split: if_splits\<close>)
        then show ?thesis using snoc.prems(2)[of c] full other by simp
      qed
    qed
    moreover have "ordered ds" using snoc.prems(1) by (simp add: ordered_snoc)
    ultimately have "sum_where (\<lambda>p. (?g p, a) \<in> (kid_rel ds)\<^sup>*) f ps \<le> budget a" using snoc.IH[of ?g] snoc.prems(3) by simp
    moreover have "sum_where (\<lambda>p. (g p, a) \<in> (kid_rel (ds @ [d]))\<^sup>*) f ps = sum_where (\<lambda>p. (?g p, a) \<in> (kid_rel ds)\<^sup>*) f ps"
      by (rule sum_where_cong) (use False in \<open>auto simp: rel\<close>)
    ultimately show ?thesis by simp
  qed
qed

subsection \<open>Authority never grows along delegations\<close>

lemma ancestor_kid_rel:
  assumes "tree_inv c"
  shows "ancestor (states (tr_store c)) k a \<longleftrightarrow> (k, a) \<in> (kid_rel (tr_children c))\<^sup>*"
proof
  have child: "child_ok (tr_store c) d" if "d \<in> set (tr_children c)" for d using assms that by (auto simp: tree_inv_def list_all_iff)
  show "(k, a) \<in> (kid_rel (tr_children c))\<^sup>*" if "ancestor (states (tr_store c)) k a"
    using that
  proof (induction rule: ancestor.induct)
    case (ancestor_up k st p a)
    then obtain d where d: "d \<in> set (tr_children c)" "k = child_id d" using assms unfolding tree_inv_def rooted_def by blast
    then have "p = dp_parent_id d" using ancestor_up(1,2) child[OF d(1)] by (auto simp: child_ok_def)
    then have "(k, p) \<in> kid_rel (tr_children c)" using d by (auto simp: kid_rel_def)
    then show ?case using ancestor_up(4) by (rule converse_rtrancl_into_rtrancl)
  qed simp
  show "ancestor (states (tr_store c)) k a" if "(k, a) \<in> (kid_rel (tr_children c))\<^sup>*"
    using that
  proof (induction rule: converse_rtrancl_induct)
    case base
    show ?case by (rule ancestor_refl)
  next
    case (step k p)
    then obtain d where "d \<in> set (tr_children c)" "k = child_id d" "p = dp_parent_id d" by (auto simp: kid_rel_def)
    then show ?case using child[of d] step(3) by (auto simp: child_ok_def intro: ancestor_up)
  qed
qed

text \<open>What is started under a capability and what is delegated from it are paid for by different operations.\<close>

lemma direct_within:
  assumes "tree_inv c"
  shows "sum_where (\<lambda>p. pl_capability_id p = cid) pl_amount (sy_log (tr_sys c)) + sum_where (\<lambda>d. dp_parent_id d = cid) dp_amount (tr_children c)
    \<le> amounts (spent_on cid) (tr_store c)"
proof -
  let ?ps = "filter (\<lambda>p. pl_capability_id p = cid) (sy_log (tr_sys c))" and ?ds = "filter (\<lambda>d. dp_parent_id d = cid) (tr_children c)"
  let ?xs = "map Inl ?ps @ map Inr ?ds" and ?key = "case_sum plan_key dkey" and ?amount = "case_sum pl_amount dp_amount"
  have inv: "sys_inv (tr_sys c)" "list_all (child_ok (tr_store c)) (tr_children c)" "distinct (owned_keys c)"
    "exec_keys (tr_sys c) \<inter> set (owned_keys c) = {}" using assms by (simp_all add: tree_inv_def)
  have "sum_list (map ?amount ?xs) \<le> amounts (spent_on cid) (tr_store c)"
    unfolding amounts_def
  proof (rule keyed_sum_le[where key = ?key])
    show "map_ok (operations (tr_store c))" using inv(1) by (simp add: sys_inv_def accounts_inv_def)
    have "distinct (map plan_key ?ps)" using inv(1) by (simp add: sys_inv_def distinct_map_filter)
    moreover have "distinct (map dkey ?ds)" using inv(3) by (simp add: owned_keys_def distinct_map_filter)
    moreover have "plan_key ` set ?ps \<inter> dkey ` set ?ds = {}" using inv(4) by (auto simp: exec_keys_def owned_keys_def)
    ultimately show "distinct (map ?key ?xs)" by (simp add: comp_def)
    show "\<exists>op. map_get (operations (tr_store c)) (?key y) = Some op \<and> spent_on cid op \<and> o_amount op = ?amount y" if "y \<in> set ?xs" for y
      using that inv(1,2)
      by (auto simp: sys_inv_def list_all_iff logged_ok_def plan_op_def child_ok_def pays_for_def spent_on_def spent_def)
    show "0 \<le> o_amount op" if "op \<in> set (map_values (operations (tr_store c)))" for op
      using stored_amount[OF _ that] inv(1) by (simp add: sys_inv_def less_imp_le)
  qed
  then show ?thesis by (simp add: sum_where_def comp_def)
qed

lemma tree_run_inv: "(tree_step x)\<^sup>*\<^sup>* tree_start c \<Longrightarrow> tree_inv c"
  by (erule tree.run_keeps)
    (simp add: tree_inv_def tree_start_def sys_inv_def sys_start_def accounts_inv_def fence_inv_def empty_store_def disjoint_threads_def
      owned_keys_def engaged_delegations_def exec_keys_def rooted_def)

text \<open>
  Property C2. However executions, delegations and other uses of the store are interleaved, the effects that are
  started under a capability and under all its descendants, direct or further down, never exceed its budget.
\<close>

theorem delegated_authority_bounded:
  assumes "(tree_step x)\<^sup>*\<^sup>* tree_start c" "map_get (states (tr_store c)) cid = Some st"
  shows "sum_where (\<lambda>p. ancestor (states (tr_store c)) (pl_capability_id p) cid) pl_amount (sy_log (tr_sys c)) \<le> budget_amount st"
proof -
  note inv = tree_run_inv[OF assms(1)]
  define budget where "budget k = (case map_get (states (tr_store c)) k of None \<Rightarrow> 0 | Some st \<Rightarrow> budget_amount st)" for k
  have acc: "accounts_inv (tr_store c)" using inv by (simp add: tree_inv_def sys_inv_def)
  have "sum_where (\<lambda>p. (pl_capability_id p, cid) \<in> (kid_rel (tr_children c))\<^sup>*) pl_amount (sy_log (tr_sys c)) \<le> budget cid"
  proof (rule tree_sum)
    show "ordered (tr_children c)" using inv by (simp add: tree_inv_def)
    show "budget (child_id d) = dp_amount d" if "d \<in> set (tr_children c)" for d
      using that inv by (auto simp: tree_inv_def list_all_iff child_ok_def budget_def)
    show "0 \<le> pl_amount p" if "p \<in> set (sy_log (tr_sys c))" for p
    proof -
      have "logged_ok (tr_store c) p" using inv that by (auto simp: tree_inv_def sys_inv_def list_all_iff)
      then show ?thesis using acc by (fastforce simp: logged_ok_def plan_op_def accounts_inv_def)
    qed
    show "sum_where (\<lambda>p. pl_capability_id p = k) pl_amount (sy_log (tr_sys c)) + sum_where (\<lambda>d. dp_parent_id d = k) dp_amount (tr_children c) \<le> budget k" for k
    proof (cases "map_get (states (tr_store c)) k")
      case None
      have "amounts (spent_on k) (tr_store c) = 0"
        unfolding amounts_def
      proof (rule sum_where_none)
        fix op assume "op \<in> set (map_values (operations (tr_store c)))"
        then obtain key where "map_get (operations (tr_store c)) key = Some op" using acc by (auto simp: accounts_inv_def map_values_mem)
        then have "map_get (states (tr_store c)) (o_capability_id op) \<noteq> None" using acc unfolding accounts_inv_def by blast
        then show "\<not> spent_on k op" using None by (auto simp: spent_on_def)
      qed
      then show ?thesis using direct_within[OF inv, of k] None by (simp add: budget_def)
    next
      case (Some st')
      then have "accounted (tr_store c) k st'" using acc unfolding accounts_inv_def by blast
      then show ?thesis using amounts_nonneg[OF acc, of "held_on k"] amounts_nonneg[OF acc, of "stranded_on k"] direct_within[OF inv, of k] Some by (simp add: budget_def accounted_def)
    qed
  qed
  then show ?thesis using assms(2) by (simp add: ancestor_kid_rel[OF inv] budget_def)
qed

end
