(* ===== verification/Capability_Issue.thy ===== *)
theory Capability_Issue
  imports Capability_Tree
begin

section \<open>What issuing guarantees\<close>

text \<open>
  The capability that minting hands out is accepted, and its secret or enough of its shares open it; a delegated
  capability narrows its parent; a reconciliation moves what its evidence supports and nothing else.
\<close>

subsection \<open>Minting\<close>

lemma mint_parts:
  assumes "mintCapabilityReceipt sha dparse source b opts = Some (Inr m)"
  obtains nd pk sign where "digestSecret sha (mo_secret opts) = Inr nd" "mo_key opts = Issuer_key pk sign" "validateBaseReceipt b = None"
    "e_version (mi_receipt m) = CAPABILITY_RECEIPT_VERSION" "e_receipt (mi_receipt m) = b"
    "assertCapabilityShape dparse (e_capability (mi_receipt m)) = Inr ()" "c_secret_hash (e_capability (mi_receipt m)) = sd_hash nd"
    "e_signature (mi_receipt m) = Some \<lparr>g_algorithm = ''Ed25519'', g_public_key = pk, g_value = sign b (e_capability (mi_receipt m))\<rparr>"
    "if direct_threshold (mo_threshold opts) then mi_secret m = Some (sd_bytes nd) \<and> mi_shares m = None
     else mi_secret m = None \<and> (\<exists>shares. mi_shares m = Some shares \<and>
       splitCapabilitySecret sha (Secret_buffer (sd_bytes nd)) (mo_threshold opts) source = Some (Inr shares))"
proof -
  obtain nd pk sign budget where a: "digestSecret sha (mo_secret opts) = Inr nd" "mo_key opts = Issuer_key pk sign" "validateBaseReceipt b = None"
    "new_capability dparse nd budget opts = Inr (e_capability (mi_receipt m))"
    "e_version (mi_receipt m) = CAPABILITY_RECEIPT_VERSION" "e_receipt (mi_receipt m) = b"
    "assertCapabilityShape dparse (e_capability (mi_receipt m)) = Inr ()"
    "e_signature (mi_receipt m) = Some \<lparr>g_algorithm = ''Ed25519'', g_public_key = pk, g_value = sign b (e_capability (mi_receipt m))\<rparr>"
    "if direct_threshold (mo_threshold opts) then mi_secret m = Some (sd_bytes nd) \<and> mi_shares m = None
     else mi_secret m = None \<and> (\<exists>shares. mi_shares m = Some shares \<and>
       splitCapabilitySecret sha (Secret_buffer (sd_bytes nd)) (mo_threshold opts) source = Some (Inr shares))"
    using assms by (auto simp: mintCapabilityReceipt_def Let_def split: option.splits sum.splits issuer_key.splits if_splits)
  moreover have "c_secret_hash (e_capability (mi_receipt m)) = sd_hash nd"
    using a(4) unfolding new_capability_def by (auto simp: bind_Inr simp del: run_checks_None) (metis capability.select_convs(3))
  ultimately show thesis using that by blast
qed

lemma digest_again:
  "digestSecret sha secret = Inr nd \<Longrightarrow> digestSecret sha (Secret_buffer (sd_bytes nd)) = Inr nd"
  by (auto simp: digestSecret_def split: sum.splits if_splits)

lemma secret_opens:
  "digestSecret sha secret = Inr nd \<Longrightarrow> c_secret_hash c = sd_hash nd \<Longrightarrow> verifySecret sha c (Secret_buffer (sd_bytes nd)) = Inr (equalHash (sd_hash nd) (sd_hash nd))"
  by (simp add: verifySecret_def digest_again)

definition opens :: "(bytes \<Rightarrow> string) \<Rightarrow> capability \<Rightarrow> bytes \<Rightarrow> bool" where
  "opens sha c secret \<longleftrightarrow> verifySecret sha c (Secret_buffer secret) = Inr True"

text \<open>
  Property C13. What minting hands out is accepted and can be used: the receipt verifies under the key of the
  issuer, given that the signature check accepts what the issuer signed, and the secret, or what any selection
  of at least \<open>m\<close> of the shares reconstructs, is the secret of the capability.
\<close>

theorem minted_capability_opens:
  assumes mint: "mintCapabilityReceipt sha dparse source b opts = Some (Inr m)"
    and key: "mo_key opts = Issuer_key pk sign" and trusted: "pk \<in> set trusted" and number: "reads_decimals number"
    and signature: "\<And>e v. e_signature e = Some \<lparr>g_algorithm = ''Ed25519'', g_public_key = pk, g_value = v\<rparr> \<Longrightarrow>
      v = sign (e_receipt e) (e_capability e) \<Longrightarrow> verify e = Some True"
  shows "verifyCapabilityReceipt dparse verify trusted (mi_receipt m) = Inr pk \<and> (case mi_secret m of
      Some secret \<Rightarrow> mi_shares m = None \<and> opens sha (e_capability (mi_receipt m)) secret
    | None \<Rightarrow> \<exists>shares. mi_shares m = Some shares \<and> (\<forall>chosen k n. validateThreshold (mo_threshold opts) = Inr (k, n) \<longrightarrow>
        distinct chosen \<longrightarrow> set chosen \<subseteq> set shares \<longrightarrow> k \<le> length chosen \<longrightarrow>
        (\<exists>secret. reconstructCapabilitySecret number chosen (mo_threshold opts) = Inr secret
          \<and> opens sha (e_capability (mi_receipt m)) secret)))"
proof -
  from mint show ?thesis
  proof (rule mint_parts)
    fix nd pk' sign'
    assume nd: "digestSecret sha (mo_secret opts) = Inr nd" and k: "mo_key opts = Issuer_key pk' sign'" and base: "validateBaseReceipt b = None"
      and v: "e_version (mi_receipt m) = CAPABILITY_RECEIPT_VERSION" "e_receipt (mi_receipt m) = b"
        "assertCapabilityShape dparse (e_capability (mi_receipt m)) = Inr ()" "c_secret_hash (e_capability (mi_receipt m)) = sd_hash nd"
      and g: "e_signature (mi_receipt m) = Some \<lparr>g_algorithm = ''Ed25519'', g_public_key = pk', g_value = sign' b (e_capability (mi_receipt m))\<rparr>"
      and handed: "if direct_threshold (mo_threshold opts) then mi_secret m = Some (sd_bytes nd) \<and> mi_shares m = None
        else mi_secret m = None \<and> (\<exists>shares. mi_shares m = Some shares \<and>
          splitCapabilitySecret sha (Secret_buffer (sd_bytes nd)) (mo_threshold opts) source = Some (Inr shares))"
    have same: "pk' = pk" "sign' = sign" using k key by simp_all
    have "verify (mi_receipt m) = Some True" using signature[OF g[unfolded same]] v(2) by simp
    then have "verifyCapabilityReceipt dparse verify trusted (mi_receipt m) = Inr pk"
      using v base g same trusted by (auto simp: verifyCapabilityReceipt_def capabilitySignature_def verifyTrustedIssuer_def)
    moreover have "sha256_re (sd_hash nd)" using v(3,4) by (auto simp: assertCapabilityShape_def split: option.splits)
    then have "opens sha (e_capability (mi_receipt m)) (sd_bytes nd)"
      using secret_opens[OF nd v(4)] by (simp add: opens_def equalHash_def ACTION_DIGEST_RE_def)
    ultimately show ?thesis
      using handed split_reconstructs[OF _ digest_again[OF nd] _ _ _ _ number] by (auto split: if_splits)
  qed
qed

subsection \<open>Delegation\<close>

lemma normalize_again: "normalizeCapabilityScope s = Inr s' \<Longrightarrow> normalizeCapabilityScope s' = Inr s'"
  by (cases s) (auto simp: run_checks.simps scope_members_ok_def list_all_iff sorted_sort_id split: option.splits if_splits)

lemma caid_fence_narrows: "set cs \<subseteq> set ps \<Longrightarrow> caid_fence sha cs a = Inr r \<Longrightarrow> caid_fence sha ps a = Inr r"
  by (cases a; cases "the a")
    (auto simp: caid_fence_def resolved_caid_def subset_iff simp del: split_paired_All split: option.splits if_splits sum.splits)

lemma fence_narrows:
  "\<not> scope_broadened p c \<Longrightarrow> scope_fence sha a b c d = Inr r \<Longrightarrow> scope_fence sha a b p d = Inr r"
  by (cases p; cases c)
    (auto simp: scope_fence_def list_all_iff subset_iff split: if_splits; auto simp: subset_iff dest: caid_fence_narrows[rotated] split: sum.split_asm)+

lemma scope_narrows:
  assumes "normalizeCapabilityScope p = Inr p'" "normalizeCapabilityScope c = Inr c'" "\<not> scope_broadened p' c'"
    and "verifyCapabilityScope sha a b c action opid = Inr r"
  shows "verifyCapabilityScope sha a b p action opid = Inr r"
  using assms fence_narrows[OF assms(3)] unfolding verifyCapabilityScope_def
  by (auto split: sum.splits)

lemma minted_scope:
  assumes "mintCapabilityReceipt sha dparse source b opts = Some (Inr m)"
  shows "normalizeCapabilityScope (mo_scope opts) = Inr (c_scope (e_capability (mi_receipt m)))"
    and "normalized_expiry dparse (mo_expiry opts) = Inr (c_expiry (e_capability (mi_receipt m)))"
    and "mo_budget opts = Some budget \<Longrightarrow> c_currency (e_capability (mi_receipt m)) = snd budget"
proof -
  obtain nd bd where a: "new_capability dparse nd bd opts = Inr (e_capability (mi_receipt m))" "mo_budget opts = Some bd"
    using assms by (auto simp: mintCapabilityReceipt_def Let_def split: option.splits sum.splits issuer_key.splits if_splits)
  then show "normalizeCapabilityScope (mo_scope opts) = Inr (c_scope (e_capability (mi_receipt m)))"
    "normalized_expiry dparse (mo_expiry opts) = Inr (c_expiry (e_capability (mi_receipt m)))"
    "mo_budget opts = Some budget \<Longrightarrow> c_currency (e_capability (mi_receipt m)) = snd budget"
    unfolding new_capability_def by (auto simp: bind_Inr simp del: run_checks_None) (metis capability.select_convs)+
qed

lemma child_terms_Inr:
  "case child_terms dparse parent q of Inl e \<Rightarrow> True | Inr (budget, ex, sc, opid) \<Rightarrow> \<exists>pex psc. 0 < num_val (fst budget)
    \<and> snd budget = c_currency parent \<and> normalized_expiry dparse (dg_expiry q) = Inr ex
    \<and> normalized_expiry dparse (Expiry_text (c_expiry parent)) = Inr pex
    \<and> \<not> (case (dparse ex, dparse pex) of (Some a, Some b) \<Rightarrow> a > b | _ \<Rightarrow> False) \<and> normalizeCapabilityScope (c_scope parent) = Inr psc
    \<and> normalizeCapabilityScope (case dg_scope q of None \<Rightarrow> psc | Some s \<Rightarrow> s) = Inr sc \<and> \<not> scope_broadened psc sc"
  unfolding child_terms_def Let_def by (auto split: sum.split option.split)

lemma iso_expiry:
  assumes parse: "\<And>s t. dparse s = Some t \<Longrightarrow> dparse (to_iso_string t) = Some t" and "normalized_expiry dparse (Expiry_text s) = Inr s'"
  shows "dparse s' = dparse s" "dparse s \<noteq> None"
  using assms by (auto simp: normalized_expiry_def split: option.splits)

text \<open>
  Property C14. A delegation that is prepared narrows its parent: the parent is accepted and was opened by its
  secret; the child is in the currency of the parent, for a positive amount, ends no later, continues the
  parent's chain, and every action that its scope admits is admitted by the parent's scope in the same way.
  The parser of dates is assumed to read the ISO text of a time that it returned.
\<close>

theorem delegation_narrows:
  assumes prepared: "prepare_delegation x source q now = Some (Inr d)"
    and parse: "\<And>s t. x_dparse x s = Some t \<Longrightarrow> x_dparse x (to_iso_string t) = Some t"
  shows "let parent = e_capability (dg_parent q); child = e_capability (mi_receipt (dp_child d)) in
    (\<exists>key. verifyCapabilityReceipt (x_dparse x) (x_verify x) (dg_trusted_keys q) (dg_parent q) = Inr key)
    \<and> verifySecret (x_sha256Hex x) parent (dg_parent_secret q) = Inr True
    \<and> c_currency child = c_currency parent \<and> 0 < num_val (c_amount child) \<and> dp_amount d = num_val (c_amount child)
    \<and> (\<exists>a b. x_dparse x (c_expiry child) = Some a \<and> x_dparse x (c_expiry parent) = Some b \<and> a \<le> b)
    \<and> (\<exists>e. c_delegation_chain child = c_delegation_chain parent @ [e] \<and> parent_capability_id e = c_id parent \<and> delegate_id e = dg_delegate_id q)
    \<and> (\<forall>caid profile action opid r. verifyCapabilityScope (x_hash x) caid profile (c_scope child) action opid = Inr r
        \<longrightarrow> verifyCapabilityScope (x_hash x) caid profile (c_scope parent) action opid = Inr r)"
proof -
  let ?parent = "e_capability (dg_parent q)" and ?child = "e_capability (mi_receipt (dp_child d))"
  obtain key where ok: "verifyCapabilityReceipt (x_dparse x) (x_verify x) (dg_trusted_keys q) (dg_parent q) = Inr key"
    "verifySecret (x_sha256Hex x) ?parent (dg_parent_secret q) = Inr True" "plan_delegation x source q now = Some (Inr d)"
    using prepared by (auto simp: prepare_delegation_def split: sum.splits if_splits option.splits)
  obtain budget ex sc opid t where terms: "child_terms (x_dparse x) ?parent q = Inr (budget, ex, sc, opid)"
    and mint: "mintCapabilityReceipt (x_sha256Hex x) (x_dparse x) source (e_receipt (dg_parent q)) (child_mint ?parent q budget ex sc opid t)
      = Some (Inr (dp_child d))" and amount: "dp_amount d = num_val (fst budget)"
    using ok(3) by (auto simp: plan_delegation_def Let_def split: sum.splits option.splits if_splits prod.splits)
  obtain pex psc where p: "0 < num_val (fst budget)" "snd budget = c_currency ?parent" "normalized_expiry (x_dparse x) (dg_expiry q) = Inr ex"
    "normalized_expiry (x_dparse x) (Expiry_text (c_expiry ?parent)) = Inr pex"
    "\<not> (case (x_dparse x ex, x_dparse x pex) of (Some a, Some b) \<Rightarrow> a > b | _ \<Rightarrow> False)"
    "normalizeCapabilityScope (c_scope ?parent) = Inr psc"
    "normalizeCapabilityScope (case dg_scope q of None \<Rightarrow> psc | Some s \<Rightarrow> s) = Inr sc" "\<not> scope_broadened psc sc"
    using child_terms_Inr[where dparse = "x_dparse x" and parent = ?parent and q = q] unfolding terms by auto
  have budget: "mo_budget (child_mint ?parent q budget ex sc opid t) = Some budget" "mo_scope (child_mint ?parent q budget ex sc opid t) = sc"
    "mo_expiry (child_mint ?parent q budget ex sc opid t) = Expiry_text ex"
    by (simp_all add: child_mint_def)
  note m = minted_terms(2,3)[OF mint] minted_scope[OF mint, unfolded budget]
  have scope: "c_scope ?child = sc" using m(3) normalize_again[OF p(7)] by simp
  have "normalizeCapabilityScope (c_scope ?child) = Inr sc" unfolding scope by (rule normalize_again[OF p(7)])
  from scope_narrows[OF p(6) this p(8)]
  have "\<forall>caid profile action opid r. verifyCapabilityScope (x_hash x) caid profile (c_scope ?child) action opid = Inr r
        \<longrightarrow> verifyCapabilityScope (x_hash x) caid profile (c_scope ?parent) action opid = Inr r" by blast
  moreover have "\<exists>a b. x_dparse x (c_expiry ?child) = Some a \<and> x_dparse x (c_expiry ?parent) = Some b \<and> a \<le> b"
    using iso_expiry[OF parse m(4)] iso_expiry[OF parse p(4)] p(5) by (auto split: option.splits)
  ultimately show ?thesis
    using ok(1,2) p(1,2) m(1,2) m(5)[OF refl] amount by (auto simp: child_mint_def)
qed

subsection \<open>Reconciliation\<close>

definition reconciled_key :: "reconcile_call \<Rightarrow> string" where
  "reconciled_key q = operationKey (case rq_operation_namespace q of None \<Rightarrow> rq_capability_id q | Some n \<Rightarrow> n) (rq_operation_id q)"

text \<open>What a reconciliation that is applied does to the capabilities, and what it needs.\<close>

definition settled_states :: "string \<Rightarrow> operation \<Rightarrow> cap_store \<Rightarrow> (string \<times> cap_state) list" where
  "settled_states outcome op s = (case map_get (states s) (o_capability_id op) of None \<Rightarrow> states s
     | Some st \<Rightarrow> if o_status op \<noteq> Reserved then states s
         else states (put_state (o_capability_id op) ((if outcome = ''executed'' then consume_budget else release_budget) op st) s))"

lemma reconcile_spend_applied:
  assumes "reconcileSpend dparse r s = (Ok again, s')" "x_namespace r = Some ns"
  shows "\<exists>op. map_get (operations s) (operationKey ns (x_operation_id r)) = Some op \<and> o_capability_id op = x_capability_id r
    \<and> o_action_digest op = x_action_digest r \<and> (\<not> again \<longrightarrow> states s' = settled_states (x_outcome r) op s) \<and> (again \<longrightarrow> s' = s)
    \<and> (x_outcome r = ''not_entered'' \<longrightarrow> (\<exists>t. dparse (x_evidence_observed_at r) = Some t \<and> (o_status op = Released \<or> o_entry_deadline_at op \<le> t)))"
  using assms
  unfolding reconcileSpend_def Let_def reconcile_namespace_def reconcile_not_entered_def reconcile_executed_def reconciled_before_def
  by (auto simp: refuse_def settled_states_def evidenceObservedAtMs_def simp del: run_checks_None
      split: option.splits sum.splits if_splits)

text \<open>
  Property C29. In a store reached by a run, a reconciliation follows its evidence and refunds nothing. It is applied only on a
  valid verdict over the digest of the action with a digest of the evidence, and the operation that it settles is one of this
  capability for this action; a negative verdict must also be authenticated, final, under a valid profile and bound to the capability, the
  namespace and the operation, and observed after the entry deadline unless the operation was released before. Amounts move only when
  the operation was still reserved: its amount leaves the reserved part, and is consumed exactly if the verdict
  is \<open>executed\<close>; so the consumed amount of no capability becomes lower.
\<close>

theorem reconciliation_follows_evidence:
  assumes "cap_run dparse verify fp timeout empty_store s"
    and "reconcileCapabilityOperation x q answer now s = (Reconciled outcome again, s')"
  shows "\<exists>v d (op :: operation). answer = Evidence v \<and> capabilityActionDigest (x_hash x) (rq_action q) = Inr d
    \<and> vd_valid v \<and> vd_outcome v = Some outcome \<and> vd_action_digest v = Some d \<and> outcome \<in> {''executed'', ''not_entered''}
    \<and> (\<exists>e. vd_evidence_digest v = Some e \<and> ACTION_DIGEST_RE e)
    \<and> map_get (operations s) (reconciled_key q) = Some op \<and> o_capability_id op = rq_capability_id q \<and> o_action_digest op = d
    \<and> (outcome = ''not_entered'' \<longrightarrow> vd_authenticated v \<and> vd_final v \<and> vd_capability_id v = Some (rq_capability_id q)
        \<and> vd_operation_namespace v = Some (case rq_operation_namespace q of None \<Rightarrow> rq_capability_id q | Some n \<Rightarrow> n)
        \<and> vd_operation_id v = Some (rq_operation_id q) \<and> (\<exists>e. vd_evidence_profile v = Some e \<and> fst (validateEvidenceProfile e))
        \<and> (\<exists>t. x_dparse x (option_text (vd_observed_at v)) = Some t \<and> (o_status op = Released \<or> o_entry_deadline_at op \<le> t)))
    \<and> (again \<longrightarrow> s' = s)
    \<and> (\<forall>cid st. map_get (states s) cid = Some st \<longrightarrow> (\<exists>st'. map_get (states s') cid = Some st'
        \<and> (let moved = (if \<not> again \<and> o_status op = Reserved \<and> cid = rq_capability_id q then o_amount op else 0) in
           consumed_amount st \<le> consumed_amount st' \<and> reserved_amount st' = reserved_amount st - moved
           \<and> consumed_amount st' = consumed_amount st + (if outcome = ''executed'' then moved else 0))))"
proof -
  let ?ns = "case rq_operation_namespace q of None \<Rightarrow> rq_capability_id q | Some n \<Rightarrow> n"
  obtain v d where v: "answer = Evidence v" "capabilityActionDigest (x_hash x) (rq_action q) = Inr d"
    "evidence_bound (x_dparse x) (rq_capability_id q) ?ns (rq_operation_id q) d v" "outcome = option_text (vd_outcome v)"
    "reconcileSpend (x_dparse x) (reconcile_request (rq_capability_id q) ?ns (rq_operation_id q) d v now) s = (Ok again, s')"
    using assms(2) by (auto simp: reconcileCapabilityOperation_def evidence_rejected_def Let_def simp del: run_checks_None
      split: if_splits sum.splits evidence_answer.splits prod.splits outcome.splits)
  let ?r = "reconcile_request (rq_capability_id q) ?ns (rq_operation_id q) d v now"
  have r: "x_operation_id ?r = rq_operation_id q" "x_capability_id ?r = rq_capability_id q" "x_action_digest ?r = d" "x_outcome ?r = outcome"
    "x_namespace ?r = Some ?ns" "outcome = ''not_entered'' \<Longrightarrow> x_evidence_observed_at ?r = option_text (vd_observed_at v)"
    using v(4) by (auto simp: reconcile_request_def Let_def option_text_def split: option.splits)
  obtain op where op: "map_get (operations s) (reconciled_key q) = Some op" "o_capability_id op = rq_capability_id q" "o_action_digest op = d"
    "\<not> again \<longrightarrow> states s' = settled_states outcome op s" "again \<longrightarrow> s' = s"
    "outcome = ''not_entered'' \<longrightarrow> (\<exists>t. x_dparse x (x_evidence_observed_at ?r) = Some t \<and> (o_status op = Released \<or> o_entry_deadline_at op \<le> t))"
    using reconcile_spend_applied[OF v(5) r(5)] unfolding r reconciled_key_def by blast
  have pos: "0 < o_amount op" using run_accounts[OF assms(1)] op(1) unfolding accounts_inv_def by blast
  have moved: "\<exists>st'. map_get (states s') cid = Some st' \<and> (let moved = (if \<not> again \<and> o_status op = Reserved \<and> cid = rq_capability_id q then o_amount op else 0) in
      consumed_amount st \<le> consumed_amount st' \<and> reserved_amount st' = reserved_amount st - moved \<and> consumed_amount st' = consumed_amount st + (if outcome = ''executed'' then moved else 0))"
    if "map_get (states s) cid = Some st" for cid st
    using that op(2,4,5) pos by (cases again)
      (auto simp: settled_states_def put_state_def consume_budget_def release_budget_def Let_def split: option.splits if_splits)
  show ?thesis
    using v(1,2,3) op(1-3,5,6) r(6) moved v(4) by (auto simp: evidence_bound_def option_text_def split: option.splits)
qed

subsection \<open>A delegation on a small store\<close>

definition sample_terms :: mint_options where
  "sample_terms = \<lparr>mo_key = Issuer_key ''key'' (\<lambda>b c. ''sig''), mo_budget = Some (Integral 50, ''USD''), mo_expiry = Expiry_text ''later'',
     mo_threshold = \<lparr>th_m = Integral 1, th_n = Integral 1\<rparr>, mo_revocation_mode = ''direct'', mo_scope = Digest_scope [sample_digest] ''op'',
     mo_delegation_chain = [\<lparr>delegation_id = ''delegation:c2'', parent_capability_id = ''c1'', delegate_id = ''bob'',
       d_amount = Integral 50, d_currency = ''USD'', issued_at = to_iso_string 1\<rparr>],
     mo_capability_id = ''c2'', mo_secret = Secret_buffer (replicate 32 0)\<rparr>"

definition sample_child :: minted where
  "sample_child = \<lparr>mi_receipt = sample_receipt\<lparr>e_capability := \<lparr>c_version = CAPABILITY_STATE_VERSION, c_id = ''c2'', c_secret_hash = sample_digest,
       c_amount = Integral 50, c_currency = ''USD'', c_consumed = Integral 0, c_threshold = \<lparr>th_m = Integral 1, th_n = Integral 1\<rparr>,
       c_revocation_mode = ''direct'', c_scope = Digest_scope [sample_digest] ''op'', c_delegation_chain = mo_delegation_chain sample_terms,
       c_expiry = to_iso_string 1000\<rparr>, e_signature := Some \<lparr>g_algorithm = ''Ed25519'', g_public_key = ''key'', g_value = ''sig''\<rparr>\<rparr>,
     mi_secret = Some (replicate 32 0), mi_shares = None\<rparr>"

lemma sample_expiry: "normalized_expiry sample_dparse (Expiry_text s) = Inr (to_iso_string 1000)"
  by (simp add: normalized_expiry_def sample_dparse_def)

lemma sample_child_scope: "normalizeCapabilityScope (Digest_scope [sample_digest] ''op'') = Inr (Digest_scope [sample_digest] ''op'')"
  by (simp add: run_checks.simps scope_members_ok_def MAX_SCOPE_ACTIONS_def ACTION_DIGEST_RE_def sample_patterns)

lemma sample_child_shape: "assertCapabilityShape sample_dparse (e_capability (mi_receipt sample_child)) = Inr ()"
  by (simp add: run_checks.simps assertCapabilityShape_def sample_child_def validateCapabilityId_def validateAmount_def validateCurrency_def
      validateExpiry_def sample_dparse_def sample_patterns validateThreshold_def safe_int_def max_safe_def normalizeRevocationMode_def
      scope_members_ok_def MAX_SCOPE_ACTIONS_def ACTION_DIGEST_RE_def assertDelegationChain_def MAX_DELEGATES_def sample_terms_def entry_checks_def)

lemma sample_mint: "mintCapabilityReceipt (\<lambda>b. replicate 64 CHR ''a'') sample_dparse source (e_receipt sample_receipt) sample_terms = Some (Inr sample_child)"
proof -
  have "validateBaseReceipt (e_receipt sample_receipt) = None" by (simp add: validateBaseReceipt_def run_checks.simps sample_receipt_def)
  moreover have "digestSecret (\<lambda>b. replicate 64 CHR ''a'') (mo_secret sample_terms) = Inr \<lparr>sd_bytes = replicate 32 0, sd_hash = sample_digest\<rparr>"
    by (simp add: sample_terms_def digestSecret_def HASH_BYTES_def sample_digest_def)
  moreover have "\<exists>mn. validateThreshold (mo_threshold sample_terms) = Inr mn" "direct_threshold (mo_threshold sample_terms)"
    by (simp_all add: sample_terms_def validateThreshold_def safe_int_def max_safe_def direct_threshold_def)
  moreover have "new_capability sample_dparse \<lparr>sd_bytes = replicate 32 0, sd_hash = sample_digest\<rparr> (Integral 50, ''USD'') sample_terms
      = Inr (e_capability (mi_receipt sample_child))"
  proof -
    have sc: "mo_scope sample_terms = Digest_scope [sample_digest] ''op''" by (simp add: sample_terms_def)
    have "run_checks [validateCapabilityId (mo_capability_id sample_terms), validateAmount (Integral 50), validateCurrency ''USD''] = None"
      by (simp add: sample_terms_def validateCapabilityId_def validateAmount_def validateCurrency_def safe_int_def max_safe_def)
    moreover have "normalizeRevocationMode (mo_revocation_mode sample_terms) = Inr Direct" by (simp add: sample_terms_def normalizeRevocationMode_def)
    moreover have "assertDelegationChain (mo_delegation_chain sample_terms) None = Inr (mo_delegation_chain sample_terms)"
      by (simp add: sample_terms_def assertDelegationChain_def MAX_DELEGATES_def entry_checks_def safe_int_def max_safe_def run_checks.simps)
    moreover have "normalizeCapabilityScope (mo_scope sample_terms) = Inr (mo_scope sample_terms)" unfolding sc by (rule sample_child_scope)
    moreover have "normalized_expiry sample_dparse (mo_expiry sample_terms) = Inr (to_iso_string 1000)" by (simp add: sample_terms_def sample_expiry)
    ultimately show ?thesis by (simp add: new_capability_def sample_child_def sample_terms_def del: run_checks_None)
  qed
  moreover have "mo_key sample_terms = Issuer_key ''key'' (\<lambda>b c. ''sig'')" "mo_budget sample_terms = Some (Integral 50, ''USD'')" by (simp_all add: sample_terms_def)
  ultimately show ?thesis
    using sample_child_shape by (auto simp: mintCapabilityReceipt_def Let_def) (simp add: sample_child_def sample_receipt_def)
qed

theorem minted_capability_opens_witness:
  "\<exists>m. mintCapabilityReceipt (\<lambda>b. replicate 64 CHR ''a'') sample_dparse sample_source (e_receipt sample_receipt) sample_terms = Some (Inr m)
     \<and> verifyCapabilityReceipt sample_dparse sample_verify [''key''] (mi_receipt m) = Inr ''key''
     \<and> opens (\<lambda>b. replicate 64 CHR ''a'') (e_capability (mi_receipt m)) (replicate 32 0)"
proof -
  have "mo_key sample_terms = Issuer_key ''key'' (\<lambda>b c. ''sig'')" by (simp add: sample_terms_def)
  from minted_capability_opens[OF sample_mint this, of "[''key'']" sample_number sample_verify] sample_mint
  show ?thesis using sample_split_facts(5) by (auto simp: sample_verify_def sample_child_def)
qed

definition sample_delegation :: delegation_request where
  "sample_delegation = \<lparr>dg_parent = sample_receipt, dg_parent_secret = Secret_buffer (replicate 32 0), dg_trusted_keys = [''key''],
     dg_key = Issuer_key ''key'' (\<lambda>b c. ''sig''), dg_budget = Some (Integral 50, ''USD''), dg_expiry = Expiry_text ''later'',
     dg_threshold = \<lparr>th_m = Integral 1, th_n = Integral 1\<rparr>, dg_revocation_mode = ''direct'', dg_scope = None, dg_delegate_id = ''bob'',
     dg_capability_id = ''c2'', dg_secret = Secret_buffer (replicate 32 0), dg_operation_id = None\<rparr>"

definition sample_dplan :: delegation_plan where
  "sample_dplan = \<lparr>dp_parent_id = ''c1'', dp_parent_fingerprint = sample_digest, dp_operation_id = ''delegation:c2'',
     dp_action_digest = sample_digest, dp_amount = 50, dp_currency = ''USD'', dp_child = sample_child\<rparr>"

lemma sample_delegation_digest: "delegation_digest (x_hash sample_env) ''delegation:c2'' ''c1'' ''c2'' sample_digest = Inr sample_digest"
proof -
  have len: "length (jstr k) = length k" for k by (simp add: jstr_def)
  have uni: "validUnicodeString u" "utf8_length u = length u" if "list_all (\<lambda>c. c < 0x80) u" for u :: js_string
    using that by (induction u) (auto simp: is_high_def is_low_def word_less_nat_alt word_le_nat_alt)
  have texts: "list_all (\<lambda>k. list_all (\<lambda>c. c < 0x80) k) [jstr ''action_type'', jstr ''operation_id'', jstr ''parent_capability_id'', jstr ''child_capability_id'',
      jstr ''child_capability_fingerprint'', jstr ''capability.delegate'', utf16 ''delegation:c2'', utf16 ''c1'', utf16 ''c2'', utf16 sample_digest]"
    "length (utf16 ''delegation:c2'') = 13" "length (utf16 ''c1'') = 2" "length (utf16 ''c2'') = 2" "length (utf16 sample_digest) = 71" by code_simp+
  have "distinct [jstr ''action_type'', jstr ''operation_id'', jstr ''parent_capability_id'', jstr ''child_capability_id'', jstr ''child_capability_fingerprint'']"
    by code_simp
  with texts uni have "assertCanonicalJson (VObj 0 [(jstr ''action_type'', VStr (jstr ''capability.delegate'')), (jstr ''operation_id'', VStr (utf16 ''delegation:c2'')),
      (jstr ''parent_capability_id'', VStr (utf16 ''c1'')), (jstr ''child_capability_id'', VStr (utf16 ''c2'')),
      (jstr ''child_capability_fingerprint'', VStr (utf16 sample_digest))]) = None"
    by (simp add: assertCanonicalJson_def MAX_JSON_NODES_def MAX_JSON_DEPTH_def MAX_JSON_STRING_BYTES_def len del: jstr_simps)
  moreover have "''sha256:'' @ x_hash sample_env t = sample_digest" for t by (simp add: sample_env_def sample_digest_def)
  ultimately show ?thesis by (simp add: delegation_digest_def capabilityActionDigest_def canonicalize_def del: jstr_simps)
qed

lemma sample_prepare_delegation: "prepare_delegation sample_env source sample_delegation (Integral 1) = Some (Inr sample_dplan)"
proof -
  have env: "x_dparse sample_env = sample_dparse" "x_verify sample_env = sample_verify" "x_sha256Hex sample_env = (\<lambda>b. replicate 64 CHR ''a'')"
    "x_fingerprint sample_env e = sample_digest" for e by (simp_all add: sample_env_def sample_fp_def)
  have q: "dg_parent sample_delegation = sample_receipt" "dg_trusted_keys sample_delegation = [''key'']" "dg_parent_secret sample_delegation = Secret_buffer (replicate 32 0)"
    "dg_delegate_id sample_delegation = ''bob''" "dg_capability_id sample_delegation = ''c2''" by (simp_all add: sample_delegation_def)
  have parent: "c_scope (e_capability sample_receipt) = Digest_scope [sample_digest] ''op''" "c_currency (e_capability sample_receipt) = ''USD''"
    "c_id (e_capability sample_receipt) = ''c1''" "c_secret_hash (e_capability sample_receipt) = sample_digest" "c_delegation_chain (e_capability sample_receipt) = []"
    by (simp_all add: sample_receipt_def)
  have v: "verifyCapabilityReceipt sample_dparse sample_verify [''key''] sample_receipt = Inr ''key''"
    using sample_shape by (simp add: verifyCapabilityReceipt_def capabilitySignature_def
      verifyTrustedIssuer_def validateBaseReceipt_def run_checks.simps sample_verify_def sample_receipt_def)
  have sec: "verifySecret (\<lambda>b. replicate 64 CHR ''a'') (e_capability sample_receipt) (Secret_buffer (replicate 32 0)) = Inr True"
    using sample_patterns(1) by (simp add: verifySecret_def digestSecret_def HASH_BYTES_def equalHash_def ACTION_DIGEST_RE_def parent) (simp add: sample_digest_def)
  have qs: "dg_budget sample_delegation = Some (Integral 50, ''USD'')" "dg_expiry sample_delegation = Expiry_text ''later''"
    "dg_scope sample_delegation = None" "dg_operation_id sample_delegation = None" by (simp_all add: sample_delegation_def)
  have terms: "child_terms sample_dparse (e_capability sample_receipt) sample_delegation
      = Inr ((Integral 50, ''USD''), to_iso_string 1000, Digest_scope [sample_digest] ''op'', ''delegation:c2'')"
    by (simp add: child_terms_def q qs parent sample_child_scope sample_expiry validateCapabilityId_def validateOperationId_def validateAmount_def
        validateCurrency_def safe_int_def max_safe_def run_checks.simps sample_dparse_def del: normalizeCapabilityScope.simps)
  have mint: "child_mint (e_capability sample_receipt) sample_delegation (Integral 50, ''USD'') (to_iso_string 1000) (Digest_scope [sample_digest] ''op'') ''delegation:c2'' 1
      = sample_terms\<lparr>mo_expiry := Expiry_text (to_iso_string 1000)\<rparr>"
    by (simp add: child_mint_def sample_terms_def sample_delegation_def parent)
  have minted: "mintCapabilityReceipt (\<lambda>b. replicate 64 CHR ''a'') sample_dparse source (e_receipt sample_receipt)
      (sample_terms\<lparr>mo_expiry := Expiry_text (to_iso_string 1000)\<rparr>) = Some (Inr sample_child)"
  proof -
    have "normalized_expiry sample_dparse (mo_expiry sample_terms) = Inr (to_iso_string 1000)" by (simp add: sample_terms_def sample_expiry)
    then have e: "normalized_expiry sample_dparse (mo_expiry (sample_terms\<lparr>mo_expiry := Expiry_text s\<rparr>)) = normalized_expiry sample_dparse (mo_expiry sample_terms)" for s
      by (simp add: sample_expiry)
    let ?t = "\<lambda>s. sample_terms\<lparr>mo_expiry := Expiry_text s\<rparr>"
    have f: "mo_key (?t s) = mo_key sample_terms" "mo_budget (?t s) = mo_budget sample_terms" "mo_threshold (?t s) = mo_threshold sample_terms" "mo_revocation_mode (?t s) = mo_revocation_mode sample_terms"
      "mo_scope (?t s) = mo_scope sample_terms" "mo_delegation_chain (?t s) = mo_delegation_chain sample_terms" "mo_capability_id (?t s) = mo_capability_id sample_terms" "mo_secret (?t s) = mo_secret sample_terms" for s by simp_all
    have n: "new_capability sample_dparse nd b (?t s) = new_capability sample_dparse nd b sample_terms" for nd b s
      unfolding new_capability_def f e by (rule refl)
    show ?thesis using sample_mint unfolding mintCapabilityReceipt_def f n .
  qed
  have clock: "nowMs (Integral 1) = Inr 1" by (simp add: nowMs_def safe_int_def max_safe_def)
  show ?thesis
    unfolding prepare_delegation_def plan_delegation_def env q v sec
    by (simp add: terms clock mint minted sample_delegation_digest parent Let_def sample_dplan_def)
qed

text \<open>The parent pays, the child is registered and then acts.\<close>

definition delegation_op :: operation where
  "delegation_op = new_operation (parent_reserve sample_dplan (Integral 2)) ''0123456789abcdef'' 2 1000 None"

definition delegation_key :: string where
  "delegation_key = operationKey ''c1'' ''delegation:c2''"

definition store_reserved :: cap_store where
  "store_reserved = sample_ready\<lparr>operations := [(delegation_key, delegation_op)], states := [(''c1'', sample_state\<lparr>reserved_amount := 50\<rparr>)],
     actionHolders := [(actionKey ''c1'' sample_digest, delegation_key)]\<rparr>"

definition store_paid :: cap_store where
  "store_paid = put_state ''c1'' (sample_state\<lparr>consumed_amount := 50\<rparr>) (put_operation delegation_key
     (delegation_op\<lparr>o_status := Committed, o_outcome := Some ''delegated'', o_committed_at := Some 3\<rparr>) store_reserved)"

definition child_state :: cap_state where
  "child_state = sample_state\<lparr>s_capability_id := ''c2'', budget_amount := 50, s_parent := Some ''c1''\<rparr>"

definition store_child :: cap_store where
  "store_child = store_paid\<lparr>states := states store_paid @ [(''c2'', child_state)]\<rparr>"

lemma delegation_clock: "n \<in> {0..100} \<Longrightarrow> nowMs (Integral n) = Inr n"
  by (simp add: nowMs_def safe_int_def max_safe_def)

lemma parent_request: "reserve_namespace (parent_reserve sample_dplan n) = ''c1''" "reserve_fence (parent_reserve sample_dplan n) = sample_digest"
  "q_capability_id (parent_reserve sample_dplan n) = ''c1''" "q_operation_id (parent_reserve sample_dplan n) = ''delegation:c2''"
  "q_now (parent_reserve sample_dplan n) = n" "q_currency (parent_reserve sample_dplan n) = ''USD''" "q_amount (parent_reserve sample_dplan n) = Integral 50"
  "q_action_digest (parent_reserve sample_dplan n) = sample_digest" "q_control_domain_id (parent_reserve sample_dplan n) = None"
  "q_fingerprint (parent_reserve sample_dplan n) = sample_digest" "q_allowance_status (parent_reserve sample_dplan n) = None"
  by (simp_all add: reserve_namespace_def reserve_fence_def parent_reserve_def sample_dplan_def)

lemma parent_reserves: "\<exists>r. reserveSpend 30000 ''0123456789abcdef'' (parent_reserve sample_dplan (Integral 2)) sample_ready = (Ok r, store_reserved)
    \<and> ok_reservation_token r = ''0123456789abcdef''"
proof -
  let ?q = "parent_reserve sample_dplan (Integral 2)"
  have checks: "run_checks ([validateOperationId (q_operation_id ?q), validateOperationNamespace (reserve_namespace ?q),
      validateActionDigest (q_action_digest ?q), validateActionDigest (reserve_fence ?q),
      validateSpendAmount (q_amount ?q), validateCurrency (q_currency ?q)]
      @ (case q_control_domain_id ?q of None \<Rightarrow> [] | Some d \<Rightarrow> [validateControlDomainId d])) = None"
    by (simp add: parent_request validateOperationId_def validateOperationNamespace_def validateActionDigest_def ACTION_DIGEST_RE_def
        sample_patterns validateSpendAmount_def validateCurrency_def safe_int_def max_safe_def)
  have dm: "reserve_domain ?q sample_ready = Inr None" by (simp add: reserve_domain_def parent_request)
  have fp: "s_fingerprint sample_state = sample_digest" by (simp add: sample_state_def)
  have al: "reserve_allowance ?q sample_state sample_ready = None" by (simp add: reserve_allowance_def parent_request) (simp add: sample_state_def)
  have hold: "action_holder sample_ready ''c1'' sample_digest = None" by (simp add: action_holder_def sample_ready_fields)
  have st: "expires_at sample_state = 1000" "consumed_amount sample_state = 0" "reserved_amount sample_state = 0" "budget_amount sample_state = 100"
    "s_currency sample_state = ''USD''" by (simp_all add: sample_state_def)
  have d: "entryDeadline 2 1000 30000 = 1000" by (simp add: entryDeadline_def max_safe_def)
  show ?thesis
    unfolding reserveSpend_def checks option.case dm sum.case
    by (simp add: parent_request sample_ready_fields fp sample_lineage al hold Let_def flip: delegation_key_def)
      (simp add: reserve_budget_def delegation_clock st d Let_def parent_request sample_ready_fields store_reserved_def delegation_op_def)
qed

lemma delegation_op_fields: "o_capability_id delegation_op = ''c1''" "o_reservation_token delegation_op = ''0123456789abcdef''" "o_amount delegation_op = 50"
  "o_entry_deadline_at delegation_op = 1000" "o_status delegation_op = Reserved"
  by (simp_all add: delegation_op_def new_operation_def parent_request)

lemma parent_commits: "\<exists>r. commitSpend (parent_commit sample_dplan ''0123456789abcdef'' (Integral 3)) store_reserved = (Ok r, store_paid)
    \<and> co_remaining r = 50"
proof -
  have q: "commit_namespace (parent_commit sample_dplan t n) = ''c1''" "m_operation_id (parent_commit sample_dplan t n) = ''delegation:c2''"
    "m_capability_id (parent_commit sample_dplan t n) = ''c1''" "m_reservation_token (parent_commit sample_dplan t n) = Some t"
    "m_outcome (parent_commit sample_dplan t n) = ''delegated''" "m_now (parent_commit sample_dplan t n) = n" for t n
    by (simp_all add: commit_namespace_def parent_commit_def sample_dplan_def)
  have "run_checks [validateOperationId ''delegation:c2'', validateOperationNamespace ''c1''] = None"
    by (simp add: validateOperationId_def validateOperationNamespace_def)
  moreover have "operations store_reserved = [(delegation_key, delegation_op)]" "states store_reserved = [(''c1'', sample_state\<lparr>reserved_amount := 50\<rparr>)]"
    by (simp_all add: store_reserved_def)
  moreover have "consume_budget delegation_op (sample_state\<lparr>reserved_amount := 50\<rparr>) = sample_state\<lparr>consumed_amount := 50\<rparr>"
    "remaining (sample_state\<lparr>consumed_amount := 50\<rparr>) = 50"
    by (simp_all add: consume_budget_def remaining_def delegation_op_fields sample_state_def)
  ultimately show ?thesis
    by (simp add: commitSpend_def q delegation_op_fields delegation_clock store_paid_def Let_def flip: delegation_key_def del: run_checks_None)
qed

lemma store_paid_fields: "states store_paid = [(''c1'', sample_state\<lparr>consumed_amount := 50\<rparr>)]"
  "operations store_paid = [(delegation_key, delegation_op\<lparr>o_status := Committed, o_outcome := Some ''delegated'', o_committed_at := Some 3\<rparr>)]"
  "actionHolders store_paid = [(actionKey ''c1'' sample_digest, delegation_key)]"
  by (simp_all add: store_paid_def store_reserved_def put_state_def put_operation_def)

lemma child_signature: "capabilitySignature (mi_receipt sample_child) = Some \<lparr>g_algorithm = ''Ed25519'', g_public_key = ''key'', g_value = ''sig''\<rparr>"
  by (simp add: capabilitySignature_def sample_child_def)

lemma child_verified: "verifyCapabilityReceipt sample_dparse sample_verify [''key''] (mi_receipt sample_child) = Inr ''key''"
proof -
  have "e_version (mi_receipt sample_child) = CAPABILITY_RECEIPT_VERSION" "validateBaseReceipt (e_receipt (mi_receipt sample_child)) = None"
    by (simp_all add: sample_child_def sample_receipt_def validateBaseReceipt_def run_checks.simps)
  then show ?thesis
    using sample_child_shape by (simp add: verifyCapabilityReceipt_def child_signature verifyTrustedIssuer_def sample_verify_def)
qed

lemma child_registers: "registerCapability sample_dparse sample_verify sample_fp (mi_receipt sample_child) store_paid = (Ok True, store_child)"
proof -
  have "verifyCapabilityReceiptIntegrity sample_dparse sample_verify (mi_receipt sample_child) = Inr ''key''"
    using child_verified by (simp add: verifyCapabilityReceiptIntegrity_def child_signature)
  moreover have "capabilityStateFromEnvelope sample_dparse sample_fp (mi_receipt sample_child) = Inr child_state"
    by (simp add: capabilityStateFromEnvelope_def Let_def sample_child_def sample_terms_def normalizeRevocationMode_def sample_dparse_def sample_fp_def
      child_state_def sample_state_def)
  moreover have "s_capability_id child_state = ''c2''" "s_parent child_state = Some ''c1''" by (simp_all add: child_state_def)
  moreover have "capabilityLineageRefusal (states store_paid) ''c1'' = None"
    by (simp add: store_paid_fields capabilityLineageRefusal_def lineage_loop.simps sample_state_def MAX_DELEGATES_def)
  ultimately show ?thesis by (simp add: registerCapability_def) (simp add: store_paid_fields store_child_def)
qed

lemma delegation_phases:
  "delegation_step sample_env sample_dplan (Integral 2) ''0123456789abcdef'' D_reserve sample_ready = (D_commit ''0123456789abcdef'', store_reserved)"
  "delegation_step sample_env sample_dplan (Integral 3) u (D_commit ''0123456789abcdef'') store_reserved = (D_register 50, store_paid)"
  "delegation_step sample_env sample_dplan now u (D_register left) store_paid = (D_end (Delegated left), store_child)"
  using parent_reserves parent_commits child_registers
  by (auto simp: delegation_step_def sample_env_def) (simp_all add: sample_dplan_def)

definition child_execution :: exec_request where
  "child_execution = sample_execution\<lparr>er_receipt := mi_receipt sample_child, er_guard := No_guard, er_control_domain := None\<rparr>"

definition child_plan :: exec_plan where
  "child_plan = \<lparr>pl_capability_id = ''c2'', pl_fingerprint = sample_digest, pl_namespace = ''c2'', pl_operation_id = ''op1'',
     pl_action_digest = sample_digest, pl_fence = sample_digest, pl_amount = 40, pl_currency = ''USD'', pl_domain = None,
     pl_allowance = None, pl_guard = No_guard\<rparr>"

lemma child_fields: "c_scope (e_capability (mi_receipt sample_child)) = Digest_scope [sample_digest] ''op''" "c_id (e_capability (mi_receipt sample_child)) = ''c2''"
  "th_m (c_threshold (e_capability (mi_receipt sample_child))) = Integral 1" "th_n (c_threshold (e_capability (mi_receipt sample_child))) = Integral 1"
  "c_secret_hash (e_capability (mi_receipt sample_child)) = sample_digest" "c_currency (e_capability (mi_receipt sample_child)) = ''USD''"
  by (simp_all add: sample_child_def)

lemma child_prepared: "prepare sample_env child_execution = Inr child_plan"
proof -
  have e: "er_action child_execution = sample_action" "er_observed_action child_execution = None" "er_operation_id child_execution = Some ''op1''"
    "er_caid child_execution = None" "er_profile child_execution = None" "er_execution_domain child_execution = None"
    "er_receipt child_execution = mi_receipt sample_child" "x_fingerprint sample_env e = sample_digest"
    "er_allowance child_execution = None" "er_guard child_execution = No_guard" for e
    by (simp_all add: child_execution_def sample_execution_def sample_env_def sample_fp_def)
  have h: "verifyPerActionHumanAuthorization (er_human child_execution) d = Inr None" "base_verdict (er_base child_execution) = None" for d
    by (simp_all add: verifyPerActionHumanAuthorization_def child_execution_def sample_execution_def base_verdict_def)
  have admit: "admit_envelope sample_env child_execution = Inr None"
    using child_verified sample_patterns(1)
    by (simp add: admit_envelope_def child_execution_def sample_execution_def sample_env_def verifySecret_def digestSecret_def HASH_BYTES_def equalHash_def
      effective_domain_def requiredProviderEntryControlDomain_def ACTION_DIGEST_RE_def sample_digest_def child_fields)
  have amount: "capabilityAmount sample_action (e_capability (mi_receipt sample_child)) sample_action = Inr (40, ''USD'')"
  proof -
    have c: "c_currency (e_capability (mi_receipt sample_child)) = c_currency (e_capability sample_receipt)"
      by (simp add: child_fields) (simp add: sample_receipt_def)
    show ?thesis using sample_amount unfolding capabilityAmount_def c .
  qed
  show ?thesis
    by (simp add: prepare_def admit e sample_parts sample_scope h amount child_fields capabilityBudgetGuarantee_def child_plan_def Let_def)
qed

definition child_answers :: "int \<Rightarrow> answers" where
  "child_answers t = \<lparr>an_now = Integral t, an_recovery_now = Integral t, an_uuid = ''0123456789abcdef'', an_guard = Guard_threw, an_effect_returned = True\<rparr>"

definition child_key :: string where
  "child_key = operationKey ''c2'' ''op1''"

definition child_op :: operation where
  "child_op = new_operation (reserve_request child_plan (Integral 5)) ''0123456789abcdef'' 5 1000 None"

definition store_held :: cap_store where
  "store_held = store_child\<lparr>operations := map_set child_key child_op (operations store_child),
     states := map_set ''c2'' (child_state\<lparr>reserved_amount := 40\<rparr>) (states store_child),
     actionHolders := map_set (actionKey ''c2'' sample_digest) child_key (actionHolders store_child)\<rparr>"

definition store_acting :: cap_store where
  "store_acting = put_state ''c2'' (child_state\<lparr>consumed_amount := 40\<rparr>)
     (put_operation child_key (child_op\<lparr>o_status := Provider_entered, o_provider_entry_at := Some 6\<rparr>) store_held)"

lemma child_request: "reserve_namespace (reserve_request child_plan n) = ''c2''" "reserve_fence (reserve_request child_plan n) = sample_digest"
  "q_capability_id (reserve_request child_plan n) = ''c2''" "q_operation_id (reserve_request child_plan n) = ''op1''"
  "q_now (reserve_request child_plan n) = n" "q_currency (reserve_request child_plan n) = ''USD''" "q_amount (reserve_request child_plan n) = Integral 40"
  "q_action_digest (reserve_request child_plan n) = sample_digest" "q_control_domain_id (reserve_request child_plan n) = None"
  "q_fingerprint (reserve_request child_plan n) = sample_digest" "q_allowance_status (reserve_request child_plan n) = None"
  by (simp_all add: reserve_namespace_def reserve_fence_def reserve_request_def child_plan_def)

lemma child_keys: "child_key \<noteq> delegation_key" "actionKey ''c2'' sample_digest \<noteq> actionKey ''c1'' sample_digest"
  unfolding child_key_def delegation_key_def by code_simp+

lemma store_child_fields: "map_get (states store_child) ''c2'' = Some child_state" "map_get (operations store_child) child_key = None"
  "map_get (actionHolders store_child) (actionKey ''c2'' sample_digest) = None" "capabilityLineageRefusal (states store_child) ''c2'' = None"
  using child_keys
  by (simp_all add: store_child_def store_paid_fields capabilityLineageRefusal_def lineage_loop.simps MAX_DELEGATES_def)
    (simp add: child_state_def sample_state_def lineage_loop.simps MAX_DELEGATES_def)

lemma child_reserves: "\<exists>r. reserveSpend 30000 ''0123456789abcdef'' (reserve_request child_plan (Integral 5)) store_child = (Ok r, store_held)
    \<and> ok_reservation_token r = ''0123456789abcdef''"
proof -
  let ?q = "reserve_request child_plan (Integral 5)"
  have checks: "run_checks ([validateOperationId (q_operation_id ?q), validateOperationNamespace (reserve_namespace ?q),
      validateActionDigest (q_action_digest ?q), validateActionDigest (reserve_fence ?q),
      validateSpendAmount (q_amount ?q), validateCurrency (q_currency ?q)]
      @ (case q_control_domain_id ?q of None \<Rightarrow> [] | Some d \<Rightarrow> [validateControlDomainId d])) = None"
    by (simp add: child_request validateOperationId_def validateOperationNamespace_def validateActionDigest_def ACTION_DIGEST_RE_def
        sample_patterns validateSpendAmount_def validateCurrency_def safe_int_def max_safe_def)
  have dm: "reserve_domain ?q store_child = Inr None" by (simp add: reserve_domain_def child_request)
  have al: "reserve_allowance ?q child_state store_child = None"
    by (simp add: reserve_allowance_def child_request) (simp add: child_state_def sample_state_def)
  have hold: "action_holder store_child ''c2'' sample_digest = None" by (simp add: action_holder_def store_child_fields)
  have st: "expires_at child_state = 1000" "consumed_amount child_state = 0" "reserved_amount child_state = 0" "budget_amount child_state = 50"
    "s_currency child_state = ''USD''" "s_fingerprint child_state = sample_digest" by (simp_all add: child_state_def sample_state_def)
  have d: "entryDeadline 5 1000 30000 = 1000" by (simp add: entryDeadline_def max_safe_def)
  show ?thesis
    unfolding reserveSpend_def checks option.case dm sum.case
    by (simp add: child_request store_child_fields st al hold Let_def flip: child_key_def)
      (simp add: reserve_budget_def delegation_clock st d Let_def child_request store_held_def child_op_def)
qed

lemma child_op_fields: "o_capability_id child_op = ''c2''" "o_reservation_token child_op = ''0123456789abcdef''" "o_amount child_op = 40"
  "o_entry_deadline_at child_op = 1000" "o_status child_op = Reserved" "o_control_domain_id child_op = None"
  by (simp_all add: child_op_def new_operation_def child_request)

lemma child_enters: "\<exists>r. beginProviderEntry (entry_request child_plan ''0123456789abcdef'' (Integral 6)) store_held = (Ok r, store_acting)"
proof -
  have q: "entry_namespace (entry_request child_plan t n) = ''c2''" "n_operation_id (entry_request child_plan t n) = ''op1''"
    "n_capability_id (entry_request child_plan t n) = ''c2''" "n_reservation_token (entry_request child_plan t n) = Some t"
    "n_control_domain_id (entry_request child_plan t n) = None" "n_now (entry_request child_plan t n) = n" for t n
    by (simp_all add: entry_namespace_def entry_request_def child_plan_def)
  have "run_checks [validateOperationId ''op1'', validateOperationNamespace ''c2''] = None"
    by (simp add: validateOperationId_def validateOperationNamespace_def)
  moreover have "entry_domain (entry_request child_plan t n) child_op s = Bound" for t n s by (simp add: entry_domain_def q child_op_fields)
  moreover have "entry_allowance ns (child_state\<lparr>reserved_amount := 40\<rparr>) op s = None" for ns op s
    by (simp add: entry_allowance_def child_state_def sample_state_def)
  moreover have "consume_budget child_op (child_state\<lparr>reserved_amount := 40\<rparr>) = child_state\<lparr>consumed_amount := 40\<rparr>"
    by (simp add: consume_budget_def child_op_fields child_state_def sample_state_def)
  moreover have "map_get (operations store_held) child_key = Some child_op" "map_get (states store_held) ''c2'' = Some (child_state\<lparr>reserved_amount := 40\<rparr>)"
    by (simp_all add: store_held_def)
  ultimately show ?thesis
    by (simp add: beginProviderEntry_def q child_op_fields delegation_clock store_acting_def Let_def flip: child_key_def del: run_checks_None)
qed

lemma child_phases:
  "exec_phase sample_env child_plan (child_answers 5) At_reserve store_child = (At_enter ''0123456789abcdef'', store_held)"
  "exec_phase sample_env child_plan (child_answers 6) (At_enter ''0123456789abcdef'') store_held = (At_effect ''0123456789abcdef'', store_acting)"
  "exec_phase sample_env child_plan (child_answers 7) (At_effect t) s = (At_commit t, s)"
  using child_reserves child_enters
  by (auto simp: exec_phase_def reserve_phase_def enter_phase_def child_answers_def sample_env_def) (simp_all add: child_plan_def)

text \<open>The whole run on the shared store.\<close>

definition sample_tree_system :: tree_system where
  "sample_tree_system = \<lparr>tr_sys = \<lparr>sy_store = store_acting, sy_threads = [(child_plan, At_commit ''0123456789abcdef'')], sy_log = [child_plan]\<rparr>,
     tr_delegations = [(sample_dplan, D_end (Delegated 50))], tr_children = [sample_dplan]\<rparr>"

lemma sample_tree_run: "(tree_step sample_env)\<^sup>*\<^sup>* tree_start sample_tree_system"
proof -
  let ?sys = "\<lambda>s ts lg. \<lparr>sy_store = s, sy_threads = ts, sy_log = lg\<rparr>"
  let ?c = "\<lambda>y ds ks. \<lparr>tr_sys = y, tr_delegations = ds, tr_children = ks\<rparr>"
  let ?u = "''0123456789abcdef''"
  have exec: "tree_step sample_env (?c y ds ks) (?c e ds ks)" if "sys_step sample_env y e" "no_new_child (sy_store y) (sy_store e)" for y e ds ks
    using tree_step.executes[of sample_env "?c y ds ks" e] that by simp
  have use: "sys_step sample_env (?sys s ts lg) (?sys s' ts lg)" if "cap_step sample_dparse sample_verify sample_fp 30000 s s'" for s s' ts lg
    using sys_step.outside[of sample_env "?sys s ts lg" s'] that by (simp add: sample_env_def)
  have phase: "sys_step sample_env (?sys s [(child_plan, ph)] lg) (?sys s' [(child_plan, ph')] (lg @ (if runs_effect ph then [child_plan] else [])))"
    if "exec_phase sample_env child_plan a ph s = (ph', s')" for a ph s ph' s' lg
    using sys_step.proceeds[of 0 "?sys s [(child_plan, ph)] lg" child_plan ph sample_env a ph' s'] that by simp
  have deleg: "tree_step sample_env (?c (?sys s ts lg) [(sample_dplan, ph)] ks)
      (?c (?sys s' ts lg) [(sample_dplan, ph')] (ks @ (if new_child sample_dplan s s' then [sample_dplan] else [])))"
    if "delegation_step sample_env sample_dplan now u ph s = (ph', s')" for now u ph s ph' s' ts lg ks
    using tree_step.delegation[of 0 "?c (?sys s ts lg) [(sample_dplan, ph)] ks" sample_dplan ph sample_env now u ph' s'] that by simp
  have child: "child_id sample_dplan = ''c2''" by (simp add: child_id_def sample_dplan_def child_fields)
  have news: "\<not> new_child sample_dplan sample_ready store_reserved" "\<not> new_child sample_dplan store_reserved store_paid" "new_child sample_dplan store_paid store_child"
    by (simp_all add: new_child_def child sample_ready_fields store_reserved_def store_paid_fields store_child_def)
  have regs: "cap_step sample_dparse sample_verify sample_fp 30000 empty_store sample_registered" "cap_step sample_dparse sample_verify sample_fp 30000 sample_registered sample_ready"
    using cap_step.intros(1)[of sample_dparse sample_verify sample_fp 30000 empty_store sample_receipt]
      cap_step.intros(3)[of sample_dparse sample_verify sample_fp 30000 sample_registered "Integral 1" "''dom''"]
    by (simp_all add: sample_register sample_domain_step)
  have nc: "no_new_child empty_store sample_registered" "no_new_child sample_registered sample_ready" "no_new_child store_child store_child"
    "no_new_child store_child store_held" "no_new_child store_held store_acting" "no_new_child store_acting store_acting"
    by (auto simp: no_new_child_def sample_registered_def sample_ready_def empty_store_def store_child_def store_held_def store_acting_def
        put_state_def put_operation_def store_paid_fields sample_state_def split: if_splits)
  have s1: "tree_step sample_env tree_start (?c (?sys sample_registered [] []) [] [])"
    using exec[OF use[OF regs(1), where ts = "[]" and lg = "[]"], where ds = "[]" and ks = "[]"] nc(1) by (simp add: tree_start_def sys_start_def)
  have s2: "tree_step sample_env (?c (?sys sample_registered [] []) [] []) (?c (?sys sample_ready [] []) [] [])"
    using exec[OF use[OF regs(2)]] nc(2) by simp
  have s3: "tree_step sample_env (?c (?sys sample_ready [] []) [] []) (?c (?sys sample_ready [] []) [(sample_dplan, D_reserve)] [])"
    using tree_step.delegates[OF sample_prepare_delegation, of "?c (?sys sample_ready [] []) [] []"] by simp
  have s4: "tree_step sample_env (?c (?sys sample_ready [] []) [(sample_dplan, D_reserve)] []) (?c (?sys store_reserved [] []) [(sample_dplan, D_commit ?u)] [])"
    using deleg[OF delegation_phases(1), where ts = "[]" and lg = "[]" and ks = "[]"] news(1) by simp
  have s5: "tree_step sample_env (?c (?sys store_reserved [] []) [(sample_dplan, D_commit ?u)] []) (?c (?sys store_paid [] []) [(sample_dplan, D_register 50)] [])"
    using deleg[OF delegation_phases(2), where ts = "[]" and lg = "[]" and ks = "[]"] news(2) by simp
  have s6: "tree_step sample_env (?c (?sys store_paid [] []) [(sample_dplan, D_register 50)] [])
      (?c (?sys store_child [] []) [(sample_dplan, D_end (Delegated 50))] [sample_dplan])"
    using deleg[OF delegation_phases(3), where ts = "[]" and lg = "[]" and ks = "[]"] news(3) by simp
  note k = exec[where ds = "[(sample_dplan, D_end (Delegated 50))]" and ks = "[sample_dplan]"]
  have s7: "tree_step sample_env (?c (?sys store_child [] []) [(sample_dplan, D_end (Delegated 50))] [sample_dplan])
      (?c (?sys store_child [(child_plan, At_reserve)] []) [(sample_dplan, D_end (Delegated 50))] [sample_dplan])"
    using k[OF sys_step.arrives[OF child_prepared, of "?sys store_child [] []"]] nc(3) by simp
  have s8: "tree_step sample_env (?c (?sys store_child [(child_plan, At_reserve)] []) [(sample_dplan, D_end (Delegated 50))] [sample_dplan])
      (?c (?sys store_held [(child_plan, At_enter ?u)] []) [(sample_dplan, D_end (Delegated 50))] [sample_dplan])"
    using k[OF phase[OF child_phases(1), where lg = "[]"]] nc(4) by (simp add: runs_effect_def)
  have s9: "tree_step sample_env (?c (?sys store_held [(child_plan, At_enter ?u)] []) [(sample_dplan, D_end (Delegated 50))] [sample_dplan])
      (?c (?sys store_acting [(child_plan, At_effect ?u)] []) [(sample_dplan, D_end (Delegated 50))] [sample_dplan])"
    using k[OF phase[OF child_phases(2), where lg = "[]"]] nc(5) by (simp add: runs_effect_def)
  have s10: "tree_step sample_env (?c (?sys store_acting [(child_plan, At_effect ?u)] []) [(sample_dplan, D_end (Delegated 50))] [sample_dplan]) sample_tree_system"
    using k[OF phase[OF child_phases(3), where lg = "[]"]] nc(6) by (simp add: runs_effect_def sample_tree_system_def)
  note go = converse_rtranclp_into_rtranclp
  show ?thesis by (rule go[OF s1 go[OF s2 go[OF s3 go[OF s4 go[OF s5 go[OF s6 go[OF s7 go[OF s8 go[OF s9 r_into_rtranclp[of "tree_step sample_env", OF s10]]]]]]]]]])
qed

theorem delegated_authority_bounded_witness:
  "\<exists>c. (tree_step sample_env)\<^sup>*\<^sup>* tree_start c \<and> sy_log (tr_sys c) = [child_plan] \<and> ancestor (states (tr_store c)) (pl_capability_id child_plan) ''c1''
     \<and> sum_where (\<lambda>p. ancestor (states (tr_store c)) (pl_capability_id p) ''c1'') pl_amount (sy_log (tr_sys c)) \<le> 100"
proof -
  have st: "map_get (states (tr_store sample_tree_system)) ''c1'' = Some (sample_state\<lparr>consumed_amount := 50\<rparr>)"
    "map_get (states (tr_store sample_tree_system)) ''c2'' = Some (child_state\<lparr>consumed_amount := 40\<rparr>)"
    by (simp_all add: sample_tree_system_def store_acting_def put_state_def put_operation_def store_held_def store_child_def store_paid_fields)
  have "ancestor (states (tr_store sample_tree_system)) ''c2'' ''c1''"
    by (rule ancestor_up[OF st(2) _ ancestor_refl]) (simp add: child_state_def)
  then show ?thesis
    using delegated_authority_bounded[OF sample_tree_run st(1)] sample_tree_run
    by (intro exI[of _ sample_tree_system]) (simp add: sample_tree_system_def child_plan_def sample_state_def)
qed

theorem delegation_narrows_witness:
  "prepare_delegation sample_env sample_source sample_delegation (Integral 1) = Some (Inr sample_dplan)
     \<and> 0 < num_val (c_amount (e_capability (mi_receipt (dp_child sample_dplan))))
     \<and> (\<exists>e. c_delegation_chain (e_capability (mi_receipt (dp_child sample_dplan))) = [e] \<and> parent_capability_id e = ''c1'' \<and> delegate_id e = ''bob'')"
proof -
  have "x_dparse sample_env s = Some t \<Longrightarrow> x_dparse sample_env (to_iso_string t) = Some t" for s t by (simp add: sample_env_def sample_dparse_def)
  from delegation_narrows[OF sample_prepare_delegation this] sample_prepare_delegation show ?thesis
    unfolding Let_def by (simp add: sample_delegation_def sample_receipt_def)
qed

definition sample_verdict :: evidence_verdict where
  "sample_verdict = \<lparr>vd_valid = True, vd_outcome = Some ''executed'', vd_action_digest = Some sample_digest, vd_evidence_digest = Some sample_digest,
     vd_authenticated = True, vd_final = True, vd_capability_id = None, vd_operation_namespace = None, vd_operation_id = None,
     vd_observed_at = None, vd_evidence_profile = None\<rparr>"

definition sample_reconcile :: reconcile_call where
  "sample_reconcile = \<lparr>rq_capability_id = ''c1'', rq_operation_namespace = None, rq_operation_id = ''op1'', rq_action = sample_action, rq_verifier = True\<rparr>"

lemma sample_reconciled:
  "\<exists>s'. reconcileCapabilityOperation sample_env sample_reconcile (Evidence sample_verdict) (Integral 7) sample_reserved = (Reconciled ''executed'' False, s')"
proof -
  have q: "rq_capability_id sample_reconcile = ''c1''" "rq_operation_namespace sample_reconcile = None" "rq_operation_id sample_reconcile = ''op1''"
    "rq_action sample_reconcile = sample_action" "rq_verifier sample_reconcile"
    by (simp_all add: sample_reconcile_def)
  have checks: "run_checks [validateCapabilityId ''c1'', validateOperationId ''op1'', validateOperationNamespace ''c1''] = None"
    "run_checks [validateOperationId ''op1'', validateOperationNamespace ''c1''] = None"
    by (simp_all add: validateCapabilityId_def validateOperationId_def validateOperationNamespace_def)
  have digest: "capabilityActionDigest (x_hash sample_env) sample_action = Inr sample_digest"
    by (simp add: capabilityActionDigest_def sample_canonical sample_env_def sample_digest_def)
  have bound: "evidence_bound (x_dparse sample_env) ''c1'' ''c1'' ''op1'' sample_digest sample_verdict"
    by (simp add: evidence_bound_def sample_verdict_def ACTION_DIGEST_RE_def sample_patterns)
  have r: "reconcile_request ''c1'' ''c1'' ''op1'' sample_digest sample_verdict (Integral 7) = \<lparr>x_capability_id = ''c1'', x_namespace = Some ''c1'',
      x_operation_id = ''op1'', x_action_digest = sample_digest, x_evidence_digest = sample_digest, x_evidence_profile = '''', x_evidence_final = False,
      x_evidence_observed_at = '''', x_outcome = ''executed'', x_now = Integral 7\<rparr>"
    by (simp add: reconcile_request_def sample_verdict_def option_text_def)
  have op: "o_action_digest sample_op = sample_digest" "o_reconciliation_outcome sample_op = None"
    by (simp_all add: sample_op_def new_operation_def sample_request_def)
  have "\<exists>s'. reconcileSpend sample_dparse \<lparr>x_capability_id = ''c1'', x_namespace = Some ''c1'',
      x_operation_id = ''op1'', x_action_digest = sample_digest, x_evidence_digest = sample_digest, x_evidence_profile = '''', x_evidence_final = False,
      x_evidence_observed_at = '''', x_outcome = ''executed'', x_now = Integral 7\<rparr> sample_reserved = (Ok False, s')"
    by (simp add: reconcileSpend_def reconcile_namespace_def checks sample_reserved_parts sample_op_fields op reconcile_executed_def Let_def
      delegation_clock ACTION_DIGEST_RE_def sample_patterns flip: sample_key_def del: run_checks_None)
  then show ?thesis
    by (auto simp: reconcileCapabilityOperation_def q checks digest bound r Let_def simp del: run_checks_None)
      (simp_all add: sample_env_def sample_verdict_def option_text_def)
qed

theorem reconciliation_follows_evidence_witness:
  "\<exists>s' op. reconcileCapabilityOperation sample_env sample_reconcile (Evidence sample_verdict) (Integral 7) sample_reserved = (Reconciled ''executed'' False, s')
     \<and> map_get (operations sample_reserved) (reconciled_key sample_reconcile) = Some op \<and> o_capability_id op = ''c1''"
proof -
  obtain s' where run: "reconcileCapabilityOperation sample_env sample_reconcile (Evidence sample_verdict) (Integral 7) sample_reserved
      = (Reconciled ''executed'' False, s')" using sample_reconciled by blast
  from reconciliation_follows_evidence[OF cap_sample_runs(2) run] obtain op :: operation
    where "map_get (operations sample_reserved) (reconciled_key sample_reconcile) = Some op" "o_capability_id op = rq_capability_id sample_reconcile" by blast
  then show ?thesis using run by (auto simp: sample_reconcile_def)
qed

end
