(* ===== verification/Consumption_Proof.thy ===== *)
theory Consumption_Proof
  imports Merkle_Properties
begin

section \<open>Offline proofs of one-time consumption\<close>

text \<open>
  Model of \<open>packages/verify/src/consumption-proof.ts\<close>: a sparse Merkle tree whose leaves are addressed by
  the leading bits of SHA-256 of a nonce, the verifier of a bundle (nonce absent under one root, present
  under another, between two consistent heads of a dense log) and the reference emitter. SHA-256
  (hexadecimal) is the parameter \<open>sha\<close>; texts are byte strings. A text field that is missing is the empty
  text, as \<open>hexOf\<close> reads it; a field that must be an array or a boolean is an option.
\<close>

definition SMT_DEPTH :: nat where
  "SMT_DEPTH = 32"

definition isHex64 :: "string \<Rightarrow> bool" where
  "isHex64 h \<longleftrightarrow> length h = 64 \<and> list_all is_lhex h"

text \<open>\<open>hashBranch\<close> is byte for byte the branch hash of the consistency verifier.\<close>

definition hashBranch :: "(string \<Rightarrow> string) \<Rightarrow> string \<Rightarrow> string \<Rightarrow> string" where
  "hashBranch sha left right = sha (CHR 0x01 # left @ right)"

definition presentLeaf :: "(string \<Rightarrow> string) \<Rightarrow> string \<Rightarrow> string \<Rightarrow> string" where
  "presentLeaf sha keyHex valueHex = sha (CHR 0x02 # keyHex @ valueHex)"

definition defaultLeaf :: "(string \<Rightarrow> string) \<Rightarrow> string" where
  "defaultLeaf sha = sha [CHR 0x03]"

definition nonceKeyHex :: "(string \<Rightarrow> string) \<Rightarrow> string \<Rightarrow> string" where
  "nonceKeyHex sha nonce = sha nonce"

text \<open>\<open>parseInt\<close> of one hexadecimal digit, and bit \<open>i\<close> of a key, the most significant bit first.\<close>

definition hex_val :: "char \<Rightarrow> nat" where
  "hex_val c = (if is_digit c then of_char c - 48 else of_char c - 87)"

definition pathBit :: "string \<Rightarrow> nat \<Rightarrow> nat" where
  "pathBit keyHex i = (let byteIndex = i div 8;
     byte = 16 * hex_val (keyHex ! (2 * byteIndex)) + hex_val (keyHex ! (2 * byteIndex + 1))
   in byte div 2 ^ (7 - i mod 8) mod 2)"

subsection \<open>The verifier\<close>

text \<open>The loop from the deepest level to the root; \<open>level\<close> counts the levels that are left.\<close>

fun fold_loop :: "(string \<Rightarrow> string) \<Rightarrow> string \<Rightarrow> string list \<Rightarrow> nat \<Rightarrow> string \<Rightarrow> string option" where
  "fold_loop sha keyHex siblings 0 node = Some node"
| "fold_loop sha keyHex siblings (Suc level) node = (let sib = hexOf (siblings ! level) in
     if \<not> isHex64 sib then None
     else fold_loop sha keyHex siblings level
       (if pathBit keyHex level = 0 then hashBranch sha node sib else hashBranch sha sib node))"

definition foldToRoot :: "(string \<Rightarrow> string) \<Rightarrow> string \<Rightarrow> string list \<Rightarrow> string \<Rightarrow> nat \<Rightarrow> string option" where
  "foldToRoot sha leafHex siblings keyHex depth =
     (if \<not> isHex64 leafHex then None
      else if length siblings \<noteq> depth then None
      else fold_loop sha keyHex siblings depth leafHex)"

record sub_proof =
  sp_root :: string
  sp_siblings :: "string list option"
  sp_present :: "bool option"
  sp_value :: string

text \<open>\<open>None\<close> is acceptance, otherwise the reason.\<close>

definition checkSub :: "(string \<Rightarrow> string) \<Rightarrow> sub_proof option \<Rightarrow> string \<Rightarrow> string \<Rightarrow> string option" where
  "checkSub sha sub keyHex label = (case sub of None \<Rightarrow> Some (label @ ''_missing'')
   | Some prf \<Rightarrow> (let root = hexOf (sp_root prf) in
     if \<not> isHex64 root then Some (label @ ''_root_malformed'')
     else (case sp_siblings prf of None \<Rightarrow> Some (label @ ''_siblings_wrong_length'')
     | Some siblings \<Rightarrow>
       if length siblings \<noteq> SMT_DEPTH then Some (label @ ''_siblings_wrong_length'')
       else (case (case sp_present prf of
           Some True \<Rightarrow> if \<not> isHex64 (hexOf (sp_value prf)) then Inl (label @ ''_present_value_malformed'')
             else Inr (presentLeaf sha keyHex (hexOf (sp_value prf)))
         | Some False \<Rightarrow> Inr (defaultLeaf sha)
         | None \<Rightarrow> Inl (label @ ''_present_flag_missing'')) of
         Inl r \<Rightarrow> Some r
       | Inr leaf \<Rightarrow> (case foldToRoot sha leaf siblings keyHex SMT_DEPTH of
           None \<Rightarrow> Some (label @ ''_sibling_malformed'')
         | Some reconstructed \<Rightarrow> if reconstructed \<noteq> root then Some (label @ ''_does_not_reconstruct_root'') else None)))))"

record checkpoint =
  tree_size :: js_number
  root_hash :: string

record consumption_bundle =
  cb_nonce :: "string option"
  cb_non_inclusion :: "sub_proof option"
  cb_inclusion :: "sub_proof option"
  cb_consistency :: "string list option"
  cb_checkpoints :: "(checkpoint option \<times> checkpoint option) option"

record consumption_checks =
  ck_non_inclusion :: bool
  ck_inclusion :: bool
  ck_consistency :: bool

record consumption_result =
  cr_valid :: bool
  cr_checks :: consumption_checks
  cr_reason :: "string option"

definition failed :: "bool \<Rightarrow> bool \<Rightarrow> string \<Rightarrow> consumption_result" where
  "failed ni inc why = \<lparr>cr_valid = False, cr_checks = \<lparr>ck_non_inclusion = ni, ck_inclusion = inc, ck_consistency = False\<rparr>,
     cr_reason = Some why\<rparr>"

definition head_ok :: "checkpoint \<Rightarrow> bool" where
  "head_ok c \<longleftrightarrow> (case tree_size c of Integral n \<Rightarrow> 1 \<le> n | _ \<Rightarrow> False) \<and> isHex64 (hexOf (root_hash c))"

text \<open>Part (c), the two heads of the dense log; \<open>None\<close> is acceptance.\<close>

definition check_heads :: "(string \<Rightarrow> string) \<Rightarrow> consumption_bundle \<Rightarrow> string option" where
  "check_heads sha b = (case cb_checkpoints b of Some (Some h1, Some h2) \<Rightarrow>
       if \<not> head_ok h1 then Some ''checkpoint_h1_malformed''
       else if \<not> head_ok h2 then Some ''checkpoint_h2_malformed''
       else if \<not> num_val (tree_size h1) < num_val (tree_size h2) then Some ''checkpoint_h1_not_before_h2''
       else (case cb_consistency b of None \<Rightarrow> Some ''consistency_proof_missing''
         | Some path \<Rightarrow> if verifyCheckpointConsistency sha (hexOf (root_hash h1)) (tree_size h1) (hexOf (root_hash h2)) (tree_size h2) path
             then None else Some ''consistency_proof_not_append_only'')
     | _ \<Rightarrow> Some ''checkpoints_missing'')"

text \<open>The callers pass an object, so \<open>bundle_missing\<close> is the outermost \<open>None\<close>.\<close>

definition verifyConsumptionProof :: "(string \<Rightarrow> string) \<Rightarrow> consumption_bundle option \<Rightarrow> consumption_result" where
  "verifyConsumptionProof sha bundle = (case bundle of None \<Rightarrow> failed False False ''bundle_missing''
   | Some b \<Rightarrow> (case cb_nonce b of None \<Rightarrow> failed False False ''nonce_missing''
   | Some nonce \<Rightarrow> if nonce = [] then failed False False ''nonce_missing'' else (let keyHex = nonceKeyHex sha nonce in
     case cb_non_inclusion b of None \<Rightarrow> failed False False ''non_inclusion_proof_missing''
   | Some ni \<Rightarrow> if sp_present ni \<noteq> Some False then failed False False ''non_inclusion_proof_must_assert_absent''
     else (case checkSub sha (Some ni) keyHex ''non_inclusion'' of Some r \<Rightarrow> failed False False r
   | None \<Rightarrow> (case cb_inclusion b of None \<Rightarrow> failed True False ''inclusion_proof_missing''
   | Some inc \<Rightarrow> if sp_present inc \<noteq> Some True then failed True False ''inclusion_proof_must_assert_present''
     else (case checkSub sha (Some inc) keyHex ''inclusion'' of Some r \<Rightarrow> failed True False r
   | None \<Rightarrow> if hexOf (sp_root ni) = hexOf (sp_root inc) then failed True True ''smt_root_unchanged_no_transition''
     else (case check_heads sha b of Some r \<Rightarrow> failed True True r
   | None \<Rightarrow> \<lparr>cr_valid = True, cr_checks = \<lparr>ck_non_inclusion = True, ck_inclusion = True, ck_consistency = True\<rparr>,
       cr_reason = None\<rparr>)))))))"

subsection \<open>The reference emitter\<close>

text \<open>\<open>EMPTY[level]\<close> for the levels from the root to the default leaf.\<close>

fun buildEmptyLevels :: "(string \<Rightarrow> string) \<Rightarrow> nat \<Rightarrow> string list" where
  "buildEmptyLevels sha 0 = [defaultLeaf sha]"
| "buildEmptyLevels sha (Suc d) = (let es = buildEmptyLevels sha d in hashBranch sha (hd es) (hd es) # es)"

record consumption_tree =
  depth :: nat
  present :: "(string, string) js_map"

definition emptyTree :: "nat \<Rightarrow> consumption_tree" where
  "emptyTree d = \<lparr>depth = d, present = []\<rparr>"

definition insert_nonce :: "(string \<Rightarrow> string) \<Rightarrow> string \<Rightarrow> string option \<Rightarrow> consumption_tree \<Rightarrow> (string \<times> string) \<times> consumption_tree" where
  "insert_nonce sha nonce v t = (let keyHex = nonceKeyHex sha nonce;
     h = (case v of None \<Rightarrow> [] | Some x \<Rightarrow> hexOf x);
     valueHex = (if isHex64 h then h else sha (case v of None \<Rightarrow> nonce | Some x \<Rightarrow> x))
   in ((keyHex, valueHex), t\<lparr>present := map_set keyHex valueHex (present t)\<rparr>))"

definition bitsOf :: "string \<Rightarrow> nat \<Rightarrow> nat list" where
  "bitsOf keyHex n = map (pathBit keyHex) [0..<n]"

text \<open>\<open>_rootRec\<close>: the first argument counts the levels below, so the code's \<open>level\<close> is \<open>depth - height\<close>.\<close>

fun rootRec :: "(string \<Rightarrow> string) \<Rightarrow> consumption_tree \<Rightarrow> nat \<Rightarrow> nat list \<Rightarrow> string" where
  "rootRec sha t 0 pre = (case find (\<lambda>(k, v). bitsOf k (depth t) = pre) (present t) of
       Some (k, v) \<Rightarrow> presentLeaf sha k v | None \<Rightarrow> buildEmptyLevels sha (depth t) ! depth t)"
| "rootRec sha t (Suc height) pre = (let level = depth t - Suc height in
     if \<not> list_ex (\<lambda>(k, v). prefix pre (bitsOf k level) \<or> pre = []) (present t) then buildEmptyLevels sha (depth t) ! level
     else hashBranch sha (rootRec sha t height (pre @ [0])) (rootRec sha t height (pre @ [1])))"

definition root_of :: "(string \<Rightarrow> string) \<Rightarrow> consumption_tree \<Rightarrow> string" where
  "root_of sha t = rootRec sha t (depth t) []"

definition prove_siblings :: "(string \<Rightarrow> string) \<Rightarrow> consumption_tree \<Rightarrow> string \<Rightarrow> string list" where
  "prove_siblings sha t keyHex = map (\<lambda>level. rootRec sha t (depth t - Suc level)
     (bitsOf keyHex level @ [if pathBit keyHex level = 0 then 1 else 0])) [0..<depth t]"

definition prove :: "(string \<Rightarrow> string) \<Rightarrow> string \<Rightarrow> consumption_tree \<Rightarrow> sub_proof" where
  "prove sha nonce t = (let keyHex = nonceKeyHex sha nonce in
     \<lparr>sp_root = root_of sha t, sp_siblings = Some (prove_siblings sha t keyHex),
      sp_present = Some (map_get (present t) keyHex \<noteq> None),
      sp_value = (case map_get (present t) keyHex of None \<Rightarrow> [] | Some v \<Rightarrow> v)\<rparr>)"

subsection \<open>Binding of a sub-proof\<close>

lemma isHex64_plain: "isHex64 h = plain_hash h"
  by (simp add: isHex64_def plain_hash_def)

text \<open>The text of the leaf of a sub-proof, and all texts that checking it hashes.\<close>

definition leaf_text :: "string \<Rightarrow> sub_proof \<Rightarrow> string" where
  "leaf_text keyHex p = (if sp_present p = Some True then CHR 0x02 # keyHex @ hexOf (sp_value p) else [CHR 0x03])"

fun fold_inputs :: "(string \<Rightarrow> string) \<Rightarrow> string \<Rightarrow> string list \<Rightarrow> nat \<Rightarrow> string \<Rightarrow> string list" where
  "fold_inputs sha keyHex siblings 0 node = []"
| "fold_inputs sha keyHex siblings (Suc level) node = (let sib = hexOf (siblings ! level);
     input = CHR 0x01 # (if pathBit keyHex level = 0 then node @ sib else sib @ node)
   in input # fold_inputs sha keyHex siblings level (sha input))"

definition sub_inputs :: "(string \<Rightarrow> string) \<Rightarrow> string \<Rightarrow> sub_proof \<Rightarrow> string list" where
  "sub_inputs sha keyHex p = leaf_text keyHex p # (case sp_siblings p of None \<Rightarrow> []
     | Some siblings \<Rightarrow> fold_inputs sha keyHex siblings SMT_DEPTH (sha (leaf_text keyHex p)))"

lemma fold_inj:
  assumes "hex_digest sha" "inj_on sha X"
  shows "fold_loop sha k s n a = Some r \<Longrightarrow> fold_loop sha k s' n a' = Some r \<Longrightarrow> length a = 64 \<Longrightarrow> length a' = 64
    \<Longrightarrow> set (fold_inputs sha k s n a) \<subseteq> X \<Longrightarrow> set (fold_inputs sha k s' n a') \<subseteq> X \<Longrightarrow> a = a'"
proof (induction n arbitrary: a a')
  case (Suc n)
  let ?in = "\<lambda>s a. CHR 0x01 # (if pathBit k n = 0 then a @ hexOf (s ! n) else hexOf (s ! n) @ a)"
  have hex: "length (hexOf (s ! n)) = 64" "length (hexOf (s' ! n)) = 64"
    using Suc.prems(1,2) by (auto simp: isHex64_def Let_def split: if_splits)
  have len: "length (sha x) = 64" for x using assms(1) by (simp add: hex_digest_def plain_hash_def)
  have mem: "?in s a \<in> X" "?in s' a' \<in> X" using Suc.prems(5,6) by (auto simp: Let_def)
  have "sha (?in s a) = sha (?in s' a')"
    by (rule Suc.IH[OF _ _ len len])
      (use Suc.prems in \<open>auto simp: Let_def hashBranch_def if_distrib split: if_splits\<close>)
  then have "?in s a = ?in s' a'" using inj_onD[OF assms(2) _ mem] by blast
  with hex Suc.prems(3,4) show ?case by (simp split: if_splits)
qed simp

lemma checkSub_accepts:
  "checkSub sha (Some p) keyHex label = None \<longleftrightarrow> isHex64 (hexOf (sp_root p)) \<and> sp_present p \<noteq> None
    \<and> (sp_present p = Some True \<longrightarrow> isHex64 (hexOf (sp_value p)))
    \<and> (\<exists>siblings. sp_siblings p = Some siblings \<and> length siblings = SMT_DEPTH
      \<and> foldToRoot sha (sha (leaf_text keyHex p)) siblings keyHex SMT_DEPTH = Some (hexOf (sp_root p)))"
  by (auto simp: checkSub_def leaf_text_def presentLeaf_def defaultLeaf_def Let_def split: option.splits bool.splits if_splits)

lemma sub_binding:
  assumes "hex_digest sha" "inj_on sha (set (sub_inputs sha keyHex p) \<union> set (sub_inputs sha keyHex q))"
    and "checkSub sha (Some p) keyHex label = None" "checkSub sha (Some q) keyHex label' = None"
    and "hexOf (sp_root p) = hexOf (sp_root q)"
  shows "sp_present p = sp_present q \<and> (sp_present p = Some True \<longrightarrow> hexOf (sp_value p) = hexOf (sp_value q))"
proof -
  let ?X = "set (sub_inputs sha keyHex p) \<union> set (sub_inputs sha keyHex q)"
  have len: "length (sha x) = 64" for x using assms(1) by (simp add: hex_digest_def plain_hash_def)
  obtain s t where s: "sp_siblings p = Some s" "sp_siblings q = Some t"
    "fold_loop sha keyHex s SMT_DEPTH (sha (leaf_text keyHex p)) = Some (hexOf (sp_root p))"
    "fold_loop sha keyHex t SMT_DEPTH (sha (leaf_text keyHex q)) = Some (hexOf (sp_root p))"
    using assms(3-5) by (auto simp: checkSub_accepts foldToRoot_def split: if_splits)
  have "sha (leaf_text keyHex p) = sha (leaf_text keyHex q)"
    by (rule fold_inj[OF assms(1,2) s(3,4) len len]) (use s(1,2) in \<open>auto simp: sub_inputs_def\<close>)
  then have "leaf_text keyHex p = leaf_text keyHex q"
    using inj_onD[OF assms(2), of "leaf_text keyHex p" "leaf_text keyHex q"] by (simp add: sub_inputs_def)
  with assms(3,4) show ?thesis by (auto simp: leaf_text_def checkSub_accepts isHex64_def split: if_splits)
qed

text \<open>
  Property C20. A root binds the status of a nonce: if two sub-proofs for the same key are accepted against
  the same root and SHA-256 has no collision among the texts that checking them hashes, then both
  show the nonce present with the same value, or both show it absent.
\<close>

theorem smt_proof_binding:
  assumes "hex_digest sha" "inj_on sha (set (sub_inputs sha keyHex p) \<union> set (sub_inputs sha keyHex q))"
    and "checkSub sha (Some p) keyHex label = None" "checkSub sha (Some q) keyHex label' = None"
    and "hexOf (sp_root p) = hexOf (sp_root q)"
  shows "sp_present p = sp_present q \<and> (sp_present p = Some True \<longrightarrow> hexOf (sp_value p) = hexOf (sp_value q))"
  using sub_binding[OF assms] .

subsection \<open>The emitter\<close>

lemma sha_plain: "hex_digest sha \<Longrightarrow> plain_hash (sha x)"
  by (simp add: hex_digest_def)

lemma empty_levels_length: "length (buildEmptyLevels sha d) = Suc d"
  by (induction d) (auto simp: Let_def)

lemma empty_levels_fold:
  "l < d \<Longrightarrow> buildEmptyLevels sha d ! l = hashBranch sha (buildEmptyLevels sha d ! Suc l) (buildEmptyLevels sha d ! Suc l)"
proof (induction d arbitrary: l)
  case (Suc d)
  have "buildEmptyLevels sha d \<noteq> []" using empty_levels_length[of sha d] by auto
  then have "hd (buildEmptyLevels sha d) = buildEmptyLevels sha d ! 0" by (simp add: hd_conv_nth)
  with Suc.IH[of "l - 1"] Suc.prems show ?case by (cases l) (auto simp: Let_def)
qed simp

lemma empty_level_plain: "hex_digest sha \<Longrightarrow> l \<le> d \<Longrightarrow> plain_hash (buildEmptyLevels sha d ! l)"
proof (induction d arbitrary: l)
  case (Suc d)
  then show ?case by (cases l) (auto simp: Let_def hashBranch_def sha_plain)
qed (simp add: defaultLeaf_def sha_plain)

lemma default_level: "buildEmptyLevels sha d ! d = defaultLeaf sha"
  by (induction d) (auto simp: Let_def)

lemma rootRec_plain: "hex_digest sha \<Longrightarrow> h \<le> depth t \<Longrightarrow> plain_hash (rootRec sha t h pre)"
  by (cases h) (auto simp: Let_def hashBranch_def presentLeaf_def sha_plain empty_level_plain split: option.splits)

lemma bitsOf_Suc: "bitsOf k (Suc n) = bitsOf k n @ [pathBit k n]"
  by (simp add: bitsOf_def)

lemma bitsOf_0 [simp]: "bitsOf k 0 = []"
  by (simp add: bitsOf_def)

lemma length_bitsOf [simp]: "length (bitsOf k n) = n"
  by (simp add: bitsOf_def)

lemma prefix_bits: "length pre = n \<Longrightarrow> prefix pre (bitsOf k n) \<longleftrightarrow> pre = bitsOf k n"
  by (auto simp: prefix_def) (metis append_Nil2 append_eq_conv_conj length_bitsOf take_all_iff order_refl)

lemma find_mem: "find P xs = Some x \<Longrightarrow> x \<in> set xs \<and> P x"
  by (auto simp: find_Some_iff)

lemma rootRec_empty:
  "h \<le> depth t \<Longrightarrow> length pre = depth t - h \<Longrightarrow> \<forall>(k, v) \<in> set (present t). bitsOf k (length pre) \<noteq> pre
    \<Longrightarrow> rootRec sha t h pre = buildEmptyLevels sha (depth t) ! (depth t - h)"
  by (cases h) (auto simp: find_None_iff prefix_bits Let_def list_ex_iff split: option.splits dest!: find_mem)

lemma rootRec_unfold:
  assumes "Suc h \<le> depth t" "length pre = depth t - Suc h"
  shows "rootRec sha t (Suc h) pre = hashBranch sha (rootRec sha t h (pre @ [0])) (rootRec sha t h (pre @ [1]))"
proof (cases "\<forall>(k, v) \<in> set (present t). bitsOf k (length pre) \<noteq> pre")
  case True
  have step: "depth t - h = Suc (depth t - Suc h)" using assms by simp
  have "rootRec sha t h (pre @ [b]) = buildEmptyLevels sha (depth t) ! (depth t - h)" for b
    by (rule rootRec_empty) (use assms True in \<open>auto simp: bitsOf_Suc\<close>)
  moreover have "rootRec sha t (Suc h) pre = buildEmptyLevels sha (depth t) ! (depth t - Suc h)"
    by (rule rootRec_empty) (use assms True in auto)
  ultimately show ?thesis using empty_levels_fold[of "depth t - Suc h" "depth t" sha] assms step by simp
next
  case False
  with assms show ?thesis by (auto simp: Let_def list_ex_iff prefix_bits split: prod.splits)
qed

text \<open>What every insertion into a free slot keeps: hexadecimal entries under distinct paths.\<close>

definition smt_ok :: "consumption_tree \<Rightarrow> bool" where
  "smt_ok t \<longleftrightarrow> list_all (\<lambda>(k, v). isHex64 k \<and> isHex64 v) (present t)
     \<and> distinct (map (\<lambda>(k, v). bitsOf k (depth t)) (present t))"

definition path_free :: "consumption_tree \<Rightarrow> string \<Rightarrow> bool" where
  "path_free t keyHex \<longleftrightarrow> list_all (\<lambda>(k, v). bitsOf k (depth t) \<noteq> bitsOf keyHex (depth t)) (present t)"

lemma pathBit_cases: "pathBit k i = 0 \<or> pathBit k i = 1"
  by (simp add: pathBit_def Let_def) linarith

lemma honest_fold:
  assumes "hex_digest sha"
  shows "level \<le> depth t \<Longrightarrow> fold_loop sha keyHex (prove_siblings sha t keyHex) level
    (rootRec sha t (depth t - level) (bitsOf keyHex level)) = Some (root_of sha t)"
proof (induction level)
  case (Suc level)
  let ?h = "depth t - Suc level" and ?b = "pathBit keyHex level"
  let ?sib = "rootRec sha t ?h (bitsOf keyHex level @ [if ?b = 0 then 1 else 0])"
  have h: "depth t - level = Suc ?h" using Suc.prems by simp
  have sib: "prove_siblings sha t keyHex ! level = ?sib" using Suc.prems by (simp add: prove_siblings_def)
  have plain: "plain_hash ?sib" by (rule rootRec_plain[OF assms]) simp
  have "rootRec sha t (depth t - level) (bitsOf keyHex level)
      = hashBranch sha (rootRec sha t ?h (bitsOf keyHex level @ [0])) (rootRec sha t ?h (bitsOf keyHex level @ [1]))"
    unfolding h by (rule rootRec_unfold) (use Suc.prems in auto)
  with Suc plain pathBit_cases[of keyHex level] show ?case
    by (auto simp: sib hexOf_plain isHex64_plain bitsOf_Suc Let_def)
qed (simp add: root_of_def bitsOf_def)

lemma leaf_slot:
  assumes "smt_ok t" "map_get (present t) keyHex = None \<longrightarrow> path_free t keyHex"
  shows "find (\<lambda>(k, v). bitsOf k (depth t) = bitsOf keyHex (depth t)) (present t)
    = map_option (\<lambda>v. (keyHex, v)) (map_get (present t) keyHex)"
  using assms unfolding smt_ok_def path_free_def
proof (induction "present t" arbitrary: t)
  case (Cons e es)
  obtain k v where e: "e = (k, v)" by fastforce
  show ?case
  proof (cases "bitsOf k (depth t) = bitsOf keyHex (depth t)")
    case True
    have "k = keyHex"
    proof (rule ccontr)
      assume "k \<noteq> keyHex"
      then have "map_get es keyHex \<noteq> None" using Cons.prems(2) Cons.hyps(2)[symmetric] e True by auto
      then obtain w where "(keyHex, w) \<in> set es" by (auto dest: map_of_SomeD)
      then have "bitsOf keyHex (depth t) \<in> set (map (\<lambda>(k, v). bitsOf k (depth t)) es)" by force
      with True show False using Cons.prems(1) Cons.hyps(2)[symmetric] e by auto
    qed
    with True e show ?thesis using Cons.hyps(2)[symmetric] by simp
  next
    case False
    then have "k \<noteq> keyHex" by auto
    with False e show ?thesis
      using Cons.hyps(1)[of "t\<lparr>present := es\<rparr>"] Cons.prems Cons.hyps(2)[symmetric] by auto
  qed
qed simp

lemma prove_accepted:
  assumes "hex_digest sha" "smt_ok t" "depth t = SMT_DEPTH"
    and "map_get (present t) (sha nonce) = None \<longrightarrow> path_free t (sha nonce)"
  shows "checkSub sha (Some (prove sha nonce t)) (sha nonce) label = None"
proof -
  have val: "plain_hash v" if "map_get (present t) (sha nonce) = Some v" for v
    using that assms(2) by (auto simp: smt_ok_def list_all_iff isHex64_plain dest!: map_of_SomeD)
  have root: "plain_hash (root_of sha t)" unfolding root_of_def by (rule rootRec_plain[OF assms(1)]) simp
  have "sha (leaf_text (sha nonce) (prove sha nonce t)) = rootRec sha t 0 (bitsOf (sha nonce) (depth t))"
    using leaf_slot[OF assms(2,4)] empty_levels_length[of sha "depth t"] val
    by (auto simp: leaf_text_def prove_def nonceKeyHex_def Let_def presentLeaf_def hexOf_plain default_level defaultLeaf_def split: option.splits)
  then have "fold_loop sha (sha nonce) (prove_siblings sha t (sha nonce)) SMT_DEPTH (sha (leaf_text (sha nonce) (prove sha nonce t)))
      = Some (root_of sha t)"
    using honest_fold[OF assms(1), of "depth t" t "sha nonce"] assms(3) by simp
  moreover have "plain_hash (sha (leaf_text (sha nonce) (prove sha nonce t)))" by (rule sha_plain[OF assms(1)])
  moreover have "sp_root (prove sha nonce t) = root_of sha t" "sp_siblings (prove sha nonce t) = Some (prove_siblings sha t (sha nonce))"
    "sp_present (prove sha nonce t) = Some (map_get (present t) (sha nonce) \<noteq> None)"
    "map_get (present t) (sha nonce) = Some v \<Longrightarrow> sp_value (prove sha nonce t) = v" for v
    by (simp_all add: prove_def nonceKeyHex_def Let_def)
  moreover have "length (prove_siblings sha t (sha nonce)) = SMT_DEPTH" by (simp add: prove_siblings_def assms(3))
  ultimately show ?thesis using root val by (auto simp: checkSub_accepts foldToRoot_def isHex64_plain hexOf_plain)
qed

lemma free_absent: "path_free t keyHex \<Longrightarrow> map_get (present t) keyHex = None"
  by (auto simp: path_free_def list_all_iff map_of_eq_None_iff)

lemma insert_ok:
  assumes "hex_digest sha" "smt_ok t" "path_free t (sha nonce)"
  shows "smt_ok (snd (insert_nonce sha nonce v t))"
    and "\<exists>w. map_get (present (snd (insert_nonce sha nonce v t))) (sha nonce) = Some w"
    and "depth (snd (insert_nonce sha nonce v t)) = depth t"
proof -
  show "smt_ok (snd (insert_nonce sha nonce v t))"
    using assms free_absent[OF assms(3)]
    by (auto simp: insert_nonce_def nonceKeyHex_def Let_def smt_ok_def path_free_def map_set_new isHex64_plain sha_plain list_all_iff
        split: option.splits prod.splits)
qed (simp_all add: insert_nonce_def nonceKeyHex_def Let_def)

text \<open>The tree after insertions from the empty tree, each of a nonce with a value.\<close>

definition tree_of :: "(string \<Rightarrow> string) \<Rightarrow> (string \<times> string option) list \<Rightarrow> consumption_tree" where
  "tree_of sha es = foldl (\<lambda>t (nonce, v). snd (insert_nonce sha nonce v t)) (emptyTree SMT_DEPTH) es"

definition path_of :: "(string \<Rightarrow> string) \<Rightarrow> string \<Rightarrow> nat list" where
  "path_of sha nonce = bitsOf (sha nonce) SMT_DEPTH"

lemma tree_path_free:
  assumes "depth t = SMT_DEPTH" "set (map fst (present t)) = sha ` fst ` set es" "path_of sha nonce \<notin> path_of sha ` fst ` set es"
  shows "path_free t (sha nonce)"
  unfolding path_free_def list_all_iff
proof clarify
  fix k w assume m: "(k, w) \<in> set (present t)" and eq: "bitsOf k (depth t) = bitsOf (sha nonce) (depth t)"
  have "k \<in> sha ` fst ` set es" using m assms(2) by force
  then obtain f where f: "f \<in> fst ` set es" "k = sha f" by blast
  then have "path_of sha nonce = path_of sha f" using eq assms(1) by (simp add: path_of_def)
  then show False using assms(3) f(1) by blast
qed

lemma tree_of_ok:
  assumes "hex_digest sha"
  shows "distinct (map (\<lambda>e. path_of sha (fst e)) es) \<Longrightarrow> smt_ok (tree_of sha es) \<and> depth (tree_of sha es) = SMT_DEPTH
    \<and> set (map fst (present (tree_of sha es))) = sha ` fst ` set es"
proof (induction es rule: rev_induct)
  case Nil
  then show ?case by (simp add: tree_of_def emptyTree_def smt_ok_def)
next
  case (snoc e es)
  obtain nonce v where e: "e = (nonce, v)" by fastforce
  have t: "tree_of sha (es @ [e]) = snd (insert_nonce sha nonce v (tree_of sha es))" by (simp add: tree_of_def e)
  have IH: "smt_ok (tree_of sha es)" "depth (tree_of sha es) = SMT_DEPTH" "set (map fst (present (tree_of sha es))) = sha ` fst ` set es"
    using snoc by auto
  have "path_of sha nonce \<notin> path_of sha ` fst ` set es" using snoc.prems by (simp add: e image_image)
  from tree_path_free[OF IH(2,3) this] have "path_free (tree_of sha es) (sha nonce)" .
  from insert_ok[OF assms IH(1) this, of v] show ?case
    unfolding t using IH(2,3) by (auto simp: insert_nonce_def nonceKeyHex_def Let_def e dom_update)
qed

lemma tree_of_free:
  assumes "hex_digest sha" "distinct (map (\<lambda>e. path_of sha (fst e)) es)" "path_of sha nonce \<notin> path_of sha ` fst ` set es"
  shows "path_free (tree_of sha es) (sha nonce)"
  using tree_of_ok[OF assms(1,2)] tree_path_free[OF _ _ assms(3)] by blast

subsection \<open>Acceptance\<close>

text \<open>A bundle is accepted exactly if its two sparse proofs are and, independently, its two heads are.\<close>

definition sparse_part :: "(string \<Rightarrow> string) \<Rightarrow> consumption_bundle \<Rightarrow> bool" where
  "sparse_part sha b \<longleftrightarrow> (\<exists>nonce ni inc. cb_nonce b = Some nonce \<and> nonce \<noteq> [] \<and> cb_non_inclusion b = Some ni
     \<and> cb_inclusion b = Some inc \<and> sp_present ni = Some False \<and> sp_present inc = Some True
     \<and> checkSub sha (Some ni) (sha nonce) ''non_inclusion'' = None \<and> checkSub sha (Some inc) (sha nonce) ''inclusion'' = None
     \<and> hexOf (sp_root ni) \<noteq> hexOf (sp_root inc))"

lemma accepted_iff: "cr_valid (verifyConsumptionProof sha (Some b)) \<longleftrightarrow> sparse_part sha b \<and> check_heads sha b = None"
  by (auto simp: verifyConsumptionProof_def sparse_part_def failed_def nonceKeyHex_def Let_def split: option.splits)

text \<open>The two sparse proofs of one insertion, which end in different roots.\<close>

lemma honest_sparse:
  assumes "hex_digest sha" "smt_ok t" "depth t = SMT_DEPTH" "path_free t (sha nonce)"
    and "inj_on sha (set (sub_inputs sha (sha nonce) (prove sha nonce t))
      \<union> set (sub_inputs sha (sha nonce) (prove sha nonce (snd (insert_nonce sha nonce v t)))))"
  shows "sp_present (prove sha nonce t) = Some False"
    and "sp_present (prove sha nonce (snd (insert_nonce sha nonce v t))) = Some True"
    and "checkSub sha (Some (prove sha nonce t)) (sha nonce) label = None"
    and "checkSub sha (Some (prove sha nonce (snd (insert_nonce sha nonce v t)))) (sha nonce) label = None"
    and "hexOf (sp_root (prove sha nonce t)) \<noteq> hexOf (sp_root (prove sha nonce (snd (insert_nonce sha nonce v t))))"
proof -
  let ?p = "prove sha nonce t" and ?q = "prove sha nonce (snd (insert_nonce sha nonce v t))"
  show absent: "sp_present ?p = Some False" using free_absent[OF assms(4)] by (simp add: prove_def nonceKeyHex_def Let_def)
  show present: "sp_present ?q = Some True"
    using insert_ok(2)[OF assms(1,2,4), of v] by (auto simp: prove_def[of sha nonce "snd _"] nonceKeyHex_def Let_def)
  show p: "checkSub sha (Some ?p) (sha nonce) label = None" for label using prove_accepted[OF assms(1-3)] assms(4) by blast
  show q: "checkSub sha (Some ?q) (sha nonce) label = None" for label
    by (rule prove_accepted[OF assms(1)]) (use insert_ok[OF assms(1,2,4), of v] assms(3) in auto)
  show "hexOf (sp_root ?p) \<noteq> hexOf (sp_root ?q)"
    using sub_binding[OF assms(1,5) p q] absent present by auto
qed

lemma honest_heads:
  assumes "hex_digest sha" "list_all plain_hash D" "1 \<le> m" "m < n" "n \<le> length D" "m < 2 ^ 32" "n \<le> 2 ^ 53"
    and "\<And>P r r'. b P r r' = base\<lparr>cb_consistency := Some P, cb_checkpoints := Some
      (Some \<lparr>tree_size = Integral (int m), root_hash = r\<rparr>, Some \<lparr>tree_size = Integral (int n), root_hash = r'\<rparr>)\<rparr>"
  shows "\<exists>P r r'. buildConsistencyProof sha m n D = Some P \<and> merkleRoot sha (take m D) = Some r
    \<and> merkleRoot sha (take n D) = Some r' \<and> check_heads sha (b P r r') = None"
proof -
  have ne: "take m D \<noteq> []" "take n D \<noteq> []" using assms by auto
  have plain: "plain_hash (mth sha (take k D))" if "take k D \<noteq> []" for k
    using mth_plain[OF assms(1) _ that] plain_take_drop[OF assms(2)] by blast
  show ?thesis
    using consistency_proof_complete_path[OF assms(1-7)] plain[OF ne(1)] plain[OF ne(2)] ne assms
    by (auto simp: buildConsistencyProof_def merkleRoot_def check_heads_def head_ok_def hexOf_plain isHex64_plain)
qed

text \<open>
  Property C21. Emitter and verifier fit together: after insertions of nonces with pairwise different 32-bit paths into the
  empty tree, and for a nonce whose path is none of theirs, the proofs of its absence before and of its presence after
  its insertion, together with the reference consistency proof between two heads of any log (the older one below \<open>2^32\<close> leaves, the newer
  within \<open>2^53\<close>), form a bundle that is accepted, provided SHA-256 has no collision among the texts that the two sparse proofs hash.
\<close>

theorem emitted_bundle_accepted:
  assumes "hex_digest sha" "distinct (map (\<lambda>e. path_of sha (fst e)) es)" "path_of sha nonce \<notin> path_of sha ` fst ` set es" "nonce \<noteq> []"
    and "list_all plain_hash D" "1 \<le> m" "m < n" "n \<le> length D" "m < 2 ^ 32" "n \<le> 2 ^ 53"
    and "inj_on sha (set (sub_inputs sha (sha nonce) (prove sha nonce (tree_of sha es)))
      \<union> set (sub_inputs sha (sha nonce) (prove sha nonce (tree_of sha (es @ [(nonce, v)])))))"
  shows "\<exists>P r r'. buildConsistencyProof sha m n D = Some P \<and> merkleRoot sha (take m D) = Some r
    \<and> merkleRoot sha (take n D) = Some r'
    \<and> cr_valid (verifyConsumptionProof sha (Some \<lparr>cb_nonce = Some nonce, cb_non_inclusion = Some (prove sha nonce (tree_of sha es)),
        cb_inclusion = Some (prove sha nonce (tree_of sha (es @ [(nonce, v)]))), cb_consistency = Some P,
        cb_checkpoints = Some (Some \<lparr>tree_size = Integral (int m), root_hash = r\<rparr>,
          Some \<lparr>tree_size = Integral (int n), root_hash = r'\<rparr>)\<rparr>))"
    (is "\<exists>P r r'. _ \<and> _ \<and> _ \<and> cr_valid (verifyConsumptionProof sha (Some (?b P r r')))")
proof -
  have heads: "\<exists>P r r'. buildConsistencyProof sha m n D = Some P \<and> merkleRoot sha (take m D) = Some r
      \<and> merkleRoot sha (take n D) = Some r' \<and> check_heads sha (?b P r r') = None"
    by (rule honest_heads[OF assms(1,5-10), where base = "?b [] [] []"]) simp
  have after: "tree_of sha (es @ [(nonce, v)]) = snd (insert_nonce sha nonce v (tree_of sha es))" by (simp add: tree_of_def)
  note ok = tree_of_ok[OF assms(1,2)] and free = tree_of_free[OF assms(1-3)]
  have "sparse_part sha (?b P r r')" for P r r'
    using honest_sparse[OF assms(1) _ _ free assms(11)[unfolded after]] ok assms(4) by (simp add: sparse_part_def after)
  with heads show ?thesis unfolding accepted_iff by blast
qed

subsection \<open>Occupied paths\<close>

lemma fold_same_path:
  assumes "\<And>l. l < n \<Longrightarrow> pathBit k l = pathBit k' l"
  shows "fold_loop sha k s n a = fold_loop sha k' s n a" "fold_inputs sha k s n a = fold_inputs sha k' s n a"
  using assms by (induction n arbitrary: a) (auto simp: Let_def)

lemma same_path:
  assumes "path_of sha x = path_of sha y"
  shows "l < SMT_DEPTH \<Longrightarrow> pathBit (sha x) l = pathBit (sha y) l"
    and "depth t = SMT_DEPTH \<Longrightarrow> prove_siblings sha t (sha x) = prove_siblings sha t (sha y)"
proof -
  have bits: "pathBit (sha x) l = pathBit (sha y) l" if "l < SMT_DEPTH" for l
    using assms that by (simp add: path_of_def bitsOf_def)
  then show "l < SMT_DEPTH \<Longrightarrow> pathBit (sha x) l = pathBit (sha y) l" by blast
  have "bitsOf (sha x) l = bitsOf (sha y) l" if "l < SMT_DEPTH" for l using bits that by (simp add: bitsOf_def)
  then show "depth t = SMT_DEPTH \<Longrightarrow> prove_siblings sha t (sha x) = prove_siblings sha t (sha y)"
    using bits unfolding prove_siblings_def by (intro map_cong) simp_all
qed

lemma checkSub_fold:
  assumes "checkSub sha (Some p) k label = None" "sp_siblings p = Some s"
  shows "fold_loop sha k s SMT_DEPTH (sha (leaf_text k p)) = Some (hexOf (sp_root p))"
  using assms by (auto simp: checkSub_accepts foldToRoot_def split: if_splits)

lemma prove_root: "sp_root (prove sha nonce t) = root_of sha t"
  by (simp add: prove_def Let_def)

lemma sub_inputs_siblings:
  "sp_siblings p = Some s \<Longrightarrow> sub_inputs sha k p = leaf_text k p # fold_inputs sha k s SMT_DEPTH (sha (leaf_text k p))"
  by (simp add: sub_inputs_def)

text \<open>
  Property C33. A path of the tree is used once: when nonces with pairwise different 32-bit paths have been inserted, no proof of
  absence against the root of the tree is accepted, in whatever bundle, for an inserted nonce, nor for any other nonce on the
  path of an inserted one, provided SHA-256 has no collision among the texts that this proof and the proof of the inserted nonce hash.
\<close>

theorem occupied_path_refused:
  assumes "hex_digest sha" "distinct (map (\<lambda>e. path_of sha (fst e)) es)" "(other, v) \<in> set es" "path_of sha nonce = path_of sha other"
    and "cb_nonce b = Some nonce" "cb_non_inclusion b = Some p" "hexOf (sp_root p) = hexOf (root_of sha (tree_of sha es))"
    and "inj_on sha (set (sub_inputs sha (sha nonce) p) \<union> set (sub_inputs sha (sha other) (prove sha other (tree_of sha es))))"
  shows "\<not> cr_valid (verifyConsumptionProof sha (Some b))"
proof
  let ?t = "tree_of sha es" and ?q = "prove sha other (tree_of sha es)"
  let ?s = "prove_siblings sha ?t (sha other)"
  assume "cr_valid (verifyConsumptionProof sha (Some b))"
  then have p: "sp_present p = Some False" "checkSub sha (Some p) (sha nonce) ''non_inclusion'' = None"
    using assms(5,6) by (auto simp: accepted_iff sparse_part_def)
  from p(2) obtain s where s: "sp_siblings p = Some s" unfolding checkSub_accepts by blast
  note ok = tree_of_ok[OF assms(1,2)]
  have "sha other \<in> sha ` fst ` set es" using imageI[OF imageI[OF assms(3)], of sha fst] by simp
  then have "map_get (present ?t) (sha other) \<noteq> None" using ok by (simp add: map_of_eq_None_iff)
  then obtain w where mem: "map_get (present ?t) (sha other) = Some w" by blast
  have q: "checkSub sha (Some ?q) (sha other) ''q'' = None"
    by (rule prove_accepted[OF assms(1)]) (use ok mem in simp_all)
  have parts: "hexOf (sp_root ?q) = hexOf (sp_root p)" "sp_siblings ?q = Some ?s" "sp_present ?q = Some True"
    using mem assms(7) by (simp_all add: prove_def nonceKeyHex_def Let_def)
  have path: "fold_loop sha (sha nonce) ?s SMT_DEPTH a = fold_loop sha (sha other) ?s SMT_DEPTH a"
    "fold_inputs sha (sha nonce) ?s SMT_DEPTH a = fold_inputs sha (sha other) ?s SMT_DEPTH a" for a
    by (rule fold_same_path[OF same_path(1)[OF assms(4)]], assumption)+
  have f: "fold_loop sha (sha nonce) s SMT_DEPTH (sha (leaf_text (sha nonce) p)) = Some (hexOf (sp_root p))"
    "fold_loop sha (sha nonce) ?s SMT_DEPTH (sha (leaf_text (sha other) ?q)) = Some (hexOf (sp_root p))"
    using checkSub_fold[OF p(2) s] checkSub_fold[OF q parts(2)] unfolding parts(1) path(1)[of "sha (leaf_text (sha other) ?q)"] .
  have len: "length (sha y) = 64" for y using assms(1) by (simp add: hex_digest_def plain_hash_def)
  note texts = sub_inputs_siblings[OF s, of sha "sha nonce"] sub_inputs_siblings[OF parts(2), of sha "sha other"]
  have "sha (leaf_text (sha nonce) p) = sha (leaf_text (sha other) ?q)"
    by (rule fold_inj[OF assms(1,8) f len len]) (unfold texts path(2)[of "sha (leaf_text (sha other) ?q)"], auto)
  then have "leaf_text (sha nonce) p = leaf_text (sha other) ?q"
    by (rule inj_onD[OF assms(8)]) (unfold texts, auto)
  then show False using p(1) parts(3) by (simp add: leaf_text_def)
qed

subsection \<open>A concrete bundle\<close>

text \<open>
  A digest without collisions on the texts of the sample: the run of \<open>b\<close>, or else the leading run of \<open>a\<close>, of
  the hashed text, one longer and padded with zeros. One nonce is inserted into the empty tree.
\<close>

definition run_digest :: "string \<Rightarrow> string" where
  "run_digest x = (let r = takeWhile (\<lambda>c. c = CHR ''b'') (dropWhile (\<lambda>c. c \<noteq> CHR ''b'') x) in
     take 64 ((if r \<noteq> [] then CHR ''b'' # r else CHR ''a'' # takeWhile (\<lambda>c. c = CHR ''a'') (drop 1 x)) @ replicate 64 CHR ''0''))"

definition sample_value :: string where
  "sample_value = CHR ''b'' # replicate 63 CHR ''0''"

definition sample_after :: consumption_tree where
  "sample_after = snd (insert_nonce run_digest ''z'' (Some sample_value) (emptyTree SMT_DEPTH))"

lemma run_digest_plain: "hex_digest run_digest"
proof -
  have *: "list_all is_lhex (takeWhile (\<lambda>d. d = c) s)" if "is_lhex c" for c s
    using that by (auto simp: list_all_iff dest: set_takeWhileD)
  show ?thesis
    by (auto simp: hex_digest_def plain_hash_def run_digest_def Let_def * char_class_defs list_all_iff
        dest!: in_set_takeD set_takeWhileD)
qed

text \<open>Beside the path of the only key every subtree is empty.\<close>

lemma siblings_alone:
  assumes "set (map fst (present t)) \<subseteq> {keyHex}"
  shows "prove_siblings sha t keyHex = map (\<lambda>l. buildEmptyLevels sha (depth t) ! Suc l) [0..<depth t]"
  unfolding prove_siblings_def
proof (rule map_cong[OF refl])
  fix l assume l: "l \<in> set [0..<depth t]"
  have "rootRec sha t (depth t - Suc l) (bitsOf keyHex l @ [if pathBit keyHex l = 0 then 1 else 0])
      = buildEmptyLevels sha (depth t) ! (depth t - (depth t - Suc l))"
    by (rule rootRec_empty) (use l assms pathBit_cases[of keyHex l] in \<open>auto simp: bitsOf_Suc\<close>)
  with l show "rootRec sha t (depth t - Suc l) (bitsOf keyHex l @ [if pathBit keyHex l = 0 then 1 else 0])
      = buildEmptyLevels sha (depth t) ! Suc l" by simp
qed

definition sample_siblings :: "string list" where
  "sample_siblings = map (\<lambda>n. replicate n CHR ''a'' @ replicate (64 - n) CHR ''0'') (rev [1..<33])"

lemma sample_levels: "map (\<lambda>l. buildEmptyLevels run_digest SMT_DEPTH ! Suc l) [0..<SMT_DEPTH] = sample_siblings"
  by code_simp

lemma sample_proofs:
  "sp_siblings (prove run_digest ''z'' (emptyTree SMT_DEPTH)) = Some sample_siblings"
  "sp_siblings (prove run_digest ''z'' sample_after) = Some sample_siblings"
  using siblings_alone[of "emptyTree SMT_DEPTH" "run_digest ''z''" run_digest]
    siblings_alone[of sample_after "run_digest ''z''" run_digest] sample_levels
  by (simp_all add: prove_def nonceKeyHex_def Let_def emptyTree_def sample_after_def insert_nonce_def)

definition pad :: "char \<Rightarrow> nat \<Rightarrow> string" where
  "pad c n = replicate n c @ replicate (64 - n) CHR ''0''"

lemma pad_plain: "is_lhex c \<Longrightarrow> n \<le> 64 \<Longrightarrow> plain_hash (pad c n)"
  by (auto simp: plain_hash_def pad_def list_all_iff char_class_defs)

lemma pad_inj: "n \<le> 64 \<Longrightarrow> m \<le> 64 \<Longrightarrow> c \<noteq> CHR ''0'' \<Longrightarrow> pad c n = pad c m \<Longrightarrow> n = m"
  by (drule arg_cong[of _ _ "\<lambda>s. length (filter (\<lambda>d. d = c) s)"]) (simp add: pad_def filter_replicate)

lemma takeWhile_pad:
  assumes "n < 64" "c \<noteq> CHR ''0''"
  shows "takeWhile (\<lambda>d. d = c) (pad c n @ v) = replicate n c"
proof -
  obtain j where "64 - n = Suc j" using assms(1) by (cases "64 - n") auto
  with assms(2) show ?thesis by (auto simp: pad_def takeWhile_append)
qed

lemma run_digest_a:
  assumes "n < 64" shows "run_digest (CHR 0x01 # pad CHR ''a'' n @ pad CHR ''a'' n) = pad CHR ''a'' (Suc n)"
proof -
  have "dropWhile (\<lambda>c. c \<noteq> CHR ''b'') (CHR 0x01 # pad CHR ''a'' n @ pad CHR ''a'' n) = []" by (auto simp: pad_def dropWhile_eq_Nil_conv)
  then show ?thesis unfolding run_digest_def Let_def
    by (simp only: takeWhile.simps) (use assms in \<open>simp add: takeWhile_pad, simp add: pad_def\<close>)
qed

lemma run_digest_b:
  assumes "0 < m" "m < 64" "list_all (\<lambda>c. c \<noteq> CHR ''b'') u" "v = [] \<or> hd v \<noteq> CHR ''b''"
  shows "run_digest (u @ pad CHR ''b'' m @ v) = pad CHR ''b'' (Suc m)"
proof -
  have "dropWhile (\<lambda>c. c \<noteq> CHR ''b'') (u @ pad CHR ''b'' m @ v) = pad CHR ''b'' m @ v"
    using assms by (cases m) (auto simp: dropWhile_append2 list_all_iff pad_def)
  then show ?thesis using assms by (simp add: run_digest_def Let_def takeWhile_pad) (simp add: pad_def)
qed

lemma sample_sibling:
  assumes "l < 32" shows "hexOf (sample_siblings ! l) = pad CHR ''a'' (32 - l)"
proof -
  have "sample_siblings ! l = pad CHR ''a'' (32 - l)"
    using assms by (simp add: sample_siblings_def rev_nth pad_def[symmetric] del: upt_rec_numeral upt_conv_Cons) (simp add: Suc_diff_le[symmetric])
  then show ?thesis by (simp add: hexOf_plain pad_plain char_class_defs)
qed

text \<open>The digests on the way up: runs of \<open>a\<close> from the default leaf, runs of \<open>b\<close> from the present one.\<close>

lemma fold_absent: "l \<le> 32 \<Longrightarrow> map run_digest (fold_inputs run_digest k sample_siblings l (pad CHR ''a'' (33 - l)))
    = map (pad CHR ''a'') [34 - l..<34]"
proof (induction l)
  case (Suc l)
  have "run_digest (CHR 0x01 # pad CHR ''a'' (32 - l) @ pad CHR ''a'' (32 - l)) = pad CHR ''a'' (33 - l)"
    using run_digest_a[of "32 - l"] Suc.prems by (simp add: Suc_diff_le[symmetric])
  moreover have "[33 - l..<34] = (33 - l) # [34 - l..<34]" using Suc.prems by (simp add: upt_conv_Cons Suc_diff_le[symmetric])
  ultimately show ?case using Suc sample_sibling[of l] by (simp add: Let_def)
qed simp

lemma fold_present: "l \<le> 32 \<Longrightarrow> map run_digest (fold_inputs run_digest k sample_siblings l (pad CHR ''b'' (34 - l)))
    = map (pad CHR ''b'') [35 - l..<35]"
proof (induction l)
  case (Suc l)
  let ?a = "pad CHR ''a'' (32 - l)" and ?b = "pad CHR ''b'' (33 - l)"
  have no_b: "list_all (\<lambda>c. c \<noteq> CHR ''b'') (CHR 0x01 # ?a)" "?a = [] \<or> hd ?a \<noteq> CHR ''b''"
    by (auto simp: pad_def list_all_iff hd_append)
  have "run_digest (CHR 0x01 # ?b @ ?a) = pad CHR ''b'' (34 - l)" "run_digest (CHR 0x01 # ?a @ ?b) = pad CHR ''b'' (34 - l)"
    using run_digest_b[of "33 - l" "[CHR 0x01]" ?a] run_digest_b[of "33 - l" "CHR 0x01 # ?a" "[]"] no_b Suc.prems
    by (simp_all add: Suc_diff_le[symmetric])
  moreover have "[34 - l..<35] = (34 - l) # [35 - l..<35]" using Suc.prems by (simp add: upt_conv_Cons Suc_diff_le[symmetric])
  ultimately show ?case using Suc sample_sibling[of l] by (simp add: Let_def)
qed simp

definition sample_texts :: "string \<Rightarrow> string \<Rightarrow> string list" where
  "sample_texts k k' =
     [CHR 0x03] # fold_inputs run_digest k sample_siblings SMT_DEPTH (run_digest [CHR 0x03])
     @ (CHR 0x02 # k' @ sample_value) # fold_inputs run_digest k' sample_siblings SMT_DEPTH (run_digest (CHR 0x02 # k' @ sample_value))"

lemma sample_digests:
  assumes "run_digest (CHR 0x02 # k' @ sample_value) = pad CHR ''b'' 2"
  shows "distinct (map run_digest (sample_texts k k'))"
proof -
  have leaves: "run_digest [CHR 0x03] = pad CHR ''a'' 1" by code_simp
  have "map run_digest (sample_texts k k') = map (pad CHR ''a'') (1 # [2..<34]) @ map (pad CHR ''b'') (2 # [3..<35])"
    using fold_absent[of 32 k] fold_present[of 32 k'] assms
    by (simp add: sample_texts_def leaves SMT_DEPTH_def del: upt_rec_numeral upt_conv_Cons)
  moreover have "distinct (map (pad CHR ''a'') (1 # [2..<34]))" "distinct (map (pad CHR ''b'') (2 # [3..<35]))"
    by (auto simp: distinct_map inj_on_def dest!: pad_inj[rotated -1] simp del: upt_rec_numeral upt_conv_Cons)
  moreover have "pad CHR ''a'' n \<noteq> pad CHR ''b'' m" "pad CHR ''b'' m \<noteq> pad CHR ''a'' n" if "0 < n" "0 < m" for n m
    using that by (auto simp: pad_def gr0_conv_Suc)
  ultimately show ?thesis by (auto simp del: upt_rec_numeral upt_conv_Cons list.map)
qed

lemma sample_value_hex: "hexOf sample_value = sample_value" "isHex64 sample_value"
  by code_simp+

lemma sample_collision_free:
  "inj_on run_digest (set (sub_inputs run_digest (run_digest ''z'') (prove run_digest ''z'' (emptyTree SMT_DEPTH)))
    \<union> set (sub_inputs run_digest (run_digest ''z'') (prove run_digest ''z'' sample_after)))"
proof -
  have "leaf_text (run_digest ''z'') (prove run_digest ''z'' (emptyTree SMT_DEPTH)) = [CHR 0x03]"
    by (simp add: leaf_text_def prove_def nonceKeyHex_def Let_def emptyTree_def)
  moreover have "leaf_text (run_digest ''z'') (prove run_digest ''z'' sample_after) = CHR 0x02 # run_digest ''z'' @ sample_value"
    by (simp add: leaf_text_def prove_def nonceKeyHex_def Let_def sample_after_def insert_nonce_def emptyTree_def sample_value_hex)
  ultimately have "set (sub_inputs run_digest (run_digest ''z'') (prove run_digest ''z'' (emptyTree SMT_DEPTH)))
      \<union> set (sub_inputs run_digest (run_digest ''z'') (prove run_digest ''z'' sample_after)) = set (sample_texts (run_digest ''z'') (run_digest ''z''))"
    by (simp add: sub_inputs_def sample_proofs sample_texts_def insert_commute)
  moreover have "run_digest (CHR 0x02 # run_digest ''z'' @ sample_value) = pad CHR ''b'' 2" by code_simp
  ultimately show ?thesis using sample_digests by (simp only: distinct_map)
qed

lemma sample_tree: "smt_ok (emptyTree SMT_DEPTH)" "depth (emptyTree SMT_DEPTH) = SMT_DEPTH" "path_free (emptyTree SMT_DEPTH) k"
  by (simp_all add: smt_ok_def emptyTree_def path_free_def)

lemma sample_leaves: "list_all plain_hash (map sample_leaf ''abc'')"
  by (simp add: sample_leaf_plain char_class_defs)

definition sample_prefixed :: string where
  "sample_prefixed = ''SHA256:'' @ sample_value"

lemma sample_prefixed_hex: "hexOf sample_prefixed = sample_value"
  by code_simp

theorem smt_proof_binding_witness:
  "hexOf (sp_value (prove run_digest ''z'' sample_after)) = hexOf sample_prefixed"
proof -
  let ?p = "prove run_digest ''z'' sample_after"
  let ?q = "?p\<lparr>sp_value := sample_prefixed\<rparr>"
  have val: "sp_value ?p = sample_value" "sp_present ?p = Some True"
    by (simp_all add: prove_def nonceKeyHex_def Let_def sample_after_def insert_nonce_def emptyTree_def sample_value_hex)
  have leaf: "leaf_text k ?q = leaf_text k ?p" for k using val by (simp add: leaf_text_def sample_value_hex sample_prefixed_hex)
  then have texts: "sub_inputs run_digest k ?q = sub_inputs run_digest k ?p" for k unfolding sub_inputs_def leaf by simp
  have p: "checkSub run_digest (Some ?p) (run_digest ''z'') ''p'' = None"
    unfolding sample_after_def
    by (rule honest_sparse(4)[OF run_digest_plain sample_tree sample_collision_free[unfolded sample_after_def]])
  then have q: "checkSub run_digest (Some ?q) (run_digest ''z'') ''q'' = None"
    unfolding checkSub_accepts leaf using val by (auto simp: sample_value_hex sample_prefixed_hex)
  have "inj_on run_digest (set (sub_inputs run_digest (run_digest ''z'') ?p) \<union> set (sub_inputs run_digest (run_digest ''z'') ?q))"
    unfolding texts by (rule inj_on_subset[OF sample_collision_free]) simp
  from smt_proof_binding[OF run_digest_plain this p q] val show ?thesis by simp
qed

lemma sample_trees: "tree_of run_digest [] = emptyTree SMT_DEPTH"
  "tree_of run_digest ([] @ [(''z'', Some sample_value)]) = sample_after"
  by (simp_all add: tree_of_def sample_after_def)

theorem emitted_bundle_accepted_witness:
  "\<exists>P r r'. buildConsistencyProof run_digest 1 2 (map sample_leaf ''abc'') = Some P
    \<and> merkleRoot run_digest (take 1 (map sample_leaf ''abc'')) = Some r \<and> merkleRoot run_digest (take 2 (map sample_leaf ''abc'')) = Some r'
    \<and> cr_valid (verifyConsumptionProof run_digest (Some \<lparr>cb_nonce = Some ''z'',
        cb_non_inclusion = Some (prove run_digest ''z'' (emptyTree SMT_DEPTH)), cb_inclusion = Some (prove run_digest ''z'' sample_after),
        cb_consistency = Some P, cb_checkpoints = Some (Some \<lparr>tree_size = Integral (int 1), root_hash = r\<rparr>,
          Some \<lparr>tree_size = Integral (int 2), root_hash = r'\<rparr>)\<rparr>))"
  by (rule emitted_bundle_accepted[OF run_digest_plain _ _ _ sample_leaves, where es = "[]" and nonce = "''z''" and v = "Some sample_value", unfolded sample_trees])
    (simp_all add: sample_collision_free)

subsection \<open>Two nonces on one path\<close>

definition first_nonce :: string where "first_nonce = CHR ''z'' # replicate 7 CHR ''a''"
definition second_nonce :: string where "second_nonce = CHR ''z'' # replicate 8 CHR ''a''"

lemma two_keys: "run_digest first_nonce = pad CHR ''a'' 8" "run_digest second_nonce = pad CHR ''a'' 9"
  "pad CHR ''a'' 8 \<noteq> pad CHR ''a'' 9" "path_of run_digest second_nonce = path_of run_digest first_nonce"
  "run_digest (CHR 0x02 # pad CHR ''a'' 8 @ sample_value) = pad CHR ''b'' 2"
  by code_simp+

definition occupied :: consumption_tree where
  "occupied = tree_of run_digest [(first_nonce, Some sample_value)]"

lemma occupied_parts: "present occupied = [(pad CHR ''a'' 8, sample_value)]" "depth occupied = SMT_DEPTH"
  by (simp_all add: occupied_def tree_of_def insert_nonce_def emptyTree_def nonceKeyHex_def Let_def two_keys sample_value_hex)

lemma occupied_siblings: "prove_siblings run_digest occupied (run_digest first_nonce) = sample_siblings"
  "prove_siblings run_digest occupied (run_digest second_nonce) = sample_siblings"
proof -
  show "prove_siblings run_digest occupied (run_digest first_nonce) = sample_siblings"
    using siblings_alone[of occupied "run_digest first_nonce" run_digest] sample_levels by (simp add: occupied_parts two_keys)
  then show "prove_siblings run_digest occupied (run_digest second_nonce) = sample_siblings"
    using same_path(2)[OF two_keys(4), of occupied] by (simp add: occupied_parts)
qed

theorem occupied_path_refused_witness:
  "\<not> cr_valid (verifyConsumptionProof run_digest (Some \<lparr>cb_nonce = Some second_nonce,
      cb_non_inclusion = Some (prove run_digest second_nonce occupied), cb_inclusion = None, cb_consistency = None, cb_checkpoints = None\<rparr>))"
proof -
  have leaf: "leaf_text (run_digest second_nonce) (prove run_digest second_nonce occupied) = [CHR 0x03]"
    "leaf_text (run_digest first_nonce) (prove run_digest first_nonce occupied) = CHR 0x02 # run_digest first_nonce @ sample_value"
    using two_keys(1-3) by (simp_all add: leaf_text_def prove_def nonceKeyHex_def Let_def occupied_parts sample_value_hex)
  have siblings: "sp_siblings (prove run_digest second_nonce occupied) = Some sample_siblings"
    "sp_siblings (prove run_digest first_nonce occupied) = Some sample_siblings"
    by (simp_all add: prove_def nonceKeyHex_def Let_def occupied_siblings)
  have "set (sub_inputs run_digest (run_digest second_nonce) (prove run_digest second_nonce occupied))
      \<union> set (sub_inputs run_digest (run_digest first_nonce) (prove run_digest first_nonce occupied)) = set (sample_texts (run_digest second_nonce) (run_digest first_nonce))"
    unfolding sub_inputs_siblings[OF siblings(1)] sub_inputs_siblings[OF siblings(2)] leaf sample_texts_def by auto
  then have free: "inj_on run_digest (set (sub_inputs run_digest (run_digest second_nonce) (prove run_digest second_nonce occupied))
      \<union> set (sub_inputs run_digest (run_digest first_nonce) (prove run_digest first_nonce occupied)))"
    using sample_digests[OF two_keys(5)[folded two_keys(1)]] by (simp only: distinct_map)
  show ?thesis
    by (rule occupied_path_refused[OF run_digest_plain _ _ two_keys(4), of "[(first_nonce, Some sample_value)]" "Some sample_value"])
      (use free in \<open>simp_all add: occupied_def prove_root\<close>)
qed

end
