(* ===== verification/Quorum.thy ===== *)
theory Quorum
  imports Strict_Json
begin

section \<open>Quorum approvals\<close>

text \<open>
  Model of \<open>packages/verify/src/quorum.ts\<close>: the verification of a multi-party approval document. A document is a value that
  \<open>JSON.parse\<close> yields; \<open>None\<close> is \<open>undefined\<close>. The verifier of one signoff (\<open>verifyWebAuthnSignoff\<close> of \<open>index.ts\<close>), the
  algorithm and the fingerprint of a key, \<open>Date.parse\<close> and SHA-256 are parameters. Every answer of the function is a
  value: what it throws inside is caught, and the checks that were made by then are kept.
\<close>

text \<open>
  The first three take the value of a member as the code passes it on, the second of \<open>signoff_valid\<close> and the argument of
  \<open>fingerprint\<close> after \<open>String\<close>; \<open>fraction_ms\<close> is the whole part of a thousand times a number with a fraction.
\<close>

record quorum_env =
  signoff_valid :: "js_value option \<Rightarrow> js_value option \<Rightarrow> bool"
  key_algorithm :: "js_value option \<Rightarrow> js_string option"
  key_fingerprint :: "js_value option \<Rightarrow> string option"
  date_ms :: "js_string \<Rightarrow> int option"
  sha256_text :: hash16
  fraction_ms :: "string \<Rightarrow> int"

subsection \<open>Values\<close>

text \<open>\<open>value?.key\<close> of a parsed value.\<close>

definition prop_of :: "js_value option \<Rightarrow> string \<Rightarrow> js_value option" where
  "prop_of v k = (case v of Some (VObj i ms) \<Rightarrow> map_of ms (jstr k) | _ \<Rightarrow> None)"

text \<open>\<open>===\<close> compares arrays and objects by their identity.\<close>

fun identity_of :: "js_value \<Rightarrow> js_value" where
  "identity_of (VArr i xs) = VArr i []"
| "identity_of (VObj i ms) = VObj i []"
| "identity_of v = v"

definition same_value :: "js_value option \<Rightarrow> js_value option \<Rightarrow> bool" where
  "same_value a b \<longleftrightarrow> map_option identity_of a = map_option identity_of b"

fun truthy :: "js_value option \<Rightarrow> bool" where
  "truthy None = False"
| "truthy (Some VNull) = False"
| "truthy (Some (VBool b)) = b"
| "truthy (Some (VNum n)) = (n \<noteq> Integral 0)"
| "truthy (Some (VStr s)) = (s \<noteq> [])"
| "truthy (Some v) = True"

text \<open>\<open>JSON.stringify\<close>: members in their own order.\<close>

fun json_stringify :: "js_value \<Rightarrow> js_string" where
  "json_stringify VNull = jstr ''null''"
| "json_stringify (VBool b) = jstr (if b then ''true'' else ''false'')"
| "json_stringify (VNum (Integral i)) = jstr (dec_int i)"
| "json_stringify (VNum (Fractional t)) = jstr t"
| "json_stringify (VNum NonFinite) = jstr ''null''"
| "json_stringify (VStr s) = js_quote s"
| "json_stringify (VArr i xs) = jstr ''['' @ join_units comma (map json_stringify xs) @ jstr '']''"
| "json_stringify (VObj i ms) = jstr ''{'' @ join_units comma (map (\<lambda>(k, v). js_quote k @ jstr '':'' @ json_stringify v) ms) @ jstr ''}''"
| "json_stringify (VHostile w) = jstr ''null''"

definition stringify_opt :: "js_value option \<Rightarrow> js_string" where
  "stringify_opt v = (case v of None \<Rightarrow> jstr ''null'' | Some w \<Rightarrow> json_stringify w)"

definition rosterSlotKey :: "js_value option \<Rightarrow> js_value option \<Rightarrow> js_string" where
  "rosterSlotKey role approver = jstr ''['' @ stringify_opt role @ comma @ stringify_opt approver @ jstr '']''"

text \<open>\<open>String(value)\<close> of a parsed value, in the text of a reason; the sign of an infinity is not kept.\<close>

fun String_of :: "js_value \<Rightarrow> js_string" where
  "String_of VNull = jstr ''null''"
| "String_of (VBool b) = jstr (if b then ''true'' else ''false'')"
| "String_of (VNum (Integral i)) = jstr (dec_int i)"
| "String_of (VNum (Fractional t)) = jstr t"
| "String_of (VNum NonFinite) = jstr ''Infinity''"
| "String_of (VStr s) = s"
| "String_of (VArr i xs) = join_units comma (map (\<lambda>x. if x = VNull then [] else String_of x) xs)"
| "String_of v = jstr ''[object Object]''"

subsection \<open>The policy\<close>

definition WEBAUTHN_SIGNATURE_ALGORITHMS :: "js_string list" where
  "WEBAUTHN_SIGNATURE_ALGORITHMS = [jstr ''ES256'', jstr ''ML-DSA-65'']"

definition SIGNOFF_CHAIN_PROFILE :: js_string where
  "SIGNOFF_CHAIN_PROFILE = jstr ''EP-QUORUM-SIGNOFF-CHAIN-v1''"

fun required_loop :: "js_string list \<Rightarrow> js_value list \<Rightarrow> js_string + js_string list" where
  "required_loop seen [] = Inr (rev seen)"
| "required_loop seen (alg # algs) = (case alg of
     VStr a \<Rightarrow> if a \<notin> set WEBAUTHN_SIGNATURE_ALGORITHMS then Inl (jstr ''required_algorithms_unknown:'' @ a)
       else if a \<in> set seen then Inl (jstr ''required_algorithms_duplicate:'' @ a)
       else required_loop (a # seen) algs
   | v \<Rightarrow> Inl (jstr ''required_algorithms_unknown:'' @ String_of v))"

definition parseRequiredAlgorithms :: "js_value option \<Rightarrow> js_string + js_string list option" where
  "parseRequiredAlgorithms v = (case v of None \<Rightarrow> Inr None | Some VNull \<Rightarrow> Inr None
     | Some (VArr i (x # xs)) \<Rightarrow> (case required_loop [] (x # xs) of Inl r \<Rightarrow> Inl r | Inr as \<Rightarrow> Inr (Some as))
     | _ \<Rightarrow> Inl (jstr ''required_algorithms_malformed''))"

text \<open>The pin of the policy; a value that is not canonical makes the comparison throw.\<close>

datatype policy_pin = Pin_holds | Pin_mismatch | Pin_throws

definition policy_pinned :: "js_value option option \<Rightarrow> js_value option \<Rightarrow> policy_pin" where
  "policy_pinned expected policy = (case expected of None \<Rightarrow> Pin_holds
     | Some (Some (VObj i ms)) \<Rightarrow> (case (canonicalizeStrictJson (VObj i ms) no_limits, policy) of
           (Inr t, Some p) \<Rightarrow> (case canonicalizeStrictJson p no_limits of Inl e \<Rightarrow> Pin_throws
             | Inr t' \<Rightarrow> if t = t' then Pin_holds else Pin_mismatch)
         | _ \<Rightarrow> Pin_throws)
     | _ \<Rightarrow> Pin_mismatch)"

subsection \<open>The members\<close>

definition m_context :: "js_value \<Rightarrow> js_value option" where
  "m_context m = prop_of (prop_of (Some m) ''signoff'') ''context''"

definition m_approver :: "js_value \<Rightarrow> js_value option" where
  "m_approver m = prop_of (m_context m) ''approver''"

definition m_role :: "js_value \<Rightarrow> js_value option" where
  "m_role m = prop_of (Some m) ''role''"

definition m_key :: "js_value \<Rightarrow> js_value option" where
  "m_key m = prop_of (Some m) ''approver_public_key''"

definition m_bound :: "js_string \<Rightarrow> js_value \<Rightarrow> bool" where
  "m_bound actionHash m \<longleftrightarrow> prop_of (m_context m) ''action_hash'' = Some (VStr actionHash)"

definition m_valid :: "quorum_env \<Rightarrow> js_value \<Rightarrow> bool" where
  "m_valid x m = signoff_valid x (prop_of (Some m) ''signoff'') (m_key m)"

definition issued_at_ms :: "quorum_env \<Rightarrow> js_value \<Rightarrow> int option" where
  "issued_at_ms x m = date_ms x (case prop_of (m_context m) ''issued_at'' of Some (VStr t) \<Rightarrow> t | _ \<Rightarrow> [])"

text \<open>\<open>value ?? null\<close>\<close>

definition or_null :: "js_value option \<Rightarrow> js_value" where
  "or_null v = (case v of None \<Rightarrow> VNull | Some w \<Rightarrow> w)"

record member_result =
  mr_approver :: js_value
  mr_role :: js_value
  mr_valid :: bool

definition completedSignoffHash :: "quorum_env \<Rightarrow> js_value option \<Rightarrow> string option" where
  "completedSignoffHash x signoff = (case signoff of None \<Rightarrow> None
     | Some v \<Rightarrow> (case canonicalizeStrictJson v no_limits of Inl e \<Rightarrow> None
       | Inr t \<Rightarrow> Some (sha256_text x (SIGNOFF_CHAIN_PROFILE @ 0 # t))))"

record quorum_checks =
  qc_all_signatures_valid :: bool
  qc_action_binding :: bool
  qc_distinct_humans :: bool
  qc_distinct_keys :: bool
  qc_initiator_excluded :: bool
  qc_roles_admitted :: bool
  qc_threshold_met :: bool
  qc_order_satisfied :: bool
  qc_chain_linked :: bool
  qc_within_window :: bool
  qc_required_algorithms_satisfied :: bool

definition no_checks :: quorum_checks where
  "no_checks = \<lparr>qc_all_signatures_valid = False, qc_action_binding = False, qc_distinct_humans = False, qc_distinct_keys = False,
     qc_initiator_excluded = False, qc_roles_admitted = False, qc_threshold_met = False, qc_order_satisfied = False,
     qc_chain_linked = False, qc_within_window = False, qc_required_algorithms_satisfied = False\<rparr>"

record quorum_result =
  qr_valid :: bool
  qr_checks :: quorum_checks
  qr_members :: "member_result list"
  qr_reason :: "js_string option"

definition rejected :: "js_string option \<Rightarrow> quorum_result" where
  "rejected why = \<lparr>qr_valid = False, qr_checks = no_checks, qr_members = [], qr_reason = why\<rparr>"

subsection \<open>The predicates\<close>

definition distinctness_keys :: "quorum_env \<Rightarrow> js_string list option \<Rightarrow> js_value list \<Rightarrow> js_value option list" where
  "distinctness_keys x algorithms counted = (case algorithms of
     None \<Rightarrow> map (\<lambda>m. map_option identity_of (m_approver m)) counted
   | Some as \<Rightarrow> map (\<lambda>m. Some (VStr (rosterSlotKey (Some (or_null (m_approver m)))
       (map_option VStr (key_algorithm x (m_key m)))))) counted)"

definition distinct_keys :: "quorum_env \<Rightarrow> js_value list \<Rightarrow> bool" where
  "distinct_keys x counted \<longleftrightarrow> (let fps = map (\<lambda>m. key_fingerprint x (m_key m)) counted in None \<notin> set fps \<and> distinct fps)"

definition initiator_excluded :: "js_value list \<Rightarrow> bool" where
  "initiator_excluded counted = (case map (\<lambda>m. prop_of (m_context m) ''initiator'') counted of
     Some (VStr (u # us)) # rest \<Rightarrow> list_all (\<lambda>v. v = Some (VStr (u # us))) rest \<and> Some (VStr (u # us)) \<notin> set (map m_approver counted)
   | _ \<Rightarrow> False)"

definition slot_of :: "js_value \<Rightarrow> js_string" where
  "slot_of m = rosterSlotKey (m_role m) (m_approver m)"

definition eligible_keys :: "js_value list \<Rightarrow> js_string list" where
  "eligible_keys eligible = map (\<lambda>e. rosterSlotKey (prop_of (Some e) ''role'') (prop_of (Some e) ''approver'')) eligible"

definition threshold_met :: "js_string list \<Rightarrow> int \<Rightarrow> js_value list \<Rightarrow> bool" where
  "threshold_met keys required counted \<longleftrightarrow>
     int (length (remdups (map (\<lambda>m. map_option identity_of (m_approver m)) (filter (\<lambda>m. slot_of m \<in> set keys) counted)))) \<ge> required"

text \<open>The algorithms that each counted approver has covered, in the order of the approvers.\<close>

fun algorithmsByApprover :: "quorum_env \<Rightarrow> js_value list \<Rightarrow> (js_string, js_string list) js_map \<Rightarrow> (js_string, js_string list) js_map" where
  "algorithmsByApprover x [] m = m"
| "algorithmsByApprover x (c # cs) m = (case key_algorithm x (m_key c) of None \<Rightarrow> algorithmsByApprover x cs m
     | Some alg \<Rightarrow> (let k = json_stringify (or_null (m_approver c)); s = (case map_get m k of None \<Rightarrow> [] | Some algs \<Rightarrow> algs) in
         algorithmsByApprover x cs (map_set k (if alg \<in> set s then s else s @ [alg]) m)))"

definition missing_algorithms :: "js_string list \<Rightarrow> (js_string, js_string list) js_map \<Rightarrow> js_string list" where
  "missing_algorithms algorithms m = concat (map (\<lambda>(k, algs). map (\<lambda>alg. k @ jstr '':'' @ alg) (filter (\<lambda>alg. alg \<notin> set algs) algorithms)) m)"

text \<open>The check of a hybrid policy with the reason that it names.\<close>

definition required_satisfied :: "quorum_env \<Rightarrow> js_string list option \<Rightarrow> js_value list \<Rightarrow> bool \<times> js_string option" where
  "required_satisfied x algorithms counted = (case algorithms of None \<Rightarrow> (True, None)
     | Some as \<Rightarrow> (let by = algorithmsByApprover x counted []; missing = missing_algorithms as by;
         unrecognized = list_ex (\<lambda>m. key_algorithm x (m_key m) = None) counted in
       if counted \<noteq> [] \<and> by \<noteq> [] \<and> missing = [] \<and> \<not> unrecognized then (True, None)
       else (False, Some (if unrecognized then jstr ''required_algorithms_unrecognized_credential''
         else if missing \<noteq> [] then jstr ''required_algorithms_missing:'' @ join_units comma missing
         else jstr ''required_algorithms_no_counted_members''))))"

fun strictly_increasing :: "int option \<Rightarrow> int option list \<Rightarrow> bool" where
  "strictly_increasing before [] = True"
| "strictly_increasing before (t # ts) = (case t of None \<Rightarrow> False
     | Some n \<Rightarrow> (case before of None \<Rightarrow> True | Some b \<Rightarrow> n > b) \<and> strictly_increasing t ts)"

definition order_satisfied :: "quorum_env \<Rightarrow> js_value list \<Rightarrow> int \<Rightarrow> js_value list \<Rightarrow> bool" where
  "order_satisfied x eligible required members \<longleftrightarrow> int (length members) \<ge> required
     \<and> length members \<le> length eligible
     \<and> list_all2 (\<lambda>m e. same_value (m_role m) (prop_of (Some e) ''role'') \<and> same_value (m_approver m) (prop_of (Some e) ''approver''))
         members (take (length members) eligible)
     \<and> strictly_increasing None (map (issued_at_ms x) members)"

text \<open>
  The loop over the chain, given the previous member; hashing a signoff that is not canonical throws (\<open>None\<close>).
\<close>

fun chain_links :: "quorum_env \<Rightarrow> js_value option \<Rightarrow> js_value list \<Rightarrow> bool option" where
  "chain_links x prev [] = Some True"
| "chain_links x prev (m # ms) = (let plain = (prop_of (m_context m) ''prev_context_hash'' = None);
     prevHash = prop_of (m_context m) ''prev_signoff_hash'' in
   case (case prev of None \<Rightarrow> Some (prevHash = None)
       | Some p \<Rightarrow> (case completedSignoffHash x (prop_of (Some p) ''signoff'') of None \<Rightarrow> None
         | Some h \<Rightarrow> Some (prevHash = Some (VStr (jstr h))))) of None \<Rightarrow> None
   | Some ok \<Rightarrow> (case chain_links x (Some m) ms of None \<Rightarrow> None | Some rest \<Rightarrow> Some (plain \<and> ok \<and> rest)))"

definition chain_linked :: "quorum_env \<Rightarrow> js_value option \<Rightarrow> js_value list \<Rightarrow> int \<Rightarrow> js_value list \<Rightarrow> bool option" where
  "chain_linked x policy eligible required members = (case chain_links x None members of None \<Rightarrow> None
     | Some linked \<Rightarrow> Some (prop_of policy ''ordered_chain_profile'' = Some (VStr SIGNOFF_CHAIN_PROFILE)
         \<and> int (length members) \<ge> required \<and> length members \<le> length eligible \<and> linked))"

definition window_ms :: "quorum_env \<Rightarrow> js_value option \<Rightarrow> int" where
  "window_ms x policy = (case prop_of policy ''window_sec'' of Some (VNum (Integral s)) \<Rightarrow> s * 1000
     | Some (VNum (Fractional t)) \<Rightarrow> fraction_ms x t | _ \<Rightarrow> 900 * 1000)"

definition within_window :: "quorum_env \<Rightarrow> int \<Rightarrow> js_value list \<Rightarrow> bool" where
  "within_window x w counted \<longleftrightarrow> counted \<noteq> [] \<and> list_all (\<lambda>m. issued_at_ms x m \<noteq> None) counted
     \<and> (let ts = map (\<lambda>m. the (issued_at_ms x m)) counted in Max (set ts) - Min (set ts) \<le> w)"

subsection \<open>The verification\<close>

definition all_checks :: "quorum_checks \<Rightarrow> bool" where
  "all_checks c \<longleftrightarrow> qc_all_signatures_valid c \<and> qc_action_binding c \<and> qc_distinct_humans c \<and> qc_distinct_keys c
     \<and> qc_initiator_excluded c \<and> qc_roles_admitted c \<and> qc_threshold_met c \<and> qc_order_satisfied c \<and> qc_chain_linked c
     \<and> qc_within_window c \<and> qc_required_algorithms_satisfied c"

text \<open>The predicates, after the policy has been read.\<close>

definition quorum_predicates :: "quorum_env \<Rightarrow> js_value option \<Rightarrow> bool \<Rightarrow> js_string list option \<Rightarrow> js_value list \<Rightarrow> int \<Rightarrow> js_string
    \<Rightarrow> js_value list \<Rightarrow> quorum_result" where
  "quorum_predicates x policy ordered algorithms eligible required actionHash members =
     (let results = map (\<lambda>m. \<lparr>mr_approver = or_null (m_approver m), mr_role = or_null (m_role m), mr_valid = m_valid x m\<rparr>) members;
        counted = filter (\<lambda>m. m_valid x m \<and> m_bound actionHash m) members;
        c1 = no_checks\<lparr>qc_all_signatures_valid := list_all (m_valid x) members, qc_action_binding := list_all (m_bound actionHash) members,
          qc_distinct_humans := (prop_of policy ''distinct_humans'' = Some (VBool False) \<or> distinct (distinctness_keys x algorithms counted)),
          qc_distinct_keys := distinct_keys x counted, qc_initiator_excluded := initiator_excluded counted\<rparr> in
      if VNull \<in> set eligible then \<lparr>qr_valid = False, qr_checks = c1, qr_members = results, qr_reason = None\<rparr>
      else (let keys = eligible_keys eligible; (satisfied, why) = required_satisfied x algorithms counted;
          c2 = c1\<lparr>qc_roles_admitted := (counted \<noteq> [] \<and> list_all (\<lambda>m. slot_of m \<in> set keys) counted),
            qc_threshold_met := threshold_met keys required counted, qc_required_algorithms_satisfied := satisfied,
            qc_order_satisfied := (\<not> ordered \<or> order_satisfied x eligible required members)\<rparr>;
          chain = (if ordered \<and> prop_of policy ''ordered_chain'' = Some (VBool True)
            then chain_linked x policy eligible required members else Some True) in
        case chain of None \<Rightarrow> \<lparr>qr_valid = False, qr_checks = c2, qr_members = results, qr_reason = None\<rparr>
        | Some linked \<Rightarrow> (let c3 = c2\<lparr>qc_chain_linked := linked, qc_within_window := within_window x (window_ms x policy) counted\<rparr> in
            \<lparr>qr_valid = all_checks c3, qr_checks = c3, qr_members = results, qr_reason = why\<rparr>)))"

text \<open>\<open>expected\<close> is the value of \<open>opts.expectedPolicy\<close> when the options have that member.\<close>

definition verifyQuorum :: "quorum_env \<Rightarrow> js_value option option \<Rightarrow> js_value option \<Rightarrow> quorum_result" where
  "verifyQuorum x expected quorum =
     (let policy = prop_of quorum ''policy''; members = (case prop_of quorum ''members'' of Some (VArr i ms) \<Rightarrow> ms | _ \<Rightarrow> []) in
      case prop_of quorum ''action_hash'' of
        Some (VStr (u # us)) \<Rightarrow>
          if \<not> truthy policy \<or> members = [] then rejected None
          else (case policy_pinned expected policy of Pin_throws \<Rightarrow> rejected None
          | Pin_mismatch \<Rightarrow> rejected (Some (jstr ''quorum_policy_mismatch''))
          | Pin_holds \<Rightarrow>
            if prop_of policy ''mode'' \<notin> {Some (VStr (jstr ''ordered'')), Some (VStr (jstr ''threshold''))} then rejected None
            else (let ordered = (prop_of policy ''mode'' = Some (VStr (jstr ''ordered''))) in
              case parseRequiredAlgorithms (prop_of policy ''required_algorithms'') of Inl r \<Rightarrow> rejected (Some r)
              | Inr algorithms \<Rightarrow>
                if algorithms \<noteq> None \<and> ordered then rejected (Some (jstr ''required_algorithms_ordered_unsupported''))
                else (let eligible = (case prop_of policy ''approvers'' of Some (VArr i es) \<Rightarrow> es | _ \<Rightarrow> []) in
                  case prop_of policy ''required'' of
                    Some (VNum (Integral n)) \<Rightarrow>
                      if n \<le> 0 \<or> eligible = [] \<or> n > int (length eligible) then rejected None
                      else quorum_predicates x policy ordered algorithms eligible n (u # us) members
                  | _ \<Rightarrow> rejected None)))
      | _ \<Rightarrow> rejected None)"

end
