(* ===== verification/Quorum_Safety.thy ===== *)
theory Quorum_Safety
  imports Quorum
begin

section \<open>What a valid quorum guarantees\<close>

text \<open>
  Separation of duties, ordered signing, the chain of completed signoffs and hybrid policies. The comparison of roster
  slots by their JSON text is exact for slots of strings, which the first lemmas show.
\<close>

subsection \<open>Slots\<close>

text \<open>Every unit of a quoted string is written as a piece that is read back, whatever follows.\<close>

definition readable :: "16 word \<Rightarrow> js_string \<Rightarrow> bool" where
  "readable u p \<longleftrightarrow> (\<forall>r. read_unit (p @ r) = Some (u, r)) \<and> (\<forall>r s. p @ r \<noteq> 0x22 # s)"

lemma readable_pieces: "readable u (hex_escape u)" "readable u (escape_unit u)"
  using escape_unit_not_quote by (auto simp: readable_def read_hex_escape read_escape_unit) (simp add: hex_escape_def Let_def)

lemma readable_surrogate: "is_high u \<or> is_low u \<Longrightarrow> readable u [u]"
  using readable_pieces(2)[of u] by (simp add: surrogate_escape)

lemma quote_pieces: "\<exists>ps. quote_units s = concat ps \<and> list_all2 readable s ps"
proof (induction s rule: quote_units.induct)
  case (2 u us)
  have one: "\<exists>ps. p @ quote_units us = concat ps \<and> list_all2 readable (u # us) ps"
    if "readable u p" "\<exists>ps. quote_units us = concat ps \<and> list_all2 readable us ps" for p
    using that by (metis concat.simps(2) list_all2_Cons)
  show ?case
  proof (cases "is_high u")
    case high: True
    show ?thesis
    proof (cases us)
      case Nil
      then show ?thesis using high readable_pieces(1)[of u] by (intro exI[of _ "[hex_escape u]"]) simp
    next
      case (Cons n ns)
      show ?thesis
      proof (cases "is_low n")
        case True
        obtain ps where "quote_units ns = concat ps" "list_all2 readable ns ps" using 2(1)[OF high Cons True] by blast
        then show ?thesis using high True Cons readable_surrogate[of u] readable_surrogate[of n]
          by (intro exI[of _ "[u] # [n] # ps"]) simp
      next
        case False
        then show ?thesis using one[OF readable_pieces(1)] 2(2)[OF high Cons False] high Cons by simp
      qed
    qed
  next
    case False
    then show ?thesis using one[OF readable_pieces(1)] one[OF readable_pieces(2)] 2(3,4) by (cases "is_low u") auto
  qed
qed simp

lemma readable_not_quote: "readable u p \<Longrightarrow> p @ r \<noteq> 0x22 # s" "readable u p \<Longrightarrow> 0x22 # s \<noteq> p @ r"
  unfolding readable_def by metis+

lemma pieces_inj:
  "list_all2 readable s ps \<Longrightarrow> list_all2 readable t qs \<Longrightarrow> concat ps @ 0x22 # r = concat qs @ 0x22 # r' \<Longrightarrow> s = t \<and> r = r'"
proof (induction s ps arbitrary: t qs rule: list_all2_induct)
  case Nil
  then show ?case by (cases t) (auto simp: list_all2_Cons1 readable_not_quote)
next
  case (Cons u s p ps)
  show ?case
  proof (cases t)
    case Nil
    then show ?thesis using Cons.prems Cons.hyps(1) by (simp add: readable_not_quote)
  next
    case (Cons v t')
    then obtain q qs' where q: "qs = q # qs'" "readable v q" "list_all2 readable t' qs'" using Cons.prems(1) by (auto simp: list_all2_Cons1)
    have eq: "p @ (concat ps @ 0x22 # r) = q @ (concat qs' @ 0x22 # r')" using Cons.prems(2) q(1) by simp
    have "read_unit (p @ (concat ps @ 0x22 # r)) = Some (u, concat ps @ 0x22 # r)" "read_unit (q @ (concat qs' @ 0x22 # r')) = Some (v, concat qs' @ 0x22 # r')"
      using Cons.hyps(1) q(2) unfolding readable_def by blast+
    then have "u = v" "concat ps @ 0x22 # r = concat qs' @ 0x22 # r'" using eq by simp_all
    then show ?thesis using Cons.IH[OF q(3)] Cons by simp
  qed
qed

lemma js_quote_determines:
  assumes "js_quote s @ r = js_quote t @ r'"
  shows "s = t \<and> r = r'"
proof -
  obtain ps qs where "quote_units s = concat ps" "list_all2 readable s ps" "quote_units t = concat qs" "list_all2 readable t qs"
    using quote_pieces by meson
  then show ?thesis using pieces_inj[of s ps t qs r r'] assms by (simp add: js_quote_def)
qed

text \<open>A number is written with a digit or a sign first, so only a string has a text that begins with a quote.\<close>

definition number_written :: "js_value option \<Rightarrow> bool" where
  "number_written v \<longleftrightarrow> (case v of Some (VNum (Fractional t)) \<Rightarrow> (case t of [] \<Rightarrow> False | c # cs \<Rightarrow> is_digit c \<or> c = CHR ''-'') | _ \<Rightarrow> True)"

lemma stringify_quote:
  assumes "number_written v" "stringify_opt v @ r = 0x22 # us"
  shows "\<exists>s. v = Some (VStr s)"
proof (cases v)
  case None
  then show ?thesis using assms(2) by (simp add: stringify_opt_def)
next
  case (Some w)
  show ?thesis
  proof (cases w)
    case (VNum n)
    have digit: "\<not> is_digit CHR 0x22" by (simp add: char_class_defs)
    show ?thesis
    proof (cases n)
      case (Integral i)
      then show ?thesis using assms(2) Some VNum dec_int_head[of i] digit by (auto simp: stringify_opt_def)
    next
      case (Fractional t)
      then show ?thesis using assms Some VNum digit by (auto simp: stringify_opt_def number_written_def split: list.splits)
    qed (use assms(2) Some VNum in \<open>simp add: stringify_opt_def\<close>)
  qed (use assms(2) Some in \<open>auto simp: stringify_opt_def split: if_splits\<close>)
qed

lemma slot_determines:
  assumes "rosterSlotKey r a = rosterSlotKey (Some (VStr r')) (Some (VStr a'))" "number_written r" "number_written a"
  shows "r = Some (VStr r') \<and> a = Some (VStr a')"
proof -
  have eq: "stringify_opt r @ comma @ stringify_opt a = js_quote r' @ comma @ js_quote a'"
    using assms(1) by (simp add: rosterSlotKey_def stringify_opt_def)
  have "stringify_opt r @ comma @ stringify_opt a = 0x22 # (quote_units r' @ [0x22] @ comma @ js_quote a')"
    using eq by (simp add: js_quote_def)
  then obtain s where s: "r = Some (VStr s)" using stringify_quote[OF assms(2)] by blast
  then have "js_quote s @ (comma @ stringify_opt a) = js_quote r' @ (comma @ js_quote a')" using eq by (simp add: stringify_opt_def)
  from js_quote_determines[OF this] have one: "s = r'" "comma @ stringify_opt a = comma @ js_quote a'" by simp_all
  then have two: "stringify_opt a @ [] = js_quote a' @ []" by simp
  then have "stringify_opt a @ [] = 0x22 # (quote_units a' @ [0x22])" by (simp add: js_quote_def)
  then obtain b where b: "a = Some (VStr b)" using stringify_quote[OF assms(3)] by blast
  then have "js_quote b @ [] = js_quote a' @ []" using two by (simp add: stringify_opt_def)
  from js_quote_determines[OF this] have "b = a'" by simp
  then show ?thesis using s one(1) b by simp
qed

subsection \<open>What the predicates say\<close>

lemma predicates_valid:
  assumes "qr_valid (quorum_predicates x policy ordered algorithms eligible n h members)"
  shows "list_all (m_valid x) members" "list_all (m_bound h) members" "distinct_keys x members" "initiator_excluded members"
    "VNull \<notin> set eligible" "list_all (\<lambda>m. slot_of m \<in> set (eligible_keys eligible)) members"
    "threshold_met (eligible_keys eligible) n members" "fst (required_satisfied x algorithms members)"
    "ordered \<longrightarrow> order_satisfied x eligible n members"
    "ordered \<and> prop_of policy ''ordered_chain'' = Some (VBool True) \<longrightarrow> chain_linked x policy eligible n members = Some True"
    "within_window x (window_ms x policy) members"
proof -
  let ?counted = "filter (\<lambda>m. m_valid x m \<and> m_bound h m) members"
  have both: "list_all (m_valid x) members \<and> list_all (m_bound h) members"
    using assms by (auto simp: quorum_predicates_def all_checks_def Let_def split: if_splits option.splits prod.splits)
  then have c: "?counted = members" by (simp add: list_all_iff filter_id_conv)
  show "list_all (m_valid x) members" "list_all (m_bound h) members" using both by simp_all
  show "distinct_keys x members" "initiator_excluded members"
    "VNull \<notin> set eligible" "list_all (\<lambda>m. slot_of m \<in> set (eligible_keys eligible)) members"
    "threshold_met (eligible_keys eligible) n members" "fst (required_satisfied x algorithms members)"
    "ordered \<longrightarrow> order_satisfied x eligible n members"
    "ordered \<and> prop_of policy ''ordered_chain'' = Some (VBool True) \<longrightarrow> chain_linked x policy eligible n members = Some True"
    "within_window x (window_ms x policy) members"
    using assms unfolding quorum_predicates_def c
    by (auto simp: all_checks_def Let_def split: if_splits option.splits prod.splits)
qed

lemma verify_valid:
  assumes "qr_valid (verifyQuorum x expected quorum)"
  obtains u us i ms j es n ordered algorithms where "prop_of quorum ''action_hash'' = Some (VStr (u # us))"
    "prop_of quorum ''members'' = Some (VArr i ms)" "ms \<noteq> []"
    "prop_of (prop_of quorum ''policy'') ''approvers'' = Some (VArr j es)"
    "prop_of (prop_of quorum ''policy'') ''required'' = Some (VNum (Integral n))" "0 < n" "n \<le> int (length es)"
    "parseRequiredAlgorithms (prop_of (prop_of quorum ''policy'') ''required_algorithms'') = Inr algorithms"
    "ordered \<longleftrightarrow> prop_of (prop_of quorum ''policy'') ''mode'' = Some (VStr (jstr ''ordered''))"
    "qr_valid (quorum_predicates x (prop_of quorum ''policy'') ordered algorithms es n (u # us) ms)"
    "policy_pinned expected (prop_of quorum ''policy'') = Pin_holds"
proof -
  let ?policy = "prop_of quorum ''policy''"
  have no: "\<not> qr_valid (rejected why)" for why by (simp add: rejected_def)
  obtain u us where h: "prop_of quorum ''action_hash'' = Some (VStr (u # us))"
    using assms no unfolding verifyQuorum_def Let_def by (auto split: option.splits js_value.splits list.splits)
  note one = assms[unfolded verifyQuorum_def Let_def h, simplified]
  obtain i ms where ms: "prop_of quorum ''members'' = Some (VArr i ms)" "ms \<noteq> []"
    using one no by (auto split: option.splits js_value.splits list.splits if_splits)
  have pin: "policy_pinned expected ?policy = Pin_holds"
    using one no by (cases "policy_pinned expected ?policy") (auto split: if_splits)
  obtain algorithms where algs: "parseRequiredAlgorithms (prop_of ?policy ''required_algorithms'') = Inr algorithms"
    using one no pin by (cases "parseRequiredAlgorithms (prop_of ?policy ''required_algorithms'')") (auto split: if_splits)
  obtain n where n: "prop_of ?policy ''required'' = Some (VNum (Integral n))"
    using one no unfolding pin algs by (auto split: if_splits option.splits js_value.splits js_number.splits)
  note two = one[unfolded ms(1) pin algs n, simplified]
  obtain j es where es: "prop_of ?policy ''approvers'' = Some (VArr j es)" "0 < n" "n \<le> int (length es)"
    using two no by (auto split: if_splits option.splits js_value.splits)
  show thesis
    by (rule that[OF h ms es(1) n es(2,3) algs refl _ pin]) (use two no es in \<open>auto split: if_splits\<close>)
qed

lemma verify_parts:
  assumes "qr_valid (verifyQuorum x expected quorum)" "prop_of quorum ''members'' = Some (VArr i ms)"
    "prop_of (prop_of quorum ''policy'') ''approvers'' = Some (VArr j es)"
  obtains u us n ordered algorithms where "prop_of quorum ''action_hash'' = Some (VStr (u # us))"
    "prop_of (prop_of quorum ''policy'') ''required'' = Some (VNum (Integral n))" "0 < n"
    "parseRequiredAlgorithms (prop_of (prop_of quorum ''policy'') ''required_algorithms'') = Inr algorithms"
    "ordered \<longleftrightarrow> prop_of (prop_of quorum ''policy'') ''mode'' = Some (VStr (jstr ''ordered''))"
    "qr_valid (quorum_predicates x (prop_of quorum ''policy'') ordered algorithms es n (u # us) ms)"
  by (rule verify_valid[OF assms(1)]) (rule that; use assms(2,3) in simp)

text \<open>One member for each value of a function.\<close>

lemma representatives: "\<exists>ys. set ys \<subseteq> set xs \<and> map f ys = remdups (map f xs)"
proof (induction xs)
  case (Cons a xs)
  then obtain ys where ys: "set ys \<subseteq> set xs" "map f ys = remdups (map f xs)" by blast
  show ?case
  proof (cases "f a \<in> set (map f xs)")
    case True
    then show ?thesis using ys by (intro exI[of _ ys]) auto
  next
    case False
    then show ?thesis using ys by (intro exI[of _ "a # ys"]) auto
  qed
qed simp

lemma window_pairwise:
  assumes "within_window x w ms" "m \<in> set ms" "m' \<in> set ms"
  shows "\<exists>t t'. issued_at_ms x m = Some t \<and> issued_at_ms x m' = Some t' \<and> \<bar>t - t'\<bar> \<le> w"
proof -
  let ?ts = "(\<lambda>m. the (issued_at_ms x m)) ` set ms"
  have "Max ?ts - Min ?ts \<le> w" using assms(1) by (simp add: within_window_def Let_def)
  moreover have "the (issued_at_ms x m) \<in> ?ts" "the (issued_at_ms x m') \<in> ?ts" using assms(2,3) by auto
  then have "the (issued_at_ms x m) \<le> Max ?ts" "Min ?ts \<le> the (issued_at_ms x m)" "the (issued_at_ms x m') \<le> Max ?ts" "Min ?ts \<le> the (issued_at_ms x m')"
    by simp_all
  ultimately have "\<bar>the (issued_at_ms x m) - the (issued_at_ms x m')\<bar> \<le> w" by simp
  moreover have "issued_at_ms x m \<noteq> None" "issued_at_ms x m' \<noteq> None"
    using assms unfolding within_window_def list_all_iff by blast+
  ultimately show ?thesis by auto
qed

lemma initiator_named:
  assumes "initiator_excluded ms"
  shows "\<exists>s. \<forall>m \<in> set ms. prop_of (m_context m) ''initiator'' = Some (VStr s) \<and> m_approver m \<noteq> Some (VStr s)"
proof -
  obtain m ms' u us where "ms = m # ms'" "prop_of (m_context m) ''initiator'' = Some (VStr (u # us))"
    using assms by (cases ms) (auto simp: initiator_excluded_def split: option.splits js_value.splits list.splits)
  then show ?thesis using assms by (intro exI[of _ "u # us"]) (auto simp: initiator_excluded_def list_all_iff image_iff)
qed

subsection \<open>Separation of duties\<close>

text \<open>Roles and approvers of the roster are strings.\<close>

definition roster_of_texts :: "js_value list \<Rightarrow> bool" where
  "roster_of_texts es \<longleftrightarrow> list_all (\<lambda>e. (\<exists>r a. prop_of (Some e) ''role'' = Some (VStr r) \<and> prop_of (Some e) ''approver'' = Some (VStr a))) es"

text \<open>The text of every approver and every role of the members is read back.\<close>

definition members_written :: "js_value list \<Rightarrow> bool" where
  "members_written ms \<longleftrightarrow> list_all (\<lambda>m. number_written (m_role m) \<and> number_written (m_approver m)) ms"

lemma admitted_slots:
  assumes "list_all (\<lambda>m. slot_of m \<in> set (eligible_keys es)) ms" "roster_of_texts es" "members_written ms" "m \<in> set ms"
  shows "\<exists>e \<in> set es. \<exists>r a. m_role m = Some (VStr r) \<and> m_approver m = Some (VStr a)
    \<and> prop_of (Some e) ''role'' = Some (VStr r) \<and> prop_of (Some e) ''approver'' = Some (VStr a)"
proof -
  obtain e where e: "e \<in> set es" "rosterSlotKey (m_role m) (m_approver m) = rosterSlotKey (prop_of (Some e) ''role'') (prop_of (Some e) ''approver'')"
    using bspec[OF assms(1)[unfolded list_all_iff] assms(4)] unfolding slot_of_def eligible_keys_def by auto
  obtain r a where ra: "prop_of (Some e) ''role'' = Some (VStr r)" "prop_of (Some e) ''approver'' = Some (VStr a)"
    using assms(2) e(1) by (auto simp: roster_of_texts_def list_all_iff)
  have "m_role m = Some (VStr r) \<and> m_approver m = Some (VStr a)"
    using slot_determines[OF e(2)[unfolded ra]] assms(3,4) by (auto simp: members_written_def list_all_iff)
  then show ?thesis using ra by (intro bexI[OF _ e(1)]) simp
qed

text \<open>
  Property C15. A valid quorum separates duties. Over a roster of strings there are at least \<open>required\<close> members of the
  document with pairwise different approvers and pairwise different keys; each of them has a valid signoff over the action of
  the quorum, fills a slot of the roster with its role, names the one initiator, who is none of them,
  and all of them were issued within the window of the policy.
\<close>

theorem quorum_separates_duties:
  assumes valid: "qr_valid (verifyQuorum x expected quorum)"
    and members: "prop_of quorum ''members'' = Some (VArr i ms)" and roster: "prop_of (prop_of quorum ''policy'') ''approvers'' = Some (VArr j es)"
    and texts: "roster_of_texts es" and written: "members_written ms"
  shows "\<exists>n h initiator chosen. prop_of (prop_of quorum ''policy'') ''required'' = Some (VNum (Integral n)) \<and> 0 < n
    \<and> prop_of quorum ''action_hash'' = Some (VStr h) \<and> set chosen \<subseteq> set ms \<and> n \<le> int (length chosen)
    \<and> distinct (map m_approver chosen) \<and> distinct (map (\<lambda>m. key_fingerprint x (m_key m)) chosen)
    \<and> (\<forall>m \<in> set chosen. m_valid x m \<and> m_bound h m \<and> key_fingerprint x (m_key m) \<noteq> None
        \<and> (\<exists>e \<in> set es. m_role m = prop_of (Some e) ''role'' \<and> m_approver m = prop_of (Some e) ''approver'')
        \<and> prop_of (m_context m) ''initiator'' = Some (VStr initiator) \<and> m_approver m \<noteq> Some (VStr initiator))
    \<and> (\<forall>m \<in> set chosen. \<forall>m' \<in> set chosen. \<exists>t t'. issued_at_ms x m = Some t \<and> issued_at_ms x m' = Some t'
        \<and> \<bar>t - t'\<bar> \<le> window_ms x (prop_of quorum ''policy''))"
proof -
  let ?policy = "prop_of quorum ''policy''"
  obtain u us n ordered algorithms where p: "prop_of quorum ''action_hash'' = Some (VStr (u # us))"
    "prop_of ?policy ''required'' = Some (VNum (Integral n))" "0 < n"
    "qr_valid (quorum_predicates x ?policy ordered algorithms es n (u # us) ms)"
    by (rule verify_parts[OF valid members roster])
  note c = predicates_valid[OF p(4)]
  note slot = admitted_slots[OF c(6) texts written]
  have same: "map_option identity_of (m_approver m) = m_approver m" if "m \<in> set ms" for m using slot[OF that] by auto
  have fills: "\<exists>e \<in> set es. m_role m = prop_of (Some e) ''role'' \<and> m_approver m = prop_of (Some e) ''approver''" if "m \<in> set ms" for m
    using slot[OF that] by metis
  have all: "filter (\<lambda>m. slot_of m \<in> set (eligible_keys es)) ms = ms" using c(6) by (simp add: list_all_iff filter_id_conv)
  have "n \<le> int (length (remdups (map m_approver ms)))"
    using c(7) same unfolding threshold_met_def all by (metis (mono_tags, lifting) map_cong)
  moreover obtain chosen where chosen: "set chosen \<subseteq> set ms" "map m_approver chosen = remdups (map m_approver ms)" using representatives by metis
  ultimately have len: "n \<le> int (length chosen)" by (metis length_map)
  have dist: "distinct (map m_approver chosen)" unfolding chosen(2) by simp
  have keys: "distinct (map (\<lambda>m. key_fingerprint x (m_key m)) ms)" "\<And>m. m \<in> set ms \<Longrightarrow> key_fingerprint x (m_key m) \<noteq> None"
    using c(3) by (auto simp: distinct_keys_def Let_def image_iff) (metis option.exhaust)
  then have "inj_on (\<lambda>m. key_fingerprint x (m_key m)) (set chosen)" using chosen(1) by (meson distinct_map inj_on_subset)
  then have fps: "distinct (map (\<lambda>m. key_fingerprint x (m_key m)) chosen)" using dist by (simp add: distinct_map)
  obtain initiator where init: "\<forall>m \<in> set ms. prop_of (m_context m) ''initiator'' = Some (VStr initiator) \<and> m_approver m \<noteq> Some (VStr initiator)"
    using initiator_named[OF c(4)] by blast
  show ?thesis
    using p(1-3) chosen(1) len dist fps c(1,2) keys(2) fills init window_pairwise[OF c(11)]
    by (intro exI[of _ n] exI[of _ "u # us"] exI[of _ initiator] exI[of _ chosen]) (auto simp: list_all_iff subset_iff)
qed

end
