(* ===== verification/Quorum_Chain.thy ===== *)
theory Quorum_Chain
  imports Quorum_Safety
begin

section \<open>Ordered and hybrid quorums\<close>

text \<open>
  What a valid quorum guarantees in ordered mode, with the chain of completed signoffs, and under required algorithms.
\<close>

subsection \<open>Order\<close>

lemma increasing_pairs:
  "strictly_increasing b ts \<Longrightarrow> k < length ts \<Longrightarrow> \<exists>t. ts ! k = Some t \<and> (case b of None \<Rightarrow> True | Some n \<Rightarrow> n < t)
    \<and> (\<forall>k' < k. \<exists>t'. ts ! k' = Some t' \<and> t' < t)"
proof (induction b ts arbitrary: k rule: strictly_increasing.induct)
  case (2 before t ts)
  then obtain n where n: "t = Some n" "case before of None \<Rightarrow> True | Some b \<Rightarrow> b < n" "strictly_increasing t ts" by (auto split: option.splits)
  show ?case
  proof (cases k)
    case (Suc l)
    then obtain u where u: "ts ! l = Some u" "n < u" "\<forall>k' < l. \<exists>t'. ts ! k' = Some t' \<and> t' < u"
      using "2.IH"[OF n(1) n(3), of l] "2.prems"(2) n(1) by auto
    have "\<exists>t'. (t # ts) ! k' = Some t' \<and> t' < u" if "k' < Suc l" for k' using that u n(1) by (cases k') auto
    then show ?thesis using u n(2) Suc by (auto split: option.splits)
  qed (use n in auto)
qed simp

text \<open>
  Property C30. A valid ordered quorum was signed in the order of the roster: its members, at least \<open>required\<close> many, fill the
  first slots of the roster one by one, their times strictly increase and the last is within the window of the first.
\<close>

theorem ordered_quorum_follows_roster:
  assumes valid: "qr_valid (verifyQuorum x expected quorum)" and mode: "prop_of (prop_of quorum ''policy'') ''mode'' = Some (VStr (jstr ''ordered''))"
    and members: "prop_of quorum ''members'' = Some (VArr i ms)" and roster: "prop_of (prop_of quorum ''policy'') ''approvers'' = Some (VArr j es)"
  shows "(\<exists>n. prop_of (prop_of quorum ''policy'') ''required'' = Some (VNum (Integral n)) \<and> 0 < n \<and> n \<le> int (length ms)) \<and> length ms \<le> length es
    \<and> (\<forall>k < length ms. same_value (m_role (ms ! k)) (prop_of (Some (es ! k)) ''role'') \<and> same_value (m_approver (ms ! k)) (prop_of (Some (es ! k)) ''approver'')
        \<and> (\<forall>l < k. \<exists>t t'. issued_at_ms x (ms ! l) = Some t \<and> issued_at_ms x (ms ! k) = Some t' \<and> t < t'
            \<and> t' - t \<le> window_ms x (prop_of quorum ''policy'')))"
proof -
  let ?policy = "prop_of quorum ''policy''"
  obtain u us n ordered algorithms where p: "prop_of ?policy ''required'' = Some (VNum (Integral n))" "0 < n"
    "ordered \<longleftrightarrow> prop_of ?policy ''mode'' = Some (VStr (jstr ''ordered''))"
    "qr_valid (quorum_predicates x ?policy ordered algorithms es n (u # us) ms)"
    by (rule verify_parts[OF valid members roster])
  note c = predicates_valid[OF p(4)]
  have o: "order_satisfied x es n ms" using c(9) p(3) mode by simp
  have step: "\<exists>t t'. issued_at_ms x (ms ! l) = Some t \<and> issued_at_ms x (ms ! k) = Some t' \<and> t < t' \<and> t' - t \<le> window_ms x ?policy"
    if k: "k < length ms" and l: "l < k" for k l
  proof -
    have "strictly_increasing None (map (issued_at_ms x) ms)" using o by (simp add: order_satisfied_def)
    from increasing_pairs[OF this, of k] k obtain t' where t': "issued_at_ms x (ms ! k) = Some t'"
      "\<And>k'. k' < k \<Longrightarrow> \<exists>t. map (issued_at_ms x) ms ! k' = Some t \<and> t < t'" by auto
    obtain t where t: "issued_at_ms x (ms ! l) = Some t" "issued_at_ms x (ms ! k) = Some t'" "t < t'"
      using t'(1) t'(2)[OF l] k l by auto
    then show ?thesis using window_pairwise[OF c(11), of "ms ! l" "ms ! k"] k l by auto
  qed
  have slots: "same_value (m_role (ms ! k)) (prop_of (Some (es ! k)) ''role'') \<and> same_value (m_approver (ms ! k)) (prop_of (Some (es ! k)) ''approver'')"
    if "k < length ms" for k
    using o that by (auto simp: order_satisfied_def list_all2_conv_all_nth)
  show ?thesis using p(1,2) o step slots unfolding order_satisfied_def by blast
qed

subsection \<open>The chain of completed signoffs\<close>

abbreviation signoff_of :: "js_value \<Rightarrow> js_value option" where
  "signoff_of m \<equiv> prop_of (Some m) ''signoff''"

lemma chain_links_Cons: "chain_links x p (m # ms) = Some True \<longleftrightarrow> chain_links x p [m] = Some True \<and> chain_links x (Some m) ms = Some True"
  by (cases "chain_links x (Some m) ms") (auto simp: Let_def split: option.splits)

lemma chain_links_snoc: "chain_links x p (ms @ [m]) = Some True \<longleftrightarrow>
    chain_links x p ms = Some True \<and> chain_links x (if ms = [] then p else Some (last ms)) [m] = Some True"
proof (induction ms arbitrary: p)
  case (Cons a ms)
  show ?case unfolding append_Cons chain_links_Cons[of x p a "ms @ [m]"] chain_links_Cons[of x p a ms] Cons.IH by auto
qed simp

lemma map_of_filter: "map_of xs k = (case filter (\<lambda>y. fst y = k) xs of [] \<Rightarrow> None | y # ys \<Rightarrow> Some (snd y))"
  by (induction xs) auto

lemma map_of_sorted: "map_of (sort_key fst ms) k = map_of ms k"
  unfolding map_of_filter sort_key_stable ..

lemma same_member:
  assumes "same_json v = same_json w"
  shows "map_option same_json (prop_of (Some v) k) = map_option same_json (prop_of (Some w) k)"
proof -
  have m: "map_option same_json (prop_of (Some u) k) = (case same_json u of VObj i ms \<Rightarrow> map_of ms (jstr k) | _ \<Rightarrow> None)" for u
    by (cases u) (simp_all add: prop_of_def map_of_sorted map_of_map)
  show ?thesis unfolding m assms ..
qed

lemma same_member_opt:
  assumes "map_option same_json v = map_option same_json w"
  shows "map_option same_json (prop_of v k) = map_option same_json (prop_of w k)"
proof (cases v)
  case None
  then show ?thesis using assms by simp
next
  case (Some a)
  then obtain b where "w = Some b" "same_json a = same_json b" using assms by (cases w) auto
  then show ?thesis using Some same_member[of a b k] by simp
qed

lemma same_json_string: "map_option same_json v = Some (VStr s) \<longleftrightarrow> v = Some (VStr s)"
  by (cases v) (auto elim: same_json.elims)

text \<open>The text of a signoff that is hashed.\<close>

definition chain_text :: "js_value option \<Rightarrow> js_string option" where
  "chain_text v = (case v of None \<Rightarrow> None
     | Some a \<Rightarrow> (case canonicalizeStrictJson a no_limits of Inl e \<Rightarrow> None | Inr t \<Rightarrow> Some (SIGNOFF_CHAIN_PROFILE @ 0 # t)))"

definition chain_texts :: "js_value list \<Rightarrow> js_string set" where
  "chain_texts ms = set (concat (map (\<lambda>m. case chain_text (signoff_of m) of None \<Rightarrow> [] | Some t \<Rightarrow> [t]) ms))"

lemma chain_texts_split [simp]: "chain_texts (xs @ ys) = chain_texts xs \<union> chain_texts ys"
  by (simp add: chain_texts_def)

lemma chain_texts_last: "chain_text (signoff_of m) = Some t \<Longrightarrow> t \<in> chain_texts (ms @ [m])"
  by (simp add: chain_texts_def)

lemma completed_text: "completedSignoffHash x v = map_option (sha256_text x) (chain_text v)"
  by (simp add: completedSignoffHash_def chain_text_def split: option.splits sum.splits)

lemma chain_text_determines:
  assumes "chain_text v = Some t" "chain_text w = Some t"
  shows "map_option same_json v = map_option same_json w"
proof -
  obtain a b u where v: "v = Some a" "canonicalizeStrictJson a no_limits = Inr u" "w = Some b" "canonicalizeStrictJson b no_limits = Inr u"
    using assms by (auto simp: chain_text_def split: option.splits sum.splits)
  have "plain_json a \<and> u = canonicalizeValidated a" "plain_json b \<and> u = canonicalizeValidated b"
    using strict_ok_of[of a] strict_ok_of[of b] v(2,4) by (auto split: if_splits)
  then show ?thesis using text_determinesD[OF text_determines_all[of a], of b "[]" "[]"] v(1,3) by (simp add: ends_def)
qed

lemma link_first: "chain_links x None [m] = Some True \<longleftrightarrow>
    prop_of (m_context m) ''prev_context_hash'' = None \<and> prop_of (m_context m) ''prev_signoff_hash'' = None"
  by simp

lemma link_next: "chain_links x (Some p) [m] = Some True \<longleftrightarrow> prop_of (m_context m) ''prev_context_hash'' = None
    \<and> (\<exists>h. completedSignoffHash x (signoff_of p) = Some h \<and> prop_of (m_context m) ''prev_signoff_hash'' = Some (VStr (jstr h)))"
  by (auto simp: Let_def split: option.splits)

lemma chain_agrees:
  shows "inj_on (sha256_text x) (chain_texts ms \<union> chain_texts ms') \<Longrightarrow> chain_links x None ms = Some True \<Longrightarrow> chain_links x None ms' = Some True \<Longrightarrow> ms \<noteq> [] \<Longrightarrow> ms' \<noteq> []
    \<Longrightarrow> completedSignoffHash x (signoff_of (last ms)) = Some h \<Longrightarrow> completedSignoffHash x (signoff_of (last ms')) = Some h
    \<Longrightarrow> list_all2 (\<lambda>m m'. map_option same_json (signoff_of m) = map_option same_json (signoff_of m')) ms ms'"
proof (induction ms arbitrary: ms' h rule: rev_induct)
  case (snoc m ms)
  obtain ns n where ms': "ms' = ns @ [n]" using snoc.prems(5) by (metis append_butlast_last_id)
  obtain t t' where t: "chain_text (signoff_of m) = Some t" "chain_text (signoff_of n) = Some t'" "sha256_text x t = sha256_text x t'"
    using snoc.prems(6,7) ms' by (auto simp: completed_text)
  have "t = t'" by (rule inj_onD[OF snoc.prems(1) t(3)]) (use t(1,2) chain_texts_last in \<open>unfold ms', blast+\<close>)
  then have same: "map_option same_json (signoff_of m) = map_option same_json (signoff_of n)" using t chain_text_determines by blast
  have free: "inj_on (sha256_text x) (chain_texts ms \<union> chain_texts ns)" by (rule inj_on_subset[OF snoc.prems(1)]) (auto simp: ms')
  have prev: "map_option same_json (prop_of (m_context m) k) = map_option same_json (prop_of (m_context n) k)" for k
    unfolding m_context_def by (rule same_member_opt[OF same_member_opt[OF same]])
  have links: "chain_links x None ms = Some True" "chain_links x (if ms = [] then None else Some (last ms)) [m] = Some True"
    "chain_links x None ns = Some True" "chain_links x (if ns = [] then None else Some (last ns)) [n] = Some True"
    using snoc.prems(2,3) unfolding ms' chain_links_snoc by blast+
  show ?case
  proof (cases "ms = [] \<or> ns = []")
    case True
    then have "ms = [] \<and> ns = []"
      using links(2,4) prev[of "''prev_signoff_hash''"] by (auto simp: link_first link_next simp del: chain_links.simps split: if_splits)
    then show ?thesis using same ms' by simp
  next
    case False
    obtain h1 h2 where h: "completedSignoffHash x (signoff_of (last ms)) = Some h1" "prop_of (m_context m) ''prev_signoff_hash'' = Some (VStr (jstr h1))"
      "completedSignoffHash x (signoff_of (last ns)) = Some h2" "prop_of (m_context n) ''prev_signoff_hash'' = Some (VStr (jstr h2))"
      using links(2,4) False by (auto simp: link_next simp del: chain_links.simps)
    have "h1 = h2" using prev[of "''prev_signoff_hash''"] h(2,4) by simp
    then have "list_all2 (\<lambda>m m'. map_option same_json (signoff_of m) = map_option same_json (signoff_of m')) ms ns"
      using snoc.IH[OF free links(1,3), of h1] False h(1,3) by blast
    then show ?thesis unfolding ms' by (rule list_all2_appendI) (simp add: same)
  qed
qed simp

text \<open>
  Property C18. A chained quorum commits to its history. When two valid ordered quorums with the chain of completed signoffs end in a
  signoff with the same hash, they have equally many members and the same signoff at every position, up to
  the order of object members, as long as SHA-256 has no collision among the texts of these signoffs.
\<close>

theorem chained_quorums_agree:
  assumes valid: "qr_valid (verifyQuorum x expected q)" "qr_valid (verifyQuorum x expected' q')"
    and chained: "prop_of (prop_of q ''policy'') ''mode'' = Some (VStr (jstr ''ordered''))" "prop_of (prop_of q ''policy'') ''ordered_chain'' = Some (VBool True)"
      "prop_of (prop_of q' ''policy'') ''mode'' = Some (VStr (jstr ''ordered''))" "prop_of (prop_of q' ''policy'') ''ordered_chain'' = Some (VBool True)"
    and members: "prop_of q ''members'' = Some (VArr i ms)" "prop_of q' ''members'' = Some (VArr i' ms')"
    and ends: "completedSignoffHash x (signoff_of (last ms)) = Some h" "completedSignoffHash x (signoff_of (last ms')) = Some h"
    and free: "inj_on (sha256_text x) (chain_texts ms \<union> chain_texts ms')"
  shows "length ms = length ms' \<and> (\<forall>k < length ms. map_option same_json (signoff_of (ms ! k)) = map_option same_json (signoff_of (ms' ! k)))"
proof -
  have links: "ns \<noteq> [] \<and> chain_links x None ns = Some True" if "qr_valid (verifyQuorum x e r)" "prop_of r ''members'' = Some (VArr j ns)"
    "prop_of (prop_of r ''policy'') ''mode'' = Some (VStr (jstr ''ordered''))" "prop_of (prop_of r ''policy'') ''ordered_chain'' = Some (VBool True)" for e r j ns
  proof (rule verify_valid[OF that(1)])
    fix u us i2 ms2 j2 es n ordered algorithms
    assume m: "prop_of r ''members'' = Some (VArr i2 ms2)" "ms2 \<noteq> []" and o: "ordered \<longleftrightarrow> prop_of (prop_of r ''policy'') ''mode'' = Some (VStr (jstr ''ordered''))"
      and v: "qr_valid (quorum_predicates x (prop_of r ''policy'') ordered algorithms es n (u # us) ms2)"
    show ?thesis using predicates_valid(10)[OF v] o that(2-4) m by (auto simp: chain_linked_def split: option.splits)
  qed
  from chain_agrees[OF free _ _ _ _ ends] links[OF valid(1) members(1) chained(1,2)] links[OF valid(2) members(2) chained(3,4)]
  show ?thesis by (auto simp: list_all2_conv_all_nth)
qed

subsection \<open>Required algorithms\<close>

lemma required_list: "required_loop seen vs = Inr as \<Longrightarrow> set seen \<subseteq> set WEBAUTHN_SIGNATURE_ALGORITHMS
    \<Longrightarrow> as = rev seen @ map (\<lambda>v. case v of VStr a \<Rightarrow> a | _ \<Rightarrow> []) vs \<and> set as \<subseteq> set WEBAUTHN_SIGNATURE_ALGORITHMS
      \<and> (\<forall>v \<in> set vs. \<exists>a. v = VStr a)"
  by (induction seen vs rule: required_loop.induct) (auto split: js_value.splits if_splits)

text \<open>What is recorded for a text comes from a member whose approver has that text.\<close>

definition covered_by :: "quorum_env \<Rightarrow> js_value list \<Rightarrow> (js_string, js_string list) js_map \<Rightarrow> bool" where
  "covered_by x ms t \<longleftrightarrow> (\<forall>k algs alg. map_get t k = Some algs \<longrightarrow> alg \<in> set algs \<longrightarrow>
     (\<exists>m \<in> set ms. json_stringify (or_null (m_approver m)) = k \<and> key_algorithm x (m_key m) = Some alg))"

lemma by_approver_step:
  assumes "key_algorithm x (m_key c) = Some alg"
  obtains s where "set s = insert alg (case map_get t (json_stringify (or_null (m_approver c))) of None \<Rightarrow> {} | Some algs \<Rightarrow> set algs)"
    "algorithmsByApprover x (c # cs) t = algorithmsByApprover x cs (map_set (json_stringify (or_null (m_approver c))) s t)"
proof -
  define s where "s = (case map_get t (json_stringify (or_null (m_approver c))) of None \<Rightarrow> [] | Some algs \<Rightarrow> algs)"
  show thesis
    by (rule that[of "if alg \<in> set s then s else s @ [alg]"]) (use assms in \<open>auto simp: Let_def s_def split: option.splits\<close>)
qed

lemma by_approver_covered: "covered_by x ms t \<Longrightarrow> set cs \<subseteq> set ms \<Longrightarrow> covered_by x ms (algorithmsByApprover x cs t)"
proof (induction cs arbitrary: t)
  case (Cons c cs)
  show ?case
  proof (cases "key_algorithm x (m_key c)")
    case (Some alg)
    let ?k = "json_stringify (or_null (m_approver c))"
    obtain s where s: "set s = insert alg (case map_get t ?k of None \<Rightarrow> {} | Some algs \<Rightarrow> set algs)"
      "algorithmsByApprover x (c # cs) t = algorithmsByApprover x cs (map_set ?k s t)"
      by (rule by_approver_step[OF Some, of t cs])
    have "covered_by x ms (map_set ?k s t)"
      unfolding covered_by_def map_get_set
    proof (intro allI impI)
      fix k algs a
      assume a: "(if k = ?k then Some s else map_get t k) = Some algs" "a \<in> set algs"
      show "\<exists>m \<in> set ms. json_stringify (or_null (m_approver m)) = k \<and> key_algorithm x (m_key m) = Some a"
      proof (cases "k = ?k \<and> a = alg")
        case True
        then show ?thesis using Some Cons.prems(2) by auto
      next
        case False
        then obtain as where "map_get t k = Some as" "a \<in> set as" using a s(1) by (cases "map_get t k") (auto split: if_splits)
        then show ?thesis using Cons.prems(1) unfolding covered_by_def by blast
      qed
    qed
    then show ?thesis using Cons.IH Cons.prems(2) s(2) by simp
  qed (use Cons in simp)
qed simp

lemma by_approver_keeps: "map_get t k \<noteq> None \<Longrightarrow> map_get (algorithmsByApprover x cs t) k \<noteq> None"
  by (induction x cs t rule: algorithmsByApprover.induct) (auto simp: Let_def split: option.splits if_splits)

lemma by_approver_listed:
  "m \<in> set cs \<Longrightarrow> key_algorithm x (m_key m) \<noteq> None \<Longrightarrow> map_get (algorithmsByApprover x cs t) (json_stringify (or_null (m_approver m))) \<noteq> None"
proof (induction cs arbitrary: t)
  case (Cons c cs)
  show ?case
  proof (cases "m \<in> set cs")
    case True
    then show ?thesis using Cons.IH Cons.prems(2) by (cases "key_algorithm x (m_key c)") (simp_all add: Let_def)
  next
    case False
    then obtain alg where alg: "key_algorithm x (m_key c) = Some alg" "m = c" using Cons.prems by auto
    show ?thesis by (rule by_approver_step[OF alg(1), of t cs]) (simp add: alg(2) by_approver_keeps del: algorithmsByApprover.simps)
  qed
qed simp

lemma required_covered:
  assumes "fst (required_satisfied x (Some as) ms)" "m \<in> set ms" "alg \<in> set as"
  shows "\<exists>m' \<in> set ms. json_stringify (or_null (m_approver m')) = json_stringify (or_null (m_approver m)) \<and> key_algorithm x (m_key m') = Some alg"
proof -
  let ?t = "algorithmsByApprover x ms []" and ?k = "json_stringify (or_null (m_approver m))"
  have s: "missing_algorithms as ?t = []" "\<not> list_ex (\<lambda>m. key_algorithm x (m_key m) = None) ms"
    using assms(1) by (auto simp: required_satisfied_def Let_def split: if_splits)
  have "key_algorithm x (m_key m) \<noteq> None" using s(2) assms(2) by (auto simp: list_ex_iff)
  then obtain algs where algs: "map_get ?t ?k = Some algs" using by_approver_listed[OF assms(2)] by blast
  have "covered_by x ms ?t" by (rule by_approver_covered) (simp_all add: covered_by_def)
  moreover have "alg \<in> set algs" using s(1) map_of_SomeD[OF algs] assms(3) by (force simp: missing_algorithms_def filter_empty_conv)
  ultimately show ?thesis using algs unfolding covered_by_def by blast
qed

text \<open>Approvers are compared by their text: one that is a string has only itself with it.\<close>

abbreviation same_text :: "js_value option \<Rightarrow> js_value option \<Rightarrow> bool" where
  "same_text v w \<equiv> json_stringify (or_null v) = json_stringify (or_null w)"

lemma same_text_string:
  assumes "same_text w (Some (VStr s))" "number_written w"
  shows "w = Some (VStr s)"
proof -
  have "stringify_opt w = js_quote s" using assms(1) by (cases w) (simp_all add: stringify_opt_def or_null_def)
  then have "stringify_opt w @ [] = 0x22 # (quote_units s @ [0x22])" by (simp add: js_quote_def)
  then obtain s' where w: "w = Some (VStr s')" using stringify_quote[OF assms(2)] by blast
  then show ?thesis using assms(1) js_quote_determines[of s' "[]" s "[]"] by (simp add: or_null_def)
qed

text \<open>
  Property C19. A hybrid quorum is complete. When the policy of a valid quorum requires algorithms, each of them is one that signoffs
  are verified under, and for every member of the document and each of them there is a valid signoff over the action of the quorum
  under a key of that algorithm by the same approver. Approvers are told apart by their JSON text, as in the code; an approver that
  is a string is that string in both, whatever the roster holds. (Numbers among the approvers carry a text that begins as numbers do.)
\<close>

theorem hybrid_quorum_covers:
  assumes valid: "qr_valid (verifyQuorum x expected quorum)"
    and members: "prop_of quorum ''members'' = Some (VArr i ms)" and written: "members_written ms"
    and algs: "prop_of (prop_of quorum ''policy'') ''required_algorithms'' = Some (VArr l vs)"
  shows "vs \<noteq> [] \<and> (\<exists>h. prop_of quorum ''action_hash'' = Some (VStr h)
    \<and> (\<forall>v \<in> set vs. \<exists>alg. v = VStr alg \<and> alg \<in> set WEBAUTHN_SIGNATURE_ALGORITHMS
        \<and> (\<forall>m \<in> set ms. \<exists>m' \<in> set ms. same_text (m_approver m') (m_approver m) \<and> (\<forall>s. m_approver m = Some (VStr s) \<longrightarrow> m_approver m' = Some (VStr s))
            \<and> key_algorithm x (m_key m') = Some alg \<and> m_valid x m' \<and> m_bound h m')))"
proof (rule verify_valid[OF valid])
  let ?policy = "prop_of quorum ''policy''"
  fix u us i2 ms2 j es n ordered algorithms
  assume p: "prop_of quorum ''action_hash'' = Some (VStr (u # us))" "prop_of quorum ''members'' = Some (VArr i2 ms2)"
    "parseRequiredAlgorithms (prop_of ?policy ''required_algorithms'') = Inr algorithms"
    "qr_valid (quorum_predicates x ?policy ordered algorithms es n (u # us) ms2)"
  have ms2: "ms2 = ms" using p(2) members by simp
  note c = predicates_valid[OF p(4)[unfolded ms2]]
  obtain v vs' as where as: "vs = v # vs'" "required_loop [] vs = Inr as" "algorithms = Some as"
    using p(3) algs by (cases vs) (auto simp: parseRequiredAlgorithms_def split: sum.splits)
  have listed: "as = map (\<lambda>v. case v of VStr a \<Rightarrow> a | _ \<Rightarrow> []) vs" "set as \<subseteq> set WEBAUTHN_SIGNATURE_ALGORITHMS" "\<forall>v \<in> set vs. \<exists>a. v = VStr a"
    using required_list[OF as(2)] unfolding list.set(1) rev.simps(1) append_Nil by blast+
  have cover: "\<exists>m' \<in> set ms. same_text (m_approver m') (m_approver m) \<and> (\<forall>s. m_approver m = Some (VStr s) \<longrightarrow> m_approver m' = Some (VStr s))
      \<and> key_algorithm x (m_key m') = Some alg" if m: "m \<in> set ms" and a: "alg \<in> set as" for m alg
  proof -
    obtain m' where m': "m' \<in> set ms" "same_text (m_approver m') (m_approver m)" "key_algorithm x (m_key m') = Some alg"
      using required_covered[OF c(8)[unfolded as(3)] m a] by blast
    have "number_written (m_approver m')" using written m'(1) by (simp add: members_written_def list_all_iff)
    then have "m_approver m = Some (VStr s) \<longrightarrow> m_approver m' = Some (VStr s)" for s using same_text_string m'(2) by auto
    then show ?thesis using m' by blast
  qed
  have "\<exists>alg. w = VStr alg \<and> alg \<in> set as \<and> alg \<in> set WEBAUTHN_SIGNATURE_ALGORITHMS" if w: "w \<in> set vs" for w
  proof -
    obtain a where a: "w = VStr a" using listed(3) w by blast
    have "(case w of VStr a \<Rightarrow> a | _ \<Rightarrow> []) \<in> set as" unfolding listed(1) set_map by (rule imageI[OF w])
    then show ?thesis using a listed(2) by auto
  qed
  moreover have "m_valid x m \<and> m_bound (u # us) m" if "m \<in> set ms" for m using c(1,2) that by (simp add: list_all_iff)
  ultimately have "\<exists>alg. w = VStr alg \<and> alg \<in> set WEBAUTHN_SIGNATURE_ALGORITHMS
      \<and> (\<forall>m \<in> set ms. \<exists>m' \<in> set ms. same_text (m_approver m') (m_approver m) \<and> (\<forall>s. m_approver m = Some (VStr s) \<longrightarrow> m_approver m' = Some (VStr s))
          \<and> key_algorithm x (m_key m') = Some alg \<and> m_valid x m' \<and> m_bound (u # us) m')"
    if "w \<in> set vs" for w using that cover by meson
  then show ?thesis using p(1) as(1) by auto
qed

end
