(* ===== verification/Quorum_Sample.thy ===== *)
theory Quorum_Sample
  imports Quorum_Chain
begin

section \<open>Concrete quorums\<close>

text \<open>
  Two documents on which the theorems about quorums are applied: a hybrid quorum of two approvers with two
  keys each, and an ordered quorum of two approvers whose signoffs are chained. Keys whose name ends in \<open>q\<close> are post-quantum
  keys, the name of a key is its fingerprint, the length of a time is its value, a signoff
  is valid when it is present, and the digest of a text is its length.
\<close>

definition length_digest :: hash16 where "length_digest t = dec_nat (length t)"

definition sample_quorum_env :: quorum_env where
  "sample_quorum_env = \<lparr>signoff_valid = (\<lambda>s k. s \<noteq> None),
     key_algorithm = (\<lambda>k. case k of Some (VStr s) \<Rightarrow> Some (jstr (if last s = u16 CHR ''q'' then ''ML-DSA-65'' else ''ES256'')) | _ \<Rightarrow> None),
     key_fingerprint = (\<lambda>k. case k of Some (VStr s) \<Rightarrow> Some (map (\<lambda>u. char_of (unat u)) s) | _ \<Rightarrow> None),
     date_ms = (\<lambda>t. Some (int (length t))), sha256_text = length_digest, fraction_ms = (\<lambda>t. 0)\<rparr>"

definition jval :: "string \<Rightarrow> js_value" where "jval s = VStr (jstr s)"

definition jobj :: "nat \<Rightarrow> (string \<times> js_value) list \<Rightarrow> js_value" where "jobj i ms = VObj i (map (\<lambda>(k, v). (jstr k, v)) ms)"

definition sample_context :: "string \<Rightarrow> string \<Rightarrow> (string \<times> js_value) list" where
  "sample_context approver issued = [(''approver'', jval approver), (''action_hash'', jval ''h''), (''initiator'', jval ''i''), (''issued_at'', jval issued)]"

definition sample_member :: "string \<Rightarrow> string \<Rightarrow> (string \<times> js_value) list \<Rightarrow> js_value" where
  "sample_member role key context = jobj 3 [(''role'', jval role), (''approver_public_key'', jval key), (''signoff'', jobj 2 [(''context'', jobj 1 context)])]"

definition sample_roster :: "js_value list" where
  "sample_roster = [jobj 4 [(''role'', jval ''r''), (''approver'', jval ''a'')], jobj 4 [(''role'', jval ''s''), (''approver'', jval ''b'')]]"

definition sample_hybrid_members :: "js_value list" where
  "sample_hybrid_members = [sample_member ''r'' ''k'' (sample_context ''a'' ''1''), sample_member ''r'' ''kq'' (sample_context ''a'' ''11''),
     sample_member ''s'' ''l'' (sample_context ''b'' ''111''), sample_member ''s'' ''lq'' (sample_context ''b'' ''1'')]"

definition sample_algorithms :: "js_string list option" where "sample_algorithms = Some [jstr ''ES256'', jstr ''ML-DSA-65'']"

definition sample_hybrid_policy :: "js_value option" where
  "sample_hybrid_policy = Some (jobj 4 [(''mode'', jval ''threshold''), (''required'', VNum (Integral 2)), (''approvers'', VArr 0 sample_roster),
       (''required_algorithms'', VArr 0 [jval ''ES256'', jval ''ML-DSA-65''])])"

definition sample_hybrid :: "js_value option" where
  "sample_hybrid = Some (jobj 4 [(''action_hash'', jval ''h''), (''policy'', the sample_hybrid_policy), (''members'', VArr 0 sample_hybrid_members)])"

lemma predicates_validI:
  assumes "list_all (m_valid x) members" "list_all (m_bound h) members" "distinct (distinctness_keys x algorithms members)" "distinct_keys x members"
    "initiator_excluded members" "members \<noteq> []" "VNull \<notin> set eligible" "list_all (\<lambda>m. slot_of m \<in> set (eligible_keys eligible)) members"
    "threshold_met (eligible_keys eligible) n members" "fst (required_satisfied x algorithms members)"
    "ordered \<longrightarrow> order_satisfied x eligible n members"
    "ordered \<and> prop_of policy ''ordered_chain'' = Some (VBool True) \<longrightarrow> chain_linked x policy eligible n members = Some True"
    "within_window x (window_ms x policy) members"
  shows "qr_valid (quorum_predicates x policy ordered algorithms eligible n h members)"
proof -
  have c: "filter (\<lambda>m. m_valid x m \<and> m_bound h m) members = members" using assms(1,2) by (simp add: list_all_iff filter_id_conv)
  show ?thesis unfolding quorum_predicates_def c using assms
    by (auto simp: all_checks_def Let_def split: prod.splits option.splits)
qed


text \<open>What evaluates a check on a concrete document.\<close>

lemmas quorum_eval = jobj_def jval_def sample_member_def sample_context_def sample_roster_def sample_quorum_env_def prop_of_def m_valid_def m_bound_def
  m_role_def m_approver_def m_context_def m_key_def u16_def distinctness_keys_def rosterSlotKey_def stringify_opt_def js_quote_def escape_unit_def
  is_high_def is_low_def comma_def or_null_def distinct_keys_def Let_def initiator_excluded_def slot_of_def eligible_keys_def threshold_met_def
  required_satisfied_def missing_algorithms_def order_satisfied_def same_value_def within_window_def window_ms_def issued_at_ms_def
  length_digest_def dec_nat.simps digit_char_def dec_int_def

lemma sample_hybrid_verify:
  "verifyQuorum sample_quorum_env None sample_hybrid
     = quorum_predicates sample_quorum_env sample_hybrid_policy False sample_algorithms sample_roster 2 (jstr ''h'') sample_hybrid_members"
proof -
  have p: "prop_of sample_hybrid ''members'' = Some (VArr 0 sample_hybrid_members)"
    "prop_of sample_hybrid ''action_hash'' = Some (VStr (jstr ''h''))" "prop_of sample_hybrid ''policy'' = sample_hybrid_policy"
    "prop_of sample_hybrid_policy ''approvers'' = Some (VArr 0 sample_roster)"
    "prop_of sample_hybrid_policy ''mode'' = Some (VStr (jstr ''threshold''))" "prop_of sample_hybrid_policy ''required'' = Some (VNum (Integral 2))"
    "prop_of sample_hybrid_policy ''required_algorithms'' = Some (VArr 0 [jval ''ES256'', jval ''ML-DSA-65''])" "truthy sample_hybrid_policy"
    by (simp_all add: sample_hybrid_def sample_hybrid_policy_def jobj_def jval_def prop_of_def u16_def)
  have h: "jstr ''h'' = u16 CHR ''h'' # []" by simp
  have "parseRequiredAlgorithms (Some (VArr 0 [jval ''ES256'', jval ''ML-DSA-65''])) = Inr sample_algorithms"
    by (simp add: parseRequiredAlgorithms_def sample_algorithms_def WEBAUTHN_SIGNATURE_ALGORITHMS_def quorum_eval)
  moreover have "sample_roster \<noteq> []" "int (length sample_roster) = 2" "sample_hybrid_members \<noteq> []"
    by (simp_all add: sample_roster_def sample_hybrid_members_def)
  moreover have "jstr ''threshold'' \<noteq> jstr ''ordered''" unfolding jstr_inj by simp
  ultimately show ?thesis
    unfolding verifyQuorum_def p(1-7) Let_def h using p(8) by (simp add: policy_pinned_def del: jstr_simps)
qed

lemma sample_hybrid_valid: "qr_valid (verifyQuorum sample_quorum_env None sample_hybrid)"
proof -
  have checks: "list_all (m_valid sample_quorum_env) sample_hybrid_members"
    "list_all (m_bound (jstr ''h'')) sample_hybrid_members"
    "distinct (distinctness_keys sample_quorum_env sample_algorithms sample_hybrid_members)"
    "distinct_keys sample_quorum_env sample_hybrid_members"
    "initiator_excluded sample_hybrid_members"
    "sample_hybrid_members \<noteq> []"
    "VNull \<notin> set sample_roster"
    "list_all (\<lambda>m. slot_of m \<in> set (eligible_keys sample_roster)) sample_hybrid_members"
    "threshold_met (eligible_keys sample_roster) 2 sample_hybrid_members"
    "fst (required_satisfied sample_quorum_env sample_algorithms sample_hybrid_members)"
    "within_window sample_quorum_env (window_ms sample_quorum_env sample_hybrid_policy) sample_hybrid_members"
    by (simp_all add: quorum_eval sample_hybrid_members_def sample_algorithms_def sample_hybrid_policy_def)
  show ?thesis unfolding sample_hybrid_verify
    by (intro predicates_validI checks) simp_all
qed

lemma sample_hybrid_parts: "prop_of sample_hybrid ''members'' = Some (VArr 0 sample_hybrid_members)"
    "prop_of (prop_of sample_hybrid ''policy'') ''approvers'' = Some (VArr 0 sample_roster)"
    "roster_of_texts sample_roster" "members_written sample_hybrid_members"
    "prop_of (prop_of sample_hybrid ''policy'') ''required_algorithms'' = Some (VArr 0 [jval ''ES256'', jval ''ML-DSA-65''])"
  by (simp_all add: sample_hybrid_def sample_hybrid_policy_def sample_roster_def sample_hybrid_members_def sample_member_def sample_context_def jobj_def jval_def
      prop_of_def roster_of_texts_def members_written_def number_written_def m_role_def m_approver_def m_context_def u16_def)

theorem quorum_separates_duties_witness:
  "\<exists>chosen. set chosen \<subseteq> set sample_hybrid_members \<and> 2 \<le> length chosen \<and> distinct (map m_approver chosen)"
proof -
  note parts = sample_hybrid_parts
  have two: "prop_of (prop_of sample_hybrid ''policy'') ''required'' = Some (VNum (Integral 2))"
    by (simp add: sample_hybrid_def sample_hybrid_policy_def jobj_def prop_of_def u16_def)
  from quorum_separates_duties[OF sample_hybrid_valid parts(1-4)] show ?thesis unfolding two by auto
qed

theorem hybrid_quorum_covers_witness:
  "\<exists>m'. m' \<in> set sample_hybrid_members \<and> m_approver m' = m_approver (hd sample_hybrid_members)
     \<and> key_algorithm sample_quorum_env (m_key m') = Some (jstr ''ML-DSA-65'')"
proof -
  have "jval ''ML-DSA-65'' \<in> set [jval ''ES256'', jval ''ML-DSA-65'']" "hd sample_hybrid_members \<in> set sample_hybrid_members"
    by (simp_all add: sample_hybrid_members_def)
  note here = this
  have "\<forall>v \<in> set [jval ''ES256'', jval ''ML-DSA-65'']. \<exists>alg. v = VStr alg \<and> (\<forall>m \<in> set sample_hybrid_members. \<exists>m' \<in> set sample_hybrid_members.
      (\<forall>s. m_approver m = Some (VStr s) \<longrightarrow> m_approver m' = Some (VStr s)) \<and> key_algorithm sample_quorum_env (m_key m') = Some alg)"
    using hybrid_quorum_covers[OF sample_hybrid_valid sample_hybrid_parts(1,4,5)] by meson
  from bspec[OF this here(1)] obtain alg where alg: "jval ''ML-DSA-65'' = VStr alg" "\<forall>m \<in> set sample_hybrid_members. \<exists>m' \<in> set sample_hybrid_members.
      (\<forall>s. m_approver m = Some (VStr s) \<longrightarrow> m_approver m' = Some (VStr s)) \<and> key_algorithm sample_quorum_env (m_key m') = Some alg" by blast
  from bspec[OF alg(2) here(2)] obtain m' where m': "m' \<in> set sample_hybrid_members"
    "\<forall>s. m_approver (hd sample_hybrid_members) = Some (VStr s) \<longrightarrow> m_approver m' = Some (VStr s)"
    "key_algorithm sample_quorum_env (m_key m') = Some alg"
    by blast
  have "m_approver (hd sample_hybrid_members) = Some (VStr (jstr ''a''))"
    by (simp add: sample_hybrid_members_def quorum_eval)
  then have "m_approver m' = m_approver (hd sample_hybrid_members)" using m'(2) by metis
  moreover have "alg = jstr ''ML-DSA-65''" using alg(1) unfolding jval_def js_value.inject by (rule sym)
  ultimately show ?thesis using m'(1,3) by blast
qed

subsection \<open>A chained quorum\<close>

text \<open>The first signoff is given by its context, the second signs over the digest of the first.\<close>

definition first_text :: "js_string" where
  "first_text = SIGNOFF_CHAIN_PROFILE @ 0 # canonicalizeValidated (jobj 2 [(''context'', jobj 1 (sample_context ''a'' ''1''))])"

definition second_context :: "(string \<times> js_value) list" where
  "second_context = sample_context ''b'' ''11'' @ [(''prev_signoff_hash'', jval (length_digest first_text))]"

definition sample_chain_members :: "(string \<times> js_value) list \<Rightarrow> js_value list" where
  "sample_chain_members context = [sample_member ''r'' ''k'' context, sample_member ''s'' ''l'' second_context]"

definition sample_chain :: "(string \<times> js_value) list \<Rightarrow> js_value option" where
  "sample_chain context = Some (jobj 4 [(''action_hash'', jval ''h''),
     (''policy'', jobj 4 [(''mode'', jval ''ordered''), (''required'', VNum (Integral 2)), (''approvers'', VArr 0 sample_roster),
       (''ordered_chain'', VBool True), (''ordered_chain_profile'', VStr SIGNOFF_CHAIN_PROFILE)]), (''members'', VArr 0 (sample_chain_members context))])"

abbreviation context_here :: "(string \<times> js_value) list" where "context_here \<equiv> sample_context ''a'' ''1''"

text \<open>The same context with its members in another order.\<close>

definition context_there :: "(string \<times> js_value) list" where "context_there = rev context_here"

lemma chain_textI:
  assumes "plain_json v" "within_depth 0 v" "acyclic_below [] v" "value_nodes v \<le> 100" "value_bytes v \<le> 1000"
  shows "chain_text (Some v) = Some (SIGNOFF_CHAIN_PROFILE @ 0 # canonicalizeValidated v)"
proof -
  have "canonicalizeStrictJson v no_limits = Inr (canonicalizeValidated v)"
    using strict_ok_of[of v] assms by (auto simp: ok_of_def DEFAULT_MAX_JSON_NODES_def DEFAULT_MAX_JSON_STRING_BYTES_def split: sum.splits if_splits)
  then show ?thesis by (simp add: chain_text_def)
qed

lemma digest_length: "length_digest first_text = ''105''"
  by (simp add: first_text_def SIGNOFF_CHAIN_PROFILE_def quorum_eval) code_simp

lemma signoff_value: "signoff_of (sample_member r k c) = Some (jobj 2 [(''context'', jobj 1 c)])"
  by (simp add: sample_member_def jobj_def prop_of_def u16_def)

lemma first_here: "chain_text (signoff_of (sample_member ''r'' ''k'' context_here)) = Some first_text"
  unfolding signoff_value first_text_def by (rule chain_textI) (simp_all add: quorum_eval context_there_def safe_int_def max_safe_def MAX_JSON_DEPTH_def)

lemma first_there: "chain_text (signoff_of (sample_member ''r'' ''k'' context_there)) = Some first_text"
proof -
  have "canonicalizeValidated (jobj 2 [(''context'', jobj 1 context_there)]) = canonicalizeValidated (jobj 2 [(''context'', jobj 1 context_here)])"
    by (simp add: quorum_eval context_there_def)
  moreover have "chain_text (Some (jobj 2 [(''context'', jobj 1 context_there)]))
      = Some (SIGNOFF_CHAIN_PROFILE @ 0 # canonicalizeValidated (jobj 2 [(''context'', jobj 1 context_there)]))"
    by (rule chain_textI) (simp_all add: quorum_eval context_there_def safe_int_def max_safe_def MAX_JSON_DEPTH_def)
  ultimately show ?thesis unfolding signoff_value first_text_def by simp
qed

definition second_text :: "js_string" where
  "second_text = SIGNOFF_CHAIN_PROFILE @ 0 # canonicalizeValidated (jobj 2 [(''context'', jobj 1 second_context)])"

lemma second_chain: "chain_text (signoff_of (sample_member ''s'' ''l'' second_context)) = Some second_text"
  unfolding signoff_value second_text_def second_context_def digest_length by (rule chain_textI) (simp_all add: quorum_eval context_there_def safe_int_def max_safe_def MAX_JSON_DEPTH_def)

lemma chain_sample_texts: "chain_texts (sample_chain_members context_here) \<union> chain_texts (sample_chain_members context_there) = {first_text, second_text}"
  unfolding sample_chain_members_def chain_texts_def by (simp add: first_here first_there second_chain)

lemma sample_collisions: "inj_on (sha256_text sample_quorum_env) {first_text, second_text}"
proof -
  have "length_digest first_text \<noteq> length_digest second_text"
    unfolding second_text_def second_context_def digest_length
    by (simp add: SIGNOFF_CHAIN_PROFILE_def quorum_eval) code_simp
  then show ?thesis by (auto simp: sample_quorum_env_def inj_on_def)
qed

lemma chain_members_linked:
  assumes "chain_text (signoff_of (sample_member ''r'' ''k'' c)) = Some first_text" "c \<in> {context_here, context_there}"
  shows "chain_links sample_quorum_env None (sample_chain_members c) = Some True"
proof -
  have "chain_links sample_quorum_env None [sample_member ''r'' ''k'' c] = Some True"
    unfolding link_first using assms(2) unfolding context_there_def by (elim insertE emptyE) (simp_all add: quorum_eval)
  moreover have "completedSignoffHash sample_quorum_env (signoff_of (sample_member ''r'' ''k'' c)) = Some (length_digest first_text)"
    by (simp add: completed_text assms(1) sample_quorum_env_def)
  moreover have "prop_of (m_context (sample_member ''s'' ''l'' second_context)) ''prev_signoff_hash'' = Some (VStr (jstr (length_digest first_text)))"
    "prop_of (m_context (sample_member ''s'' ''l'' second_context)) ''prev_context_hash'' = None"
    by (simp_all add: m_context_def sample_member_def second_context_def sample_context_def jobj_def jval_def prop_of_def u16_def)
  ultimately show ?thesis
    unfolding sample_chain_members_def chain_links_Cons[of _ _ _ "[_]"] link_next by blast
qed

definition sample_policy :: "js_value option" where
  "sample_policy = Some (jobj 4 [(''mode'', jval ''ordered''), (''required'', VNum (Integral 2)), (''approvers'', VArr 0 sample_roster),
       (''ordered_chain'', VBool True), (''ordered_chain_profile'', VStr SIGNOFF_CHAIN_PROFILE)])"

lemma sample_chain_parts:
  "prop_of (sample_chain c) ''members'' = Some (VArr 0 (sample_chain_members c))"
  "prop_of (sample_chain c) ''action_hash'' = Some (VStr (jstr ''h''))"
  "prop_of (sample_chain c) ''policy'' = sample_policy"
  "prop_of sample_policy ''approvers'' = Some (VArr 0 sample_roster)"
  "prop_of sample_policy ''mode'' = Some (VStr (jstr ''ordered''))"
  "prop_of sample_policy ''ordered_chain'' = Some (VBool True)"
  "prop_of sample_policy ''ordered_chain_profile'' = Some (VStr SIGNOFF_CHAIN_PROFILE)"
  "prop_of sample_policy ''required'' = Some (VNum (Integral 2))"
  "prop_of sample_policy ''required_algorithms'' = None" "truthy sample_policy"
  by (simp_all add: sample_chain_def sample_policy_def jobj_def jval_def prop_of_def u16_def)

lemma sample_chain_verify:
  "verifyQuorum sample_quorum_env None (sample_chain c)
     = quorum_predicates sample_quorum_env sample_policy True None sample_roster 2 (jstr ''h'') (sample_chain_members c)"
proof -
  have h: "jstr ''h'' = u16 CHR ''h'' # []" by simp
  have "sample_roster \<noteq> []" "int (length sample_roster) = 2" "sample_chain_members c \<noteq> []"
    by (simp_all add: sample_roster_def sample_chain_members_def)
  then show ?thesis
    unfolding verifyQuorum_def sample_chain_parts Let_def h
    by (simp add: policy_pinned_def parseRequiredAlgorithms_def sample_chain_parts del: jstr_simps)
qed

lemma sample_chain_checks:
  assumes "c \<in> {context_here, context_there}"
  shows "list_all (m_valid sample_quorum_env) (sample_chain_members c)" "list_all (m_bound (jstr ''h'')) (sample_chain_members c)"
    "distinct (distinctness_keys sample_quorum_env None (sample_chain_members c))" "distinct_keys sample_quorum_env (sample_chain_members c)"
    "initiator_excluded (sample_chain_members c)" "sample_chain_members c \<noteq> []"
    "list_all (\<lambda>m. slot_of m \<in> set (eligible_keys sample_roster)) (sample_chain_members c)"
    "threshold_met (eligible_keys sample_roster) 2 (sample_chain_members c)"
    "order_satisfied sample_quorum_env sample_roster 2 (sample_chain_members c)"
    "within_window sample_quorum_env (window_ms sample_quorum_env sample_policy) (sample_chain_members c)"
proof -
  have "P c" if "P context_here" "P context_there" for P using assms that by blast
  note here = this
  show "list_all (m_valid sample_quorum_env) (sample_chain_members c)"
    by (rule here) (simp_all add: quorum_eval sample_chain_members_def second_context_def digest_length context_there_def sample_policy_def del: length_digest_def)
  show "list_all (m_bound (jstr ''h'')) (sample_chain_members c)"
    by (rule here) (simp_all add: quorum_eval sample_chain_members_def second_context_def digest_length context_there_def sample_policy_def del: length_digest_def)
  show "distinct (distinctness_keys sample_quorum_env None (sample_chain_members c))"
    by (rule here) (simp_all add: quorum_eval sample_chain_members_def second_context_def digest_length context_there_def sample_policy_def del: length_digest_def)
  show "distinct_keys sample_quorum_env (sample_chain_members c)"
    by (rule here) (simp_all add: quorum_eval sample_chain_members_def second_context_def digest_length context_there_def sample_policy_def del: length_digest_def)
  show "initiator_excluded (sample_chain_members c)"
    by (rule here) (simp_all add: quorum_eval sample_chain_members_def second_context_def digest_length context_there_def sample_policy_def del: length_digest_def)
  show "sample_chain_members c \<noteq> []"
    by (rule here) (simp_all add: quorum_eval sample_chain_members_def second_context_def digest_length context_there_def sample_policy_def del: length_digest_def)
  show "list_all (\<lambda>m. slot_of m \<in> set (eligible_keys sample_roster)) (sample_chain_members c)"
    by (rule here) (simp_all add: quorum_eval sample_chain_members_def second_context_def digest_length context_there_def sample_policy_def del: length_digest_def)
  show "threshold_met (eligible_keys sample_roster) 2 (sample_chain_members c)"
    by (rule here) (simp_all add: quorum_eval sample_chain_members_def second_context_def digest_length context_there_def sample_policy_def del: length_digest_def)
  show "order_satisfied sample_quorum_env sample_roster 2 (sample_chain_members c)"
    by (rule here) (simp_all add: quorum_eval sample_chain_members_def second_context_def digest_length context_there_def sample_policy_def del: length_digest_def)
  show "within_window sample_quorum_env (window_ms sample_quorum_env sample_policy) (sample_chain_members c)"
    by (rule here) (simp_all add: quorum_eval sample_chain_members_def second_context_def digest_length context_there_def sample_policy_def del: length_digest_def)
qed

lemma sample_chain_valid:
  assumes c: "c \<in> {context_here, context_there}" and t: "chain_text (signoff_of (sample_member ''r'' ''k'' c)) = Some first_text"
  shows "qr_valid (verifyQuorum sample_quorum_env None (sample_chain c))"
proof -
  note m = sample_chain_checks[OF c]
  have "VNull \<notin> set sample_roster" by (simp add: quorum_eval)
  moreover have "chain_linked sample_quorum_env sample_policy sample_roster 2 (sample_chain_members c) = Some True"
    by (simp add: chain_linked_def chain_members_linked[OF t c] sample_chain_parts) (simp add: sample_chain_members_def sample_roster_def)
  ultimately show ?thesis
    unfolding sample_chain_verify by (intro predicates_validI m) (simp_all add: m required_satisfied_def)
qed

theorem ordered_quorum_follows_roster_witness:
  "length (sample_chain_members context_here) = 2
   \<and> (\<exists>t t'. issued_at_ms sample_quorum_env (sample_chain_members context_here ! 0) = Some t
      \<and> issued_at_ms sample_quorum_env (sample_chain_members context_here ! 1) = Some t' \<and> t < t')"
proof -
  have l: "length (sample_chain_members context_here) = 2" by (simp add: sample_chain_members_def)
  note valid = sample_chain_valid[OF _ first_here, simplified]
  have "\<forall>k < length (sample_chain_members context_here). \<forall>l < k. \<exists>t t'. issued_at_ms sample_quorum_env (sample_chain_members context_here ! l) = Some t
      \<and> issued_at_ms sample_quorum_env (sample_chain_members context_here ! k) = Some t' \<and> t < t'"
    using ordered_quorum_follows_roster[OF valid _ sample_chain_parts(1), unfolded sample_chain_parts, OF refl refl] by meson
  then have "\<forall>l < 1. \<exists>t t'. issued_at_ms sample_quorum_env (sample_chain_members context_here ! l) = Some t
      \<and> issued_at_ms sample_quorum_env (sample_chain_members context_here ! 1) = Some t' \<and> t < t'" unfolding l by simp
  then show ?thesis using l by simp
qed

theorem chained_quorums_agree_witness:
  "map_option same_json (signoff_of (sample_member ''r'' ''k'' context_here)) = map_option same_json (signoff_of (sample_member ''r'' ''k'' context_there))
   \<and> context_here \<noteq> context_there"
proof -
  have l: "last (sample_chain_members c) = sample_member ''s'' ''l'' second_context" for c by (simp add: sample_chain_members_def)
  have "completedSignoffHash sample_quorum_env (signoff_of (last (sample_chain_members c))) = Some (length_digest second_text)" for c
    unfolding l by (simp add: completed_text second_chain sample_quorum_env_def)
  from chained_quorums_agree[OF sample_chain_valid[OF _ first_here] sample_chain_valid[OF _ first_there] _ _ _ _
      sample_chain_parts(1) sample_chain_parts(1) this this sample_collisions[folded chain_sample_texts]]
  have "\<forall>k < length (sample_chain_members context_here). map_option same_json (signoff_of (sample_chain_members context_here ! k))
      = map_option same_json (signoff_of (sample_chain_members context_there ! k))"
    unfolding sample_chain_parts by simp
  from this[rule_format, of 0] have "map_option same_json (signoff_of (sample_chain_members context_here ! 0))
      = map_option same_json (signoff_of (sample_chain_members context_there ! 0))" by (simp add: sample_chain_members_def)
  moreover have "context_here \<noteq> context_there" unfolding context_there_def by (simp add: sample_context_def)
  ultimately show ?thesis by (simp add: sample_chain_members_def)
qed

subsection \<open>Approvers that are not strings\<close>

text \<open>
  Approvers that are objects are told apart by their identity, roster slots by their text: one slot of the roster
  is filled twice, with two keys, and both members count towards the threshold.
\<close>

definition object_member :: "nat \<Rightarrow> string \<Rightarrow> js_value" where
  "object_member i key = sample_member ''r'' key [(''approver'', jobj i [(''id'', jval ''a'')]), (''action_hash'', jval ''h''),
     (''initiator'', jval ''i''), (''issued_at'', jval ''1'')]"

definition object_roster :: "js_value list" where
  "object_roster = [jobj 4 [(''role'', jval ''r''), (''approver'', jobj 7 [(''id'', jval ''a'')])], jobj 4 [(''role'', jval ''s''), (''approver'', jval ''b'')]]"

lemma object_approvers_count_twice:
  "qr_valid (quorum_predicates sample_quorum_env sample_hybrid_policy False None object_roster 2 (jstr ''h'') [object_member 5 ''k'', object_member 6 ''l''])"
  "slot_of (object_member 5 ''k'') = slot_of (object_member 6 ''l'')"
proof -
  let ?ms = "[object_member 5 ''k'', object_member 6 ''l'']"
  have checks: "list_all (m_valid sample_quorum_env) ?ms"
    "list_all (m_bound (jstr ''h'')) ?ms"
    "distinct (distinctness_keys sample_quorum_env None ?ms)"
    "distinct_keys sample_quorum_env ?ms"
    "initiator_excluded ?ms"
    "VNull \<notin> set object_roster"
    "list_all (\<lambda>m. slot_of m \<in> set (eligible_keys object_roster)) ?ms"
    "threshold_met (eligible_keys object_roster) 2 ?ms"
    "within_window sample_quorum_env (window_ms sample_quorum_env sample_hybrid_policy) ?ms"
    by (simp_all add: quorum_eval object_member_def object_roster_def sample_hybrid_policy_def)
  show "qr_valid (quorum_predicates sample_quorum_env sample_hybrid_policy False None object_roster 2 (jstr ''h'') ?ms)"
    by (intro predicates_validI checks) (simp_all add: required_satisfied_def)
  show "slot_of (object_member 5 ''k'') = slot_of (object_member 6 ''l'')" by (simp add: quorum_eval object_member_def)
qed

end
