(* ===== verification/Spec2Isabelle.thy ===== *)
theory Spec2Isabelle
  imports Open_Exposure_Safety Execution_Binding Challenge_Store Protocol_State Merkle_Properties Aec_Expression Effect_Predicates Authority_Conservation Capability_Issue Consumption_Proof Quorum_Sample
begin

text \<open>
  A verification library of the EMILIA Protocol reference packages.

  The program. The protocol puts a relying party's gate in front of consequential actions of software
  agents. \<open>packages/gate\<close> is the gate: before a provider is entered it checks that a signed receipt or
  capability authorizes exactly this action, that it has not been used, and that budgets and ceilings
  still admit it; it keeps the stores these decisions rest on. \<open>packages/verify\<close> checks offline what
  the gate and the log have published. Both are TypeScript; \<open>dist\<close> has their compiled copies. The
  components modelled here are the ones whose decisions the others rely on.

  Components, theories and sources (under \<open>src/packages\<close>).

  Prelude. \<open>Ep_Prelude\<close>: the JavaScript \<open>Map\<close> as a list of entries in insertion order
  (\<open>map_get\<close>, \<open>map_set\<close>), ordered input checks (\<open>run_checks\<close>), sums over selected values, decimal printing, the
  regular expressions that several files repeat, and the locale \<open>store_invariant\<close>. \<open>Js_Time\<close>,
  \<open>Js_Json\<close> and \<open>Js_Text\<close>: what the sources use of \<open>Date\<close>, numbers, \<open>JSON.stringify\<close>, UTF-16 and UTF-8.

  Exposure. \<open>Open_Exposure\<close> models the in-memory ledger of \<open>gate/src/open-exposure-ledger.ts\<close>: one function
  per operation, split at the mutex into its entry part and its locked part. \<open>Open_Exposure_Run\<close> has the
  step relation in which the parts of any number of calls interleave and the two invariants;
  \<open>Open_Exposure_Safety\<close> shows that open exposure stays within every ceiling, that the history of an
  exposure is a chained run of its life cycle, that a permit is issued once, and what single calls
  return. \<open>Open_Exposure_Sample\<close> is a concrete run for the witnesses.

  Replay defence. \<open>Consumption_Store\<close> models \<open>gate/src/store.ts\<close>. Its \<open>DurableConsumptionStore\<close> is a client of the
  locale \<open>kv_backend\<close> (the laws of \<open>setIfAbsent\<close>, \<open>compareAndSet\<close> and \<open>deleteIfValue\<close>), interpreted on
  \<open>createMemoryBackend\<close>; a fleet of instances refines an abstract machine with one slot per receipt, so
  that a receipt is accepted once. \<open>Challenge_Store\<close> (\<open>gate/src/challenge-store.ts\<close>) is the second client of the
  same interface.

  Capabilities (\<open>gate/src/capability-receipt.ts\<close>, \<open>gate/src/provider-entry.ts\<close>). \<open>Capability_Shares\<close>: Shamir shares modulo
  \<open>2^521 - 1\<close>, with the round trip and the termination of sampling. \<open>Capability_Envelope\<close>: validators, scopes,
  delegation chains and the verification of an envelope. \<open>Capability_Store\<close>: the in-memory store with all its
  operations on the record \<open>cap_store\<close> (its Maps). \<open>Capability_Safety\<close>: every method changes the store in one of the six ways of
  \<open>cap_effect\<close>, from which follow the accounting of budgets, the exclusion of a second operation on one
  action fence, and that a frozen control domain admits no operation reserved before. \<open>Provider_Entry\<close>: the
  contract of the last guard, compositions of guards, the organization guard. \<open>Capability_Execution\<close>: the
  preparation of an execution and its phases, broken at every await. \<open>Capability_Effects\<close>: the step relation \<open>sys_step\<close> of many
  executions on one store; its invariant relates each execution to the operation it reserved, and gives that effects are
  started once per action fence and within the budget. One execution alone is \<open>executeWithCapability\<close>.
  \<open>Capability_Delegation\<close>: minting, delegation in its three calls of the store, and the caller of reconciliation.
  \<open>Capability_Tree\<close>: executions and delegations interleaved (\<open>tree_step\<close>); a child is paid for before it is registered, so that
  the effects under a capability and all its descendants stay within its budget. \<open>Capability_Issue\<close>: what minting hands out opens,
  a delegation narrows its parent, a reconciliation follows its evidence; and a run in which a child acts, for the witnesses.

  Authority. \<open>Authority_Allocation\<close> models \<open>gate/src/authority-allocation.ts\<close> (snapshot validation and the in-memory
  store); \<open>Authority_Conservation\<close> shows that reserved and committed budget stays within every branch and
  parent of the current snapshot and that reservations are settled once, by their owner.

  Canonical JSON. \<open>Canonical_Json\<close> and \<open>Execution_Binding\<close> model \<open>gate/src/execution-binding.ts\<close>: the walk that admits a
  value, the canonical text, which determines the value, and the field-by-field comparison of a signed
  target with the observed action. \<open>Strict_Json\<close> models the canonicalizer of \<open>strict-json.ts\<close> (the two packages have
  the same file) and shows that the two canonicalizers agree where both accept.

  Offline verification. \<open>Merkle_Consistency\<close> and \<open>Merkle_Properties\<close> (\<open>verify/src/consistency.ts\<close>): the verifier of append-only
  extension is complete and sound for the prover up to a collision that the proof exhibits.
  \<open>Consumption_Proof\<close> (\<open>verify/src/consumption-proof.ts\<close>): sparse Merkle proofs of one-time consumption, composed with it; an inserted
  nonce, or one on its 32-bit path, has no proof of absence any more (\<open>occupied_path_refused\<close>).
  \<open>Aec_Expression\<close> (\<open>verify/src/evidence-chain.ts\<close>): lexer, parser and evaluation of requirement expressions against their grammar.
  \<open>Decimal_Strings\<close> and \<open>Effect_Predicates\<close> (\<open>verify/src/effect-predicates.ts\<close>): exact decimals, and observed effects
  against predicted bounds, refining a specification over the rationals. \<open>Protocol_State\<close>
  (\<open>gate/src/protocol-state.ts\<close>): the handshake as a state machine. \<open>Quorum\<close> (\<open>verify/src/quorum.ts\<close>): the verification of a
  document of several approvers, check by check; the verifier of one signoff is a parameter. \<open>Quorum_Safety\<close> shows the
  separation of duties, \<open>Quorum_Chain\<close> what ordered, chained and hybrid quorums guarantee; \<open>Quorum_Sample\<close> has two documents for the witnesses.

  How the components interact. The executor of capabilities is a client of the store and of the guard contract;
  its theorems rest on the invariants of the store (\<open>accounts_inv\<close>, \<open>fence_inv\<close>) carried along \<open>sys_step\<close>. The guard and
  the effect predicates are clients of \<open>Strict_Json\<close>; the capability scope and the challenge store of
  \<open>Canonical_Json\<close>; the consumption proofs of the consistency verifier; both consumption stores of \<open>kv_backend\<close>. Each step relation
  with an invariant interprets \<open>store_invariant\<close>.

  How effects are modelled. State is passed explicitly. A thrown error is a value (the left of a sum, or \<open>Throw\<close>
  where the state that was written before the throw matters); a refusal is a value of the answer. JavaScript runs a function without
  interruption up to its next \<open>await\<close>; so a step of a run is what lies between two awaits. Maps keep their
  insertion order. Numbers are \<open>js_number\<close> (an exact integer, the text of a fraction, or not finite) until
  a check has made them safe integers; 32-bit operators are words of 32 bits (\<open>isPowerOfTwo\<close>).

  Parameters. SHA-256, Ed25519 verification, \<open>Date.parse\<close> where its accepted forms matter, random bytes and
  tokens, clocks, \<open>Number()\<close> of a text, \<open>localeCompare\<close>, and whatever a callback of the relying party answers. No property
  assumes that a digest is injective: where collisions matter, the conclusion names the two
  colliding texts, or the property is stated for a digest without a collision among the finitely many texts it names.

  Bounds and fuel. Loops are structural or have a measure: the walk over a JSON value (its nodes), the parser (the tokens left),
  the Merkle loops (the index), the extended Euclidean algorithm (the remainder), the phases of an execution (\<open>phase_rank\<close>). The sampling of field
  elements may run for ever and is a partial function; \<open>split_terminates\<close> says when it ends. The recursion limits
  of the code (depths, nodes, tokens, delegates) are its own and are part of the definitions.

  What the model showed. The power-of-two test on 32 bits is wrong beyond \<open>2^32\<close>
  (\<open>isPowerOfTwo_exact\<close>), a released operation whose amount stays reserved when the clock throws
  (\<open>stale_entry_strands_budget\<close>), consumption bundles that are accepted with the heads of any log, since nothing ties
  the sparse roots to them (\<open>emitted_bundle_accepted\<close>), and a roster slot that two objects with the same content fill as
  two approvers (\<open>object_approvers_count_twice\<close>).

  Not modelled. The PostgreSQL adapters (their atomicity is that of the SQL statements, which no kernel definition
  here could be faithful to); the post-quantum envelope of capabilities; the text gate of \<open>strict-json.ts\<close> (a scanner in front of \<open>JSON.parse\<close>); the evidence graph of
  \<open>evidence-chain.ts\<close> around its expressions; the larger composites of the gate (action escrow, consequence
  boundary, trust, receipt and remedy programs, break-glass), which orchestrate components like those above
  around signatures; the adapters of \<open>verify\<close> to foreign formats (WIMSE, COSE, SCITT, FIDO); the web
  application, the services and the SDKs. The manifest lists them with the reason for each.
\<close>

end
